(* ===== verification/M2M_Prelude.thy ===== *)
theory M2M_Prelude
  imports Complex_Main "HOL-Library.Word" "HOL-Library.Char_ord"
begin

text \<open>
  Shared vocabulary of the M2M development: the machine types of the C sources, the ways a C
  function can fail to return a value, the sequencing of such functions, and the generic lemmas on
  lists, folds and words that the component theories use.

  \<^item> \<open>u8\<close>, \<open>u32\<close> and \<open>u64\<close> are C's \<open>unsigned char\<close>, \<open>unsigned int\<close>/\<open>uint32_t\<close> and \<open>uint64_t\<close>.
    A C \<open>int\<close> or \<open>long\<close> that only counts, indexes or addresses is an \<^typ>\<open>int\<close>.
  \<^item> a C array that is global is a function from its index; every access whose index the code does
    not bound is guarded and gives \<open>Out_of_bounds\<close> outside the declared size.
  \<^item> a function that may exit the process, run over an array or not return gives a value of the
    sum type \<open>'a res\<close>.
\<close>

section \<open>Machine types\<close>

type_synonym u8 = "8 word"
type_synonym u32 = "32 word"
type_synonym u64 = "64 word"

text \<open>Collections for the equations and invariant facts a component exports to its clients.\<close>

named_theorems m2m_defs "definitions that component proofs unfold"
named_theorems m2m_inv "preservation facts of the component invariants"

section \<open>Failures and their sequencing\<close>

datatype c_error =
    Exit_process     \<comment> \<open>the code calls \<open>exit\<close>\<close>
  | Out_of_bounds    \<comment> \<open>an array access outside the array\<close>
  | Bad_copy         \<comment> \<open>a \<open>memcpy\<close> that leaves the source or destination object\<close>
  | Int_overflow     \<comment> \<open>signed arithmetic that leaves the type\<close>
  | Undefined        \<comment> \<open>any other undefined operation: uninitialised read, infinite value to integer\<close>
  | No_return        \<comment> \<open>the recursion or loop has not returned within the fuel given\<close>

type_synonym 'a res = "c_error + 'a"

definition bind_res :: "'a res \<Rightarrow> ('a \<Rightarrow> 'b res) \<Rightarrow> 'b res" where
  "bind_res m f = (case m of Inl e \<Rightarrow> Inl e | Inr x \<Rightarrow> f x)"

lemma bind_res_simps [simp]:
  "bind_res (Inl e) f = Inl e"
  "bind_res (Inr x) f = f x"
  by (simp_all add: bind_res_def)

lemma bind_res_Inr [simp]:
  "bind_res m f = Inr y \<longleftrightarrow> (\<exists>x. m = Inr x \<and> f x = Inr y)"
  by (cases m) simp_all

definition guard_res :: "bool \<Rightarrow> c_error \<Rightarrow> unit res" where
  "guard_res b e = (if b then Inr () else Inl e)"

lemma guard_res_Inr [simp]: "guard_res b e = Inr u \<longleftrightarrow> b"
  by (simp add: guard_res_def)

lemma bind_guard_True [simp]: "b \<Longrightarrow> bind_res (guard_res b e) f = f ()"
  by (simp add: guard_res_def)

lemma bind_guard_False [simp]: "\<not> b \<Longrightarrow> bind_res (guard_res b e) f = Inl e"
  by (simp add: guard_res_def)

text \<open>A loop over a list whose body may fail.\<close>

fun fold_res :: "('a \<Rightarrow> 's \<Rightarrow> 's res) \<Rightarrow> 'a list \<Rightarrow> 's \<Rightarrow> 's res" where
  "fold_res f [] s = Inr s"
| "fold_res f (x # xs) s = bind_res (f x s) (fold_res f xs)"

lemma fold_res_invariant:
  assumes "fold_res f xs s = Inr s'" and "I s"
    and "\<And>x s s'. x \<in> set xs \<Longrightarrow> I s \<Longrightarrow> f x s = Inr s' \<Longrightarrow> I s'"
  shows "I s'"
  using assms
proof (induction xs arbitrary: s)
  case Nil
  then show ?case by simp
next
  case (Cons x xs)
  from Cons.prems(1) obtain t where t: "f x s = Inr t" "fold_res f xs t = Inr s'"
    by auto
  have "I t" using Cons.prems(3)[of x s t] Cons.prems(2) t(1) by simp
  with t(2) show ?case
    using Cons.IH[of t] Cons.prems(3) by (meson list.set_intros(2))
qed

lemma fold_invariant_set:
  assumes "I s" and "\<And>x s. x \<in> set xs \<Longrightarrow> I s \<Longrightarrow> I (f x s)"
  shows "I (fold f xs s)"
  using assms by (induction xs arbitrary: s) auto

text \<open>A counting loop \<open>for (k = m; k <= n; k++)\<close> with an invariant that may mention the counter.\<close>

lemma fold_res_upto:
  assumes "fold_res f [m..n] s = Inr s'" and "m \<le> n + 1" and "I (m - 1) s"
    and "\<And>k s s'. m \<le> k \<Longrightarrow> k \<le> n \<Longrightarrow> I (k - 1) s \<Longrightarrow> f k s = Inr s' \<Longrightarrow> I k s'"
  shows "I n s'"
  using assms
proof (induction m n arbitrary: s rule: upto.induct)
  case (1 m n)
  show ?case
  proof (cases "m \<le> n")
    case True
    with "1.prems"(1) obtain t where t: "f m s = Inr t" "fold_res f [m + 1..n] t = Inr s'"
      by (auto simp: upto_rec1)
    have "I m t" using "1.prems"(4) [of m s t] "1.prems"(3) t(1) True by simp
    then show ?thesis using "1.IH" [OF True t(2)] "1.prems"(4) True by simp
  next
    case False
    then show ?thesis using "1.prems" by (cases "m = n + 1") auto
  qed
qed

lemma fold_res_upto_total:
  assumes "m \<le> n + 1" and "I (m - 1) s"
    and "\<And>k s. m \<le> k \<Longrightarrow> k \<le> n \<Longrightarrow> I (k - 1) s \<Longrightarrow> \<exists>s'. f k s = Inr s' \<and> I k s'"
  shows "\<exists>s'. fold_res f [m..n] s = Inr s' \<and> I n s'"
  using assms
proof (induction m n arbitrary: s rule: upto.induct)
  case (1 m n)
  show ?case
  proof (cases "m \<le> n")
    case True
    then obtain t where t: "f m s = Inr t" "I m t" using "1.prems"(2,3) by blast
    then show ?thesis using "1.IH" [OF True, of t] "1.prems"(3) True by (auto simp: upto_rec1)
  next
    case False
    then show ?thesis using "1.prems" by (cases "m = n + 1") auto
  qed
qed

end
