(* ===== verification/M2M_Types.thy ===== *)
theory M2M_Types
  imports M2M_Prelude
begin

text \<open>
  The shared data of the M2M network simulator: the constants, error codes and device record of
  \<^verbatim>\<open>m2m.h\<close>, the packet header and queue metadata of \<^verbatim>\<open>hw/m2m_route_processor.h\<close>, and the shared
  memory that the emulator processes attach, split by the type of the object stored at an address.
\<close>

section \<open>Constants of \<^verbatim>\<open>m2m.h\<close>\<close>

definition MAX_TIME :: u64 where "MAX_TIME = - 1"
definition ENV_CORE_NUM :: int where "ENV_CORE_NUM = 8"
definition MAX_NODE_NUM :: int where "MAX_NODE_NUM = 100"

datatype M2M_ERR_T =
    M2M_ERROR | M2M_SUCCESS | M2M_TRANS_NOT_READY | M2M_TRANS_FAIL | M2M_TRANS_SUCCESS
  | M2M_ERR_AFFINITY

fun err_code :: "M2M_ERR_T \<Rightarrow> int" where
  "err_code M2M_ERROR = 0"
| "err_code M2M_SUCCESS = 1"
| "err_code M2M_TRANS_NOT_READY = 8"
| "err_code M2M_TRANS_FAIL = 44"
| "err_code M2M_TRANS_SUCCESS = 77"
| "err_code M2M_ERR_AFFINITY = 78"

text \<open>Communication time parameters (bytes, slots and microseconds).\<close>

definition Percentage :: nat where "Percentage = 100"
definition ChannelBusyRateCSMA :: rat where "ChannelBusyRateCSMA = 0"
definition ChannelBusyRateTx :: rat where "ChannelBusyRateTx = 0"
definition minBE :: nat where "minBE = 2"
definition maxBE :: nat where "maxBE = 5"
definition MaxCSMABackoffs :: nat where "MaxCSMABackoffs = 4"
definition MaxFrameRetries :: nat where "MaxFrameRetries = 3"
definition AckWaitDuration :: u64 where "AckWaitDuration = 864"
definition AUnitBackoffPeriod :: u64 where "AUnitBackoffPeriod = 320"
definition CCADetectionTime :: u64 where "CCADetectionTime = 128"
definition HEADERSIZE :: u32 where "HEADERSIZE = 43"
definition DataRate :: u32 where "DataRate = 32"

lemmas m2m_const_defs =
  MAX_TIME_def ENV_CORE_NUM_def MAX_NODE_NUM_def Percentage_def ChannelBusyRateCSMA_def
  ChannelBusyRateTx_def minBE_def maxBE_def MaxCSMABackoffs_def MaxFrameRetries_def
  AckWaitDuration_def AUnitBackoffPeriod_def CCADetectionTime_def HEADERSIZE_def DataRate_def

section \<open>The virtual network device\<close>

text \<open>
  \<open>DeviceType\<close> is the three character array; the byte that follows it in the record is padding and
  is zero in the global, so \<open>strcmp\<close> reads the characters before the first NUL, or all three.
\<close>

record VND =
  DeviceID :: int
  DeviceType :: string
  TotalDeviceNum :: int
  Position :: "int \<Rightarrow> int"
  Neighbors :: "int \<Rightarrow> int"
  NeighborNum :: int
  Shared_memory_address :: int
  TotalTransTimes :: u64
  TotalTransSendEventTimes :: u64
  TotalTransRecvEventTimes :: u64
  TotalPacketLossTimes :: u64
  TotalPacketTransTimes :: u64

definition NUL :: char where "NUL = CHR 0x00"

definition cstr :: "string \<Rightarrow> string" where
  "cstr s = takeWhile (\<lambda>c. c \<noteq> NUL) s"

abbreviation is_ZC :: "VND \<Rightarrow> bool" where "is_ZC v \<equiv> cstr (DeviceType v) = ''ZC''"
abbreviation is_ZR :: "VND \<Rightarrow> bool" where "is_ZR v \<equiv> cstr (DeviceType v) = ''ZR''"
abbreviation is_ZED :: "VND \<Rightarrow> bool" where "is_ZED v \<equiv> cstr (DeviceType v) = ''ZED''"

section \<open>Packet header, queue metadata and control flags\<close>

record m2m_HQe =
  tag :: u32
  PacketSize :: u32
  SenderID :: int
  ReceiverID :: int
  ForwardID :: int
  EntryNum :: int
  SendTime :: u64
  TransTime :: u64

record m2m_HQ_meta =
  producer :: u32
  consumer :: u32

record m2m_HQ_cf =
  dataflag :: u32
  transtime :: u64

record m2m_DB_meta =
  db_dataflag :: u32
  db_transtime :: u64

section \<open>Shared memory\<close>

text \<open>
  A header queue entry is 128 bytes and receives either a packet header (\<open>memcpy\<close> of
  \<open>sizeof(m2m_HQe_t)\<close>) or the bytes of a packet. The other objects have one type each. The layout
  theorems of \<^verbatim>\<open>M2M_Layout\<close> show that objects of different types never share an address, which is
  what makes one map per type faithful.
\<close>

datatype hq_entry = Header m2m_HQe | Bytes "u8 list"

record shm =
  localtime :: "int \<Rightarrow> u64"
  hq_meta :: "int \<Rightarrow> m2m_HQ_meta"
  hq_ent :: "int \<Rightarrow> hq_entry"
  hq_cf :: "int \<Rightarrow> m2m_HQ_cf"
  db_meta :: "int \<Rightarrow> m2m_DB_meta"

section \<open>Sizes of \<^verbatim>\<open>hw/m2m_mm.h\<close>\<close>

definition DATA_BUFFER_ENTRY_SIZE :: int where "DATA_BUFFER_ENTRY_SIZE = 4096"
definition DATA_BUFFER_ENTRY_NUM :: int where "DATA_BUFFER_ENTRY_NUM = 4"
definition DATA_BUFFER_SIZE :: int where
  "DATA_BUFFER_SIZE = DATA_BUFFER_ENTRY_SIZE * DATA_BUFFER_ENTRY_NUM"
definition DATA_BUFFER_METADATA_ENTRY_SIZE :: int where "DATA_BUFFER_METADATA_ENTRY_SIZE = 4 + 8"
definition DATA_BUFFER_METADATA_SIZE :: int where
  "DATA_BUFFER_METADATA_SIZE = DATA_BUFFER_ENTRY_NUM * DATA_BUFFER_METADATA_ENTRY_SIZE"
definition TOTAL_DATA_BUFFER_SIZE :: int where
  "TOTAL_DATA_BUFFER_SIZE = DATA_BUFFER_SIZE + DATA_BUFFER_METADATA_SIZE"
definition NODE_MAX_LINKS :: int where "NODE_MAX_LINKS = 8"
definition HEADER_QUEUE_ENTRY_SIZE :: int where "HEADER_QUEUE_ENTRY_SIZE = 128"
definition HEADER_QUEUE_ENTRY_NUM :: int where "HEADER_QUEUE_ENTRY_NUM = 4"
definition HEADER_QUEUE_SIZE :: int where
  "HEADER_QUEUE_SIZE = HEADER_QUEUE_ENTRY_NUM * HEADER_QUEUE_ENTRY_SIZE"
definition HEADER_QUEUE_METADATA_SIZE :: int where "HEADER_QUEUE_METADATA_SIZE = 4 + 4 + 24"
definition TOTAL_HEADER_QUEUE_SIZE :: int where
  "TOTAL_HEADER_QUEUE_SIZE = HEADER_QUEUE_SIZE + HEADER_QUEUE_METADATA_SIZE"
definition HEADER_QUEUE_CONTRLFLAG :: int where "HEADER_QUEUE_CONTRLFLAG = 4 + 8"
definition END_DEVICE_SIZE :: int where
  "END_DEVICE_SIZE = TOTAL_DATA_BUFFER_SIZE + TOTAL_HEADER_QUEUE_SIZE + HEADER_QUEUE_CONTRLFLAG"
definition COORDINATOR_SIZE :: int where
  "COORDINATOR_SIZE = TOTAL_HEADER_QUEUE_SIZE * NODE_MAX_LINKS + END_DEVICE_SIZE +
     TOTAL_HEADER_QUEUE_SIZE"
definition ROUTER_SIZE :: int where "ROUTER_SIZE = NODE_MAX_LINKS * TOTAL_HEADER_QUEUE_SIZE"

lemmas mm_size_defs =
  DATA_BUFFER_ENTRY_SIZE_def DATA_BUFFER_ENTRY_NUM_def DATA_BUFFER_SIZE_def
  DATA_BUFFER_METADATA_ENTRY_SIZE_def DATA_BUFFER_METADATA_SIZE_def TOTAL_DATA_BUFFER_SIZE_def
  NODE_MAX_LINKS_def HEADER_QUEUE_ENTRY_SIZE_def HEADER_QUEUE_ENTRY_NUM_def HEADER_QUEUE_SIZE_def
  HEADER_QUEUE_METADATA_SIZE_def TOTAL_HEADER_QUEUE_SIZE_def HEADER_QUEUE_CONTRLFLAG_def
  END_DEVICE_SIZE_def COORDINATOR_SIZE_def ROUTER_SIZE_def

end
