(* ===== verification/M2M_Routing.thy ===== *)
theory M2M_Routing
  imports M2M_Types
begin

text \<open>
  Route discovery of \<^verbatim>\<open>hw/m2m_route_processor.c\<close>: Dijkstra's algorithm over the link map
  \<open>NODE_MAP\<close>, the recursive reconstruction of the path, and the next hop it yields. The theory
  proves that the distances are those of shortest walks, that the recursion returns, that the hop
  returned is a neighbour one link closer to the destination, and that forwarding hop by hop
  reaches it.
\<close>

section \<open>The code\<close>

definition GRAPHSIZE :: int where "GRAPHSIZE = MAX_NODE_NUM"
definition MAXSIZE :: int where "MAXSIZE = GRAPHSIZE * GRAPHSIZE"
definition TimingModel :: int where "TimingModel = 1"
definition ROUTE_PATH_LEN :: int where "ROUTE_PATH_LEN = 40"

text \<open>
  The globals of route discovery: \<open>d\<close>, \<open>prev\<close>, \<open>route_path\<close> and \<open>route_hops\<close>. The code stores the
  source of a path at index \<open>-1\<close> of \<open>route_path\<close>, the word before the array; the model keeps that
  word at index \<open>-1\<close> and every other index outside \<open>0..39\<close> is an error.
\<close>

record route_g =
  dist_d :: "int \<Rightarrow> int"
  prev_n :: "int \<Rightarrow> int"
  route_path :: "int \<Rightarrow> int"
  route_hops :: int

definition dijkstra_init :: "int \<Rightarrow> int \<Rightarrow> route_g \<Rightarrow> route_g" where
  "dijkstra_init n s g =
     (let g1 = fold (\<lambda>i g. g\<lparr>dist_d := (dist_d g)(i := MAXSIZE), prev_n := (prev_n g)(i := -1)\<rparr>)
                 [1..n] g
      in g1\<lparr>dist_d := (dist_d g1)(s := 0)\<rparr>)"

definition select_min :: "int \<Rightarrow> (int \<Rightarrow> bool) \<Rightarrow> (int \<Rightarrow> int) \<Rightarrow> int" where
  "select_min n visited d =
     fold (\<lambda>i mini. if \<not> visited i \<and> (mini = -1 \<or> d i < d mini) then i else mini) [1..n] (-1)"

definition relax1 :: "(int \<Rightarrow> int \<Rightarrow> int) \<Rightarrow> int \<Rightarrow> int \<Rightarrow> route_g \<Rightarrow> route_g" where
  "relax1 NODE_MAP mini i g =
     (if NODE_MAP mini i \<noteq> 0 \<and> dist_d g mini + NODE_MAP mini i < dist_d g i
      then g\<lparr>dist_d := (dist_d g)(i := dist_d g mini + NODE_MAP mini i),
             prev_n := (prev_n g)(i := mini)\<rparr>
      else g)"

definition dijkstra_iter ::
  "(int \<Rightarrow> int \<Rightarrow> int) \<Rightarrow> int \<Rightarrow> route_g \<times> (int \<Rightarrow> bool) \<Rightarrow> (route_g \<times> (int \<Rightarrow> bool)) res" where
  "dijkstra_iter NODE_MAP n st =
     (let (g, visited) = st; mini = select_min n visited (dist_d g)
      in if mini = -1 then Inl Out_of_bounds
         else Inr (fold (relax1 NODE_MAP mini) [1..n] g, visited(mini := True)))"

definition dijkstra :: "(int \<Rightarrow> int \<Rightarrow> int) \<Rightarrow> int \<Rightarrow> int \<Rightarrow> route_g \<Rightarrow> route_g res" where
  "dijkstra NODE_MAP n s g =
     bind_res (guard_res (n < GRAPHSIZE \<and> 0 \<le> s \<and> s < GRAPHSIZE) Out_of_bounds) (\<lambda>_.
     bind_res (fold_res (\<lambda>k. dijkstra_iter NODE_MAP n) [1..n] (dijkstra_init n s g, \<lambda>_. False))
       (\<lambda>(g, visited). Inr g))"

definition clearPath :: "route_g \<Rightarrow> route_g" where
  "clearPath g = g\<lparr>route_hops := -1\<rparr>"

fun routePath :: "nat \<Rightarrow> int \<Rightarrow> route_g \<Rightarrow> route_g res" where
  "routePath 0 dest g = Inl No_return"
| "routePath (Suc fuel) dest g =
     bind_res (guard_res (0 \<le> dest \<and> dest < GRAPHSIZE) Out_of_bounds) (\<lambda>_.
     bind_res (if prev_n g dest \<noteq> -1 then routePath fuel (prev_n g dest) g else Inr g) (\<lambda>g.
     bind_res (guard_res (-1 \<le> route_hops g \<and> route_hops g < ROUTE_PATH_LEN) Out_of_bounds) (\<lambda>_.
       Inr (g\<lparr>route_path := (route_path g)(route_hops g := dest),
              route_hops := route_hops g + 1\<rparr>))))"

definition route_discovery ::
  "nat \<Rightarrow> (int \<Rightarrow> int \<Rightarrow> int) \<Rightarrow> int \<Rightarrow> int \<Rightarrow> int \<Rightarrow> route_g \<Rightarrow> (int \<times> route_g) res" where
  "route_discovery fuel NODE_MAP n start end g =
     bind_res (dijkstra NODE_MAP n start g) (\<lambda>g.
     bind_res (routePath fuel end (clearPath g)) (\<lambda>g.
       if TimingModel = 0 then Inr (route_path g (route_hops g - 1), g)
       else Inr (route_path g 0, g)))"

lemmas route_const_defs = GRAPHSIZE_def MAXSIZE_def TimingModel_def ROUTE_PATH_LEN_def MAX_NODE_NUM_def

section \<open>Walks: what a route is\<close>

inductive walk :: "(int \<Rightarrow> int \<Rightarrow> int) \<Rightarrow> int \<Rightarrow> int \<Rightarrow> int \<Rightarrow> int \<Rightarrow> bool"
  for NM :: "int \<Rightarrow> int \<Rightarrow> int" and n u :: int where
  walk_refl: "u \<in> {1..n} \<Longrightarrow> walk NM n u u 0"
| walk_snoc: "walk NM n u w c \<Longrightarrow> v \<in> {1..n} \<Longrightarrow> NM w v \<noteq> 0 \<Longrightarrow> walk NM n u v (c + NM w v)"

lemma walk_nodes: "walk NM n u v c \<Longrightarrow> u \<in> {1..n} \<and> v \<in> {1..n}"
  by (induction rule: walk.induct) auto

lemma walk_trans:
  assumes "walk NM n w v c'" and "walk NM n u w c"
  shows "walk NM n u v (c + c')"
  using assms
proof (induction rule: walk.induct)
  case (walk_snoc x c' v)
  then have "walk NM n u v ((c + c') + NM x v)"
    by (intro walk.walk_snoc) auto
  then show ?case by (simp add: add.assoc)
qed simp

lemma walk_edge: "u \<in> {1..n} \<Longrightarrow> v \<in> {1..n} \<Longrightarrow> NM u v \<noteq> 0 \<Longrightarrow> walk NM n u v (NM u v)"
  using walk_snoc [OF walk_refl] by fastforce

definition shortest :: "(int \<Rightarrow> int \<Rightarrow> int) \<Rightarrow> int \<Rightarrow> int \<Rightarrow> int \<Rightarrow> int \<Rightarrow> bool" where
  "shortest NM n u v c \<longleftrightarrow> walk NM n u v c \<and> (\<forall>c'. walk NM n u v c' \<longrightarrow> c \<le> c')"

section \<open>Selecting the nearest node and relaxing its links\<close>

lemma select_min_fold:
  fixes d :: "int \<Rightarrow> int"
  assumes "\<forall>x \<in> set xs. x \<noteq> (-1 :: int)" and "m \<noteq> -1 \<longrightarrow> \<not> vis m"
    and "fold (\<lambda>i mini. if \<not> vis i \<and> (mini = -1 \<or> d i < d mini) then i else mini) xs m = r"
  shows "(r = -1 \<and> m = -1 \<and> (\<forall>x \<in> set xs. vis x)) \<or>
         (r \<noteq> -1 \<and> \<not> vis r \<and> (r = m \<or> r \<in> set xs) \<and>
          (m \<noteq> -1 \<longrightarrow> d r \<le> d m) \<and> (\<forall>x \<in> set xs. \<not> vis x \<longrightarrow> d r \<le> d x))"
  using assms
proof (induction xs arbitrary: m)
  case Nil
  then show ?case by auto
next
  case (Cons y ys)
  define m' where "m' = (if \<not> vis y \<and> (m = -1 \<or> d y < d m) then y else m)"
  have "m' \<noteq> -1 \<longrightarrow> \<not> vis m'" using Cons.prems by (auto simp: m'_def)
  with Cons.IH [of m'] Cons.prems show ?case
    by (auto simp: m'_def split: if_splits)
qed

lemma select_min_spec:
  assumes "select_min n vis d = m"
  shows "(m = -1 \<and> (\<forall>x \<in> {1..n}. vis x)) \<or>
         (m \<in> {1..n} \<and> \<not> vis m \<and> (\<forall>x \<in> {1..n}. \<not> vis x \<longrightarrow> d m \<le> d x))"
  using select_min_fold [of "[1..n]" "-1" vis d] assms
  by (auto simp: select_min_def)

lemma relax1_dist:
  "dist_d (relax1 NM m x g) i =
     (if i = x \<and> NM m i \<noteq> 0 \<and> dist_d g m + NM m i < dist_d g i
      then dist_d g m + NM m i else dist_d g i)"
  "prev_n (relax1 NM m x g) i =
     (if i = x \<and> NM m i \<noteq> 0 \<and> dist_d g m + NM m i < dist_d g i then m else prev_n g i)"
  by (auto simp: relax1_def)

lemma relax_fold:
  assumes "distinct xs" and "\<And>i. 0 \<le> NM m i"
  shows "dist_d (fold (relax1 NM m) xs g) i =
           (if i \<in> set xs \<and> NM m i \<noteq> 0 \<and> dist_d g m + NM m i < dist_d g i
            then dist_d g m + NM m i else dist_d g i)"
    and "prev_n (fold (relax1 NM m) xs g) i =
           (if i \<in> set xs \<and> NM m i \<noteq> 0 \<and> dist_d g m + NM m i < dist_d g i
            then m else prev_n g i)"
proof -
  have m: "dist_d (relax1 NM m x g) m = dist_d g m" for x g
    using assms(2)[of m] by (auto simp: relax1_dist)
  have "dist_d (fold (relax1 NM m) xs g) i =
           (if i \<in> set xs \<and> NM m i \<noteq> 0 \<and> dist_d g m + NM m i < dist_d g i
            then dist_d g m + NM m i else dist_d g i) \<and>
         prev_n (fold (relax1 NM m) xs g) i =
           (if i \<in> set xs \<and> NM m i \<noteq> 0 \<and> dist_d g m + NM m i < dist_d g i
            then m else prev_n g i)"
    using assms(1)
  proof (induction xs arbitrary: g)
    case (Cons x xs)
    then have IH: "dist_d (fold (relax1 NM m) (x # xs) g) i =
           (if i \<in> set xs \<and> NM m i \<noteq> 0 \<and> dist_d g m + NM m i < dist_d (relax1 NM m x g) i
            then dist_d g m + NM m i else dist_d (relax1 NM m x g) i)"
         "prev_n (fold (relax1 NM m) (x # xs) g) i =
           (if i \<in> set xs \<and> NM m i \<noteq> 0 \<and> dist_d g m + NM m i < dist_d (relax1 NM m x g) i
            then m else prev_n (relax1 NM m x g) i)"
      using Cons.IH [of "relax1 NM m x g"] by (simp_all add: m)
    show ?case
      using Cons.prems unfolding IH by (cases "i = x") (simp_all add: relax1_dist)
  qed simp
  then show "dist_d (fold (relax1 NM m) xs g) i =
           (if i \<in> set xs \<and> NM m i \<noteq> 0 \<and> dist_d g m + NM m i < dist_d g i
            then dist_d g m + NM m i else dist_d g i)"
    and "prev_n (fold (relax1 NM m) xs g) i =
           (if i \<in> set xs \<and> NM m i \<noteq> 0 \<and> dist_d g m + NM m i < dist_d g i
            then m else prev_n g i)"
    by blast+
qed

lemma relax_path [simp]:
  "route_path (fold (relax1 NM m) xs g) = route_path g"
  "route_hops (fold (relax1 NM m) xs g) = route_hops g"
  by (induction xs arbitrary: g) (auto simp: relax1_def)

section \<open>The invariant of the main loop\<close>

text \<open>\<open>V\<close> is the set of visited nodes.\<close>

definition dj_inv :: "(int \<Rightarrow> int \<Rightarrow> int) \<Rightarrow> int \<Rightarrow> int \<Rightarrow> int set \<Rightarrow> route_g \<Rightarrow> bool" where
  "dj_inv NM n s V g \<longleftrightarrow>
     V \<subseteq> {1..n} \<and> dist_d g s = 0 \<and> prev_n g s = -1 \<and>
     (\<forall>i \<in> {1..n}. 0 \<le> dist_d g i \<and> dist_d g i \<le> MAXSIZE) \<and>
     (\<forall>i \<in> {1..n} - {s}.
        (dist_d g i = MAXSIZE \<and> prev_n g i = -1) \<or>
        (dist_d g i < MAXSIZE \<and> prev_n g i \<in> V \<and> NM (prev_n g i) i \<noteq> 0 \<and>
         dist_d g i = dist_d g (prev_n g i) + NM (prev_n g i) i)) \<and>
     (\<forall>u \<in> V. \<forall>i \<in> {1..n}. NM u i \<noteq> 0 \<longrightarrow> dist_d g i \<le> dist_d g u + NM u i) \<and>
     (\<forall>u \<in> V. \<forall>v \<in> {1..n} - V. dist_d g u \<le> dist_d g v)"

lemma dj_invD:
  assumes "dj_inv NM n s V g"
  shows "V \<subseteq> {1..n}" "dist_d g s = 0" "prev_n g s = -1"
    "\<And>i. i \<in> {1..n} \<Longrightarrow> 0 \<le> dist_d g i" "\<And>i. i \<in> {1..n} \<Longrightarrow> dist_d g i \<le> MAXSIZE"
    "\<And>i. i \<in> {1..n} \<Longrightarrow> i \<noteq> s \<Longrightarrow> dist_d g i < MAXSIZE \<Longrightarrow>
       prev_n g i \<in> V \<and> NM (prev_n g i) i \<noteq> 0 \<and> dist_d g i = dist_d g (prev_n g i) + NM (prev_n g i) i"
    "\<And>i. i \<in> {1..n} \<Longrightarrow> i \<noteq> s \<Longrightarrow> \<not> dist_d g i < MAXSIZE \<Longrightarrow>
       dist_d g i = MAXSIZE \<and> prev_n g i = -1"
    "\<And>u i. u \<in> V \<Longrightarrow> i \<in> {1..n} \<Longrightarrow> NM u i \<noteq> 0 \<Longrightarrow> dist_d g i \<le> dist_d g u + NM u i"
    "\<And>u v. u \<in> V \<Longrightarrow> v \<in> {1..n} - V \<Longrightarrow> dist_d g u \<le> dist_d g v"
proof -
  have prev: "\<forall>i \<in> {1..n} - {s}.
        (dist_d g i = MAXSIZE \<and> prev_n g i = -1) \<or>
        (dist_d g i < MAXSIZE \<and> prev_n g i \<in> V \<and> NM (prev_n g i) i \<noteq> 0 \<and>
         dist_d g i = dist_d g (prev_n g i) + NM (prev_n g i) i)"
    using assms unfolding dj_inv_def by blast
  show "\<And>i. i \<in> {1..n} \<Longrightarrow> i \<noteq> s \<Longrightarrow> dist_d g i < MAXSIZE \<Longrightarrow>
       prev_n g i \<in> V \<and> NM (prev_n g i) i \<noteq> 0 \<and> dist_d g i = dist_d g (prev_n g i) + NM (prev_n g i) i"
    "\<And>i. i \<in> {1..n} \<Longrightarrow> i \<noteq> s \<Longrightarrow> \<not> dist_d g i < MAXSIZE \<Longrightarrow>
       dist_d g i = MAXSIZE \<and> prev_n g i = -1"
    by (metis Diff_iff less_irrefl prev singletonD)+
qed (use assms in \<open>unfold dj_inv_def, blast+\<close>)

lemma MAXSIZE_eq [simp]: "MAXSIZE = 10000"
  by (simp add: route_const_defs)

lemma dijkstra_init_simps [simp]:
  "dist_d (dijkstra_init n s g) i =
     (if i = s then 0 else if i \<in> {1..n} then MAXSIZE else dist_d g i)"
  "prev_n (dijkstra_init n s g) i = (if i \<in> {1..n} then -1 else prev_n g i)"
  "route_path (dijkstra_init n s g) = route_path g"
proof -
  let ?f = "\<lambda>i g. g\<lparr>dist_d := (dist_d g)(i := MAXSIZE), prev_n := (prev_n g)(i := -1)\<rparr>"
  have *: "dist_d (fold ?f xs g) i = (if i \<in> set xs then MAXSIZE else dist_d g i) \<and>
           prev_n (fold ?f xs g) i = (if i \<in> set xs then -1 else prev_n g i) \<and>
           route_path (fold ?f xs g) = route_path g" for xs
    by (induction xs arbitrary: g) auto
  show "dist_d (dijkstra_init n s g) i =
     (if i = s then 0 else if i \<in> {1..n} then MAXSIZE else dist_d g i)"
    "prev_n (dijkstra_init n s g) i = (if i \<in> {1..n} then -1 else prev_n g i)"
    "route_path (dijkstra_init n s g) = route_path g"
    using * [of "[1..n]"] by (simp_all add: dijkstra_init_def Let_def)
qed

lemma dj_inv_init: "s \<in> {1..n} \<Longrightarrow> dj_inv NM n s {} (dijkstra_init n s g)"
  by (auto simp: dj_inv_def)

text \<open>Relaxing the links of the nearest unvisited node \<open>m\<close>.\<close>

lemma dj_inv_relax:
  assumes inv: "dj_inv NM n s V g" and nn: "\<And>u v. 0 \<le> NM u v"
    and m: "m \<in> {1..n} - V" and min: "\<And>x. x \<in> {1..n} - V \<Longrightarrow> dist_d g m \<le> dist_d g x"
    and s: "s \<in> {1..n}"
  shows "dj_inv NM n s (insert m V) (fold (relax1 NM m) [1..n] g)"
proof -
  let ?g = "fold (relax1 NM m) [1..n] g"
  note I = dj_invD [OF inv]
  have D: "dist_d ?g i = (if i \<in> {1..n} \<and> NM m i \<noteq> 0 \<and> dist_d g m + NM m i < dist_d g i
            then dist_d g m + NM m i else dist_d g i)"
    and P: "prev_n ?g i = (if i \<in> {1..n} \<and> NM m i \<noteq> 0 \<and> dist_d g m + NM m i < dist_d g i
            then m else prev_n g i)" for i
    using relax_fold [of "[1..n]" NM m g i] nn by auto
  have old: "\<not> dist_d g m + NM m u < dist_d g u" if "u \<in> insert m V" for u
    using that I(9) [of u m] m nn [of m u] by auto
  have old_D: "dist_d ?g u = dist_d g u" if "u \<in> insert m V" for u
    using old [OF that] D [of u] by simp
  have "0 \<le> dist_d g m" using I(4) m by blast
  then have s_old: "\<not> dist_d g m + NM m s < dist_d g s" using I(2) nn [of m s] by simp
  have le: "dist_d ?g i \<le> dist_d g i" for i using D [of i] by auto
  show ?thesis unfolding dj_inv_def
  proof (intro conjI ballI impI)
    show "insert m V \<subseteq> {1..n}" using I(1) m by blast
    show "dist_d ?g s = 0" "prev_n ?g s = -1" using s_old D [of s] P [of s] I(2,3) by auto
  next
    fix i assume i: "i \<in> {1..n}"
    show "0 \<le> dist_d ?g i" using D [of i] I(4) [OF i] \<open>0 \<le> dist_d g m\<close> nn [of m i] by auto
    show "dist_d ?g i \<le> MAXSIZE" using le [of i] I(5) [OF i] by linarith
  next
    fix i assume i: "i \<in> {1..n} - {s}"
    show "(dist_d ?g i = MAXSIZE \<and> prev_n ?g i = -1) \<or>
        (dist_d ?g i < MAXSIZE \<and> prev_n ?g i \<in> insert m V \<and> NM (prev_n ?g i) i \<noteq> 0 \<and>
         dist_d ?g i = dist_d ?g (prev_n ?g i) + NM (prev_n ?g i) i)"
    proof (cases "NM m i \<noteq> 0 \<and> dist_d g m + NM m i < dist_d g i")
      case True
      then show ?thesis using i D [of i] P [of i] I(5) [of i] old_D [of m] by auto
    next
      case False
      then have eq: "dist_d ?g i = dist_d g i" "prev_n ?g i = prev_n g i"
        using D [of i] P [of i] by auto
      show ?thesis
        using i I(6,7) [of i] old_D [of "prev_n g i"] unfolding eq
        by (cases "dist_d g i < MAXSIZE") auto
    qed
  next
    fix u i assume u: "u \<in> insert m V" and i: "i \<in> {1..n}" and e: "NM u i \<noteq> 0"
    show "dist_d ?g i \<le> dist_d ?g u + NM u i"
      using old_D [OF u] I(8) [of u i] u i e D [of i] le [of i] by (cases "u = m") auto
  next
    fix u v assume u: "u \<in> insert m V" and v: "v \<in> {1..n} - insert m V"
    have "dist_d g u \<le> dist_d g m" using u I(9) m by blast
    moreover have "dist_d g m \<le> dist_d g v" using min v by blast
    ultimately show "dist_d ?g u \<le> dist_d ?g v"
      using old_D [OF u] D [of v] nn [of m v] by auto
  qed
qed

text \<open>The loop runs \<open>n\<close> times; after \<open>k\<close> rounds \<open>k\<close> nodes are visited, so a node is always found.\<close>

lemma dijkstra_loop:
  assumes nn: "\<And>u v. 0 \<le> NM u v" and s: "s \<in> {1..n}"
    and "dj_inv NM n s V g" and "V = {i \<in> {1..n}. vis i}" and "card V + length ks = nat n"
  shows "\<exists>g' vis'. fold_res (\<lambda>k. dijkstra_iter NM n) ks (g, vis) = Inr (g', vis') \<and>
           dj_inv NM n s {1..n} g' \<and> route_path g' = route_path g"
  using assms(3-)
proof (induction ks arbitrary: V g vis)
  case Nil
  then have "V \<subseteq> {1..n}" "card V = card {1..n}" by auto
  then have "V = {1..n}" by (intro card_subset_eq) auto
  with Nil show ?case by auto
next
  case (Cons k ks)
  let ?m = "select_min n vis (dist_d g)"
  have sub: "V \<subseteq> {1..n}" using Cons.prems(2) by blast
  then have fin: "finite V" by (rule finite_subset) simp
  have "V \<noteq> {1..n}" using Cons.prems(3) by auto
  then have m: "?m \<in> {1..n}" "\<not> vis ?m" and
    min: "\<And>x. x \<in> {1..n} - V \<Longrightarrow> dist_d g ?m \<le> dist_d g x"
    using select_min_spec [of n vis "dist_d g" ?m] Cons.prems(2) by auto
  have "?m \<in> {1..n} - V" using m Cons.prems(2) by blast
  then have inv: "dj_inv NM n s (insert ?m V) (fold (relax1 NM ?m) [1..n] g)"
    by (rule dj_inv_relax [OF Cons.prems(1) nn _ min s])
  have step: "dijkstra_iter NM n (g, vis) =
      Inr (fold (relax1 NM ?m) [1..n] g, vis(?m := True))"
    using m by (auto simp: dijkstra_iter_def Let_def)
  have "insert ?m V = {i \<in> {1..n}. (vis(?m := True)) i}"
    using m Cons.prems(2) by auto
  moreover have "card (insert ?m V) + length ks = nat n"
    using Cons.prems(2,3) m fin by simp
  ultimately show ?case
    using Cons.IH [OF inv] unfolding fold_res.simps step bind_res_simps relax_path by blast
qed

lemma dijkstra_inv:
  assumes "\<And>u v. 0 \<le> NM u v" and "s \<in> {1..n}" and "n < GRAPHSIZE"
  shows "\<exists>g'. dijkstra NM n s g = Inr g' \<and> dj_inv NM n s {1..n} g' \<and> route_path g' = route_path g"
proof -
  obtain g' vis' where "fold_res (\<lambda>k. dijkstra_iter NM n) [1..n] (dijkstra_init n s g, \<lambda>_. False)
        = Inr (g', vis')" "dj_inv NM n s {1..n} g'" "route_path g' = route_path g"
    using dijkstra_loop [of NM s n "{}" "dijkstra_init n s g" "\<lambda>_. False" "[1..n]"]
      dj_inv_init [OF assms(2)] assms(1,2) by auto
  then show ?thesis using assms(2,3) by (simp add: dijkstra_def)
qed

lemma dijkstra_prev_outside:
  assumes "dijkstra NM n s g = Inr g'" and "i \<notin> {1..n}" and nn: "\<And>u v. 0 \<le> NM u v"
  shows "prev_n g' i = prev_n g i"
proof -
  obtain vis where "fold_res (\<lambda>k. dijkstra_iter NM n) [1..n] (dijkstra_init n s g, \<lambda>_. False)
      = Inr (g', vis)"
    using assms(1) by (auto simp: dijkstra_def)
  then have "prev_n (fst (g', vis)) i = prev_n g i"
  proof (rule fold_res_invariant [where I = "\<lambda>st. prev_n (fst st) i = prev_n g i"])
    fix k st st' assume "prev_n (fst st) i = prev_n g i" "dijkstra_iter NM n st = Inr st'"
    then show "prev_n (fst st') i = prev_n g i"
      using assms(2) nn by (auto simp: dijkstra_iter_def Let_def relax_fold(2) split: prod.splits if_splits)
  qed (use assms(2) in auto)
  then show ?thesis by simp
qed

section \<open>Distances are those of shortest walks\<close>

lemma dj_final_le:
  assumes "dj_inv NM n s {1..n} g" and "walk NM n s v c"
  shows "dist_d g v \<le> c"
  using assms(2)
proof (induction rule: walk.induct)
  case (walk_snoc w c v)
  then show ?case using dj_invD(8) [OF assms(1), of w v] walk_nodes by fastforce
qed (use assms(1) in \<open>simp add: dj_inv_def\<close>)

lemma dj_final_walk:
  assumes inv: "dj_inv NM n s {1..n} g" and nn: "\<And>u v. 0 \<le> NM u v" and s: "s \<in> {1..n}"
  shows "v \<in> {1..n} \<Longrightarrow> dist_d g v < MAXSIZE \<Longrightarrow> walk NM n s v (dist_d g v)"
proof (induction "nat (dist_d g v)" arbitrary: v rule: less_induct)
  case less
  note I = dj_invD [OF inv]
  show ?case
  proof (cases "v = s")
    case False
    let ?p = "prev_n g v"
    have p: "?p \<in> {1..n}" "NM ?p v \<noteq> 0" "dist_d g v = dist_d g ?p + NM ?p v"
      using I(6) [of v] less.prems False by blast+
    then have "dist_d g ?p < dist_d g v" using nn [of ?p v] by linarith
    then have "walk NM n s ?p (dist_d g ?p)"
      using less.hyps [of ?p] less.prems p(1) I(4) [of ?p] by auto
    then show ?thesis using p less.prems walk_snoc by metis
  qed (use s I(2) walk_refl in auto)
qed

text \<open>With unit links every distance below \<open>d u\<close> occurs, so finite distances are below \<open>n\<close>.\<close>

lemma dj_unit_attained:
  assumes inv: "dj_inv NM n s {1..n} g" and unit: "\<And>u v. NM u v \<in> {0, 1}" and s: "s \<in> {1..n}"
  shows "u \<in> {1..n} \<Longrightarrow> dist_d g u < MAXSIZE \<Longrightarrow> 0 \<le> k \<Longrightarrow> k \<le> dist_d g u \<Longrightarrow>
         k \<in> dist_d g ` {1..n}"
proof (induction "nat (dist_d g u)" arbitrary: u rule: less_induct)
  case less
  note I = dj_invD [OF inv]
  show ?case
  proof (cases "k = dist_d g u")
    case False
    then have "u \<noteq> s" using less.prems I(2) by auto
    then have p: "prev_n g u \<in> {1..n}" "dist_d g u = dist_d g (prev_n g u) + 1"
      using I(6) [of u] less.prems unit [of "prev_n g u" u] by auto
    then show ?thesis
      using less.hyps [of "prev_n g u"] less.prems False I(4) [of "prev_n g u"] by auto
  qed (use less.prems in blast)
qed

lemma dj_unit_bound:
  assumes "dj_inv NM n s {1..n} g" and "\<And>u v. NM u v \<in> {0, 1}" and "s \<in> {1..n}"
    and "u \<in> {1..n}" and "dist_d g u < MAXSIZE"
  shows "dist_d g u < n"
proof -
  have "{0..dist_d g u} \<subseteq> dist_d g ` {1..n}"
    using dj_unit_attained [OF assms] by auto
  then have "card {0..dist_d g u} \<le> card {1..n}"
    by (meson card_image_le card_mono finite_atLeastAtMost_int finite_imageI le_trans)
  then show ?thesis using assms(3) by (auto simp: nat_le_iff)
qed

lemma dj_unit_reachable:
  assumes inv: "dj_inv NM n s {1..n} g" and unit: "\<And>u v. NM u v \<in> {0, 1}" and n: "n < GRAPHSIZE"
    and "walk NM n s v c"
  shows "dist_d g v < MAXSIZE"
  using assms(4)
proof (induction rule: walk.induct)
  case (walk_snoc w c v)
  then have w: "w \<in> {1..n}" "s \<in> {1..n}" using walk_nodes by blast+
  have "dist_d g w < n" using dj_unit_bound [OF inv unit w(2,1)] walk_snoc by blast
  moreover have "NM w v = 1" using unit [of w v] walk_snoc by auto
  ultimately show ?case
    using dj_invD(8) [OF inv, of w v] walk_snoc w n by (auto simp: route_const_defs)
qed (use inv in \<open>simp add: dj_inv_def\<close>)

section \<open>The path and the next hop\<close>

text \<open>\<open>p\<close> holds, from index \<open>-1\<close>, the nodes of a walk of \<open>c\<close> links from \<open>s\<close> to \<open>v\<close>.\<close>

definition path_ok :: "(int \<Rightarrow> int \<Rightarrow> int) \<Rightarrow> int \<Rightarrow> int \<Rightarrow> int \<Rightarrow> int \<Rightarrow> (int \<Rightarrow> int) \<Rightarrow> bool" where
  "path_ok NM n s v c p \<longleftrightarrow> p (-1) = s \<and> p (c - 1) = v \<and>
     (\<forall>i \<in> {0..<c}. p i \<in> {1..n} \<and> NM (p (i - 1)) (p i) \<noteq> 0)"

lemma path_ok_snoc:
  assumes "path_ok NM n s w c p" and "v \<in> {1..n}" and "NM w v \<noteq> 0" and "0 \<le> c"
  shows "path_ok NM n s v (c + 1) (p(c := v))"
proof -
  have "(p(c := v)) i \<in> {1..n} \<and> NM ((p(c := v)) (i - 1)) ((p(c := v)) i) \<noteq> 0"
    if "i \<in> {0..<c + 1}" for i
    using that assms by (cases "i = c") (auto simp: path_ok_def)
  then show ?thesis using assms by (simp add: path_ok_def)
qed

lemma path_ok_walk:
  assumes "path_ok NM n s v c p" and unit: "\<And>u v. NM u v \<in> {0, 1}" and "1 \<le> c"
  shows "walk NM n (p 0) v (c - 1)"
proof -
  have "walk NM n (p 0) (p (int k)) (int k)" if "int k < c" for k
    using that
  proof (induction k)
    case 0
    then show ?case using assms walk_refl [of "p 0" n NM] by (auto simp: path_ok_def)
  next
    case (Suc k)
    then have "int (Suc k) \<in> {0..<c}" by simp
    then have "p (int (Suc k)) \<in> {1..n} \<and> NM (p (int (Suc k) - 1)) (p (int (Suc k))) \<noteq> 0"
      using assms(1) unfolding path_ok_def by blast
    then have "p (int (Suc k)) \<in> {1..n}" "NM (p (int k)) (p (int (Suc k))) = 1"
      using unit [of "p (int k)" "p (int (Suc k))"] by auto
    then show ?case
      using walk_snoc [of NM n "p 0" "p (int k)" "int k" "p (int (Suc k))"] Suc by (simp add: add.commute)
  qed
  from this [of "nat (c - 1)"] assms show ?thesis by (simp add: path_ok_def)
qed

lemma routePath_ok:
  assumes inv: "dj_inv NM n s {1..n} g" and unit: "\<And>u v. NM u v \<in> {0, 1}" and s: "s \<in> {1..n}"
    and n: "n < GRAPHSIZE" and g: "route_hops g = -1"
  shows "v \<in> {1..n} \<Longrightarrow> dist_d g v < MAXSIZE \<Longrightarrow> dist_d g v \<le> ROUTE_PATH_LEN \<Longrightarrow>
         dist_d g v < int fuel \<Longrightarrow>
         \<exists>p. routePath fuel v g = Inr (g\<lparr>route_path := p, route_hops := dist_d g v\<rparr>) \<and>
             path_ok NM n s v (dist_d g v) p"
proof (induction fuel arbitrary: v)
  case 0
  then show ?case using dj_invD(4) [OF inv, of v] by simp
next
  case (Suc fuel)
  note I = dj_invD [OF inv]
  have v: "0 \<le> v \<and> v < GRAPHSIZE" using Suc.prems(1) n by auto
  show ?case
  proof (cases "v = s")
    case True
    then have "routePath (Suc fuel) v g =
        Inr (g\<lparr>route_path := (route_path g)(-1 := s), route_hops := 0\<rparr>)"
      using v g I(3) by (simp add: ROUTE_PATH_LEN_def)
    then show ?thesis using True I(2) by (auto simp: path_ok_def)
  next
    case False
    let ?w = "prev_n g v"
    have w: "?w \<in> {1..n}" "NM ?w v \<noteq> 0" "dist_d g v = dist_d g ?w + 1"
      using I(6) [of v] Suc.prems False unit [of ?w v] by auto
    then obtain p where p: "routePath fuel ?w g = Inr (g\<lparr>route_path := p, route_hops := dist_d g ?w\<rparr>)"
      "path_ok NM n s ?w (dist_d g ?w) p"
      using Suc.IH [of ?w] Suc.prems by auto
    have "0 \<le> dist_d g ?w" using I(4) w by blast
    moreover have "?w \<noteq> -1" using w(1) by auto
    ultimately have "routePath (Suc fuel) v g =
        Inr (g\<lparr>route_path := p(dist_d g ?w := v), route_hops := dist_d g v\<rparr>)"
      using v p(1) w(3) Suc.prems(3) by (simp add: ROUTE_PATH_LEN_def)
    then show ?thesis using path_ok_snoc [OF p(2) Suc.prems(1) w(2)] w(3) \<open>0 \<le> dist_d g ?w\<close> by auto
  qed
qed

lemma routePath_root:
  assumes "prev_n g v = -1" and "0 \<le> v" and "v < GRAPHSIZE" and "route_hops g = -1"
  shows "routePath (Suc fuel) v g =
           Inr (g\<lparr>route_path := (route_path g)(-1 := v), route_hops := 0\<rparr>)"
  using assms by (simp add: ROUTE_PATH_LEN_def)

lemma dj_inv_clearPath [simp]:
  "dj_inv NM n s V (clearPath g) = dj_inv NM n s V g" "route_hops (clearPath g) = -1"
  "dist_d (clearPath g) = dist_d g" "prev_n (clearPath g) = prev_n g"
  "route_path (clearPath g) = route_path g"
  by (simp_all add: dj_inv_def clearPath_def)

lemma shortest_nonneg:
  assumes "\<And>u v. 0 \<le> NM u v" and "walk NM n u v c"
  shows "0 \<le> c"
  using assms(2) by (induction rule: walk.induct) (auto simp: assms(1) add_nonneg_nonneg)

lemma shortest_zero:
  assumes nn: "\<And>u v. 0 \<le> NM u v" and "shortest NM n u v c"
  shows "c = 0 \<longleftrightarrow> u = v"
proof -
  have w: "walk NM n u v c" using assms(2) by (simp add: shortest_def)
  then have "u \<noteq> v \<longrightarrow> 0 < c"
  proof (cases rule: walk.cases)
    case (walk_snoc w c')
    then show ?thesis using shortest_nonneg [of NM, OF nn walk_snoc(2)] nn [of w v] by linarith
  qed simp
  moreover have "c \<le> 0" if "u = v"
    using that assms(2) walk_refl [of u n NM] walk_nodes [OF w] by (auto simp: shortest_def)
  ultimately show ?thesis using shortest_nonneg [of NM, OF nn w] by auto
qed

lemma shortest_unique: "shortest NM n u v c \<Longrightarrow> shortest NM n u v c' \<Longrightarrow> c = c'"
  by (meson antisym shortest_def)

lemma dijkstra_shortest:
  assumes inv: "dj_inv NM n s {1..n} g" and unit: "\<And>u v. NM u v \<in> {0, 1}" and n: "n < GRAPHSIZE"
    and "shortest NM n s v c"
  shows "dist_d g v = c" "c < n" "c < MAXSIZE"
proof -
  have w: "walk NM n s v c" and nodes: "s \<in> {1..n}" "v \<in> {1..n}"
    using assms(4) walk_nodes by (auto simp: shortest_def)
  have nn: "\<And>u v. 0 \<le> NM u v" using unit by (metis empty_iff insert_iff order_refl zero_le_one)
  have fin: "dist_d g v < MAXSIZE" using dj_unit_reachable [OF inv unit n w] .
  then have "walk NM n s v (dist_d g v)" using dj_final_walk [OF inv nn nodes(1,2)] by blast
  then show c: "dist_d g v = c"
    using dj_final_le [OF inv w] assms(4) by (fastforce simp: shortest_def)
  show "c < n" using dj_unit_bound [OF inv unit nodes fin] c by simp
  show "c < MAXSIZE" using fin c by simp
qed

lemma route_discovery_hop:
  assumes unit: "\<And>u v. NM u v \<in> {0, 1}" and n: "n < GRAPHSIZE" and "int fuel > n"
    and sh: "shortest NM n u v c" and c: "0 < c" "c \<le> ROUTE_PATH_LEN"
  shows "\<exists>h g'. route_discovery fuel NM n u v g = Inr (h, g') \<and> NM u h \<noteq> 0 \<and> shortest NM n h v (c - 1)"
proof -
  have nodes: "u \<in> {1..n}" "v \<in> {1..n}" using sh walk_nodes by (auto simp: shortest_def)
  have nn: "\<And>u v. 0 \<le> NM u v" using unit by (metis empty_iff insert_iff order_refl zero_le_one)
  obtain g1 where g1: "dijkstra NM n u g = Inr g1" "dj_inv NM n u {1..n} g1"
    using dijkstra_inv [of NM u n g] nn nodes(1) n by blast
  note d = dijkstra_shortest [OF g1(2) unit n sh]
  obtain p where p: "routePath fuel v (clearPath g1) =
      Inr ((clearPath g1)\<lparr>route_path := p, route_hops := c\<rparr>)" "path_ok NM n u v c p"
    using routePath_ok [of NM n u "clearPath g1" v fuel] g1(2) unit nodes n d c assms(3) by auto
  have link: "NM u (p 0) \<noteq> 0" "p 0 \<in> {1..n}" using p(2) c by (force simp: path_ok_def)+
  then have one: "NM u (p 0) = 1" using unit [of u "p 0"] by simp
  have "walk NM n (p 0) v (c - 1)" using path_ok_walk [OF p(2) unit] c by simp
  moreover have "c - 1 \<le> c'" if "walk NM n (p 0) v c'" for c'
    using walk_trans [OF that walk_edge [of u n "p 0" NM]] nodes link one sh by (auto simp: shortest_def)
  ultimately have "shortest NM n (p 0) v (c - 1)" by (simp add: shortest_def)
  then show ?thesis
    using g1(1) p(1) link by (auto simp: route_discovery_def TimingModel_def)
qed

lemma routePath_overflow:
  assumes inv: "dj_inv NM n s {1..n} g" and unit: "\<And>u v. NM u v \<in> {0, 1}" and s: "s \<in> {1..n}"
    and n: "n < GRAPHSIZE" and g: "route_hops g = -1"
  shows "v \<in> {1..n} \<Longrightarrow> dist_d g v < MAXSIZE \<Longrightarrow> ROUTE_PATH_LEN < dist_d g v \<Longrightarrow>
         dist_d g v < int fuel \<Longrightarrow> routePath fuel v g = Inl Out_of_bounds"
proof (induction fuel arbitrary: v)
  case 0
  then show ?case using dj_invD(4) [OF inv, of v] by simp
next
  case (Suc fuel)
  note I = dj_invD [OF inv]
  let ?w = "prev_n g v"
  have v: "0 \<le> v \<and> v < GRAPHSIZE" "v \<noteq> s"
    using Suc.prems n I(2) by (auto simp: ROUTE_PATH_LEN_def)
  then have w: "?w \<in> {1..n}" "dist_d g v = dist_d g ?w + 1"
    using I(6) [of v] Suc.prems unit [of ?w v] by auto
  then have "?w \<noteq> -1" by auto
  show ?case
  proof (cases "dist_d g ?w \<le> ROUTE_PATH_LEN")
    case True
    then obtain p where "routePath fuel ?w g = Inr (g\<lparr>route_path := p, route_hops := dist_d g ?w\<rparr>)"
      using routePath_ok [OF inv unit s n g, of ?w fuel] w Suc.prems by auto
    then show ?thesis using v Suc.prems(3) w(2) \<open>?w \<noteq> -1\<close> by (simp add: guard_res_def)
  next
    case False
    then show ?thesis using v Suc.IH [of ?w] w Suc.prems \<open>?w \<noteq> -1\<close> by simp
  qed
qed

section \<open>Forwarding hop by hop\<close>

text \<open>
  The nodes a packet enters on its way from \<open>u\<close> to \<open>dest\<close> when the sender and each router in turn
  pass it to the hop their own route discovery returns.
\<close>

primrec forward :: "(int \<Rightarrow> int \<Rightarrow> int res) \<Rightarrow> nat \<Rightarrow> int \<Rightarrow> int \<Rightarrow> int list res" where
  "forward hop 0 u dest = (if u = dest then Inr [] else Inl No_return)"
| "forward hop (Suc k) u dest =
     (if u = dest then Inr []
      else bind_res (hop u dest) (\<lambda>h. bind_res (forward hop k h dest) (\<lambda>hs. Inr (h # hs))))"

text \<open>What a forwarding client relies on: each hop is linked and one link closer.\<close>

locale hop_routing =
  fixes wf :: "'net \<Rightarrow> bool"
    and link :: "'net \<Rightarrow> int \<Rightarrow> int \<Rightarrow> bool"
    and distance :: "'net \<Rightarrow> int \<Rightarrow> int \<Rightarrow> int \<Rightarrow> bool"
    and max_hops :: int
    and hop :: "'net \<Rightarrow> int \<Rightarrow> int \<Rightarrow> int res"
  assumes distance_unique: "wf N \<Longrightarrow> distance N u v c \<Longrightarrow> distance N u v c' \<Longrightarrow> c = c'"
    and distance_nonneg: "wf N \<Longrightarrow> distance N u v c \<Longrightarrow> 0 \<le> c"
    and distance_zero: "wf N \<Longrightarrow> distance N u v c \<Longrightarrow> c = 0 \<longleftrightarrow> u = v"
    and hop_closer: "wf N \<Longrightarrow> distance N u v c \<Longrightarrow> 0 < c \<Longrightarrow> c \<le> max_hops \<Longrightarrow>
          \<exists>h. hop N u v = Inr h \<and> link N u h \<and> distance N h v (c - 1)"
begin

lemma forward_path:
  assumes "wf N"
  shows "distance N u v c \<Longrightarrow> c \<le> max_hops \<Longrightarrow> c \<le> int k \<Longrightarrow>
         \<exists>hs. forward (hop N) k u v = Inr hs \<and> int (length hs) = c \<and> last (u # hs) = v \<and>
              successively (link N) (u # hs) \<and>
              (\<forall>x \<in> set hs. \<exists>c'. distance N x v c' \<and> c' < c) \<and> distinct (u # hs)"
proof (induction k arbitrary: u c)
  case 0
  then have "c = 0" using distance_nonneg [OF assms, of u v c] by simp
  then show ?case using 0 distance_zero [OF assms, of u v c] by simp
next
  case (Suc k)
  show ?case
  proof (cases "u = v")
    case True
    then show ?thesis using Suc.prems distance_zero [OF assms, of u v c] by simp
  next
    case False
    then have "0 < c" using Suc.prems distance_zero [OF assms, of u v c] distance_nonneg [OF assms, of u v c] by force
    then obtain h where h: "hop N u v = Inr h" "link N u h" "distance N h v (c - 1)"
      using hop_closer [OF assms Suc.prems(1)] Suc.prems by blast
    then obtain hs where hs: "forward (hop N) k h v = Inr hs" "int (length hs) = c - 1"
      "last (h # hs) = v" "successively (link N) (h # hs)"
      "\<forall>x \<in> set hs. \<exists>c'. distance N x v c' \<and> c' < c - 1" "distinct (h # hs)"
      using Suc.IH [of h "c - 1"] Suc.prems by auto
    have closer: "\<forall>x \<in> set (h # hs). \<exists>c'. distance N x v c' \<and> c' < c"
      using hs(5) h(3) by fastforce
    have "u \<notin> set (h # hs)"
      using closer distance_unique [OF assms Suc.prems(1)] by (metis less_irrefl)
    then show ?thesis using h hs closer False by auto
  qed
qed

end

text \<open>The interface on the code: every node runs \<open>route_discovery\<close> on its own globals.\<close>

type_synonym net = "(int \<Rightarrow> int \<Rightarrow> int) \<times> int \<times> (int \<Rightarrow> route_g)"

definition net_wf :: "net \<Rightarrow> bool" where
  "net_wf N \<longleftrightarrow> (\<forall>u v. fst N u v \<in> {0, 1}) \<and> fst (snd N) < GRAPHSIZE"

definition net_link :: "net \<Rightarrow> int \<Rightarrow> int \<Rightarrow> bool" where
  "net_link N u v \<longleftrightarrow> fst N u v \<noteq> 0"

definition net_distance :: "net \<Rightarrow> int \<Rightarrow> int \<Rightarrow> int \<Rightarrow> bool" where
  "net_distance N = shortest (fst N) (fst (snd N))"

definition net_hop :: "net \<Rightarrow> int \<Rightarrow> int \<Rightarrow> int res" where
  "net_hop N u v = bind_res (route_discovery (nat (fst (snd N)) + 1) (fst N) (fst (snd N)) u v
     (snd (snd N) u)) (\<lambda>(h, g). Inr h)"

lemmas net_defs = net_wf_def net_link_def net_distance_def net_hop_def

interpretation rd: hop_routing net_wf net_link net_distance ROUTE_PATH_LEN net_hop
proof (unfold_locales, goal_cases)
  case (1 N u v c c')
  then show ?case using shortest_unique by (auto simp: net_defs)
next
  case (2 N u v c)
  then have "\<And>u v. 0 \<le> fst N u v" by (metis empty_iff insert_iff net_wf_def order_refl zero_le_one)
  with 2 show ?case by (auto simp: net_defs shortest_def intro: shortest_nonneg)
next
  case (3 N u v c)
  then have "\<And>u v. 0 \<le> fst N u v" by (metis empty_iff insert_iff net_wf_def order_refl zero_le_one)
  with 3 show ?case
    using shortest_zero [of "fst N" "fst (snd N)" u v c] by (simp add: net_defs)
next
  case (4 N u v c)
  obtain NM n g where N: "N = (NM, n, g)" by (cases N)
  show ?case
    using 4 route_discovery_hop [of NM n "nat n + 1" u v c "g u"] unfolding N
    by (auto simp: net_defs)
qed

section \<open>Properties of route discovery\<close>

text \<open>
  A small network for the concrete instances: devices 1, 2 and 3 in a chain, device 4 without links.
\<close>

definition chain_map :: "int \<Rightarrow> int \<Rightarrow> int" where
  "chain_map u v = (if {u, v} \<in> {{1, 2}, {2, 3}} then 1 else 0)"

definition route_g0 :: route_g where
  "route_g0 = \<lparr>dist_d = \<lambda>_. 0, prev_n = \<lambda>_. 0, route_path = \<lambda>_. 0, route_hops = 0\<rparr>"

lemma chain_map_unit: "chain_map u v \<in> {0, 1}"
  by (simp add: chain_map_def)

lemma walk_potential:
  assumes "walk NM n u v c" and "\<And>x y. NM x y \<noteq> 0 \<Longrightarrow> f y \<le> f x + NM x y"
  shows "f v - f u \<le> c"
  using assms(1) by (induction rule: walk.induct) (auto dest: assms(2))

lemma chain_shortest: "shortest chain_map 4 1 3 2"
proof -
  have "walk chain_map 4 1 3 (0 + chain_map 1 2 + chain_map 2 3)"
    by (intro walk_snoc walk_refl) (simp_all add: chain_map_def doubleton_eq_iff)
  then have "walk chain_map 4 1 3 2" by (simp add: chain_map_def doubleton_eq_iff)
  moreover have "2 \<le> c" if "walk chain_map 4 1 3 c" for c
  proof -
    have "id y \<le> id x + chain_map x y" if "chain_map x y \<noteq> 0" for x y
      using that by (auto simp: chain_map_def doubleton_eq_iff split: if_splits)
    from walk_potential [OF that this] show ?thesis by simp
  qed
  ultimately show ?thesis by (simp add: shortest_def)
qed

text \<open>
  Property C2. For every link map with non-negative weights and every source among the devices,
  \<open>dijkstra\<close> returns, the distance it stores for a device is the length of a shortest walk from the
  source whenever it is below \<open>MAXSIZE\<close>, and it is \<open>MAXSIZE\<close> only when no walk is shorter than that.
\<close>

theorem dijkstra_correct:
  assumes "\<And>u v. 0 \<le> NM u v" and "s \<in> {1..n}" and "n < GRAPHSIZE"
  shows "\<exists>g'. dijkstra NM n s g = Inr g' \<and>
           (\<forall>v \<in> {1..n}. if dist_d g' v < MAXSIZE then shortest NM n s v (dist_d g' v)
                         else dist_d g' v = MAXSIZE \<and> (\<forall>c. walk NM n s v c \<longrightarrow> MAXSIZE \<le> c))"
proof -
  obtain g' where g': "dijkstra NM n s g = Inr g'" "dj_inv NM n s {1..n} g'"
    using dijkstra_inv [of NM s n g] assms by blast
  have "if dist_d g' v < MAXSIZE then shortest NM n s v (dist_d g' v)
        else dist_d g' v = MAXSIZE \<and> (\<forall>c. walk NM n s v c \<longrightarrow> MAXSIZE \<le> c)" if "v \<in> {1..n}" for v
    using dj_final_le [OF g'(2)] dj_final_walk [of NM n s g' v, OF g'(2) assms(1,2) that]
      dj_invD(5) [OF g'(2) that] unfolding shortest_def by fastforce
  with g'(1) show ?thesis by blast
qed

theorem dijkstra_correct_witness:
  "\<exists>g'. dijkstra chain_map 4 1 route_g0 = Inr g' \<and>
           (\<forall>v \<in> {1..4}. if dist_d g' v < MAXSIZE then shortest chain_map 4 1 v (dist_d g' v)
                         else dist_d g' v = MAXSIZE \<and> (\<forall>c. walk chain_map 4 1 v c \<longrightarrow> MAXSIZE \<le> c))"
  by (rule dijkstra_correct) (simp_all add: chain_map_def route_const_defs)

text \<open>
  On the link maps the topology produces (every entry 0 or 1) the distance stored for a
  device is below \<open>MAXSIZE\<close> exactly when the device is reachable, and then it is below the number of
  devices.
\<close>

theorem dijkstra_reachable:
  assumes "\<And>u v. NM u v \<in> {0, 1}" and "s \<in> {1..n}" and "n < GRAPHSIZE" and "v \<in> {1..n}"
  shows "\<exists>g'. dijkstra NM n s g = Inr g' \<and>
           (dist_d g' v < MAXSIZE \<longleftrightarrow> (\<exists>c. walk NM n s v c)) \<and>
           (dist_d g' v < MAXSIZE \<longrightarrow> dist_d g' v < n)"
proof -
  have nn: "\<And>u v. 0 \<le> NM u v" using assms(1) by (metis empty_iff insert_iff order_refl zero_le_one)
  obtain g' where g': "dijkstra NM n s g = Inr g'" "dj_inv NM n s {1..n} g'"
    using dijkstra_inv [of NM s n g] nn assms by blast
  then show ?thesis
    using dj_unit_reachable [OF g'(2) assms(1,3)] dj_final_walk [of NM n s g' v, OF g'(2) nn assms(2,4)]
      dj_unit_bound [OF g'(2) assms(1,2,4)] by blast
qed

theorem dijkstra_reachable_witness:
  "\<exists>g'. dijkstra chain_map 4 1 route_g0 = Inr g' \<and>
           (dist_d g' 4 < MAXSIZE \<longleftrightarrow> (\<exists>c. walk chain_map 4 1 4 c)) \<and>
           (dist_d g' 4 < MAXSIZE \<longrightarrow> dist_d g' 4 < 4)"
  by (rule dijkstra_reachable [of chain_map 1 4 4 route_g0]) (use chain_map_unit in \<open>simp_all add: route_const_defs\<close>)

text \<open>
  Property C3. The hop that \<open>route_discovery\<close> returns for a reachable destination other than the
  source, at most 40 links away, is a neighbour of the source and is exactly one link closer to the
  destination; the recursion of \<open>routePath\<close> returns within \<open>n + 1\<close> calls.
\<close>

theorem route_discovery_next_hop:
  assumes "\<And>u v. NM u v \<in> {0, 1}" and "n < GRAPHSIZE" and "n < int fuel"
    and "shortest NM n u v c" and "0 < c" and "c \<le> ROUTE_PATH_LEN"
  shows "\<exists>h g'. route_discovery fuel NM n u v g = Inr (h, g') \<and> NM u h \<noteq> 0 \<and>
           shortest NM n h v (c - 1)"
  using route_discovery_hop [of NM n fuel u v c g] assms by blast

theorem route_discovery_next_hop_witness:
  "\<exists>h g'. route_discovery 5 chain_map 4 1 3 route_g0 = Inr (h, g') \<and> chain_map 1 h \<noteq> 0 \<and>
           shortest chain_map 4 h 3 (2 - 1)"
  by (rule route_discovery_next_hop)
    (use chain_map_unit chain_shortest in \<open>simp_all add: route_const_defs\<close>)

text \<open>
  Property C4. Forwarding is loop free and delivers: when every device passes a packet to the hop its
  own route discovery returns, the packet enters exactly as many devices as the shortest walk has
  links, each linked to the one before, none twice, and the last is the destination, whatever the
  globals of the devices held before.
\<close>

theorem forwarding_delivers:
  assumes "\<And>u v. NM u v \<in> {0, 1}" and "n < GRAPHSIZE"
    and "shortest NM n u v c" and "c \<le> ROUTE_PATH_LEN" and "c \<le> int k"
  shows "\<exists>hs. forward (net_hop (NM, n, g)) k u v = Inr hs \<and> int (length hs) = c \<and>
           last (u # hs) = v \<and> successively (\<lambda>a b. NM a b \<noteq> 0) (u # hs) \<and> distinct (u # hs)"
proof -
  have "net_link (NM, n, g) = (\<lambda>a b. NM a b \<noteq> 0)" by (simp add: net_link_def fun_eq_iff)
  moreover have "net_wf (NM, n, g)" "net_distance (NM, n, g) u v c"
    using assms by (auto simp: net_wf_def net_distance_def)
  ultimately show ?thesis using rd.forward_path [of "(NM, n, g)" u v c k] assms(4,5) by metis
qed

theorem forwarding_delivers_witness:
  "\<exists>hs. forward (net_hop (chain_map, 4, \<lambda>_. route_g0)) 2 1 3 = Inr hs \<and> int (length hs) = 2 \<and>
           last (1 # hs) = 3 \<and> successively (\<lambda>a b. chain_map a b \<noteq> 0) (1 # hs) \<and> distinct (1 # hs)"
  by (rule forwarding_delivers)
    (use chain_map_unit chain_shortest in \<open>simp_all add: route_const_defs\<close>)

text \<open>
  For a destination that no walk reaches (or the source itself) \<open>route_discovery\<close> reports
  nothing: it returns whatever \<open>route_path[0]\<close> held before the call, the first hop of the last
  successful discovery.
\<close>

theorem route_discovery_unreachable:
  assumes "\<And>u v. NM u v \<in> {0, 1}" and "s \<in> {1..n}" and "n < GRAPHSIZE" and "v \<in> {1..n}"
    and "0 < fuel" and "v = s \<or> (\<forall>c. \<not> walk NM n s v c)"
  shows "\<exists>g'. route_discovery fuel NM n s v g = Inr (route_path g 0, g')"
proof -
  have nn: "\<And>u v. 0 \<le> NM u v" using assms(1) by (metis empty_iff insert_iff order_refl zero_le_one)
  obtain g1 where g1: "dijkstra NM n s g = Inr g1" "dj_inv NM n s {1..n} g1" "route_path g1 = route_path g"
    using dijkstra_inv [of NM s n g] nn assms by blast
  have "prev_n g1 v = -1"
    using dj_invD(3,7) [OF g1(2)] dj_final_walk [of NM n s g1 v, OF g1(2) nn assms(2,4)] assms(4,6)
    by blast
  then show ?thesis
    using routePath_root [of "clearPath g1" v "fuel - 1"] g1 assms(3-5)
    by (auto simp: route_discovery_def TimingModel_def)
qed

lemma chain_isolated: "\<not> walk chain_map 4 1 4 c"
proof
  assume "walk chain_map 4 1 4 c"
  then show False by (cases rule: walk.cases) (auto simp: chain_map_def doubleton_eq_iff split: if_splits)
qed

theorem route_discovery_unreachable_witness:
  "\<exists>g'. route_discovery 1 chain_map 4 1 4 (route_g0\<lparr>route_path := \<lambda>_. 2\<rparr>) = Inr (2, g')"
  using route_discovery_unreachable [of chain_map 1 4 4 1 "route_g0\<lparr>route_path := \<lambda>_. 2\<rparr>"]
    chain_map_unit chain_isolated by (simp add: route_const_defs)

text \<open>
  A destination more than 40 links away runs over \<open>route_path[40]\<close>.
\<close>

theorem route_discovery_overflow:
  assumes "\<And>u v. NM u v \<in> {0, 1}" and "n < GRAPHSIZE" and "n < int fuel"
    and "shortest NM n u v c" and "ROUTE_PATH_LEN < c"
  shows "route_discovery fuel NM n u v g = Inl Out_of_bounds"
proof -
  have nodes: "u \<in> {1..n}" "v \<in> {1..n}" using assms(4) walk_nodes by (auto simp: shortest_def)
  have nn: "\<And>u v. 0 \<le> NM u v" using assms(1) by (metis empty_iff insert_iff order_refl zero_le_one)
  obtain g1 where g1: "dijkstra NM n u g = Inr g1" "dj_inv NM n u {1..n} g1"
    using dijkstra_inv [of NM u n g] nn nodes(1) assms(2) by blast
  note d = dijkstra_shortest [OF g1(2) assms(1,2,4)]
  show ?thesis
    using g1 d routePath_overflow [of NM n u "clearPath g1" v fuel] assms nodes
    by (simp add: route_discovery_def)
qed

definition line_map :: "int \<Rightarrow> int \<Rightarrow> int" where
  "line_map u v = (if \<bar>u - v\<bar> = 1 then 1 else 0)"

lemma line_walk: "1 \<le> n \<Longrightarrow> int k < n \<Longrightarrow> walk line_map n 1 (1 + int k) (int k)"
proof (induction k)
  case (Suc k)
  have "line_map (1 + int k) (2 + int k) = 1" by (simp add: line_map_def)
  then show ?case
    using walk_snoc [of line_map n 1 "1 + int k" "int k" "2 + int k"] Suc by (simp add: add.commute)
qed (simp add: walk_refl)

lemma line_shortest: "shortest line_map 50 1 42 41"
proof -
  have "41 \<le> c" if "walk line_map 50 1 42 c" for c
  proof -
    have "id y \<le> id x + line_map x y" if "line_map x y \<noteq> 0" for x y
      using that by (auto simp: line_map_def split: if_splits)
    from walk_potential [OF that this] show ?thesis by simp
  qed
  then show ?thesis using line_walk [of 50 41] by (simp add: shortest_def)
qed

theorem route_discovery_overflow_witness:
  "route_discovery 51 line_map 50 1 42 route_g0 = Inl Out_of_bounds"
  by (rule route_discovery_overflow [OF _ _ _ line_shortest]) (simp_all add: line_map_def route_const_defs)

text \<open>
  Property C5. Device ids start at 1 and \<open>prev[0]\<close> keeps its initial value 0, so a discovery towards
  device 0 never returns: no amount of recursion is enough.
\<close>

theorem route_discovery_zero_diverges:
  assumes "\<And>u v. 0 \<le> NM u v" and "s \<in> {1..n}" and "n < GRAPHSIZE" and "prev_n g 0 = 0"
  shows "route_discovery fuel NM n s 0 g = Inl No_return"
proof -
  obtain g1 where g1: "dijkstra NM n s g = Inr g1"
    using dijkstra_inv [of NM s n g] assms by blast
  then have "prev_n g1 0 = 0" using dijkstra_prev_outside [of NM n s g g1 0] assms by simp
  then have "routePath fuel 0 (clearPath g1) = Inl No_return"
    by (induction fuel) (simp_all add: route_const_defs)
  then show ?thesis using g1 by (simp add: route_discovery_def)
qed

theorem route_discovery_zero_diverges_witness:
  "route_discovery 1000 chain_map 4 1 0 route_g0 = Inl No_return"
  by (rule route_discovery_zero_diverges) (simp_all add: chain_map_def route_g0_def route_const_defs)

end
