(* ===== verification/M2M_Topology.thy ===== *)
theory M2M_Topology
  imports M2M_Types
begin

text \<open>
  The topology file of \<^verbatim>\<open>hw/m2m_topology.c\<close>. The first line holds the number of devices, line \<open>i\<close>
  after it describes device \<open>i\<close> as \<open>ZC {x,y,z} {n,m,...}\<close>. The code reads every line with
  \<open>fgets(info, 40, pFile)\<close>; the line of the device itself fills the global device record, the line
  of another device fills the location and link tables.

  The buffer is a list of 40 characters and the pointer \<open>info + ind\<close> is the suffix that starts
  there, so the index \<open>ind\<close> is 40 minus the length of the suffix. On the line of another device the
  code never reads past the terminating NUL, and the suffix ends there.
\<close>

section \<open>Reading lines and numbers\<close>

definition newline :: char where "newline = CHR 0x0A"

text \<open>\<open>fgets\<close> into a buffer of 40: at most 39 characters, up to and including a newline, then NUL.\<close>

definition fgets40 :: "string \<Rightarrow> string \<Rightarrow> (string \<times> string) option" where
  "fgets40 info f =
     (if f = [] then None
      else let k = length (takeWhile (\<lambda>c. c \<noteq> newline) f);
               m = min 39 (if k < length f then k + 1 else k)
           in Some (take m f @ [NUL] @ drop (m + 1) info, drop m f))"

definition digit :: "char \<Rightarrow> bool" where
  "digit c \<longleftrightarrow> CHR ''0'' \<le> c \<and> c \<le> CHR ''9''"

definition digit_val :: "char \<Rightarrow> int" where
  "digit_val c = int (of_char c) - 48"

text \<open>The loop \<open>sum = sum * 10 + (info[ind] - '0')\<close>: the flag, the sum and where it stops.\<close>

fun digits :: "bool \<Rightarrow> int \<Rightarrow> string \<Rightarrow> (bool \<times> int \<times> string) res" where
  "digits flag acc [] = Inr (flag, acc, [])"
| "digits flag acc (c # s) =
     (if digit c
      then bind_res (guard_res (acc * 10 + digit_val c < 2 ^ 31) Int_overflow) (\<lambda>_.
           digits True (acc * 10 + digit_val c) s)
      else Inr (flag, acc, c # s))"

definition c_isspace :: "char \<Rightarrow> bool" where
  "c_isspace c \<longleftrightarrow> c = CHR '' '' \<or> (CHR 0x09 \<le> c \<and> c \<le> CHR 0x0D)"

definition atoi :: "string \<Rightarrow> int res" where
  "atoi s = (case dropWhile c_isspace s of
       [] \<Rightarrow> Inr 0
     | c # r \<Rightarrow>
         if c = CHR ''-'' then bind_res (digits False 0 r) (\<lambda>(_, v, _). Inr (- v))
         else if c = CHR ''+'' then bind_res (digits False 0 r) (\<lambda>(_, v, _). Inr v)
         else bind_res (digits False 0 (c # r)) (\<lambda>(_, v, _). Inr v))"

section \<open>The tables\<close>

record topo =
  TotalNetworkTypeDevice :: "int \<Rightarrow> int"
  BeforeNetworkTypeDevice :: "int \<Rightarrow> int"
  NODE_MAP :: "int \<Rightarrow> int \<Rightarrow> int"
  NODE_LOCATION :: "int \<Rightarrow> int \<Rightarrow> int"
  NODE_TYPE :: "int \<Rightarrow> string"
  NODE_SHM_LOCATION :: "int \<Rightarrow> int"

text \<open>The switch on \<open>info[1]\<close>, the same for every line: count the type, reserve its memory.\<close>

definition count_type :: "char \<Rightarrow> int \<Rightarrow> topo \<times> int \<Rightarrow> topo \<times> int" where
  "count_type c index st = (let (T, shm_location) = st in
     if c = CHR ''C'' then
       (T\<lparr>TotalNetworkTypeDevice := (TotalNetworkTypeDevice T)(0 := TotalNetworkTypeDevice T 0 + 1),
          NODE_TYPE := (NODE_TYPE T)(index := ''ZC'')\<rparr>, shm_location + COORDINATOR_SIZE)
     else if c = CHR ''R'' then
       (T\<lparr>TotalNetworkTypeDevice := (TotalNetworkTypeDevice T)(1 := TotalNetworkTypeDevice T 1 + 1),
          NODE_TYPE := (NODE_TYPE T)(index := ''ZR'')\<rparr>, shm_location + ROUTER_SIZE)
     else if c = CHR ''E'' then
       (T\<lparr>TotalNetworkTypeDevice := (TotalNetworkTypeDevice T)(2 := TotalNetworkTypeDevice T 2 + 1),
          NODE_TYPE := (NODE_TYPE T)(index := ''ZED'')\<rparr>, shm_location + END_DEVICE_SIZE)
     else (T, shm_location))"

section \<open>The line of another device\<close>

lemma digits_length: "digits f v s = Inr (f', v', r) \<Longrightarrow> length r \<le> length s"
  by (induction f v s rule: digits.induct) (auto split: if_splits)

lemma digits_flag_True: "digits f v s = Inr (f', v', r) \<Longrightarrow> f \<Longrightarrow> f'"
  by (induction f v s rule: digits.induct) (auto split: if_splits)

lemma digits_progress:
  assumes "digits False v s = Inr (f', v', r)"
  shows "if f' then length r < length s else r = s"
proof (cases s)
  case (Cons c cs)
  then show ?thesis
    using assms digits_flag_True [of True _ cs f' v' r] digits_length [of True _ cs f' v' r]
    by (auto simp: less_Suc_eq_le split: if_splits)
qed (use assms in simp)

text \<open>First braces: the location. Every further pair of braces: the links.\<close>

function loc_loop :: "int \<Rightarrow> string \<Rightarrow> int \<Rightarrow> topo \<Rightarrow> (string \<times> topo) res" where
  "loc_loop index s dm T =
     (if s = [] \<or> hd s = CHR ''}'' then Inr (s, T)
      else case digits False 0 s of Inl e \<Rightarrow> Inl e
           | Inr (flag, acc, r) \<Rightarrow>
               if flag
               then if dm < 3
                    then loc_loop index r (dm + 1)
                      (T\<lparr>NODE_LOCATION := (NODE_LOCATION T)(index := (NODE_LOCATION T index)(dm := acc))\<rparr>)
                    else Inl Out_of_bounds
               else loc_loop index (tl r) dm T)"
  by pat_completeness auto
termination
  by (relation "measure (\<lambda>(index, s, dm, T). length s)")
    (auto dest: digits_progress)

definition add_link :: "int \<Rightarrow> int \<Rightarrow> topo \<Rightarrow> topo" where
  "add_link i j T =
     (let M1 = (NODE_MAP T)(i := (NODE_MAP T i)(j := 1)) in T\<lparr>NODE_MAP := M1(j := (M1 j)(i := 1))\<rparr>)"

function link_loop :: "int \<Rightarrow> string \<Rightarrow> topo \<Rightarrow> (string \<times> topo) res" where
  "link_loop index s T =
     (if s = [] \<or> hd s = CHR ''}'' then Inr (s, T)
      else case digits False 0 s of Inl e \<Rightarrow> Inl e
           | Inr (flag, acc, r) \<Rightarrow>
               if flag
               then if acc < MAX_NODE_NUM then link_loop index r (add_link index acc T)
                    else Inl Out_of_bounds
               else link_loop index (tl r) T)"
  by pat_completeness auto
termination
  by (relation "measure (\<lambda>(index, s, T). length s)") (auto dest: digits_progress)

declare loc_loop.simps [simp del] link_loop.simps [simp del]

lemma loc_loop_length: "loc_loop index s dm T = Inr (r, T') \<Longrightarrow> length r \<le> length s"
proof (induction index s dm T rule: loc_loop.induct)
  case (1 index s dm T)
  then show ?case
    by (subst (asm) (3) loc_loop.simps)
      (fastforce split: if_splits sum.splits prod.splits dest: digits_progress)
qed

lemma link_loop_length: "link_loop index s T = Inr (r, T') \<Longrightarrow> length r \<le> length s"
proof (induction index s T rule: link_loop.induct)
  case (1 index s T)
  then show ?case
    by (subst (asm) (3) link_loop.simps)
      (fastforce split: if_splits sum.splits prod.splits dest: digits_progress)
qed

text \<open>The outer loop: \<open>select\<close> tells the first pair of braces from the others.\<close>

function other_line :: "int \<Rightarrow> nat \<Rightarrow> string \<Rightarrow> topo \<Rightarrow> topo res" where
  "other_line index select [] T = Inr T"
| "other_line index select (c # s) T =
     (if c = CHR ''{''
      then if select = 0
           then case loc_loop index s 0 T of Inl e \<Rightarrow> Inl e
                | Inr (r, T) \<Rightarrow> other_line index (select + 1) (tl r) T
           else case link_loop index s T of Inl e \<Rightarrow> Inl e
                | Inr (r, T) \<Rightarrow> other_line index select (tl r) T
      else other_line index select s T)"
  by pat_completeness auto
termination
  by (relation "measure (\<lambda>(index, select, s, T). length s)")
    (auto dest!: loc_loop_length link_loop_length)

section \<open>The line of the device itself\<close>

text \<open>
  Here the code does not stop at the NUL: \<open>count\<close> only has to be below \<open>strlen(info)\<close> at the head
  of the loop, and what it reads past the end is what the buffer holds from earlier lines. Reading
  past the 40th byte is out of bounds. \<open>rd k s\<close> is \<open>info[count + k]\<close>.
\<close>

definition rd :: "nat \<Rightarrow> string \<Rightarrow> char res" where
  "rd k s = (if k < length s then Inr (s ! k) else Inl Out_of_bounds)"

text \<open>The digit loop on the buffer: it must find a byte that is not a digit before the end.\<close>

definition digits_buf :: "string \<Rightarrow> (int \<times> string) res" where
  "digits_buf s = bind_res (digits False 0 s) (\<lambda>(flag, acc, r).
     bind_res (guard_res (r \<noteq> []) Out_of_bounds) (\<lambda>_. Inr (acc, r)))"

definition own_type :: "string \<Rightarrow> VND \<Rightarrow> (string \<times> VND) res" where
  "own_type s v =
     bind_res (rd 0 s) (\<lambda>c0. bind_res (rd 1 s) (\<lambda>c1. bind_res (rd 2 s) (\<lambda>c2.
       let v = v\<lparr>DeviceType := (DeviceType v)[0 := c0, 1 := c1]\<rparr> in
       if c2 \<noteq> CHR '' '' then Inr (drop 4 s, v\<lparr>DeviceType := (DeviceType v)[2 := c2]\<rparr>)
       else Inr (drop 3 s, v))))"

definition own_coord :: "int \<Rightarrow> int \<Rightarrow> string \<times> topo \<times> VND \<Rightarrow> (string \<times> topo \<times> VND) res" where
  "own_coord index i st = (let (s, T, v) = st in
     bind_res (digits_buf s) (\<lambda>(acc, r).
       Inr (drop (if i \<noteq> 2 then 1 else 2) r,
            T\<lparr>NODE_LOCATION := (NODE_LOCATION T)(index := (NODE_LOCATION T index)(i := acc))\<rparr>,
            v\<lparr>Position := (Position v)(i := acc)\<rparr>)))"

lemma digits_buf_length:
  assumes "digits_buf s = Inr (v, r)"
  shows "length r \<le> length s \<and> r \<noteq> [] \<and> length r - Suc 0 < length s"
proof -
  have "length r \<le> length s" "r \<noteq> []"
    using assms by (auto simp: digits_buf_def dest: digits_length)
  then show ?thesis by (cases r) auto
qed

function own_links :: "int \<Rightarrow> string \<Rightarrow> VND \<Rightarrow> (string \<times> VND) res" where
  "own_links linknum s v =
     (case digits_buf s of Inl e \<Rightarrow> Inl e
      | Inr (acc, r) \<Rightarrow>
          if linknum < 8
          then let v = v\<lparr>Neighbors := (Neighbors v)(linknum := acc)\<rparr> in
               if hd r = CHR '','' then own_links (linknum + 1) (tl r) v
               else Inr (r, v\<lparr>NeighborNum := linknum + 1\<rparr>)
          else Inl Out_of_bounds)"
  by pat_completeness auto
termination
  by (relation "measure (\<lambda>(linknum, s, v). length s)") (auto dest!: digits_buf_length)

declare own_links.simps [simp del]

lemma own_type_length: "own_type s v = Inr (r, v') \<Longrightarrow> length r < length s"
  by (auto simp: own_type_def rd_def Let_def split: if_splits)

lemma own_coord_length: "own_coord index i (s, T, v) = Inr (r, T', v') \<Longrightarrow> length r \<le> length s"
  by (auto simp: own_coord_def dest!: digits_buf_length)

lemma own_links_length: "own_links k s v = Inr (r, v') \<Longrightarrow> length r \<le> length s"
proof (induction k s v rule: own_links.induct)
  case (1 k s v)
  then show ?case
    by (subst (asm) (2) own_links.simps)
      (fastforce simp: Let_def split: if_splits sum.splits prod.splits dest: digits_buf_length)
qed

lemma tl_shorter: "s \<noteq> [] \<Longrightarrow> length r \<le> length s \<Longrightarrow> length r - Suc 0 < length s"
  by (cases s) auto

function own_line :: "nat \<Rightarrow> int \<Rightarrow> nat \<Rightarrow> string \<Rightarrow> topo \<times> VND \<Rightarrow> (topo \<times> VND) res" where
  "own_line lens index select s st =
     (if 40 - length s < lens \<and> s \<noteq> [] then
        if hd s \<noteq> CHR '' '' \<and> select = 0 then
          case own_type s (snd st) of Inl e \<Rightarrow> Inl e
          | Inr (r, v) \<Rightarrow> own_line lens index 1 (tl r) (fst st, v)
        else if hd s \<noteq> CHR '' '' \<and> select = 1 then
          case fold_res (own_coord index) [0, 1, 2] (s, fst st, snd st) of Inl e \<Rightarrow> Inl e
          | Inr (r, T, v) \<Rightarrow> own_line lens index 2 (tl r) (T, v)
        else if hd s \<noteq> CHR '' '' \<and> select = 2 then
          case own_links 0 s (snd st) of Inl e \<Rightarrow> Inl e
          | Inr (r, v) \<Rightarrow> own_line lens index 3 (tl r) (fst st, v)
        else own_line lens index select (tl s) st
      else Inr st)"
  by pat_completeness auto
termination
  by (relation "measure (\<lambda>(lens, index, select, s, st). length s)")
    (auto dest!: own_type_length own_coord_length own_links_length simp: tl_shorter)

declare own_line.simps [simp del]

section \<open>The whole file\<close>

text \<open>
  One round of the loop over the devices. The state is the rest of the file, the line buffer, the
  tables with \<open>shm_location\<close>, and the device record. The end of the file is an exit on the line of
  another device and is passed over on the device's own line.
\<close>

type_synonym fetch_state = "string \<times> string \<times> (topo \<times> int) \<times> VND"

definition fetch_node :: "int \<Rightarrow> int \<Rightarrow> fetch_state \<Rightarrow> fetch_state res" where
  "fetch_node dev_id index st = (let (f, info, (T, shm_location), v) = st in
     bind_res (guard_res (index < MAX_NODE_NUM) Out_of_bounds) (\<lambda>_.
     let T = T\<lparr>NODE_SHM_LOCATION := (NODE_SHM_LOCATION T)(index := shm_location)\<rparr> in
     if index \<noteq> dev_id then
       case fgets40 info f of None \<Rightarrow> Inl Exit_process
       | Some (info, f) \<Rightarrow>
           let (T, shm_location) = count_type (info ! 1) index (T, shm_location) in
           bind_res (other_line index 0 (cstr info) T) (\<lambda>T. Inr (f, info, (T, shm_location), v))
     else
       case fgets40 info f of None \<Rightarrow> Inr (f, info, (T, shm_location), v)
       | Some (info, f) \<Rightarrow>
           let T = T\<lparr>BeforeNetworkTypeDevice :=
                 (BeforeNetworkTypeDevice T)(0 := TotalNetworkTypeDevice T 0,
                    1 := TotalNetworkTypeDevice T 1, 2 := TotalNetworkTypeDevice T 2)\<rparr>;
               (T, shm_location) = count_type (info ! 1) index (T, shm_location)
           in bind_res (own_line (length (cstr info)) index 0 info (T, v)) (\<lambda>(T, v).
              Inr (f, info, (T, shm_location), v))))"

text \<open>\<open>topology_conf\<close> is the content of the file, \<open>None\<close> when it cannot be opened.\<close>

definition node_infofetch ::
  "string option \<Rightarrow> string \<Rightarrow> int \<Rightarrow> topo \<times> VND \<Rightarrow> (M2M_ERR_T \<times> topo \<times> VND) res" where
  "node_infofetch topology_conf info dev_id st = (let (T, v) = st; v = v\<lparr>DeviceID := dev_id\<rparr> in
     case topology_conf of None \<Rightarrow> Inl Exit_process
     | Some f \<Rightarrow>
         case fgets40 info f of None \<Rightarrow> Inl Exit_process
         | Some (info, f) \<Rightarrow>
             bind_res (atoi (cstr info)) (\<lambda>n.
             let v = v\<lparr>TotalDeviceNum := n\<rparr> in
             if dev_id > n then Inr (M2M_ERROR, T, v)
             else bind_res (fold_res (fetch_node dev_id) [1..n] (f, info, (T, 0), v))
                    (\<lambda>(f, info, (T, shm_location), v). Inr (M2M_SUCCESS, T, v))))"

definition m2m_topology_init ::
  "string option \<Rightarrow> string \<Rightarrow> int \<Rightarrow> topo \<times> VND \<Rightarrow> (M2M_ERR_T \<times> topo \<times> VND) res" where
  "m2m_topology_init topology_conf info dev_id st = (let (T, v) = st in
     node_infofetch topology_conf info dev_id
       (T\<lparr>TotalNetworkTypeDevice := (TotalNetworkTypeDevice T)(0 := 0, 1 := 0, 2 := 0),
          BeforeNetworkTypeDevice := (BeforeNetworkTypeDevice T)(0 := 0, 1 := 0, 2 := 0)\<rparr>, v))"

text \<open>The core a device is pinned to; \<open>ok\<close> is whether \<open>sched_setaffinity\<close> succeeded.\<close>

definition set_core_affinity :: "bool \<Rightarrow> VND \<Rightarrow> (M2M_ERR_T \<times> int) res" where
  "set_core_affinity ok v =
     (if ok then Inr (M2M_SUCCESS, DeviceID v mod ENV_CORE_NUM) else Inl Exit_process)"

definition topo0 :: topo where
  "topo0 = \<lparr>TotalNetworkTypeDevice = \<lambda>_. 0, BeforeNetworkTypeDevice = \<lambda>_. 0, NODE_MAP = \<lambda>_ _. 0,
     NODE_LOCATION = \<lambda>_ _. 0, NODE_TYPE = \<lambda>_. [], NODE_SHM_LOCATION = \<lambda>_. 0\<rparr>"

definition vnd0 :: VND where
  "vnd0 = \<lparr>DeviceID = 0, DeviceType = [NUL, NUL, NUL], TotalDeviceNum = 0, Position = \<lambda>_. 0,
     Neighbors = \<lambda>_. 0, NeighborNum = 0, Shared_memory_address = 0, TotalTransTimes = 0,
     TotalTransSendEventTimes = 0, TotalTransRecvEventTimes = 0, TotalPacketLossTimes = 0,
     TotalPacketTransTimes = 0\<rparr>"

section \<open>What the scanners change\<close>

lemma loc_loop_inv:
  assumes "loc_loop i s dm T = Inr (r, T')" and "P T"
    and "\<And>T d v. P T \<Longrightarrow> P (T\<lparr>NODE_LOCATION := (NODE_LOCATION T)(i := (NODE_LOCATION T i)(d := v))\<rparr>)"
  shows "P T'"
  using assms
proof (induction i s dm T rule: loc_loop.induct)
  case (1 i s dm T)
  show ?case
  proof (cases "s = [] \<or> hd s = CHR ''}''")
    case False
    then obtain flag acc rest where d: "digits False 0 s = Inr (flag, acc, rest)"
      using "1.prems"(1) by (auto simp: loc_loop.simps [of i s] split: sum.splits)
    note IH = "1.IH"(1) [OF False d refl refl] "1.IH"(2) [OF False d refl refl]
    show ?thesis
    proof (cases flag)
      case True
      then have "dm < 3" using "1.prems"(1) False d by (simp add: loc_loop.simps [of i s] split: if_splits)
      with True show ?thesis
        using "1.prems"(1) False d
        by (intro IH(1) "1.prems"(3)) (simp_all add: loc_loop.simps [of i s] "1.prems"(2))
    next
      case False
      then show ?thesis
        using "1.prems"(1) \<open>\<not> (s = [] \<or> hd s = CHR ''}'')\<close> d
        by (intro IH(2) "1.prems"(3)) (simp_all add: loc_loop.simps [of i s] "1.prems"(2))
    qed
  qed (use "1.prems" in \<open>simp add: loc_loop.simps\<close>)
qed

lemma link_loop_inv:
  assumes "link_loop i s T = Inr (r, T')" and "P T" and "\<And>T j. P T \<Longrightarrow> P (add_link i j T)"
  shows "P T'"
  using assms
proof (induction i s T rule: link_loop.induct)
  case (1 i s T)
  show ?case
  proof (cases "s = [] \<or> hd s = CHR ''}''")
    case False
    then obtain flag acc rest where d: "digits False 0 s = Inr (flag, acc, rest)"
      using "1.prems"(1) by (auto simp: link_loop.simps [of i s] split: sum.splits)
    note IH = "1.IH"(1) [OF False d refl refl] "1.IH"(2) [OF False d refl refl]
    show ?thesis
    proof (cases flag)
      case True
      then have "acc < MAX_NODE_NUM"
        using "1.prems"(1) False d by (simp add: link_loop.simps [of i s] split: if_splits)
      with True show ?thesis
        using "1.prems"(1) False d
        by (intro IH(1) "1.prems"(3)) (simp_all add: link_loop.simps [of i s] "1.prems"(2))
    next
      case False
      then show ?thesis
        using "1.prems"(1) \<open>\<not> (s = [] \<or> hd s = CHR ''}'')\<close> d
        by (intro IH(2) "1.prems"(3)) (simp_all add: link_loop.simps [of i s] "1.prems"(2))
    qed
  qed (use "1.prems" in \<open>simp add: link_loop.simps\<close>)
qed

lemma other_line_inv:
  assumes "other_line i k s T = Inr T'" and "P T" and "\<And>T j. P T \<Longrightarrow> P (add_link i j T)"
    and "\<And>T d v. P T \<Longrightarrow> P (T\<lparr>NODE_LOCATION := (NODE_LOCATION T)(i := (NODE_LOCATION T i)(d := v))\<rparr>)"
  shows "P T'"
  using assms
proof (induction i k s T rule: other_line.induct)
  case (2 i k c s T)
  consider "c \<noteq> CHR ''{''" | "c = CHR ''{''" "k = 0" | "c = CHR ''{''" "k \<noteq> 0" by blast
  then show ?case
  proof cases
    case 2
    then obtain r T1 where l: "loc_loop i s 0 T = Inr (r, T1)"
      using "2.prems"(1) by (auto split: sum.splits)
    have "P T1" by (rule loc_loop_inv [OF l "2.prems"(2,4)])
    then show ?thesis using "2.IH"(1) [OF 2 l refl _ _ "2.prems"(3,4)] "2.prems"(1) 2 l by simp
  next
    case 3
    then obtain r T1 where l: "link_loop i s T = Inr (r, T1)"
      using "2.prems"(1) by (auto split: sum.splits)
    have "P T1" by (rule link_loop_inv [OF l "2.prems"(2,3)])
    then show ?thesis using "2.IH"(2) [OF 3 l refl _ _ "2.prems"(3,4)] "2.prems"(1) 3 l by simp
  qed (use "2.IH"(3) "2.prems" in simp)
qed simp

text \<open>The device's own line changes no table but the locations.\<close>

definition noloc :: "topo \<Rightarrow> topo" where
  "noloc T = T\<lparr>NODE_LOCATION := \<lambda>_ _. 0\<rparr>"

definition nocfg :: "VND \<Rightarrow> VND" where
  "nocfg v = v\<lparr>DeviceType := [], Position := \<lambda>_. 0, Neighbors := \<lambda>_. 0, NeighborNum := 0\<rparr>"

lemma nocfg_fields:
  "nocfg v = nocfg v' \<Longrightarrow> DeviceID v = DeviceID v' \<and> TotalDeviceNum v = TotalDeviceNum v'"
  by (cases v; cases v') (simp add: nocfg_def)

lemma own_coord_frame:
  "own_coord i k st = Inr st' \<Longrightarrow>
     noloc (fst (snd st')) = noloc (fst (snd st)) \<and> nocfg (snd (snd st')) = nocfg (snd (snd st))"
  by (auto simp: own_coord_def noloc_def nocfg_def Let_def split: prod.splits)

lemma own_type_frame: "own_type s v = Inr (r, v') \<Longrightarrow> nocfg v' = nocfg v"
  by (auto simp: own_type_def nocfg_def Let_def split: if_splits)

lemma own_links_frame: "own_links k s v = Inr (r, v') \<Longrightarrow> nocfg v' = nocfg v"
proof (induction k s v rule: own_links.induct)
  case (1 k s v)
  note run = "1.prems" [unfolded own_links.simps [of k s v]]
  obtain acc rest where d: "digits_buf s = Inr (acc, rest)" using run by (auto split: sum.splits)
  with run have "k < 8" by (simp split: if_splits)
  show ?case
  proof (cases "hd rest = CHR '',''")
    case True
    then have "nocfg v' = nocfg (v\<lparr>Neighbors := (Neighbors v)(k := acc)\<rparr>)"
      using "1.IH" [OF d refl \<open>k < 8\<close> refl True] run d \<open>k < 8\<close> by simp
    then show ?thesis by (simp add: nocfg_def)
  next
    case False
    then show ?thesis using run d \<open>k < 8\<close> by (auto simp: nocfg_def)
  qed
qed

lemma noloc_fields:
  "noloc T = noloc T' \<Longrightarrow>
     NODE_MAP T = NODE_MAP T' \<and> NODE_TYPE T = NODE_TYPE T' \<and>
     NODE_SHM_LOCATION T = NODE_SHM_LOCATION T' \<and>
     TotalNetworkTypeDevice T = TotalNetworkTypeDevice T'"
  by (cases T; cases T') (simp add: noloc_def)

lemma own_line_frame:
  "own_line lens i k s st = Inr (T', v') \<Longrightarrow> noloc T' = noloc (fst st) \<and> nocfg v' = nocfg (snd st)"
proof (induction lens i k s st rule: own_line.induct)
  case (1 lens i k s st)
  note run = "1.prems" [unfolded own_line.simps [of lens i k s st]]
  consider "\<not> (40 - length s < lens \<and> s \<noteq> [])"
    | (ty) "40 - length s < lens \<and> s \<noteq> []" "hd s \<noteq> CHR '' '' \<and> k = 0"
    | (co) "40 - length s < lens \<and> s \<noteq> []" "hd s \<noteq> CHR '' '' \<and> k = 1"
    | (li) "40 - length s < lens \<and> s \<noteq> []" "hd s \<noteq> CHR '' '' \<and> k = 2"
    | (skip) "40 - length s < lens \<and> s \<noteq> []" "hd s = CHR '' '' \<or> k \<notin> {0, 1, 2}" by blast
  then show ?case
  proof cases
    case ty
    then show ?thesis
      using "1.IH"(1) [OF ty] run by (auto split: sum.splits dest: own_type_frame)
  next
    case co
    then obtain r T v where f: "fold_res (own_coord i) [0, 1, 2] (s, fst st, snd st) = Inr (r, T, v)"
      using run by (auto split: sum.splits)
    then have "noloc T = noloc (fst st) \<and> nocfg v = nocfg (snd st)" by (auto dest!: own_coord_frame)
    then show ?thesis
      using "1.IH"(2) [OF co(1) _ co(2) f refl refl] run co f by (simp del: fold_res.simps)
  next
    case li
    then show ?thesis
      using "1.IH"(3) [OF li(1) _ _ li(2)] run by (auto split: sum.splits dest: own_links_frame)
  next
    case skip
    then show ?thesis
      using "1.IH"(4) [OF skip(1)] run by auto
  qed (use run in \<open>auto split: if_splits\<close>)
qed

section \<open>The link map is symmetric\<close>

definition map_ok :: "topo \<Rightarrow> bool" where
  "map_ok T \<longleftrightarrow> (\<forall>i j. NODE_MAP T i j \<in> {0, 1} \<and> NODE_MAP T i j = NODE_MAP T j i)"

lemma map_ok_add_link: "map_ok T \<Longrightarrow> map_ok (add_link i j T)"
  by (auto simp: map_ok_def add_link_def Let_def)

lemma count_type_frame:
  "count_type c i (T, l) = (T', l') \<Longrightarrow>
     NODE_MAP T' = NODE_MAP T \<and> NODE_SHM_LOCATION T' = NODE_SHM_LOCATION T"
  by (auto simp: count_type_def split: if_splits)

lemma map_ok_fetch_node:
  assumes "fetch_node d i (f, b, (T, l), v) = Inr (f', b', (T', l'), v')" and "map_ok T"
  shows "map_ok T'"
proof (cases "i = d")
  case False
  then obtain b1 T1 where 1: "count_type (b1 ! 1) i (T\<lparr>NODE_SHM_LOCATION := (NODE_SHM_LOCATION T)(i := l)\<rparr>, l) = (T1, l')"
    "other_line i 0 (cstr b1) T1 = Inr T'"
    using assms(1) by (auto simp: fetch_node_def Let_def split: option.splits prod.splits)
  have "map_ok T1" using count_type_frame [OF 1(1)] assms(2) by (simp add: map_ok_def)
  then show ?thesis by (rule other_line_inv [OF 1(2)]) (erule map_ok_add_link, simp add: map_ok_def)
next
  case True
  then show ?thesis
    using assms
    by (auto simp: fetch_node_def Let_def map_ok_def split: option.splits prod.splits
        dest!: own_line_frame [THEN conjunct1] noloc_fields count_type_frame) blast+
qed

section \<open>Shared memory offsets\<close>

definition type_size :: "string \<Rightarrow> int" where
  "type_size ty = (if ty = ''ZC'' then COORDINATOR_SIZE else if ty = ''ZR'' then ROUTER_SIZE
     else if ty = ''ZED'' then END_DEVICE_SIZE else 0)"

lemma type_size_simps [simp]:
  "type_size [] = 0" "type_size ''ZC'' = COORDINATOR_SIZE" "type_size ''ZR'' = ROUTER_SIZE"
  "type_size ''ZED'' = END_DEVICE_SIZE"
  by (simp_all add: type_size_def)

definition reserved :: "topo \<Rightarrow> int" where
  "reserved T = TotalNetworkTypeDevice T 0 * COORDINATOR_SIZE +
     TotalNetworkTypeDevice T 1 * ROUTER_SIZE + TotalNetworkTypeDevice T 2 * END_DEVICE_SIZE"

lemma count_type_spec:
  assumes "count_type c i (T, l) = (T', l')" and "NODE_TYPE T i = []"
  shows "l' = l + type_size (NODE_TYPE T' i)"
    and "reserved T' = reserved T + type_size (NODE_TYPE T' i)"
    and "NODE_TYPE T' = (NODE_TYPE T)(i := NODE_TYPE T' i)"
    and "NODE_TYPE T' i \<in> {[], ''ZC'', ''ZR'', ''ZED''}"
  using assms by (auto simp: count_type_def reserved_def algebra_simps split: if_splits)

text \<open>After \<open>k\<close> devices: consecutive offsets, and the counters say what has been reserved.\<close>

definition shm_ok :: "int \<Rightarrow> topo \<Rightarrow> int \<Rightarrow> bool" where
  "shm_ok k T l \<longleftrightarrow>
     (\<forall>i \<in> {1..k}. NODE_SHM_LOCATION T i =
        (if i = 1 then 0 else NODE_SHM_LOCATION T (i - 1) + type_size (NODE_TYPE T (i - 1)))) \<and>
     l = (if k = 0 then 0 else NODE_SHM_LOCATION T k + type_size (NODE_TYPE T k)) \<and>
     l = reserved T \<and> (\<forall>i > k. NODE_TYPE T i = []) \<and>
     (\<forall>i. NODE_TYPE T i \<in> {[], ''ZC'', ''ZR'', ''ZED''})"

lemma shm_ok_count:
  assumes ok: "shm_ok (i - 1) T l" and i: "1 \<le> i"
    and c: "count_type c i (T\<lparr>NODE_SHM_LOCATION := (NODE_SHM_LOCATION T)(i := l)\<rparr>, l) = (T', l')"
  shows "shm_ok i T' l'"
proof -
  have "NODE_TYPE T i = []" using ok by (simp add: shm_ok_def)
  note spec = count_type_spec [OF c] and frame = count_type_frame [OF c]
  define ty where "ty = NODE_TYPE T' i"
  have ty: "NODE_TYPE T' = (NODE_TYPE T)(i := ty)" "l' = l + type_size ty"
    "reserved T' = reserved T + type_size ty" "ty \<in> {[], ''ZC'', ''ZR'', ''ZED''}"
    using spec \<open>NODE_TYPE T i = []\<close> by (simp_all add: ty_def reserved_def)
  have loc: "NODE_SHM_LOCATION T' = (NODE_SHM_LOCATION T)(i := l)" using frame by simp
  show ?thesis
    using ok i unfolding shm_ok_def ty(1-3) loc by (auto simp: ty(4) [simplified])
qed

lemma shm_ok_frame:
  assumes "NODE_TYPE T' = NODE_TYPE T" "NODE_SHM_LOCATION T' = NODE_SHM_LOCATION T"
    "TotalNetworkTypeDevice T' = TotalNetworkTypeDevice T"
  shows "shm_ok k T' l = shm_ok k T l"
  using assms by (simp add: shm_ok_def reserved_def)

lemma other_line_frame:
  assumes "other_line i k s T = Inr T'"
  shows "NODE_TYPE T' = NODE_TYPE T \<and> NODE_SHM_LOCATION T' = NODE_SHM_LOCATION T \<and>
    TotalNetworkTypeDevice T' = TotalNetworkTypeDevice T"
  by (rule other_line_inv [OF assms]) (simp_all add: add_link_def Let_def)

text \<open>The device's own line must be there: at the end of the file the code skips the type count.\<close>

lemma shm_ok_fetch_node:
  assumes "fetch_node d i (f, b, (T, l), v) = Inr (f', b', (T', l'), v')"
    and "shm_ok (i - 1) T l" and "1 \<le> i"
  shows "shm_ok i T' l'"
proof -
  let ?T = "T\<lparr>NODE_SHM_LOCATION := (NODE_SHM_LOCATION T)(i := l)\<rparr>"
  have none: "shm_ok i ?T l"
    using shm_ok_count [of i T l "CHR ''x''" ?T l] assms(2,3) by (simp add: count_type_def)
  show ?thesis
  proof (cases "i = d")
    case False
    then obtain b1 T1 where 1: "count_type (b1 ! 1) i (?T, l) = (T1, l')"
      "other_line i 0 (cstr b1) T1 = Inr T'"
      using assms(1) by (auto simp: fetch_node_def Let_def split: option.splits prod.splits)
    then show ?thesis
      using shm_ok_count [OF assms(2,3) 1(1)] shm_ok_frame [of T' T1] other_line_frame [OF 1(2)] by simp
  next
    case True
    let ?B = "\<lambda>T. T\<lparr>BeforeNetworkTypeDevice := (BeforeNetworkTypeDevice T)(0 := TotalNetworkTypeDevice T 0,
                    1 := TotalNetworkTypeDevice T 1, 2 := TotalNetworkTypeDevice T 2)\<rparr>"
    have run: "(T' = ?T \<and> l' = l) \<or> (\<exists>b1 f1 T1. fgets40 b f = Some (b1, f1) \<and>
        count_type (b1 ! 1) i (?B ?T, l) = (T1, l') \<and>
        own_line (length (cstr b1)) i 0 b1 (T1, v) = Inr (T', v'))"
      using assms(1) True by (auto simp: fetch_node_def Let_def split: option.splits prod.splits)
    then show ?thesis
    proof (elim disjE exE conjE)
      fix b1 f1 T1
      assume c: "count_type (b1 ! 1) i (?B ?T, l) = (T1, l')"
        and o: "own_line (length (cstr b1)) i 0 b1 (T1, v) = Inr (T', v')"
      have "shm_ok (i - 1) (?B T) l" using assms(2) shm_ok_frame [of "?B T" T] by simp
      moreover have "?B ?T = (?B T)\<lparr>NODE_SHM_LOCATION := (NODE_SHM_LOCATION (?B T))(i := l)\<rparr>"
        by (cases T) simp
      ultimately have "shm_ok i T1 l'"
        using shm_ok_count [of i "?B T" l "b1 ! 1" T1 l'] assms(3) c by metis
      then show ?thesis
        using noloc_fields [OF own_line_frame [OF o, THEN conjunct1]] shm_ok_frame [of T' T1] by simp
    qed (use none in simp)
  qed
qed

lemma fetch_node_vnd:
  assumes "fetch_node d i (f, b, (T, l), v) = Inr (f', b', (T', l'), v')"
  shows "nocfg v' = nocfg v"
  using assms
  by (auto simp: fetch_node_def Let_def split: option.splits prod.splits if_splits
      dest!: own_line_frame)

lemma node_infofetch_loop:
  assumes "node_infofetch conf info d (T, v) = Inr (M2M_SUCCESS, T', v')"
  shows "\<exists>f b v0 f' b' l'. fold_res (fetch_node d) [1..TotalDeviceNum v'] (f, b, (T, 0), v0)
       = Inr (f', b', (T', l'), v') \<and> DeviceID v' = d \<and> d \<le> TotalDeviceNum v'"
proof -
  obtain n f b f' b' l' where n: "d \<le> n" and
    loop: "fold_res (fetch_node d) [1..n] (f, b, (T, 0), v\<lparr>DeviceID := d, TotalDeviceNum := n\<rparr>)
       = Inr (f', b', (T', l'), v')"
    using assms by (auto simp: node_infofetch_def Let_def not_less split: option.splits if_splits)
  have "nocfg v' = nocfg (v\<lparr>DeviceID := d, TotalDeviceNum := n\<rparr>)"
    using fold_res_invariant [OF loop, of "\<lambda>st. nocfg (snd (snd (snd st))) = nocfg (v\<lparr>DeviceID := d, TotalDeviceNum := n\<rparr>)"]
      fetch_node_vnd by force
  then show ?thesis using nocfg_fields [of v'] loop n by fastforce
qed

section \<open>Well-formed lines are read back\<close>

fun show_nat :: "nat \<Rightarrow> string" where
  "show_nat n = (if n < 10 then [char_of (48 + n)]
     else show_nat (n div 10) @ [char_of (48 + n mod 10)])"

declare show_nat.simps [simp del]

fun print_links :: "nat list \<Rightarrow> string" where
  "print_links [] = []"
| "print_links [n] = show_nat n"
| "print_links (n # ns) = show_nat n @ CHR '','' # print_links ns"

definition print_line :: "string \<Rightarrow> nat \<times> nat \<times> nat \<Rightarrow> nat list \<Rightarrow> string" where
  "print_line ty p ns = (let (x, y, z) = p in
     ty @ '' {'' @ show_nat x @ '','' @ show_nat y @ '','' @ show_nat z @ ''} {'' @ print_links ns @ ''}'')"

lemma digit_char: "d < 10 \<Longrightarrow> digit (char_of (48 + d)) \<and> digit_val (char_of (48 + d)) = int d"
  by (simp add: digit_def digit_val_def less_eq_char_def)

lemma show_nat_hd: "show_nat n \<noteq> [] \<and> digit (hd (show_nat n))"
proof (induction n rule: show_nat.induct)
  case (1 n)
  then show ?case by (cases "n < 10") (simp_all add: show_nat.simps [of n] digit_char)
qed

lemma digits_show: "n < 2 ^ 31 \<Longrightarrow> digits f 0 (show_nat n @ s) = digits True (int n) s"
proof (induction n arbitrary: f s rule: show_nat.induct)
  case (1 n)
  show ?case
  proof (cases "n < 10")
    case True
    then show ?thesis by (simp add: show_nat.simps [of n] digit_char)
  next
    case False
    have "digits f 0 (show_nat n @ s) = digits True (int (n div 10)) (char_of (48 + n mod 10) # s)"
      using False "1.IH" [OF False, of f "char_of (48 + n mod 10) # s"] "1.prems"
      by (simp add: show_nat.simps [of n])
    moreover have "int (n div 10) * 10 + int (n mod 10) = int n"
      by (metis add.commute div_mult_mod_eq mult.commute of_nat_add of_nat_mult of_nat_numeral)
    ultimately show ?thesis using "1.prems" digit_char [of "n mod 10"] by simp
  qed
qed

lemma digits_show_end:
  assumes "n < 2 ^ 31" and "\<not> digit c"
  shows "digits f 0 (show_nat n @ c # s) = Inr (True, int n, c # s)"
  using digits_show [OF assms(1), of f "c # s"] assms(2) by simp

lemma nondigit [simp]:
  "\<not> digit (CHR '','')" "\<not> digit (CHR ''}'')" "\<not> digit (CHR '' '')" "\<not> digit (CHR ''{'')"
  by (simp_all add: digit_def less_eq_char_def)

lemma show_nat_neq:
  "\<not> digit c \<Longrightarrow> show_nat n @ s \<noteq> [] \<and> hd (show_nat n @ s) \<noteq> c"
  using show_nat_hd [of n] by auto

lemma loc_loop_num:
  assumes "n < 2 ^ 31" and "dm < 3" and "\<not> digit c"
  shows "loc_loop i (show_nat n @ c # s) dm T = loc_loop i (c # s) (dm + 1)
    (T\<lparr>NODE_LOCATION := (NODE_LOCATION T)(i := (NODE_LOCATION T i)(dm := int n))\<rparr>)"
  using assms digits_show_end [OF assms(1,3)] show_nat_neq [of "CHR ''}''" n "c # s"]
  by (subst loc_loop.simps) auto

lemma loc_loop_skip [simp]: "loc_loop i (CHR '','' # s) dm T = loc_loop i s dm T"
  by (subst loc_loop.simps) simp

lemma loc_loop_stop [simp]: "loc_loop i (CHR ''}'' # s) dm T = Inr (CHR ''}'' # s, T)"
  by (subst loc_loop.simps) simp

lemma link_loop_stop [simp]: "link_loop i (CHR ''}'' # s) T = Inr (CHR ''}'' # s, T)"
  by (subst link_loop.simps) simp

lemma link_loop_num:
  assumes "n < 100" and "\<not> digit c"
  shows "link_loop i (show_nat n @ c # s) T = link_loop i (c # s) (add_link i (int n) T)"
  using assms digits_show_end [of n c False s] show_nat_neq [of "CHR ''}''" n "c # s"]
  by (subst link_loop.simps) (auto simp: MAX_NODE_NUM_def)

lemma link_loop_skip [simp]: "link_loop i (CHR '','' # s) T = link_loop i s T"
  by (subst link_loop.simps) simp

lemma link_loop_print:
  "\<forall>n \<in> set ns. n < 100 \<Longrightarrow>
   link_loop i (print_links ns @ CHR ''}'' # s) T =
     Inr (CHR ''}'' # s, fold (\<lambda>n. add_link i (int n)) ns T)"
  by (induction ns arbitrary: T rule: print_links.induct) (auto simp: link_loop_num)

lemma other_line_skip:
  "CHR ''{'' \<notin> set s \<Longrightarrow> other_line i k (s @ r) T = other_line i k r T"
  by (induction s) auto

lemma other_line_print:
  assumes "x < 2 ^ 31" "y < 2 ^ 31" "z < 2 ^ 31" and "\<forall>n \<in> set ns. n < 100"
    and "CHR ''{'' \<notin> set ty" and "CHR ''{'' \<notin> set r"
  shows "other_line i 0 (print_line ty (x, y, z) ns @ r) T =
    Inr (fold (\<lambda>n. add_link i (int n)) ns
      (T\<lparr>NODE_LOCATION := (NODE_LOCATION T)(i :=
          (NODE_LOCATION T i)(0 := int x, 1 := int y, 2 := int z))\<rparr>))"
  using assms other_line_skip [of r i "Suc 0" "[]"]
  by (simp add: print_line_def other_line_skip loc_loop_num link_loop_print)

lemma digits_buf_show:
  "n < 2 ^ 31 \<Longrightarrow> \<not> digit c \<Longrightarrow> digits_buf (show_nat n @ c # s) = Inr (int n, c # s)"
  by (simp add: digits_buf_def digits_show_end)

primrec set_neighbors :: "int \<Rightarrow> nat list \<Rightarrow> (int \<Rightarrow> int) \<Rightarrow> int \<Rightarrow> int" where
  "set_neighbors k [] N = N"
| "set_neighbors k (n # ns) N = set_neighbors (k + 1) ns (N(k := int n))"

lemma set_neighbors_below: "i < k \<Longrightarrow> set_neighbors k ns N i = N i"
  by (induction ns arbitrary: k N) auto

lemma set_neighbors_nth: "j < length ns \<Longrightarrow> set_neighbors k ns N (k + int j) = int (ns ! j)"
proof (induction ns arbitrary: k N j)
  case (Cons n ns)
  show ?case
  proof (cases j)
    case (Suc j')
    then have "k + int j = (k + 1) + int j'" by simp
    then show ?thesis using Cons Suc by (simp only: set_neighbors.simps) auto
  qed (simp add: set_neighbors_below)
qed simp

lemma own_links_print:
  assumes "ns \<noteq> []" and "\<forall>n \<in> set ns. n < 2 ^ 31" and "k + int (length ns) \<le> 8"
  shows "own_links k (print_links ns @ CHR ''}'' # s) v =
    Inr (CHR ''}'' # s, v\<lparr>Neighbors := set_neighbors k ns (Neighbors v), NeighborNum := k + int (length ns)\<rparr>)"
  using assms
proof (induction ns arbitrary: k v rule: print_links.induct)
  case (2 n)
  then show ?case by (subst own_links.simps) (simp add: digits_buf_show)
next
  case (3 n m ns)
  let ?v = "v\<lparr>Neighbors := (Neighbors v)(k := int n)\<rparr>"
  have "own_links k (print_links (n # m # ns) @ CHR ''}'' # s) v =
        own_links (k + 1) (print_links (m # ns) @ CHR ''}'' # s) ?v"
    using "3.prems" by (subst own_links.simps) (simp add: digits_buf_show)
  also have "\<dots> = Inr (CHR ''}'' # s, ?v\<lparr>Neighbors := set_neighbors (k + 1) (m # ns) (Neighbors ?v),
      NeighborNum := k + 1 + int (length (m # ns))\<rparr>)"
    using "3.prems" by (intro "3.IH") auto
  finally show ?case by (simp add: ac_simps)
qed simp

lemma own_line_done: "own_line lens i 3 s st = Inr st"
proof (induction s)
  case (Cons c s)
  then show ?case by (subst own_line.simps) simp
qed (simp add: own_line.simps)

text \<open>The three coordinates, with the braces around them.\<close>

lemma own_coords_print:
  assumes "x < 2 ^ 31" "y < 2 ^ 31" "z < 2 ^ 31"
  shows "fold_res (own_coord i) [0, 1, 2]
      (show_nat x @ CHR '','' # show_nat y @ CHR '','' # show_nat z @ CHR ''}'' # c # s, T, v) =
    Inr (s, T\<lparr>NODE_LOCATION := (NODE_LOCATION T)(i :=
          (NODE_LOCATION T i)(0 := int x, 1 := int y, 2 := int z))\<rparr>,
         v\<lparr>Position := (Position v)(0 := int x, 1 := int y, 2 := int z)\<rparr>)"
  using assms by (simp add: own_coord_def digits_buf_show Let_def)

lemma own_type_print:
  assumes "ty \<in> {''ZC'', ''ZR'', ''ZED''}" and "DeviceType v = [NUL, NUL, NUL]"
  shows "\<exists>dt. own_type (ty @ CHR '' '' # s) v = Inr (s, v\<lparr>DeviceType := dt\<rparr>) \<and> cstr dt = ty"
  using assms by (auto simp: own_type_def rd_def Let_def cstr_def NUL_def)

lemma own_line_print:
  assumes "x < 2 ^ 31" "y < 2 ^ 31" "z < 2 ^ 31" and "\<forall>n \<in> set ns. n < 2 ^ 31"
    and "ns \<noteq> []" "length ns \<le> 8" and "ty \<in> {''ZC'', ''ZR'', ''ZED''}"
    and "DeviceType v = [NUL, NUL, NUL]"
    and "length (print_line ty (x, y, z) ns @ r) = 40" and "length (print_line ty (x, y, z) ns) \<le> lens"
  shows "\<exists>dt. own_line lens i 0 (print_line ty (x, y, z) ns @ r) (T, v) =
    Inr (T\<lparr>NODE_LOCATION := (NODE_LOCATION T)(i :=
          (NODE_LOCATION T i)(0 := int x, 1 := int y, 2 := int z))\<rparr>,
         v\<lparr>DeviceType := dt, Position := (Position v)(0 := int x, 1 := int y, 2 := int z),
           Neighbors := set_neighbors 0 ns (Neighbors v), NeighborNum := int (length ns)\<rparr>) \<and>
    cstr dt = ty"
proof -
  let ?links = "print_links ns @ CHR ''}'' # r"
  let ?loc = "show_nat x @ CHR '','' # show_nat y @ CHR '','' # show_nat z @ CHR ''}'' # CHR '' '' # CHR ''{'' # ?links"
  have l: "print_line ty (x, y, z) ns @ r = ty @ CHR '' '' # CHR ''{'' # ?loc"
    by (simp add: print_line_def)
  obtain dt where dt: "own_type (ty @ CHR '' '' # CHR ''{'' # ?loc) v = Inr (CHR ''{'' # ?loc, v\<lparr>DeviceType := dt\<rparr>)"
    "cstr dt = ty"
    using own_type_print [OF assms(7,8), of "CHR ''{'' # ?loc"] by blast
  let ?T = "T\<lparr>NODE_LOCATION := (NODE_LOCATION T)(i :=
          (NODE_LOCATION T i)(0 := int x, 1 := int y, 2 := int z))\<rparr>"
  let ?v = "v\<lparr>DeviceType := dt, Position := (Position v)(0 := int x, 1 := int y, 2 := int z)\<rparr>"
  have len: "length (ty @ CHR '' '' # CHR ''{'' # ?loc) = 40" using assms(9) unfolding l .
  have lens: "40 - length r \<le> lens" using assms(9,10) by simp
  have "own_line lens i 0 (ty @ CHR '' '' # CHR ''{'' # ?loc) (T, v) =
      own_line lens i 1 ?loc (T, v\<lparr>DeviceType := dt\<rparr>)"
    using dt(1) len lens assms(7) by (subst own_line.simps) auto
  also have "\<dots> = own_line lens i 2 ?links (?T, ?v)"
    using own_coords_print [OF assms(1-3), of i "CHR '' ''" "CHR ''{'' # ?links" T "v\<lparr>DeviceType := dt\<rparr>"]
      len lens show_nat_neq [of "CHR '' ''" x] by (subst own_line.simps) (auto simp del: fold_res.simps)
  also have "\<dots> = Inr (?T, ?v\<lparr>Neighbors := set_neighbors 0 ns (Neighbors v), NeighborNum := int (length ns)\<rparr>)"
  proof -
    have "hd ?links \<noteq> CHR '' ''"
      using assms(5) show_nat_neq [of "CHR '' ''"] by (cases ns rule: print_links.cases) auto
    then show ?thesis
      using own_links_print [OF assms(5,4), of 0 r ?v] assms(6) len lens own_line_done
      by (subst own_line.simps) auto
  qed
  finally show ?thesis using dt(2) unfolding l by auto
qed

section \<open>Reading back a whole file\<close>

definition nl :: string where "nl = [newline]"

type_synonym dev = "string \<times> (nat \<times> nat \<times> nat) \<times> nat list"

definition print_dev :: "dev \<Rightarrow> string" where
  "print_dev D = (let (ty, p, ns) = D in print_line ty p ns @ nl)"

definition print_conf :: "dev list \<Rightarrow> string" where
  "print_conf ds = show_nat (length ds) @ nl @ concat (map print_dev ds)"

definition dev_ok :: "dev \<Rightarrow> bool" where
  "dev_ok D = (let (ty, (x, y, z), ns) = D in
     ty \<in> {''ZC'', ''ZR'', ''ZED''} \<and> x < 2 ^ 31 \<and> y < 2 ^ 31 \<and> z < 2 ^ 31 \<and>
     ns \<noteq> [] \<and> length ns \<le> 8 \<and> (\<forall>n \<in> set ns. n < 100) \<and> length (print_line ty (x, y, z) ns) \<le> 38)"

lemma show_nat_digits: "c \<in> set (show_nat n) \<Longrightarrow> digit c"
proof (induction n rule: show_nat.induct)
  case (1 n)
  then show ?case
    by (cases "n < 10") (auto simp: show_nat.simps [of n] digit_char)
qed

lemma nondigit_ctl: "\<not> digit newline" "\<not> digit NUL"
  by (simp_all add: digit_def less_eq_char_def newline_def NUL_def)

lemma print_links_clean: "c \<in> set (print_links ns) \<Longrightarrow> digit c \<or> c = CHR '',''"
  by (induction ns rule: print_links.induct) (auto dest: show_nat_digits)

lemma print_line_chars:
  "c \<in> set (print_line ty p ns) \<Longrightarrow>
     c \<in> set ty \<or> digit c \<or> c \<in> {CHR '' '', CHR ''{'', CHR '','', CHR ''}''}"
  by (auto simp: print_line_def split: prod.splits dest: show_nat_digits print_links_clean)

lemma print_line_clean:
  assumes "ty \<in> {''ZC'', ''ZR'', ''ZED''}"
  shows "newline \<notin> set (print_line ty p ns)" "NUL \<notin> set (print_line ty p ns)"
proof -
  have "newline \<notin> set ty" "NUL \<notin> set ty" using assms by (auto simp: newline_def NUL_def)
  then show "newline \<notin> set (print_line ty p ns)" "NUL \<notin> set (print_line ty p ns)"
    using print_line_chars [of newline ty p ns] print_line_chars [of NUL ty p ns] nondigit_ctl
    unfolding newline_def NUL_def by auto
qed

lemma fgets40_line:
  assumes "newline \<notin> set s" and "length s \<le> 38"
  shows "fgets40 info (s @ nl @ f) = Some (s @ nl @ NUL # drop (length s + 2) info, f)"
proof -
  have "takeWhile (\<lambda>c. c \<noteq> newline) (s @ nl @ f) = s"
    using assms(1) by (simp add: nl_def takeWhile_append)
  then show ?thesis using assms(2) by (simp add: fgets40_def nl_def)
qed

lemma cstr_line: "NUL \<notin> set s \<Longrightarrow> cstr (s @ nl @ NUL # r) = s @ nl"
  by (auto simp: cstr_def nl_def NUL_def newline_def takeWhile_append)

text \<open>The links that the lines of the first \<open>k\<close> devices other than \<open>d\<close> describe.\<close>

definition linked :: "dev list \<Rightarrow> int \<Rightarrow> int \<Rightarrow> int \<Rightarrow> int \<Rightarrow> bool" where
  "linked ds d k a b \<longleftrightarrow>
     a \<in> {1..k} \<and> a \<noteq> d \<and> b \<in> int ` set (snd (snd (ds ! nat (a - 1)))) \<or>
     b \<in> {1..k} \<and> b \<noteq> d \<and> a \<in> int ` set (snd (snd (ds ! nat (b - 1))))"

definition loc_list :: "dev \<Rightarrow> int list" where
  "loc_list D = (let (ty, (x, y, z), ns) = D in [int x, int y, int z])"

definition tables_of :: "dev list \<Rightarrow> int \<Rightarrow> int \<Rightarrow> topo \<Rightarrow> bool" where
  "tables_of ds d k T \<longleftrightarrow>
     (\<forall>i \<in> {1..k}. NODE_TYPE T i = fst (ds ! nat (i - 1)) \<and>
                    map (NODE_LOCATION T i) [0, 1, 2] = loc_list (ds ! nat (i - 1))) \<and>
     (\<forall>a b. NODE_MAP T a b = (if linked ds d k a b then 1 else 0))"

definition device_of :: "dev \<Rightarrow> VND \<Rightarrow> bool" where
  "device_of D v \<longleftrightarrow> cstr (DeviceType v) = fst D \<and> map (Position v) [0, 1, 2] = loc_list D \<and>
     NeighborNum v = int (length (snd (snd D))) \<and>
     map (Neighbors v) [0..int (length (snd (snd D))) - 1] = map int (snd (snd D))"

lemma count_type_ty:
  assumes "ty \<in> {''ZC'', ''ZR'', ''ZED''}"
  shows "\<exists>T' l'. count_type (ty ! 1) i (T, l) = (T', l') \<and> NODE_TYPE T' = (NODE_TYPE T)(i := ty) \<and>
     NODE_MAP T' = NODE_MAP T \<and> NODE_LOCATION T' = NODE_LOCATION T"
  using assms by (auto simp: count_type_def)

lemma print_line_nth1: "ty \<in> {''ZC'', ''ZR'', ''ZED''} \<Longrightarrow> (print_line ty p ns @ r) ! 1 = ty ! 1"
  by (auto simp: print_line_def split: prod.splits)

lemma add_links_map:
  "NODE_MAP (fold (\<lambda>n. add_link i (int n)) ns T) a b =
      (if a = i \<and> b \<in> int ` set ns \<or> b = i \<and> a \<in> int ` set ns then 1 else NODE_MAP T a b)"
  "NODE_LOCATION (fold (\<lambda>n. add_link i (int n)) ns T) = NODE_LOCATION T"
  "NODE_TYPE (fold (\<lambda>n. add_link i (int n)) ns T) = NODE_TYPE T"
  by (induction ns arbitrary: T) (auto simp: add_link_def Let_def)

lemma fetch_other_dev:
  assumes ok: "dev_ok (ty, (x, y, z), ns)" and i: "i \<noteq> d" "i < 100" and b: "length info = 40"
  shows "\<exists>buf T' l'. fetch_node d i (print_dev (ty, (x, y, z), ns) @ f, info, (T, l), v) = Inr (f, buf, (T', l'), v) \<and>
     length buf = 40 \<and> NODE_TYPE T' = (NODE_TYPE T)(i := ty) \<and>
     NODE_LOCATION T' = (NODE_LOCATION T)(i := (NODE_LOCATION T i)(0 := int x, 1 := int y, 2 := int z)) \<and>
     (\<forall>a b. NODE_MAP T' a b = (if a = i \<and> b \<in> int ` set ns \<or> b = i \<and> a \<in> int ` set ns then 1 else NODE_MAP T a b))"
proof -
  let ?s = "print_line ty (x, y, z) ns" and ?T = "T\<lparr>NODE_SHM_LOCATION := (NODE_SHM_LOCATION T)(i := l)\<rparr>"
  let ?buf = "?s @ nl @ NUL # drop (length ?s + 2) info"
  have ty: "ty \<in> {''ZC'', ''ZR'', ''ZED''}" and len: "length ?s \<le> 38" using ok by (simp_all add: dev_ok_def)
  note clean = print_line_clean [OF ty, of "(x, y, z)" ns]
  obtain T1 l' where c: "count_type (?buf ! 1) i (?T, l) = (T1, l')" "NODE_TYPE T1 = (NODE_TYPE T)(i := ty)"
    "NODE_MAP T1 = NODE_MAP T" "NODE_LOCATION T1 = NODE_LOCATION T"
    using count_type_ty [OF ty, of i ?T l] print_line_nth1 [OF ty, of "(x, y, z)" ns] by fastforce
  have "CHR ''{'' \<notin> set ty" "CHR ''{'' \<notin> set nl" using ty by (auto simp: nl_def newline_def)
  then have o: "other_line i 0 (cstr ?buf) T1 = Inr (fold (\<lambda>n. add_link i (int n)) ns
      (T1\<lparr>NODE_LOCATION := (NODE_LOCATION T1)(i := (NODE_LOCATION T1 i)(0 := int x, 1 := int y, 2 := int z))\<rparr>))"
    unfolding cstr_line [OF clean(2)] using ok by (intro other_line_print) (auto simp: dev_ok_def)
  have "fetch_node d i (print_dev (ty, (x, y, z), ns) @ f, info, (T, l), v) =
      Inr (f, ?buf, (fold (\<lambda>n. add_link i (int n)) ns
      (T1\<lparr>NODE_LOCATION := (NODE_LOCATION T1)(i := (NODE_LOCATION T1 i)(0 := int x, 1 := int y, 2 := int z))\<rparr>), l'), v)"
    using fgets40_line [OF clean(1) len, of info f] i c(1) o
    by (simp add: fetch_node_def print_dev_def MAX_NODE_NUM_def)
  moreover have "length ?buf = 40" using len b by (simp add: nl_def)
  ultimately show ?thesis by (auto simp: add_links_map c(2-4))
qed

lemma fetch_own_dev:
  assumes ok: "dev_ok (ty, (x, y, z), ns)" and i: "d < 100" and b: "length info = 40"
    and v: "DeviceType v = [NUL, NUL, NUL]"
  shows "\<exists>buf T' l' v'. fetch_node d d (print_dev (ty, (x, y, z), ns) @ f, info, (T, l), v) = Inr (f, buf, (T', l'), v') \<and>
     length buf = 40 \<and> NODE_TYPE T' = (NODE_TYPE T)(d := ty) \<and>
     NODE_LOCATION T' = (NODE_LOCATION T)(d := (NODE_LOCATION T d)(0 := int x, 1 := int y, 2 := int z)) \<and>
     NODE_MAP T' = NODE_MAP T \<and> device_of (ty, (x, y, z), ns) v'"
proof -
  let ?s = "print_line ty (x, y, z) ns" and ?T = "T\<lparr>NODE_SHM_LOCATION := (NODE_SHM_LOCATION T)(d := l)\<rparr>"
  let ?B = "?T\<lparr>BeforeNetworkTypeDevice := (BeforeNetworkTypeDevice ?T)(0 := TotalNetworkTypeDevice ?T 0,
                    1 := TotalNetworkTypeDevice ?T 1, 2 := TotalNetworkTypeDevice ?T 2)\<rparr>"
  let ?r = "nl @ NUL # drop (length ?s + 2) info"
  have ty: "ty \<in> {''ZC'', ''ZR'', ''ZED''}" and len: "length ?s \<le> 38" using ok by (simp_all add: dev_ok_def)
  note clean = print_line_clean [OF ty, of "(x, y, z)" ns]
  obtain T1 l' where c: "count_type ((?s @ ?r) ! 1) d (?B, l) = (T1, l')" "NODE_TYPE T1 = (NODE_TYPE T)(d := ty)"
    "NODE_MAP T1 = NODE_MAP T" "NODE_LOCATION T1 = NODE_LOCATION T"
    using count_type_ty [OF ty, of d ?B l] print_line_nth1 [OF ty, of "(x, y, z)" ns] by fastforce
  have len40: "length (?s @ ?r) = 40" using len b by (simp add: nl_def)
  have cs: "length (cstr (?s @ ?r)) = length ?s + 1" unfolding cstr_line [OF clean(2)] by (simp add: nl_def)
  have xyz: "x < 2 ^ 31" "y < 2 ^ 31" "z < 2 ^ 31" and ns: "ns \<noteq> []" "length ns \<le> 8"
    and nsb: "\<forall>n \<in> set ns. n < 2 ^ 31"
    using ok by (auto simp: dev_ok_def)
  obtain dt where o: "own_line (length ?s + 1) d 0 (?s @ ?r) (T1, v) =
    Inr (T1\<lparr>NODE_LOCATION := (NODE_LOCATION T1)(d := (NODE_LOCATION T1 d)(0 := int x, 1 := int y, 2 := int z))\<rparr>,
         v\<lparr>DeviceType := dt, Position := (Position v)(0 := int x, 1 := int y, 2 := int z),
           Neighbors := set_neighbors 0 ns (Neighbors v), NeighborNum := int (length ns)\<rparr>)" "cstr dt = ty"
    using own_line_print [OF xyz nsb ns ty v len40, of "length ?s + 1" d T1] by auto
  have nb: "map (set_neighbors 0 ns (Neighbors v)) [0..int (length ns) - 1] = map int ns"
    using set_neighbors_nth [of _ ns 0 "Neighbors v"] by (intro nth_equalityI) auto
  show ?thesis
    using fgets40_line [OF clean(1) len, of info f] i c cs o nb len40
    by (simp add: fetch_node_def print_dev_def MAX_NODE_NUM_def device_of_def loc_list_def)
qed

lemma linked_step:
  assumes "1 \<le> k" and "ds ! nat (k - 1) = (ty, p, ns)"
  shows "linked ds d k a b \<longleftrightarrow> linked ds d (k - 1) a b \<or>
    k \<noteq> d \<and> (a = k \<and> b \<in> int ` set ns \<or> b = k \<and> a \<in> int ` set ns)"
proof -
  have "\<And>a. a \<in> {1..k} \<longleftrightarrow> a \<in> {1..k - 1} \<or> a = k" using assms(1) by auto
  then show ?thesis using assms(2) unfolding linked_def by (metis snd_conv)
qed

lemma tables_of_step:
  assumes "tables_of ds d (k - 1) T" and "1 \<le> k" and "ds ! nat (k - 1) = (ty, (x, y, z), ns)"
    and "NODE_TYPE T' = (NODE_TYPE T)(k := ty)"
    and "NODE_LOCATION T' = (NODE_LOCATION T)(k := (NODE_LOCATION T k)(0 := int x, 1 := int y, 2 := int z))"
    and "\<forall>a b. NODE_MAP T' a b =
      (if k \<noteq> d \<and> (a = k \<and> b \<in> int ` set ns \<or> b = k \<and> a \<in> int ` set ns) then 1 else NODE_MAP T a b)"
  shows "tables_of ds d k T'"
proof -
  have "NODE_TYPE T' i = fst (ds ! nat (i - 1)) \<and> map (NODE_LOCATION T' i) [0, 1, 2] = loc_list (ds ! nat (i - 1))"
    if "i \<in> {1..k}" for i
    using that assms(1) unfolding assms(4,5) tables_of_def
    by (cases "i = k") (simp_all add: assms(3) loc_list_def)
  moreover have "NODE_MAP T' a b = (if linked ds d k a b then 1 else 0)" for a b
    unfolding linked_step [OF assms(2,3)] using assms(1,6) unfolding tables_of_def by simp
  ultimately show ?thesis unfolding tables_of_def by blast
qed

definition fetch_inv :: "dev list \<Rightarrow> int \<Rightarrow> VND \<Rightarrow> int \<Rightarrow> fetch_state \<Rightarrow> bool" where
  "fetch_inv ds d v0 k st = (let (f, info, (T, l), v) = st in
     f = concat (map print_dev (drop (nat k) ds)) \<and> length info = 40 \<and> tables_of ds d k T \<and>
     nocfg v = nocfg v0 \<and>
     (if d \<le> k then device_of (ds ! nat (d - 1)) v else DeviceType v = [NUL, NUL, NUL]))"

lemma fetch_inv_step:
  assumes "\<forall>D \<in> set ds. dev_ok D" and "length ds < 100" and k: "1 \<le> k" "k \<le> int (length ds)"
    and inv: "fetch_inv ds d v0 (k - 1) st"
  shows "\<exists>st'. fetch_node d k st = Inr st' \<and> fetch_inv ds d v0 k st'"
proof -
  obtain ty x y z ns where D: "ds ! nat (k - 1) = (ty, (x, y, z), ns)" by (cases "ds ! nat (k - 1)") auto
  have ix: "nat (k - 1) < length ds" "Suc (nat (k - 1)) = nat k" using k by auto
  then have ok: "dev_ok (ty, (x, y, z), ns)" using assms(1) D nth_mem by metis
  let ?f = "concat (map print_dev (drop (nat k) ds))"
  have drop: "drop (nat (k - 1)) ds = (ty, (x, y, z), ns) # drop (nat k) ds"
    using Cons_nth_drop_Suc [OF ix(1)] D ix(2) by simp
  obtain info T l v where st: "st = (print_dev (ty, (x, y, z), ns) @ ?f, info, (T, l), v)"
    and I: "length info = 40" "tables_of ds d (k - 1) T" "nocfg v = nocfg v0"
      "if d \<le> k - 1 then device_of (ds ! nat (d - 1)) v else DeviceType v = [NUL, NUL, NUL]"
    using inv drop unfolding fetch_inv_def by (cases st) auto
  have "k < 100" using k assms(2) by simp
  show ?thesis
  proof (cases "k = d")
    case False
    from fetch_other_dev [OF ok False \<open>k < 100\<close> I(1), of ?f T l v] obtain buf T' l' where
      f: "fetch_node d k st = Inr (?f, buf, (T', l'), v)" "length buf = 40"
      "NODE_TYPE T' = (NODE_TYPE T)(k := ty)"
      "NODE_LOCATION T' = (NODE_LOCATION T)(k := (NODE_LOCATION T k)(0 := int x, 1 := int y, 2 := int z))"
      "\<forall>a b. NODE_MAP T' a b = (if a = k \<and> b \<in> int ` set ns \<or> b = k \<and> a \<in> int ` set ns then 1 else NODE_MAP T a b)"
      unfolding st by blast
    have "tables_of ds d k T'" by (rule tables_of_step [OF I(2) k(1) D f(3,4)]) (use f(5) False in simp)
    then show ?thesis using f(1,2) I(3,4) False by (auto simp: fetch_inv_def split: if_splits)
  next
    case True
    then have v: "DeviceType v = [NUL, NUL, NUL]" using I(4) by simp
    from fetch_own_dev [OF ok _ I(1) v, of d ?f T l] True \<open>k < 100\<close> obtain buf T' l' v' where
      f: "fetch_node d k st = Inr (?f, buf, (T', l'), v')" "length buf = 40"
      "NODE_TYPE T' = (NODE_TYPE T)(k := ty)"
      "NODE_LOCATION T' = (NODE_LOCATION T)(k := (NODE_LOCATION T k)(0 := int x, 1 := int y, 2 := int z))"
      "NODE_MAP T' = NODE_MAP T" "device_of (ty, (x, y, z), ns) v'"
      unfolding st by blast
    have "tables_of ds d k T'" by (rule tables_of_step [OF I(2) k(1) D f(3,4)]) (use f(5) True in simp)
    moreover have "nocfg v' = nocfg v0" using fetch_node_vnd f(1) I(3) unfolding st by metis
    ultimately show ?thesis using f(1,2,6) D True by (auto simp: fetch_inv_def)
  qed
qed

lemma atoi_show:
  assumes "n < 100"
  shows "atoi (show_nat n @ nl) = Inr (int n)" "length (show_nat n) \<le> 38"
    "newline \<notin> set (show_nat n)" "NUL \<notin> set (show_nat n)"
proof -
  obtain c r where c: "show_nat n = c # r" "digit c" using show_nat_hd [of n] by (cases "show_nat n") auto
  then have "\<not> c_isspace c" "c \<noteq> CHR ''-''" "c \<noteq> CHR ''+''"
    by (auto simp: c_isspace_def digit_def less_eq_char_def)
  then show "atoi (show_nat n @ nl) = Inr (int n)"
    using digits_show_end [of n newline False "[]"] assms c nondigit_ctl by (simp add: atoi_def nl_def)
  show "length (show_nat n) \<le> 38"
    using assms by (auto simp: show_nat.simps [of n] show_nat.simps [of "n div 10"])
  show "newline \<notin> set (show_nat n)" "NUL \<notin> set (show_nat n)"
    using show_nat_digits nondigit_ctl by blast+
qed

section \<open>Properties of the topology\<close>

text \<open>The first network of \<^verbatim>\<open>m2m_app/topology.conf\<close>.\<close>

definition conf3 :: "dev list" where
  "conf3 = [(''ZC'', (100, 100, 124), [2]), (''ZR'', (200, 100, 0), [1, 3]), (''ZED'', (150, 100, 0), [2])]"

lemma conf3_dev_ok: "\<forall>D \<in> set conf3. dev_ok D"
  by (simp add: conf3_def dev_ok_def) (simp add: print_line_def show_nat.simps)

lemma topology_readback:
  assumes "\<forall>D \<in> set ds. dev_ok D" and "length ds < 100" and "1 \<le> d" "d \<le> int (length ds)"
    and "length info = 40"
  shows "\<exists>T' v'. m2m_topology_init (Some (print_conf ds)) info d (topo0, vnd0) = Inr (M2M_SUCCESS, T', v') \<and>
     DeviceID v' = d \<and> TotalDeviceNum v' = int (length ds) \<and>
     tables_of ds d (int (length ds)) T' \<and> device_of (ds ! nat (d - 1)) v'"
proof -
  let ?n = "int (length ds)" and ?f = "concat (map print_dev ds)"
  let ?v0 = "vnd0\<lparr>DeviceID := d, TotalDeviceNum := ?n\<rparr>"
  note num = atoi_show [OF assms(2)]
  let ?T = "topo0\<lparr>TotalNetworkTypeDevice := (TotalNetworkTypeDevice topo0)(0 := 0, 1 := 0, 2 := 0),
          BeforeNetworkTypeDevice := (BeforeNetworkTypeDevice topo0)(0 := 0, 1 := 0, 2 := 0)\<rparr>"
  let ?buf = "show_nat (length ds) @ nl @ NUL # drop (length (show_nat (length ds)) + 2) info"
  have g: "fgets40 info (print_conf ds) = Some (?buf, ?f)"
    using fgets40_line [OF num(3,2), of info ?f] by (simp add: print_conf_def)
  have "fetch_inv ds d ?v0 (1 - 1) (?f, ?buf, (?T, 0), ?v0)"
    using num(2) assms(3,5) by (simp add: fetch_inv_def tables_of_def linked_def topo0_def vnd0_def nl_def)
  then obtain st where
    st: "fold_res (fetch_node d) [1..?n] (?f, ?buf, (?T, 0), ?v0) = Inr st" "fetch_inv ds d ?v0 ?n st"
    using fold_res_upto_total [of 1 ?n "fetch_inv ds d ?v0" "(?f, ?buf, (?T, 0), ?v0)" "fetch_node d"]
      fetch_inv_step [OF assms(1,2)] by auto
  obtain f' b' T' l' v' where st': "st = (f', b', (T', l'), v')" by (cases st) auto
  have "m2m_topology_init (Some (print_conf ds)) info d (topo0, vnd0) = Inr (M2M_SUCCESS, T', v')"
    using g num(1) cstr_line [OF num(4)] st(1) st' assms(4)
    by (simp add: m2m_topology_init_def node_infofetch_def)
  moreover have "DeviceID v' = d" "TotalDeviceNum v' = ?n"
    using st(2) nocfg_fields [of v' ?v0] by (auto simp: st' fetch_inv_def)
  ultimately show ?thesis using st(2) assms(4) by (auto simp: st' fetch_inv_def)
qed

lemma topology_shm_ok:
  assumes "m2m_topology_init conf info d (topo0, v) = Inr (M2M_SUCCESS, T', v')"
    and "1 \<le> TotalDeviceNum v'"
  shows "\<exists>l. shm_ok (TotalDeviceNum v') T' l"
proof -
  let ?n = "TotalDeviceNum v'"
  obtain T0 where T0: "node_infofetch conf info d (T0, v) = Inr (M2M_SUCCESS, T', v')" "shm_ok 0 T0 0"
    using assms(1) by (auto simp: m2m_topology_init_def shm_ok_def reserved_def topo0_def)
  from node_infofetch_loop [OF T0(1)] obtain f b v0 f' b' l' where
    loop: "fold_res (fetch_node d) [1..?n] (f, b, (T0, 0), v0) = Inr (f', b', (T', l'), v')"
    by blast
  have "shm_ok ?n T' l'"
    using fold_res_upto [OF loop, of "\<lambda>k st. shm_ok k (fst (fst (snd (snd st)))) (snd (fst (snd (snd st))))"]
      shm_ok_fetch_node T0(2) assms(2) by force
  then show ?thesis by blast
qed

lemma conf3_ok:
  "\<exists>T' v'. m2m_topology_init (Some (print_conf conf3)) (replicate 40 NUL) 2 (topo0, vnd0) =
     Inr (M2M_SUCCESS, T', v') \<and> TotalDeviceNum v' = 3"
  using topology_readback [OF conf3_dev_ok, of 2 "replicate 40 NUL"] by (simp add: conf3_def) blast

text \<open>
  Property C6. Whatever the file holds, when the topology is read without error the link map is
  symmetric and has only the entries 0 and 1, which is what route discovery needs of it.
\<close>

theorem topology_map_symmetric:
  assumes "m2m_topology_init conf info d (T, v) = Inr (M2M_SUCCESS, T', v')" and "map_ok T"
  shows "map_ok T'"
proof -
  obtain T0 where T0: "node_infofetch conf info d (T0, v) = Inr (M2M_SUCCESS, T', v')"
    "NODE_MAP T0 = NODE_MAP T"
    using assms(1) by (auto simp: m2m_topology_init_def)
  from node_infofetch_loop [OF T0(1)] obtain f b v0 f' b' l' where
    loop: "fold_res (fetch_node d) [1..TotalDeviceNum v'] (f, b, (T0, 0), v0) = Inr (f', b', (T', l'), v')"
    by blast
  have "map_ok (fst (fst (snd (snd (f', b', (T', l'), v')))))"
    by (rule fold_res_invariant [OF loop, where I = "\<lambda>st. map_ok (fst (fst (snd (snd st))))"])
      (use assms(2) T0(2) map_ok_fetch_node in \<open>auto simp: map_ok_def [of T] map_ok_def [of T0]\<close>)
  then show ?thesis by simp
qed

theorem topology_map_symmetric_witness:
  "\<exists>T' v'. m2m_topology_init (Some (print_conf conf3)) (replicate 40 NUL) 2 (topo0, vnd0) = Inr (M2M_SUCCESS, T', v') \<and>
     map_ok T'"
proof -
  have "map_ok topo0" by (simp add: map_ok_def topo0_def)
  with conf3_ok topology_map_symmetric [of "Some (print_conf conf3)" "replicate 40 NUL" 2 topo0 vnd0] show ?thesis by blast
qed

text \<open>
  The shared memory of the devices is laid out in the order of their ids without gaps
  or overlaps: the first device starts at 0, each next one starts where the previous one's type ends,
  and the whole is what \<open>m2m_mm_init\<close> allocates for the counted types.
\<close>

theorem topology_shm_offsets:
  assumes "m2m_topology_init conf info d (topo0, v) = Inr (M2M_SUCCESS, T', v')"
    and "1 \<le> TotalDeviceNum v'"
  shows "NODE_SHM_LOCATION T' 1 = 0 \<and>
     (\<forall>i \<in> {1..<TotalDeviceNum v'}.
        NODE_SHM_LOCATION T' (i + 1) = NODE_SHM_LOCATION T' i + type_size (NODE_TYPE T' i)) \<and>
     NODE_SHM_LOCATION T' (TotalDeviceNum v') + type_size (NODE_TYPE T' (TotalDeviceNum v')) =
       TotalNetworkTypeDevice T' 0 * COORDINATOR_SIZE + TotalNetworkTypeDevice T' 1 * ROUTER_SIZE +
       TotalNetworkTypeDevice T' 2 * END_DEVICE_SIZE"
proof -
  let ?n = "TotalDeviceNum v'"
  obtain l' where "shm_ok ?n T' l'" using topology_shm_ok [OF assms] by blast
  then have loc: "\<And>i. i \<in> {1..?n} \<Longrightarrow> NODE_SHM_LOCATION T' i =
        (if i = 1 then 0 else NODE_SHM_LOCATION T' (i - 1) + type_size (NODE_TYPE T' (i - 1)))"
    and total: "NODE_SHM_LOCATION T' ?n + type_size (NODE_TYPE T' ?n) = reserved T'"
    using assms(2) unfolding shm_ok_def by (blast, metis not_one_le_zero)
  show ?thesis
    unfolding total [unfolded reserved_def]
    using loc [of 1] assms(2) loc [of "i + 1" for i] by simp
qed

theorem topology_shm_offsets_witness:
  "\<exists>T' v'. m2m_topology_init (Some (print_conf conf3)) (replicate 40 NUL) 2 (topo0, vnd0) = Inr (M2M_SUCCESS, T', v') \<and>
     NODE_SHM_LOCATION T' 2 = NODE_SHM_LOCATION T' 1 + type_size (NODE_TYPE T' 1)"
proof -
  obtain T' v' where *: "m2m_topology_init (Some (print_conf conf3)) (replicate 40 NUL) 2 (topo0, vnd0) =
      Inr (M2M_SUCCESS, T', v')" "TotalDeviceNum v' = 3"
    using conf3_ok by blast
  have "1 \<in> {1..<TotalDeviceNum v'}" using *(2) by simp
  then have "NODE_SHM_LOCATION T' (1 + 1) = NODE_SHM_LOCATION T' 1 + type_size (NODE_TYPE T' 1)"
    using topology_shm_offsets [OF *(1)] *(2) by force
  with *(1) show ?thesis by auto
qed

text \<open>
  Property C7. A topology file in the documented form is read back. For fewer than 100 devices, each
  line short enough for the 40-byte buffer, every device that reads the file succeeds; it then knows
  the type and location of every device, exactly the links written on the lines of the other
  devices, and its own type, position and neighbours in the order written.
\<close>

theorem topology_roundtrip:
  assumes "\<forall>D \<in> set ds. dev_ok D" and "length ds < 100" and "1 \<le> d" "d \<le> int (length ds)"
    and "length info = 40"
  shows "\<exists>T' v'. m2m_topology_init (Some (print_conf ds)) info d (topo0, vnd0) = Inr (M2M_SUCCESS, T', v') \<and>
     DeviceID v' = d \<and> TotalDeviceNum v' = int (length ds) \<and>
     tables_of ds d (int (length ds)) T' \<and> device_of (ds ! nat (d - 1)) v'"
  using topology_readback [OF assms] .

theorem topology_roundtrip_witness:
  "\<exists>T' v'. m2m_topology_init (Some (print_conf conf3)) (replicate 40 NUL) 2 (topo0, vnd0) = Inr (M2M_SUCCESS, T', v') \<and>
     DeviceID v' = 2 \<and> TotalDeviceNum v' = int (length conf3) \<and>
     tables_of conf3 2 (int (length conf3)) T' \<and> device_of (conf3 ! nat (2 - 1)) v'"
  by (rule topology_roundtrip [OF conf3_dev_ok]) (simp_all add: conf3_def)

end
