(* ===== verification/M2M_Layout.thy ===== *)
theory M2M_Layout
  imports M2M_Topology
begin

text \<open>
  The shared memory segment (\<^verbatim>\<open>hw/m2m_mm.c\<close>) and the addresses that every process computes in it
  (\<^verbatim>\<open>hw/m2m_dbp.c\<close>): the local time slots, the header queues, control flags and data buffers of
  the device, and the header queues of its neighbours that it writes to. The theorems show that the
  objects of a device tile its region exactly, that the regions tile the segment, that a sender and a
  receiver agree on the address of the queue between them, and that every link has a queue of its own.
\<close>

section \<open>The segment\<close>

definition SIZEOF_UINT64 :: int where "SIZEOF_UINT64 = 8"

definition SHM_SIZE :: "topo \<Rightarrow> int" where
  "SHM_SIZE T = TotalNetworkTypeDevice T 0 * COORDINATOR_SIZE +
     TotalNetworkTypeDevice T 1 * ROUTER_SIZE + TotalNetworkTypeDevice T 2 * END_DEVICE_SIZE +
     MAX_NODE_NUM * SIZEOF_UINT64"

text \<open>
  The operating system is a parameter: \<open>shmget size create\<close> is the segment id, negative on failure,
  and \<open>shmat id\<close> the address, \<open>-1\<close> on failure. Only device 1 creates the segment.
\<close>

definition m2m_mm_init ::
  "(int \<Rightarrow> bool \<Rightarrow> int) \<Rightarrow> (int \<Rightarrow> int) \<Rightarrow> topo \<Rightarrow> VND \<Rightarrow> (M2M_ERR_T \<times> int \<times> int) res" where
  "m2m_mm_init shmget shmat T v =
     (let shmid = (if DeviceID v = 1 then shmget (SHM_SIZE T + 1000) True
                   else shmget (SHM_SIZE T + 1000) False)
      in if shmid < 0 then Inl Exit_process
         else let shm_address = shmat shmid
              in if shm_address = -1 then Inl Exit_process
                 else Inr (M2M_SUCCESS, shmid, shm_address))"

definition m2m_mm_exit :: "(int \<Rightarrow> int) \<Rightarrow> (int \<Rightarrow> int) \<Rightarrow> int \<Rightarrow> int \<Rightarrow> VND \<Rightarrow> M2M_ERR_T res" where
  "m2m_mm_exit shmdt shmctl_rmid shmid shm_address v =
     (if is_ZC v
      then if shmdt shm_address = -1 then Inl Exit_process
           else if shmctl_rmid shmid = -1 then Inl Exit_process
           else Inr M2M_SUCCESS
      else Inr M2M_SUCCESS)"

section \<open>The address tables\<close>

record dbp =
  m2m_localtime_start :: "int \<Rightarrow> int"
  m2m_dbp_buffer_start :: "int \<Rightarrow> int"
  m2m_dbp_meta_start :: "int \<Rightarrow> int"
  m2m_hq_meta_start :: "int \<Rightarrow> int"
  m2m_hq_buffer_start :: "int \<Rightarrow> int \<Rightarrow> int"
  m2m_hq_conflag_start :: "int \<Rightarrow> int"
  m2m_remote_hq_meta_start :: "int \<Rightarrow> int"
  m2m_remote_hq_buffer_start :: "int \<Rightarrow> int \<Rightarrow> int"

text \<open>Updates of the two-dimensional tables: row \<open>i\<close>, all four entries.\<close>

definition set_row :: "int \<Rightarrow> (int \<Rightarrow> int) \<Rightarrow> (int \<Rightarrow> int \<Rightarrow> int) \<Rightarrow> int \<Rightarrow> int \<Rightarrow> int" where
  "set_row i g A = A(i := (\<lambda>e. if e \<in> {0..<HEADER_QUEUE_ENTRY_NUM} then g e else A i e))"

definition set_range :: "int \<Rightarrow> (int \<Rightarrow> int) \<Rightarrow> (int \<Rightarrow> int) \<Rightarrow> int \<Rightarrow> int" where
  "set_range n g A = (\<lambda>i. if i \<in> {0..<n} then g i else A i)"

text \<open>First loop: absolute device addresses, local time slots and control flags.\<close>

definition dbp_node :: "int \<Rightarrow> int \<Rightarrow> topo \<times> dbp \<Rightarrow> (topo \<times> dbp) res" where
  "dbp_node shm_address_location ind st = (let (T, d) = st in
     bind_res (guard_res (ind < MAX_NODE_NUM) Out_of_bounds) (\<lambda>_.
     let T = T\<lparr>NODE_SHM_LOCATION := (NODE_SHM_LOCATION T)(ind := NODE_SHM_LOCATION T ind +
               (shm_address_location + MAX_NODE_NUM * SIZEOF_UINT64))\<rparr>;
         d = d\<lparr>m2m_localtime_start := (m2m_localtime_start d)(ind :=
               shm_address_location + ind * SIZEOF_UINT64)\<rparr>
     in if NODE_TYPE T ind = ''ZED'' then
          Inr (T, d\<lparr>m2m_hq_conflag_start := (m2m_hq_conflag_start d)(ind :=
            NODE_SHM_LOCATION T ind + TOTAL_HEADER_QUEUE_SIZE)\<rparr>)
        else if NODE_TYPE T ind = ''ZR'' then Inr (T, d)
        else if NODE_TYPE T ind = ''ZC'' then
          Inr (T, d\<lparr>m2m_hq_conflag_start := (m2m_hq_conflag_start d)(ind :=
            NODE_SHM_LOCATION T ind + (NODE_MAX_LINKS + 2) * TOTAL_HEADER_QUEUE_SIZE +
            TOTAL_DATA_BUFFER_SIZE)\<rparr>)
        else Inr (T, d)))"

definition dbp_zed :: "int \<Rightarrow> dbp \<Rightarrow> dbp" where
  "dbp_zed sma d =
     (let HQ_data_base = sma; HQ_meta_base = sma + HEADER_QUEUE_SIZE;
          DB_data_base = sma + TOTAL_HEADER_QUEUE_SIZE + HEADER_QUEUE_CONTRLFLAG;
          DB_meta_base = sma + TOTAL_HEADER_QUEUE_SIZE + HEADER_QUEUE_CONTRLFLAG + DATA_BUFFER_SIZE
      in d\<lparr>m2m_hq_buffer_start := set_row 0 (\<lambda>e. HQ_data_base + e * HEADER_QUEUE_ENTRY_SIZE)
             (m2m_hq_buffer_start d),
           m2m_hq_meta_start := (m2m_hq_meta_start d)(0 := HQ_meta_base),
           m2m_dbp_buffer_start := set_range DATA_BUFFER_ENTRY_NUM
             (\<lambda>i. DB_data_base + i * DATA_BUFFER_ENTRY_SIZE) (m2m_dbp_buffer_start d),
           m2m_dbp_meta_start := set_range DATA_BUFFER_ENTRY_NUM
             (\<lambda>i. DB_meta_base + i * DATA_BUFFER_METADATA_ENTRY_SIZE) (m2m_dbp_meta_start d)\<rparr>)"

definition dbp_links :: "int \<Rightarrow> dbp \<Rightarrow> dbp" where
  "dbp_links sma d =
     (let HQ_data_base = sma; HQ_meta_base = sma + NODE_MAX_LINKS * HEADER_QUEUE_SIZE
      in d\<lparr>m2m_hq_buffer_start := fold (\<lambda>l. set_row l (\<lambda>e. HQ_data_base + l * HEADER_QUEUE_SIZE +
             e * HEADER_QUEUE_ENTRY_SIZE)) [0..NODE_MAX_LINKS - 1] (m2m_hq_buffer_start d),
           m2m_hq_meta_start := set_range NODE_MAX_LINKS
             (\<lambda>l. HQ_meta_base + l * HEADER_QUEUE_METADATA_SIZE) (m2m_hq_meta_start d)\<rparr>)"

definition dbp_coord :: "int \<Rightarrow> dbp \<Rightarrow> dbp" where
  "dbp_coord sma d =
     (let DB_data_base = sma + TOTAL_HEADER_QUEUE_SIZE * NODE_MAX_LINKS;
          DB_meta_base = sma + TOTAL_HEADER_QUEUE_SIZE * NODE_MAX_LINKS + DATA_BUFFER_SIZE;
          hq = sma + TOTAL_HEADER_QUEUE_SIZE * NODE_MAX_LINKS + TOTAL_DATA_BUFFER_SIZE
      in d\<lparr>m2m_dbp_buffer_start := set_range DATA_BUFFER_ENTRY_NUM
             (\<lambda>i. DB_data_base + i * DATA_BUFFER_ENTRY_SIZE) (m2m_dbp_buffer_start d),
           m2m_dbp_meta_start := set_range DATA_BUFFER_ENTRY_NUM
             (\<lambda>i. DB_meta_base + i * DATA_BUFFER_METADATA_ENTRY_SIZE) (m2m_dbp_meta_start d),
           m2m_hq_buffer_start := set_row (NODE_MAX_LINKS + 1)
             (\<lambda>e. hq + HEADER_QUEUE_SIZE + e * HEADER_QUEUE_ENTRY_SIZE)
             (set_row NODE_MAX_LINKS (\<lambda>e. hq + e * HEADER_QUEUE_ENTRY_SIZE) (m2m_hq_buffer_start d)),
           m2m_hq_meta_start := (m2m_hq_meta_start d)(NODE_MAX_LINKS := hq + HEADER_QUEUE_SIZE * 2,
             NODE_MAX_LINKS + 1 := hq + HEADER_QUEUE_SIZE * 2 + HEADER_QUEUE_METADATA_SIZE)\<rparr>)"

text \<open>
  Last loop: the queue of a neighbour that this device writes. The offset is the number of
  neighbours of that neighbour with a smaller id than this device.
\<close>

definition queue_offset :: "(int \<Rightarrow> int \<Rightarrow> int) \<Rightarrow> int \<Rightarrow> int \<Rightarrow> int" where
  "queue_offset NM nb self = fold (\<lambda>i count. if NM nb i \<noteq> 0 then count + 1 else count) [1..self - 1] 0"

definition dbp_remote :: "topo \<Rightarrow> VND \<Rightarrow> int \<Rightarrow> dbp \<Rightarrow> dbp res" where
  "dbp_remote T v index d =
     bind_res (guard_res (index < NODE_MAX_LINKS \<and> 0 \<le> Neighbors v index \<and>
                          Neighbors v index < MAX_NODE_NUM) Out_of_bounds) (\<lambda>_.
     let nb = Neighbors v index; remote_location = NODE_SHM_LOCATION T nb;
         count = queue_offset (NODE_MAP T) nb (DeviceID v)
     in if NODE_TYPE T nb = ''ZED'' then
          Inr (d\<lparr>m2m_remote_hq_buffer_start := set_row index
                   (\<lambda>e. remote_location + e * HEADER_QUEUE_ENTRY_SIZE) (m2m_remote_hq_buffer_start d),
                 m2m_remote_hq_meta_start := (m2m_remote_hq_meta_start d)(index :=
                   remote_location + HEADER_QUEUE_SIZE)\<rparr>)
        else
          Inr (d\<lparr>m2m_remote_hq_buffer_start := set_row index
                   (\<lambda>e. remote_location + HEADER_QUEUE_SIZE * count + e * HEADER_QUEUE_ENTRY_SIZE)
                   (m2m_remote_hq_buffer_start d),
                 m2m_remote_hq_meta_start := (m2m_remote_hq_meta_start d)(index :=
                   remote_location + HEADER_QUEUE_SIZE * NODE_MAX_LINKS +
                   HEADER_QUEUE_METADATA_SIZE * count)\<rparr>))"

definition dbp_local :: "VND \<Rightarrow> dbp \<Rightarrow> dbp" where
  "dbp_local v d =
     (let sma = Shared_memory_address v in
      if is_ZED v then dbp_zed sma d
      else if is_ZR v then dbp_links sma d
      else dbp_coord sma (dbp_links sma d))"

definition m2m_dbp_init :: "int \<Rightarrow> topo \<times> VND \<times> dbp \<Rightarrow> (M2M_ERR_T \<times> topo \<times> VND \<times> dbp) res" where
  "m2m_dbp_init shm_address_location st = (let (T, v, d) = st;
       d = d\<lparr>m2m_localtime_start := (m2m_localtime_start d)(0 := shm_address_location)\<rparr> in
     bind_res (fold_res (dbp_node shm_address_location) [1..TotalDeviceNum v] (T, d)) (\<lambda>(T, d).
     bind_res (guard_res (0 \<le> DeviceID v \<and> DeviceID v < MAX_NODE_NUM) Out_of_bounds) (\<lambda>_.
     let v = v\<lparr>Shared_memory_address := NODE_SHM_LOCATION T (DeviceID v)\<rparr>; d = dbp_local v d in
     bind_res (fold_res (dbp_remote T v) [0..NeighborNum v - 1] d) (\<lambda>d.
       Inr (M2M_SUCCESS, T, v, d)))))"

definition m2m_dbp_exit :: "topo \<times> VND \<Rightarrow> M2M_ERR_T \<times> topo \<times> VND" where
  "m2m_dbp_exit st = (let (T, v) = st in
     (M2M_SUCCESS,
      T\<lparr>NODE_TYPE := (\<lambda>i. if i \<in> {0..<MAX_NODE_NUM} then [] else NODE_TYPE T i)\<rparr>,
      v\<lparr>DeviceType := [NUL, NUL, NUL]\<rparr>))"

definition m2m_copy_to_dbp :: "M2M_ERR_T" where
  "m2m_copy_to_dbp = M2M_SUCCESS"

lemmas dbp_defs = dbp_zed_def dbp_links_def dbp_coord_def set_row_def set_range_def Let_def

section \<open>What the loops compute\<close>

definition conflag_of :: "topo \<Rightarrow> int \<Rightarrow> int" where
  "conflag_of T i = NODE_SHM_LOCATION T i +
     (if NODE_TYPE T i = ''ZED'' then TOTAL_HEADER_QUEUE_SIZE
      else (NODE_MAX_LINKS + 2) * TOTAL_HEADER_QUEUE_SIZE + TOTAL_DATA_BUFFER_SIZE)"

definition nodes_done :: "int \<Rightarrow> topo \<Rightarrow> dbp \<Rightarrow> int \<Rightarrow> topo \<times> dbp \<Rightarrow> bool" where
  "nodes_done base T d k st \<longleftrightarrow>
     NODE_TYPE (fst st) = NODE_TYPE T \<and> NODE_MAP (fst st) = NODE_MAP T \<and>
     m2m_localtime_start (snd st) 0 = m2m_localtime_start d 0 \<and>
     (\<forall>i. NODE_SHM_LOCATION (fst st) i =
        NODE_SHM_LOCATION T i + (if i \<in> {1..k} then base + MAX_NODE_NUM * SIZEOF_UINT64 else 0)) \<and>
     (\<forall>i \<in> {1..k}. m2m_localtime_start (snd st) i = base + i * SIZEOF_UINT64) \<and>
     (\<forall>i \<in> {1..k}. NODE_TYPE T i \<in> {''ZC'', ''ZED''} \<longrightarrow>
        m2m_hq_conflag_start (snd st) i = conflag_of (fst st) i)"

lemma nodes_done_step:
  assumes "nodes_done base T d (k - 1) (T1, d1)" and "1 \<le> k" and "dbp_node base k (T1, d1) = Inr (T2, d2)"
  shows "nodes_done base T d k (T2, d2)"
proof -
  have iv: "i \<in> {1..k} \<longleftrightarrow> i \<in> {1..k - 1} \<or> i = k" for i using assms(2) by auto
  have frame: "NODE_TYPE T2 = NODE_TYPE T1" "NODE_MAP T2 = NODE_MAP T1"
    "NODE_SHM_LOCATION T2 = (NODE_SHM_LOCATION T1)(k := NODE_SHM_LOCATION T1 k + (base + MAX_NODE_NUM * SIZEOF_UINT64))"
    "m2m_localtime_start d2 = (m2m_localtime_start d1)(k := base + k * SIZEOF_UINT64)"
    "i \<noteq> k \<Longrightarrow> m2m_hq_conflag_start d2 i = m2m_hq_conflag_start d1 i" for i
    using assms(3) by (auto simp: dbp_node_def Let_def split: if_splits)
  have own: "NODE_TYPE T k \<in> {''ZC'', ''ZED''} \<longrightarrow> m2m_hq_conflag_start d2 k = conflag_of T2 k"
    using assms(1,3) by (auto simp: dbp_node_def Let_def conflag_of_def nodes_done_def split: if_splits)
  have old: "conflag_of T2 i = conflag_of T1 i" if "i \<noteq> k" for i
    using that by (simp add: conflag_of_def frame)
  have "m2m_hq_conflag_start d2 i = conflag_of T2 i"
    if "i \<in> {1..k}" "NODE_TYPE T i \<in> {''ZC'', ''ZED''}" for i
    using that own old frame(5) assms(1) iv [of i] by (cases "i = k") (auto simp: nodes_done_def)
  moreover have "m2m_localtime_start d2 i = base + i * SIZEOF_UINT64" if "i \<in> {1..k}" for i
    using that frame(4) assms(1) iv [of i] by (cases "i = k") (auto simp: nodes_done_def)
  moreover have "m2m_localtime_start d2 0 = m2m_localtime_start d 0"
    using frame(4) assms(1,2) by (auto simp: nodes_done_def)
  moreover have "NODE_SHM_LOCATION T2 i = NODE_SHM_LOCATION T i +
      (if i \<in> {1..k} then base + MAX_NODE_NUM * SIZEOF_UINT64 else 0)" for i
    using frame(3) assms(1) iv [of i] by (cases "i = k") (auto simp: nodes_done_def)
  ultimately show ?thesis using frame(1,2) assms(1) unfolding nodes_done_def by simp
qed

lemma nodes_done_loop:
  assumes "fold_res (dbp_node base) [1..n] (T, d) = Inr (T', d')" and "0 \<le> n"
  shows "nodes_done base T d n (T', d')"
proof (rule fold_res_upto [OF assms(1)])
  show "nodes_done base T d (1 - 1) (T, d)" by (simp add: nodes_done_def)
qed (use assms(2) nodes_done_step in \<open>auto\<close>)

text \<open>The loop over the neighbours leaves the local tables alone.\<close>

definition local_part :: "dbp \<Rightarrow> dbp" where
  "local_part d = d\<lparr>m2m_remote_hq_meta_start := \<lambda>_. 0, m2m_remote_hq_buffer_start := \<lambda>_ _. 0\<rparr>"

lemma dbp_remote_local: "dbp_remote T v i d = Inr d' \<Longrightarrow> local_part d' = local_part d"
  by (auto simp: dbp_remote_def local_part_def Let_def split: if_splits)

lemma local_part_fields:
  assumes "local_part d = local_part d'"
  shows "m2m_localtime_start d = m2m_localtime_start d'" "m2m_dbp_buffer_start d = m2m_dbp_buffer_start d'"
    "m2m_dbp_meta_start d = m2m_dbp_meta_start d'" "m2m_hq_meta_start d = m2m_hq_meta_start d'"
    "m2m_hq_buffer_start d = m2m_hq_buffer_start d'" "m2m_hq_conflag_start d = m2m_hq_conflag_start d'"
  using assms by (cases d; cases d'; simp add: local_part_def)+

text \<open>The steps of a successful initialisation.\<close>

lemma m2m_dbp_init_steps:
  assumes "m2m_dbp_init base (T, v, d) = Inr (e, T', v', d')" and "0 \<le> TotalDeviceNum v"
  obtains d1 where "nodes_done base T (d\<lparr>m2m_localtime_start := (m2m_localtime_start d)(0 := base)\<rparr>) (TotalDeviceNum v) (T', d1)"
    "v' = v\<lparr>Shared_memory_address := NODE_SHM_LOCATION T' (DeviceID v)\<rparr>"
    "fold_res (dbp_remote T' v') [0..NeighborNum v - 1] (dbp_local v' d1) = Inr d'"
    "local_part d' = local_part (dbp_local v' d1)" "e = M2M_SUCCESS"
proof -
  let ?d = "d\<lparr>m2m_localtime_start := (m2m_localtime_start d)(0 := base)\<rparr>"
  obtain d1 where 1: "fold_res (dbp_node base) [1..TotalDeviceNum v] (T, ?d) = Inr (T', d1)"
    "v' = v\<lparr>Shared_memory_address := NODE_SHM_LOCATION T' (DeviceID v)\<rparr>"
    "fold_res (dbp_remote T' v') [0..NeighborNum v - 1] (dbp_local v' d1) = Inr d'" "e = M2M_SUCCESS"
    using assms(1) by (auto simp: m2m_dbp_init_def Let_def)
  have "local_part d' = local_part (dbp_local v' d1)"
    by (rule fold_res_invariant [OF 1(3)]) (auto dest: dbp_remote_local)
  then show ?thesis using that [of d1] 1 nodes_done_loop [OF 1(1) assms(2)] by blast
qed

section \<open>Objects of a device tile its region\<close>

text \<open>Consecutive address ranges \<open>(start, size)\<close> from \<open>a\<close> to \<open>b\<close>.\<close>

fun chain :: "int \<Rightarrow> (int \<times> int) list \<Rightarrow> int \<Rightarrow> bool" where
  "chain a [] b = (a = b)"
| "chain a ((s, n) # rs) b = (s = a \<and> 0 < n \<and> chain (a + n) rs b)"

lemma chain_append: "chain a (xs @ ys) b \<longleftrightarrow> (\<exists>m. chain a xs m \<and> chain m ys b)"
  by (induction a xs b rule: chain.induct) auto

lemma chain_le: "chain a rs b \<Longrightarrow> a \<le> b"
  by (induction a rs b rule: chain.induct) auto

lemma chain_within: "chain a rs b \<Longrightarrow> (s, n) \<in> set rs \<Longrightarrow> a \<le> s \<and> s + n \<le> b \<and> 0 < n"
  by (induction a rs b rule: chain.induct) (auto dest: chain_le)

lemma chain_disjoint:
  "chain a rs b \<Longrightarrow> i < j \<Longrightarrow> j < length rs \<Longrightarrow> fst (rs ! i) + snd (rs ! i) \<le> fst (rs ! j)"
proof (induction a rs b arbitrary: i j rule: chain.induct)
  case (2 a s n rs b)
  then show ?case
    using chain_within [of "a + n" rs b "fst (rs ! (j - 1))" "snd (rs ! (j - 1))"]
    by (cases i; cases j) (auto intro: nth_mem)
qed simp

definition queue_regions :: "dbp \<Rightarrow> int \<Rightarrow> (int \<times> int) list" where
  "queue_regions d q = map (\<lambda>e. (m2m_hq_buffer_start d q e, HEADER_QUEUE_ENTRY_SIZE)) [0, 1, 2, 3]"

definition buffer_regions :: "dbp \<Rightarrow> (int \<times> int) list" where
  "buffer_regions d = map (\<lambda>i. (m2m_dbp_buffer_start d i, DATA_BUFFER_ENTRY_SIZE)) [0, 1, 2, 3] @
     map (\<lambda>i. (m2m_dbp_meta_start d i, DATA_BUFFER_METADATA_ENTRY_SIZE)) [0, 1, 2, 3]"

definition device_regions :: "string \<Rightarrow> int \<Rightarrow> dbp \<Rightarrow> (int \<times> int) list" where
  "device_regions ty self d =
     (if ty = ''ZED'' then
        queue_regions d 0 @ [(m2m_hq_meta_start d 0, HEADER_QUEUE_METADATA_SIZE),
          (m2m_hq_conflag_start d self, HEADER_QUEUE_CONTRLFLAG)] @ buffer_regions d
      else
        concat (map (queue_regions d) [0, 1, 2, 3, 4, 5, 6, 7]) @
        map (\<lambda>l. (m2m_hq_meta_start d l, HEADER_QUEUE_METADATA_SIZE)) [0, 1, 2, 3, 4, 5, 6, 7] @
        (if ty = ''ZR'' then []
         else buffer_regions d @ queue_regions d 8 @ queue_regions d 9 @
              [(m2m_hq_meta_start d 8, HEADER_QUEUE_METADATA_SIZE),
               (m2m_hq_meta_start d 9, HEADER_QUEUE_METADATA_SIZE),
               (m2m_hq_conflag_start d self, HEADER_QUEUE_CONTRLFLAG)]))"

lemma int_list8: "[0..NODE_MAX_LINKS - 1] = [0, 1, 2, 3, 4, 5, 6, 7]"
  by (unfold NODE_MAX_LINKS_def) code_simp

lemma zed_tiles:
  assumes "m2m_hq_conflag_start d self = sma + TOTAL_HEADER_QUEUE_SIZE"
  shows "chain sma (device_regions ''ZED'' self (dbp_zed sma d)) (sma + END_DEVICE_SIZE)"
  using assms
  by (simp add: device_regions_def queue_regions_def buffer_regions_def dbp_defs mm_size_defs)

lemma links_tiles:
  "chain sma (concat (map (queue_regions (dbp_links sma d)) [0, 1, 2, 3, 4, 5, 6, 7]) @
     map (\<lambda>l. (m2m_hq_meta_start (dbp_links sma d) l, HEADER_QUEUE_METADATA_SIZE)) [0, 1, 2, 3, 4, 5, 6, 7])
     (sma + ROUTER_SIZE)"
proof -
  have q: "m2m_hq_buffer_start (dbp_links sma d) l e = sma + l * HEADER_QUEUE_SIZE + e * HEADER_QUEUE_ENTRY_SIZE"
    if "l \<in> {0, 1, 2, 3, 4, 5, 6, 7}" "e \<in> {0, 1, 2, 3}" for l e
    using that by (auto simp: dbp_links_def Let_def int_list8 set_row_def HEADER_QUEUE_ENTRY_NUM_def)
  show ?thesis
    by (simp add: queue_regions_def q) (simp add: dbp_links_def set_range_def Let_def mm_size_defs)
qed

lemma coord_frame:
  "l < 8 \<Longrightarrow> queue_regions (dbp_coord sma d) l = queue_regions d l"
  "l < 8 \<Longrightarrow> m2m_hq_meta_start (dbp_coord sma d) l = m2m_hq_meta_start d l"
  "m2m_hq_conflag_start (dbp_coord sma d) = m2m_hq_conflag_start d"
  by (auto simp: queue_regions_def dbp_coord_def set_row_def Let_def NODE_MAX_LINKS_def)

lemma coord_tiles:
  assumes "m2m_hq_conflag_start d self =
    sma + (NODE_MAX_LINKS + 2) * TOTAL_HEADER_QUEUE_SIZE + TOTAL_DATA_BUFFER_SIZE"
  shows "chain sma (device_regions ''ZC'' self (dbp_coord sma (dbp_links sma d))) (sma + COORDINATOR_SIZE)"
proof -
  let ?d = "dbp_coord sma (dbp_links sma d)"
  have links: "concat (map (queue_regions ?d) [0, 1, 2, 3, 4, 5, 6, 7]) @
     map (\<lambda>l. (m2m_hq_meta_start ?d l, HEADER_QUEUE_METADATA_SIZE)) [0, 1, 2, 3, 4, 5, 6, 7] =
     concat (map (queue_regions (dbp_links sma d)) [0, 1, 2, 3, 4, 5, 6, 7]) @
     map (\<lambda>l. (m2m_hq_meta_start (dbp_links sma d) l, HEADER_QUEUE_METADATA_SIZE)) [0, 1, 2, 3, 4, 5, 6, 7]"
    by (simp add: coord_frame)
  have rest: "chain (sma + ROUTER_SIZE) (buffer_regions ?d @ queue_regions ?d 8 @ queue_regions ?d 9 @
      [(m2m_hq_meta_start ?d 8, HEADER_QUEUE_METADATA_SIZE), (m2m_hq_meta_start ?d 9, HEADER_QUEUE_METADATA_SIZE),
       (m2m_hq_conflag_start ?d self, HEADER_QUEUE_CONTRLFLAG)]) (sma + COORDINATOR_SIZE)"
    using assms by (simp add: coord_frame) (simp add: buffer_regions_def queue_regions_def dbp_coord_def
        dbp_links_def set_row_def set_range_def Let_def mm_size_defs)
  have eq: "device_regions ''ZC'' self ?d = (concat (map (queue_regions ?d) [0, 1, 2, 3, 4, 5, 6, 7]) @
     map (\<lambda>l. (m2m_hq_meta_start ?d l, HEADER_QUEUE_METADATA_SIZE)) [0, 1, 2, 3, 4, 5, 6, 7]) @
     (buffer_regions ?d @ queue_regions ?d 8 @ queue_regions ?d 9 @
      [(m2m_hq_meta_start ?d 8, HEADER_QUEUE_METADATA_SIZE), (m2m_hq_meta_start ?d 9, HEADER_QUEUE_METADATA_SIZE),
       (m2m_hq_conflag_start ?d self, HEADER_QUEUE_CONTRLFLAG)])"
    by (simp only: device_regions_def) simp
  show ?thesis
    unfolding eq links by (rule chain_append [THEN iffD2], intro exI conjI, rule links_tiles, rule rest)
qed

text \<open>Regions only mention local tables.\<close>

lemma device_regions_local:
  assumes "local_part d = local_part d'"
  shows "device_regions ty self d = device_regions ty self d'"
  unfolding device_regions_def queue_regions_def buffer_regions_def local_part_fields [OF assms] by simp

lemma dbp_local_conflag: "m2m_hq_conflag_start (dbp_local v d) = m2m_hq_conflag_start d"
  by (simp add: dbp_local_def dbp_zed_def dbp_links_def dbp_coord_def Let_def)

lemma dbp_tiles:
  assumes "m2m_dbp_init base (T, v, d) = Inr (e, T', v', d')"
    and "1 \<le> DeviceID v" and "DeviceID v \<le> TotalDeviceNum v"
    and "NODE_TYPE T (DeviceID v) = cstr (DeviceType v)" and "cstr (DeviceType v) \<in> {''ZC'', ''ZR'', ''ZED''}"
  shows "chain (Shared_memory_address v') (device_regions (cstr (DeviceType v)) (DeviceID v) d')
           (Shared_memory_address v' + type_size (cstr (DeviceType v)))"
proof -
  obtain d1 where 1: "nodes_done base T (d\<lparr>m2m_localtime_start := (m2m_localtime_start d)(0 := base)\<rparr>)
      (TotalDeviceNum v) (T', d1)"
    "v' = v\<lparr>Shared_memory_address := NODE_SHM_LOCATION T' (DeviceID v)\<rparr>"
    "local_part d' = local_part (dbp_local v' d1)"
    using m2m_dbp_init_steps [OF assms(1)] assms(2,3) by (metis dual_order.trans zero_le_one)
  let ?sma = "Shared_memory_address v'"
  have cf: "cstr (DeviceType v) \<in> {''ZC'', ''ZED''} \<longrightarrow> m2m_hq_conflag_start d1 (DeviceID v) = conflag_of T' (DeviceID v)"
    and ty: "NODE_TYPE T' = NODE_TYPE T"
    using 1(1) assms(2-4) by (auto simp: nodes_done_def)
  note reg = device_regions_local [OF 1(3)]
  consider "cstr (DeviceType v) = ''ZC''" | "cstr (DeviceType v) = ''ZR''" | "cstr (DeviceType v) = ''ZED''"
    using assms(5) by blast
  then show ?thesis
  proof cases
    case 1
    then show ?thesis
      unfolding reg using coord_tiles [of d1 "DeviceID v" ?sma] cf ty assms(4)
      by (simp add: dbp_local_def Let_def \<open>v' = _\<close> conflag_of_def)
  next
    case 2
    then show ?thesis
      unfolding reg using links_tiles [of ?sma d1] by (simp add: dbp_local_def Let_def \<open>v' = _\<close> device_regions_def)
  next
    case 3
    then show ?thesis
      unfolding reg using zed_tiles [of d1 "DeviceID v" ?sma] cf ty assms(4)
      by (simp add: dbp_local_def Let_def \<open>v' = _\<close> conflag_of_def)
  qed
qed

section \<open>The queue between a sender and a receiver\<close>

lemma queue_offset_card: "queue_offset NM nb self = int (card {i \<in> {1..<self}. NM nb i \<noteq> 0})"
proof -
  have fold: "fold (\<lambda>i count. if NM nb i \<noteq> 0 then count + 1 else count) xs c = c + int (length (filter (\<lambda>i. NM nb i \<noteq> 0) xs))"
    for xs and c :: int
    by (induction xs arbitrary: c) auto
  have "length (filter (\<lambda>i. NM nb i \<noteq> 0) [1..self - 1]) = card (set (filter (\<lambda>i. NM nb i \<noteq> 0) [1..self - 1]))"
    by (rule distinct_card [symmetric]) simp
  also have "set (filter (\<lambda>i. NM nb i \<noteq> 0) [1..self - 1]) = {i \<in> {1..<self}. NM nb i \<noteq> 0}" by auto
  finally show ?thesis by (simp add: queue_offset_def fold)
qed

lemma queue_offset_less:
  assumes "1 \<le> a" and "a < b" and "NM nb a \<noteq> 0"
  shows "queue_offset NM nb a < queue_offset NM nb b"
proof -
  have "{i \<in> {1..<a}. NM nb i \<noteq> 0} \<subset> {i \<in> {1..<b}. NM nb i \<noteq> 0}" using assms by auto
  moreover have "finite {i \<in> {1..<b}. NM nb i \<noteq> 0}" by (rule finite_subset [of _ "{1..<b}"]) auto
  ultimately show ?thesis unfolding queue_offset_card by (simp only: of_nat_less_iff psubset_card_mono)
qed

definition remote_done :: "topo \<Rightarrow> VND \<Rightarrow> int \<Rightarrow> dbp \<Rightarrow> bool" where
  "remote_done T v k d \<longleftrightarrow> (\<forall>i \<in> {0..k}. \<forall>e \<in> {0..3}.
     let nb = Neighbors v i; q = queue_offset (NODE_MAP T) nb (DeviceID v) in
     m2m_remote_hq_buffer_start d i e = NODE_SHM_LOCATION T nb +
       (if NODE_TYPE T nb = ''ZED'' then 0 else HEADER_QUEUE_SIZE * q) + e * HEADER_QUEUE_ENTRY_SIZE \<and>
     m2m_remote_hq_meta_start d i = NODE_SHM_LOCATION T nb +
       (if NODE_TYPE T nb = ''ZED'' then HEADER_QUEUE_SIZE
        else HEADER_QUEUE_SIZE * NODE_MAX_LINKS + HEADER_QUEUE_METADATA_SIZE * q))"

lemma remote_done_loop:
  assumes "fold_res (dbp_remote T v) [0..n - 1] d = Inr d'" and "0 \<le> n"
  shows "remote_done T v (n - 1) d'"
proof (rule fold_res_upto [OF assms(1)])
  show "remote_done T v (0 - 1) d" by (simp add: remote_done_def)
next
  fix k s s' assume k: "0 \<le> k" and "remote_done T v (k - 1) s" and step: "dbp_remote T v k s = Inr s'"
  moreover have "i \<in> {0..k} \<longleftrightarrow> i \<in> {0..k - 1} \<or> i = k" for i using k by auto
  moreover have "m2m_remote_hq_buffer_start s' i = m2m_remote_hq_buffer_start s i \<and>
      m2m_remote_hq_meta_start s' i = m2m_remote_hq_meta_start s i" if "i \<noteq> k" for i
    using step that by (auto simp: dbp_remote_def Let_def set_row_def split: if_splits)
  moreover have "\<forall>e \<in> {0..3}. let nb = Neighbors v k; q = queue_offset (NODE_MAP T) nb (DeviceID v) in
     m2m_remote_hq_buffer_start s' k e = NODE_SHM_LOCATION T nb +
       (if NODE_TYPE T nb = ''ZED'' then 0 else HEADER_QUEUE_SIZE * q) + e * HEADER_QUEUE_ENTRY_SIZE \<and>
     m2m_remote_hq_meta_start s' k = NODE_SHM_LOCATION T nb +
       (if NODE_TYPE T nb = ''ZED'' then HEADER_QUEUE_SIZE
        else HEADER_QUEUE_SIZE * NODE_MAX_LINKS + HEADER_QUEUE_METADATA_SIZE * q)"
    using step by (auto simp: dbp_remote_def Let_def set_row_def HEADER_QUEUE_ENTRY_NUM_def split: if_splits)
  ultimately show "remote_done T v k s'" unfolding remote_done_def by (metis (no_types, lifting))
qed (use assms(2) in simp)

text \<open>Where a device that is no coordinator's extra queue keeps the queue of link \<open>q\<close>.\<close>

lemma dbp_local_queue:
  assumes "cstr (DeviceType v) \<in> {''ZC'', ''ZR'', ''ZED''}"
    and "q \<in> {0..7}" and "is_ZED v \<longrightarrow> q = 0" and "e \<in> {0..3}"
  shows "m2m_hq_buffer_start (dbp_local v d) q e =
           Shared_memory_address v + q * HEADER_QUEUE_SIZE + e * HEADER_QUEUE_ENTRY_SIZE"
    and "m2m_hq_meta_start (dbp_local v d) q = Shared_memory_address v +
           (if is_ZED v then HEADER_QUEUE_SIZE
            else NODE_MAX_LINKS * HEADER_QUEUE_SIZE + q * HEADER_QUEUE_METADATA_SIZE)"
proof -
  have q: "q \<in> {0, 1, 2, 3, 4, 5, 6, 7}" "q < NODE_MAX_LINKS" "q \<noteq> NODE_MAX_LINKS + 1"
    using assms(2) by (auto simp: NODE_MAX_LINKS_def)
  have e: "e \<in> {0..<HEADER_QUEUE_ENTRY_NUM}" using assms(4) by (simp add: HEADER_QUEUE_ENTRY_NUM_def)
  have links: "m2m_hq_buffer_start (dbp_links sma d) q e = sma + q * HEADER_QUEUE_SIZE + e * HEADER_QUEUE_ENTRY_SIZE"
    for sma
    using q(1) e by (auto simp: dbp_links_def Let_def int_list8 set_row_def)
  show "m2m_hq_buffer_start (dbp_local v d) q e =
           Shared_memory_address v + q * HEADER_QUEUE_SIZE + e * HEADER_QUEUE_ENTRY_SIZE"
    using assms(3) q e links by (auto simp: dbp_local_def dbp_zed_def dbp_coord_def Let_def set_row_def)
  show "m2m_hq_meta_start (dbp_local v d) q = Shared_memory_address v +
           (if is_ZED v then HEADER_QUEUE_SIZE
            else NODE_MAX_LINKS * HEADER_QUEUE_SIZE + q * HEADER_QUEUE_METADATA_SIZE)"
    using assms(2,3) q by (auto simp: dbp_local_def dbp_zed_def dbp_links_def dbp_coord_def Let_def set_range_def)
qed

section \<open>Properties of the layout\<close>

definition dbp0 :: dbp where
  "dbp0 = \<lparr>m2m_localtime_start = \<lambda>_. 0, m2m_dbp_buffer_start = \<lambda>_. 0, m2m_dbp_meta_start = \<lambda>_. 0,
     m2m_hq_meta_start = \<lambda>_. 0, m2m_hq_buffer_start = \<lambda>_ _. 0, m2m_hq_conflag_start = \<lambda>_. 0,
     m2m_remote_hq_meta_start = \<lambda>_. 0, m2m_remote_hq_buffer_start = \<lambda>_ _. 0\<rparr>"

text \<open>Two devices, a coordinator 1 and an end device 2, linked.\<close>

definition topo2 :: topo where
  "topo2 = topo0\<lparr>NODE_MAP := \<lambda>i j. if (i, j) \<in> {(1, 2), (2, 1)} then 1 else 0,
     NODE_TYPE := (\<lambda>_. [])(1 := ''ZC'', 2 := ''ZED''),
     NODE_SHM_LOCATION := (\<lambda>_. 0)(2 := COORDINATOR_SIZE)\<rparr>"

definition vnd_zc :: VND where
  "vnd_zc = vnd0\<lparr>DeviceID := 1, DeviceType := [CHR ''Z'', CHR ''C'', NUL], TotalDeviceNum := 2,
     Neighbors := (\<lambda>_. 0)(0 := 2), NeighborNum := 1\<rparr>"

definition vnd_zed :: VND where
  "vnd_zed = vnd0\<lparr>DeviceID := 2, DeviceType := ''ZED'', TotalDeviceNum := 2,
     Neighbors := (\<lambda>_. 0)(0 := 1), NeighborNum := 1\<rparr>"

lemmas net2_defs = topo2_def vnd_zc_def vnd_zed_def vnd0_def topo0_def dbp0_def

lemma upto_1_2: "[1..2] = [1, 2 :: int]" and upto_0_0: "[0..0] = [0 :: int]"
  by code_simp+

lemma net2_init:
  assumes "v = vnd_zc \<or> v = vnd_zed"
  shows "\<exists>T' v' d'. m2m_dbp_init base (topo2, v, dbp0) = Inr (M2M_SUCCESS, T', v', d') \<and>
    NODE_TYPE T' = NODE_TYPE topo2 \<and> NODE_MAP T' = NODE_MAP topo2"
  using assms
  by (auto simp: m2m_dbp_init_def Let_def net2_defs dbp_node_def dbp_remote_def upto_1_2 upto_0_0
      MAX_NODE_NUM_def NODE_MAX_LINKS_def)

text \<open>
  Property C8. The objects that \<open>m2m_dbp_init\<close> places for a device, taken in address order, tile
  its region exactly: header queues, queue metadata, control flag, data buffers and their metadata
  follow each other without a gap or an overlap from the region's start to its end.
\<close>

theorem dbp_layout_tiles:
  assumes "m2m_dbp_init base (T, v, d) = Inr (e, T', v', d')"
    and "1 \<le> DeviceID v" and "DeviceID v \<le> TotalDeviceNum v"
    and "NODE_TYPE T (DeviceID v) = cstr (DeviceType v)" and "cstr (DeviceType v) \<in> {''ZC'', ''ZR'', ''ZED''}"
  shows "chain (Shared_memory_address v') (device_regions (cstr (DeviceType v)) (DeviceID v) d')
           (Shared_memory_address v' + type_size (cstr (DeviceType v)))"
  by (rule dbp_tiles [OF assms])

theorem dbp_layout_tiles_witness:
  "\<exists>T' v' d'. m2m_dbp_init 4096 (topo2, vnd_zc, dbp0) = Inr (M2M_SUCCESS, T', v', d') \<and>
     chain (Shared_memory_address v') (device_regions ''ZC'' 1 d') (Shared_memory_address v' + COORDINATOR_SIZE)"
proof -
  obtain T' v' d' where i: "m2m_dbp_init 4096 (topo2, vnd_zc, dbp0) = Inr (M2M_SUCCESS, T', v', d')"
    using net2_init by blast
  have "cstr (DeviceType vnd_zc) = ''ZC''" by (simp add: vnd_zc_def cstr_def NUL_def)
  with dbp_layout_tiles [OF i] i show ?thesis by (simp add: net2_defs)
qed

text \<open>
  Property C9. A sender and the receiver of a link agree on the queue between them: relative to the
  address at which each process attached the segment, the buffers and the metadata that the sender
  writes for a neighbour are those of the queue of that number in the neighbour's own tables.
\<close>

theorem queue_addresses_agree:
  assumes s: "m2m_dbp_init bs (Ts, vs, ds) = Inr (es, Ts', vs', ds')"
    and r: "m2m_dbp_init br (Tr, vr, dr) = Inr (er, Tr', vr', dr')"
    and same: "NODE_SHM_LOCATION Ts = NODE_SHM_LOCATION Tr" "NODE_TYPE Ts = NODE_TYPE Tr"
      "TotalDeviceNum vs = TotalDeviceNum vr"
    and i: "0 \<le> i" "i < NeighborNum vs" "Neighbors vs i = DeviceID vr"
    and id: "1 \<le> DeviceID vr" "DeviceID vr \<le> TotalDeviceNum vr"
    and ty: "NODE_TYPE Tr (DeviceID vr) = cstr (DeviceType vr)" "cstr (DeviceType vr) \<in> {''ZC'', ''ZR'', ''ZED''}"
    and q: "q = (if is_ZED vr then 0 else queue_offset (NODE_MAP Ts) (DeviceID vr) (DeviceID vs))" "q \<le> 7"
    and e: "e \<in> {0..3}"
  shows "m2m_remote_hq_buffer_start ds' i e - bs = m2m_hq_buffer_start dr' q e - br \<and>
         m2m_remote_hq_meta_start ds' i - bs = m2m_hq_meta_start dr' q - br"
proof -
  have n: "0 \<le> TotalDeviceNum vs" "0 \<le> TotalDeviceNum vr" using id same(3) by auto
  obtain d1 where S: "nodes_done bs Ts (ds\<lparr>m2m_localtime_start := (m2m_localtime_start ds)(0 := bs)\<rparr>) (TotalDeviceNum vs) (Ts', d1)"
    "vs' = vs\<lparr>Shared_memory_address := NODE_SHM_LOCATION Ts' (DeviceID vs)\<rparr>"
    "fold_res (dbp_remote Ts' vs') [0..NeighborNum vs - 1] (dbp_local vs' d1) = Inr ds'"
    using m2m_dbp_init_steps [OF s n(1)] by blast
  obtain d2 where R: "nodes_done br Tr (dr\<lparr>m2m_localtime_start := (m2m_localtime_start dr)(0 := br)\<rparr>) (TotalDeviceNum vr) (Tr', d2)"
    "vr' = vr\<lparr>Shared_memory_address := NODE_SHM_LOCATION Tr' (DeviceID vr)\<rparr>"
    "local_part dr' = local_part (dbp_local vr' d2)"
    using m2m_dbp_init_steps [OF r n(2)] by blast
  have rd: "remote_done Ts' vs' (NeighborNum vs - 1) ds'" using remote_done_loop [OF S(3)] i by simp
  have loc: "NODE_SHM_LOCATION Ts' (DeviceID vr) - bs = NODE_SHM_LOCATION Tr' (DeviceID vr) - br"
    and tables: "NODE_TYPE Ts' = NODE_TYPE Ts" "NODE_MAP Ts' = NODE_MAP Ts"
    using S(1) R(1) id same by (simp_all add: nodes_done_def)
  have q0: "q \<in> {0..7}" "is_ZED vr' \<longrightarrow> q = 0" using q R(2) by (auto simp: queue_offset_card)
  note local = dbp_local_queue [of vr' q e d2] and fields = local_part_fields [OF R(3)]
  have remote: "m2m_remote_hq_buffer_start ds' i e = NODE_SHM_LOCATION Ts' (DeviceID vr) + q * HEADER_QUEUE_SIZE + e * HEADER_QUEUE_ENTRY_SIZE"
    "m2m_remote_hq_meta_start ds' i = NODE_SHM_LOCATION Ts' (DeviceID vr) + (if is_ZED vr then HEADER_QUEUE_SIZE
        else NODE_MAX_LINKS * HEADER_QUEUE_SIZE + q * HEADER_QUEUE_METADATA_SIZE)"
    using rd i e ty same(2) q(1) tables S(2) by (auto simp: remote_done_def Let_def)
  have "is_ZED vr' = is_ZED vr" "cstr (DeviceType vr') \<in> {''ZC'', ''ZR'', ''ZED''}"
    "Shared_memory_address vr' = NODE_SHM_LOCATION Tr' (DeviceID vr)" using ty(2) R(2) by simp_all
  then show ?thesis using remote loc local [OF _ q0 e] unfolding fields by simp
qed

theorem queue_addresses_agree_witness:
  "\<exists>Ts' vs' ds' Tr' vr' dr'.
     m2m_dbp_init 8192 (topo2, vnd_zed, dbp0) = Inr (M2M_SUCCESS, Ts', vs', ds') \<and>
     m2m_dbp_init 4096 (topo2, vnd_zc, dbp0) = Inr (M2M_SUCCESS, Tr', vr', dr') \<and>
     m2m_remote_hq_buffer_start ds' 0 3 - 8192 = m2m_hq_buffer_start dr' 0 3 - 4096 \<and>
     m2m_remote_hq_meta_start ds' 0 - 8192 = m2m_hq_meta_start dr' 0 - 4096"
proof -
  obtain Ts' vs' ds' Tr' vr' dr' where i:
    "m2m_dbp_init 8192 (topo2, vnd_zed, dbp0) = Inr (M2M_SUCCESS, Ts', vs', ds')"
    "m2m_dbp_init 4096 (topo2, vnd_zc, dbp0) = Inr (M2M_SUCCESS, Tr', vr', dr')"
    using net2_init [of vnd_zed 8192] net2_init [of vnd_zc 4096] by auto
  have "[1..1] = [1 :: int]" by code_simp
  then have q: "queue_offset (NODE_MAP topo2) 1 2 = 0" by (simp add: queue_offset_def topo2_def)
  have ty: "cstr (DeviceType vnd_zc) = ''ZC''" by (simp add: vnd_zc_def cstr_def NUL_def)
  have "m2m_remote_hq_buffer_start ds' 0 3 - 8192 = m2m_hq_buffer_start dr' 0 3 - 4096 \<and>
     m2m_remote_hq_meta_start ds' 0 - 8192 = m2m_hq_meta_start dr' 0 - 4096"
    by (rule queue_addresses_agree [OF i]) (use q ty in \<open>simp_all add: vnd_zc_def vnd_zed_def topo2_def\<close>)
  with i show ?thesis by blast
qed

text \<open>
  Every link has a queue of its own: two different neighbours of a device write
  queues with different numbers, and each number is below the number of neighbours.
\<close>

theorem link_queues_distinct:
  assumes "1 \<le> a" "1 \<le> b" "a \<noteq> b" and "NM nb a \<noteq> 0" "NM nb b \<noteq> 0" and "a \<le> n" "b \<le> n"
  shows "queue_offset NM nb a \<noteq> queue_offset NM nb b \<and>
         0 \<le> queue_offset NM nb a \<and> queue_offset NM nb a < int (card {i \<in> {1..n}. NM nb i \<noteq> 0})"
proof -
  have "queue_offset NM nb a < queue_offset NM nb (n + 1)" using assms by (intro queue_offset_less) auto
  moreover have "{1..<n + 1} = {1..n}" by auto
  ultimately have "queue_offset NM nb a < int (card {i \<in> {1..n}. NM nb i \<noteq> 0})"
    unfolding queue_offset_card [of NM nb "n + 1"] by simp
  moreover have "queue_offset NM nb a \<noteq> queue_offset NM nb b"
    using assms queue_offset_less [of a b NM nb] queue_offset_less [of b a NM nb] by linarith
  ultimately show ?thesis by (simp add: queue_offset_card)
qed

theorem link_queues_distinct_witness:
  "queue_offset (\<lambda>_ i. if i \<in> {1, 3} then 1 else 0) 2 1 \<noteq> queue_offset (\<lambda>_ i. if i \<in> {1, 3} then 1 else 0) 2 3 \<and>
   0 \<le> queue_offset (\<lambda>_ i. if i \<in> {1, 3} then 1 else 0) 2 1 \<and>
   queue_offset (\<lambda>_ i. if i \<in> {1, 3} then 1 else 0) 2 1 < int (card {i \<in> {1..3 :: int}. (if i \<in> {1, 3} then 1 else 0 :: int) \<noteq> 0})"
  by (rule link_queues_distinct) simp_all

end
