(* ===== verification/M2M_Time.thy ===== *)
theory M2M_Time
  imports M2M_Layout
begin

text \<open>
  The clock of the simulation (\<^verbatim>\<open>hw/m2m_time.c\<close>): the start barrier in shared memory, the
  synchronisation of a router with its neighbours, and the latency of one transmission, which runs
  the CSMA/CA back-off and the acknowledgement retries of ZigBee. \<open>rand()\<close> is an infinite sequence
  of values that the calls consume in order.
\<close>

section \<open>Random numbers and \<open>RandomHit\<close>\<close>

type_synonym rnd = "nat \<Rightarrow> nat"

definition next_rand :: "rnd \<Rightarrow> nat \<times> rnd" where
  "next_rand r = (r 0, \<lambda>n. r (Suc n))"

text \<open>One turn of the outer loop: draw until a free box is hit. \<open>box\<close> is the set of boxes that are 1.\<close>

fun hit_one :: "nat \<Rightarrow> nat set \<Rightarrow> rnd \<Rightarrow> (nat set \<times> rnd) res" where
  "hit_one 0 box r = Inl No_return"
| "hit_one (Suc fuel) box r =
     (let (x, r) = next_rand r; hitnum = x mod Percentage
      in if hitnum \<notin> box then Inr (insert hitnum box, r) else hit_one fuel box r)"

fun fill_box :: "nat \<Rightarrow> nat \<Rightarrow> nat set \<Rightarrow> rnd \<Rightarrow> (nat set \<times> rnd) res" where
  "fill_box fuel 0 box r = Inr (box, r)"
| "fill_box fuel (Suc k) box r = bind_res (hit_one fuel box r) (\<lambda>(box, r). fill_box fuel k box r)"

definition RandomHit :: "nat \<Rightarrow> int \<Rightarrow> rnd \<Rightarrow> (bool \<times> rnd) res" where
  "RandomHit fuel Percent r =
     bind_res (fill_box fuel (nat Percent) {} r) (\<lambda>(box, r).
       let (guess, r) = next_rand r in Inr (guess mod Percentage \<in> box, r))"

section \<open>Latency of a transmission\<close>

text \<open>
  The back-off loop. \<open>k\<close> is \<open>MaxCSMABackoffs - NB_csma\<close>, so the test \<open>NB_csma == MaxCSMABackoffs\<close>
  is \<open>k = 0\<close>. The result tells whether the channel was found idle.
\<close>

fun csma_loop :: "nat \<Rightarrow> int \<Rightarrow> nat \<Rightarrow> nat \<Rightarrow> u64 \<Rightarrow> rnd \<Rightarrow> (bool \<times> u64 \<times> rnd) res" where
  "csma_loop fuel busy BE k us r =
     (let (x, r) = next_rand r;
          Backofftime = x mod 2 ^ BE;
          us = us + of_nat Backofftime * AUnitBackoffPeriod + CCADetectionTime
      in bind_res (RandomHit fuel busy r) (\<lambda>(csma_fail, r).
           if csma_fail then
             let BE = (if BE < maxBE then BE + 1 else BE) in
             case k of 0 \<Rightarrow> Inr (False, us, r)
             | Suc k \<Rightarrow> csma_loop fuel busy BE k us r
           else Inr (True, us, r)))"

declare csma_loop.simps [simp del]

text \<open>
  The acknowledgement loop, \<open>k\<close> being \<open>MaxFrameRetries - NB_ack\<close>. The packet time is computed in
  unsigned 32-bit arithmetic and then added to the 64-bit total.
\<close>

fun ack_loop :: "nat \<Rightarrow> int \<Rightarrow> int \<Rightarrow> u32 \<Rightarrow> nat \<Rightarrow> u64 \<Rightarrow> rnd \<Rightarrow> (bool \<times> u64 \<times> rnd) res" where
  "ack_loop fuel busy txbusy psize k us r =
     bind_res (csma_loop fuel busy minBE MaxCSMABackoffs us r) (\<lambda>(ok, us, r).
       if \<not> ok then Inr (False, us, r)
       else let us = us + ucast ((psize + HEADERSIZE) * DataRate) + AckWaitDuration in
            bind_res (RandomHit fuel txbusy r) (\<lambda>(ack_fail, r).
              if ack_fail then
                case k of 0 \<Rightarrow> Inr (False, us, r)
                | Suc k \<Rightarrow> ack_loop fuel busy txbusy psize k us r
              else Inr (True, us, r)))"

declare ack_loop.simps [simp del]

record latency_result =
  latency :: u64
  fail_latency :: "u64 option"    \<comment> \<open>the value stored through the pointer, when the code stores one\<close>

text \<open>
  \<open>(uint64_t)(TotalTransTimeus * 1000.0)\<close> is multiplication by 1000: the total stays below \<open>2^36\<close>
  (lemma \<open>ack_loop_bound\<close>), so the double is exact.
\<close>

definition latency_gen ::
  "nat \<Rightarrow> int \<Rightarrow> int \<Rightarrow> m2m_HQe \<Rightarrow> string \<Rightarrow> VND \<times> rnd \<Rightarrow> (latency_result \<times> VND \<times> rnd) res" where
  "latency_gen fuel busy txbusy msg_info networktype st = (let (v, r) = st;
       v = v\<lparr>TotalPacketTransTimes := TotalPacketTransTimes v + 1\<rparr> in
     if networktype = ''zigbee'' then
       bind_res (ack_loop fuel busy txbusy (PacketSize msg_info) MaxFrameRetries 0 r) (\<lambda>(ok, us, r).
         if ok then Inr (\<lparr>latency = us * 1000, fail_latency = None\<rparr>, v, r)
         else Inr (\<lparr>latency = 0, fail_latency = Some (us * 1000)\<rparr>,
                   v\<lparr>TotalPacketLossTimes := TotalPacketLossTimes v + 1\<rparr>, r))
     else Inr (\<lparr>latency = 0, fail_latency = None\<rparr>, v, r))"

definition transmission_latency ::
  "nat \<Rightarrow> m2m_HQe \<Rightarrow> string \<Rightarrow> VND \<times> rnd \<Rightarrow> (latency_result \<times> VND \<times> rnd) res" where
  "transmission_latency fuel =
     latency_gen fuel \<lfloor>ChannelBusyRateCSMA * of_nat Percentage\<rfloor> \<lfloor>ChannelBusyRateTx * of_nat Percentage\<rfloor>"

text \<open>
  \<open>one_hop_latency\<close> of \<^verbatim>\<open>hw/m2m_route_processor.c\<close>, with exact rationals for the doubles. The
  division by \<open>Paccess_granted\<close> has no value when the channel is never busy.
\<close>

definition one_hop_latency :: "rat \<Rightarrow> string \<Rightarrow> u64 res" where
  "one_hop_latency Pinactive device =
     (if device = ''zigbee'' then
        let Paccess_failure = (1 - Pinactive) * (1 - Pinactive) * (1 - Pinactive) * (1 - Pinactive);
            Paccess_granted = 1 - Paccess_failure in
        if Paccess_granted = 0 then Inl Undefined
        else let T_CSMACA = (1248 + (1 - Pinactive) * (2528 + (1 - Pinactive) * (5088 + (1 - Pinactive) * 5088)))
                   / Paccess_granted;
                 T_Tx = (133 * 8 div 4) * 16; T_Turnaround = 12 * 16; T_Tx_ACK = (11 * 8 div 4) * 16;
                 T_IFS = 40 * 16
             in Inr (of_int \<lfloor>(T_CSMACA + of_int (T_Tx + T_Turnaround + T_Tx_ACK + T_IFS)) * 1000\<rfloor>)
      else Inl Undefined)"

section \<open>Synchronisation of local times\<close>

record rp_lists =
  end_count :: int
  router_count :: int
  neighbor_end :: int
  neighbor_end_list :: "int \<Rightarrow> int"
  neighbor_router_list :: "int \<Rightarrow> int"

text \<open>One neighbour: \<open>warmup\<close> records one that has not started, the other component is the minimum.\<close>

definition sync_one :: "dbp \<Rightarrow> shm \<Rightarrow> int \<Rightarrow> bool \<times> u64 \<Rightarrow> bool \<times> u64" where
  "sync_one d h nb st = (let (warmup, tmp_time) = st; t = localtime h (m2m_localtime_start d nb) in
     if t = MAX_TIME then (True, tmp_time)
     else if tmp_time > t then (warmup, t) else (warmup, tmp_time))"

definition time_sync :: "VND \<Rightarrow> dbp \<Rightarrow> rp_lists \<Rightarrow> u64 \<Rightarrow> shm \<Rightarrow> u64" where
  "time_sync v d rp vpmu_time h =
     (if is_ZR v then
        let (warmup, tmp_time) =
              (if neighbor_end rp \<noteq> 0
               then fold (\<lambda>ind. sync_one d h (neighbor_end_list rp ind)) [0..end_count rp - 1] (False, MAX_TIME)
               else fold (\<lambda>ind. sync_one d h (neighbor_router_list rp ind)) [0..router_count rp - 1] (False, MAX_TIME))
        in if warmup then 0 else tmp_time
      else vpmu_time)"

definition set_localtime :: "int \<Rightarrow> u64 \<Rightarrow> shm \<Rightarrow> shm" where
  "set_localtime a t h = h\<lparr>localtime := (localtime h)(a := t)\<rparr>"

section \<open>The start barrier\<close>

text \<open>
  Before it waits, the coordinator marks every device as not started and clears the start signal;
  every device then sets its own slot to 0.
\<close>

definition time_init_begin :: "VND \<Rightarrow> dbp \<Rightarrow> shm \<Rightarrow> shm" where
  "time_init_begin v d h =
     (let h = (if is_ZC v
               then fold (\<lambda>ind. set_localtime (m2m_localtime_start d ind) MAX_TIME) [1..TotalDeviceNum v] h
               else h);
          h = set_localtime (m2m_localtime_start d (DeviceID v)) 0 h
      in if is_ZC v then set_localtime (m2m_localtime_start d 0) 0 h else h)"

text \<open>
  The coordinator's waiting loop. Other processes write while it runs, so the slot values are given
  per pass: \<open>reads p ind\<close> is what pass \<open>p\<close> reads in the slot of device \<open>ind\<close>.
\<close>

definition warmup_one :: "(int \<Rightarrow> u64) \<Rightarrow> int \<Rightarrow> (int \<Rightarrow> bool) \<times> int \<Rightarrow> (int \<Rightarrow> bool) \<times> int" where
  "warmup_one read ind st = (let (start, count) = st in
     if \<not> start ind \<and> read ind \<noteq> MAX_TIME then (start(ind := True), count + 1) else (start, count))"

fun warmup_wait :: "nat \<Rightarrow> int \<Rightarrow> (nat \<Rightarrow> int \<Rightarrow> u64) \<Rightarrow> (int \<Rightarrow> bool) \<times> int \<Rightarrow> ((int \<Rightarrow> bool) \<times> int) res" where
  "warmup_wait fuel n reads (start, count) =
     (if count < n - 1
      then case fuel of 0 \<Rightarrow> Inl No_return
           | Suc fuel \<Rightarrow> warmup_wait fuel n (\<lambda>p. reads (Suc p)) (fold (warmup_one (reads 0)) [2..n] (start, count))
      else Inr (start, count))"

declare warmup_wait.simps [simp del]

text \<open>The other devices poll the start signal; \<open>probes p\<close> is the value of poll \<open>p\<close>.\<close>

fun probe_wait :: "nat \<Rightarrow> (nat \<Rightarrow> u64) \<Rightarrow> unit res" where
  "probe_wait fuel probes =
     (if probes 0 = 1 then Inr ()
      else case fuel of 0 \<Rightarrow> Inl No_return | Suc fuel \<Rightarrow> probe_wait fuel (\<lambda>p. probes (Suc p)))"

declare probe_wait.simps [simp del]

text \<open>The whole function: \<open>h1\<close> is the memory when the wait is over. The result holds \<open>vpmu_trigger\<close>.\<close>

definition m2m_time_init ::
  "nat \<Rightarrow> (nat \<Rightarrow> int \<Rightarrow> u64) \<Rightarrow> (nat \<Rightarrow> u64) \<Rightarrow> shm \<Rightarrow> VND \<Rightarrow> dbp \<Rightarrow> int \<Rightarrow> (M2M_ERR_T \<times> shm \<times> int) res" where
  "m2m_time_init fuel reads probes h1 v d vpmu_trigger =
     (if is_ZC v
      then bind_res (warmup_wait fuel (TotalDeviceNum v) reads (\<lambda>_. False, 0)) (\<lambda>_.
             Inr (M2M_SUCCESS, set_localtime (m2m_localtime_start d 0) 1 h1, 77))
      else bind_res (probe_wait fuel probes) (\<lambda>_. Inr (M2M_SUCCESS, h1, vpmu_trigger)))"

definition m2m_time_exit :: "VND \<Rightarrow> dbp \<Rightarrow> shm \<Rightarrow> M2M_ERR_T \<times> shm \<times> int" where
  "m2m_time_exit v d h =
     (M2M_SUCCESS, set_localtime (m2m_localtime_start d (DeviceID v)) (MAX_TIME - 1) h, 0)"

definition get_vpmu_time :: "u64 \<Rightarrow> u64" where
  "get_vpmu_time vpmu_estimated_execution_time_ns = vpmu_estimated_execution_time_ns"

section \<open>\<open>RandomHit\<close> marks as many boxes as the percentage\<close>

lemma hit_one_box:
  "hit_one fuel box r = Inr (box', r') \<Longrightarrow> \<exists>x < Percentage. x \<notin> box \<and> box' = insert x box"
proof (induction fuel arbitrary: r)
  case (Suc fuel)
  then show ?case by (auto simp: next_rand_def Let_def Percentage_def split: if_splits intro: exI [of _ "r 0 mod 100"])
qed simp

lemma fill_box_card:
  assumes "fill_box fuel k box r = Inr (box', r')" and "finite box" and "box \<subseteq> {..<Percentage}"
  shows "card box' = card box + k \<and> box' \<subseteq> {..<Percentage} \<and> finite box'"
  using assms
proof (induction k arbitrary: box r)
  case (Suc k)
  then obtain b1 r1 where 1: "hit_one fuel box r = Inr (b1, r1)" "fill_box fuel k b1 r1 = Inr (box', r')" by auto
  from hit_one_box [OF 1(1)] obtain x where "x < Percentage" "x \<notin> box" "b1 = insert x box" by blast
  then show ?case using Suc.IH [OF 1(2)] Suc.prems by auto
qed simp

lemma RandomHit_zero: "p \<le> 0 \<Longrightarrow> RandomHit fuel p r = Inr (False, \<lambda>n. r (Suc n))"
  by (simp add: RandomHit_def next_rand_def Let_def)

lemma fill_box_over:
  assumes "fill_box fuel k {} r = Inr (box', r')"
  shows "k \<le> 100"
proof -
  have "card box' = k" "box' \<subseteq> {..<Percentage}" using fill_box_card [OF assms] by auto
  then show ?thesis using card_mono [of "{..<Percentage}" box'] by (simp add: Percentage_def)
qed

section \<open>Bounds of the latency\<close>

lemma csma_loop_steps:
  "csma_loop fuel busy BE k us r = Inr (ok, us', r') \<Longrightarrow> BE \<le> maxBE \<Longrightarrow>
     \<exists>m \<le> (31 * 320 + 128) * (k + 1). 128 \<le> m \<and> us' = us + of_nat m"
proof (induction k arbitrary: BE us r rule: less_induct)
  case (less k)
  let ?b = "r 0 mod 2 ^ BE" and ?r = "\<lambda>n. r (Suc n)"
  let ?us = "us + of_nat ?b * AUnitBackoffPeriod + CCADetectionTime"
  let ?BE = "if BE < maxBE then BE + 1 else BE"
  have "?b < 2 ^ BE" by simp
  also have "(2 :: nat) ^ BE \<le> 2 ^ 5" using less.prems(2) by (intro power_increasing) (auto simp: maxBE_def)
  finally have b: "?b \<le> 31" by simp
  have us: "?us = us + of_nat (?b * 320 + 128)"
    by (simp add: AUnitBackoffPeriod_def CCADetectionTime_def algebra_simps)
  note run = less.prems(1) [unfolded csma_loop.simps [of fuel busy BE k us r] next_rand_def Let_def]
  obtain fl r1 where hit: "RandomHit fuel busy ?r = Inr (fl, r1)" using run by auto
  show ?case
  proof (cases "fl \<and> k \<noteq> 0")
    case False
    then have "us' = ?us" using run hit by (auto split: nat.splits if_splits)
    moreover have "?b * 320 + 128 \<le> (31 * 320 + 128) * (k + 1)" using b by simp
    ultimately show ?thesis unfolding us by (intro exI [of _ "?b * 320 + 128"]) simp
  next
    case True
    then obtain k' where k: "k = Suc k'" by (cases k) auto
    have "csma_loop fuel busy ?BE k' ?us r1 = Inr (ok, us', r')" using run hit True k by simp
    moreover have "?BE \<le> maxBE" using less.prems(2) by auto
    ultimately obtain m where m: "m \<le> (31 * 320 + 128) * (k' + 1)" "us' = ?us + of_nat m"
      using less.IH [of k' ?BE ?us r1] k by auto
    then show ?thesis
      unfolding us using b k by (intro exI [of _ "?b * 320 + 128 + m"]) (auto simp: algebra_simps)
  qed
qed

lemma ack_loop_steps:
  "ack_loop fuel busy txbusy psize k us r = Inr (ok, us', r') \<Longrightarrow>
     \<exists>m \<le> ((31 * 320 + 128) * 5 + 2 ^ 32 + 864) * (k + 1). 128 \<le> m \<and> us' = us + of_nat m"
proof (induction k arbitrary: us r rule: less_induct)
  case (less k)
  note run = less.prems [unfolded ack_loop.simps [of fuel busy txbusy psize k us r]]
  obtain c us1 r1 where c: "csma_loop fuel busy minBE MaxCSMABackoffs us r = Inr (c, us1, r1)" using run by auto
  from csma_loop_steps [OF c] obtain m where m: "m \<le> (31 * 320 + 128) * 5" "128 \<le> m" "us1 = us + of_nat m"
    by (auto simp: minBE_def maxBE_def MaxCSMABackoffs_def)
  define p where "p = unat ((psize + HEADERSIZE) * DataRate)"
  have p: "p < 2 ^ 32" "ucast ((psize + HEADERSIZE) * DataRate) = (of_nat p :: u64)"
    unfolding p_def by (rule order_less_le_trans [OF unsigned_less], simp, simp only: of_nat_unat)
  show ?case
  proof (cases c)
    case False
    then have "us' = us + of_nat m" using run c m(3) by simp
    then show ?thesis using m(1,2) by (intro exI [of _ m]) auto
  next
    case True
    let ?us = "us1 + ucast ((psize + HEADERSIZE) * DataRate) + AckWaitDuration"
    have us: "?us = us + of_nat (m + p + 864)" by (simp add: m(3) p(2) AckWaitDuration_def)
    obtain fl r2 where hit: "RandomHit fuel txbusy r1 = Inr (fl, r2)" using run c True by (auto simp: Let_def)
    show ?thesis
    proof (cases "fl \<and> k \<noteq> 0")
      case False
      then have "us' = ?us" using run c True hit by (auto simp: Let_def split: nat.splits if_splits)
      then show ?thesis unfolding us using m p(1) by (intro exI [of _ "m + p + 864"]) auto
    next
      case fl: True
      then obtain k' where k: "k = Suc k'" by (cases k) auto
      have "ack_loop fuel busy txbusy psize k' ?us r2 = Inr (ok, us', r')"
        using run c True hit fl k by (simp add: Let_def)
      then obtain m' where m': "m' \<le> ((31 * 320 + 128) * 5 + 2 ^ 32 + 864) * (k' + 1)" "us' = ?us + of_nat m'"
        using less.IH [of k' ?us r2] k by auto
      then show ?thesis
        unfolding us using m p(1) k by (intro exI [of _ "m + p + 864 + m'"]) (auto simp: algebra_simps)
    qed
  qed
qed

lemma ack_loop_bound:
  assumes "ack_loop fuel busy txbusy psize MaxFrameRetries 0 r = Inr (ok, us, r')"
  shows "128 \<le> unat us \<and> unat us < 2 ^ 36"
proof -
  obtain m where m: "m \<le> ((31 * 320 + 128) * 5 + 2 ^ 32 + 864) * 4" "128 \<le> m" "us = of_nat m"
    using ack_loop_steps [OF assms] by (auto simp: MaxFrameRetries_def)
  then have "unat us = m" by (simp add: unat_of_nat)
  then show ?thesis using m by simp
qed

section \<open>Synchronisation takes the minimum\<close>

lemma sync_fold:
  assumes "fold (\<lambda>ind. sync_one d h (L ind)) xs (w, m) = (w', m')"
  defines "t \<equiv> \<lambda>ind. localtime h (m2m_localtime_start d (L ind))"
  shows "w' \<longleftrightarrow> w \<or> (\<exists>i \<in> set xs. t i = MAX_TIME)" and "m' \<le> m"
    and "\<forall>i \<in> set xs. t i \<noteq> MAX_TIME \<longrightarrow> m' \<le> t i" and "m' = m \<or> (\<exists>i \<in> set xs. m' = t i)"
proof -
  have "(w' \<longleftrightarrow> w \<or> (\<exists>i \<in> set xs. t i = MAX_TIME)) \<and> m' \<le> m \<and>
    (\<forall>i \<in> set xs. t i \<noteq> MAX_TIME \<longrightarrow> m' \<le> t i) \<and> (m' = m \<or> (\<exists>i \<in> set xs. m' = t i))"
    using assms(1)
  proof (induction xs arbitrary: w m)
    case (Cons x xs)
    obtain w1 m1 where s: "sync_one d h (L x) (w, m) = (w1, m1)" by fastforce
    then have "w1 \<longleftrightarrow> w \<or> t x = MAX_TIME" "m1 \<le> m" "t x \<noteq> MAX_TIME \<longrightarrow> m1 \<le> t x" "m1 = m \<or> m1 = t x"
      by (auto simp: sync_one_def t_def Let_def split: if_splits)
    then show ?case using Cons.IH [of w1 m1] Cons.prems s by auto
  qed simp
  then show "w' \<longleftrightarrow> w \<or> (\<exists>i \<in> set xs. t i = MAX_TIME)" and "m' \<le> m"
    and "\<forall>i \<in> set xs. t i \<noteq> MAX_TIME \<longrightarrow> m' \<le> t i" and "m' = m \<or> (\<exists>i \<in> set xs. m' = t i)"
    by blast+
qed

text \<open>The devices a router waits for: its end devices, or, without any, its routers.\<close>

definition sync_nodes :: "rp_lists \<Rightarrow> int list" where
  "sync_nodes rp = (if neighbor_end rp \<noteq> 0 then map (neighbor_end_list rp) [0..end_count rp - 1]
     else map (neighbor_router_list rp) [0..router_count rp - 1])"

lemma time_sync_router:
  fixes d :: dbp and h :: shm
  assumes "is_ZR v"
  defines "t \<equiv> \<lambda>nb. localtime h (m2m_localtime_start d nb)"
  shows "if \<exists>nb \<in> set (sync_nodes rp). t nb = MAX_TIME then time_sync v d rp vt h = 0
     else (\<forall>nb \<in> set (sync_nodes rp). time_sync v d rp vt h \<le> t nb) \<and>
          time_sync v d rp vt h \<in> insert MAX_TIME (t ` set (sync_nodes rp))"
proof -
  obtain L n where L: "sync_nodes rp = map L [0..n]" and ts: "time_sync v d rp vt h =
      (let (w, m) = fold (\<lambda>ind. sync_one d h (L ind)) [0..n] (False, MAX_TIME) in if w then 0 else m)"
  proof (cases "neighbor_end rp = 0")
    case True
    then show ?thesis using that [of "neighbor_router_list rp" "router_count rp - 1"] assms(1)
      by (simp add: time_sync_def sync_nodes_def)
  next
    case False
    then show ?thesis using that [of "neighbor_end_list rp" "end_count rp - 1"] assms(1)
      by (simp add: time_sync_def sync_nodes_def)
  qed
  obtain w m where f: "fold (\<lambda>ind. sync_one d h (L ind)) [0..n] (False, MAX_TIME) = (w, m)" by fastforce
  note F = sync_fold [OF f]
  have set: "set (sync_nodes rp) = L ` {0..n}" by (simp add: L)
  show ?thesis
    unfolding ts f Let_def using F unfolding set t_def by auto
qed

section \<open>The barrier\<close>

lemma warmup_pass:
  assumes "distinct xs"
  shows "fst (fold (warmup_one read) xs (start, count)) i \<longleftrightarrow> start i \<or> (i \<in> set xs \<and> read i \<noteq> MAX_TIME)"
    and "snd (fold (warmup_one read) xs (start, count)) =
           count + int (card {i \<in> set xs. \<not> start i \<and> read i \<noteq> MAX_TIME})"
proof -
  have "fst (fold (warmup_one read) xs (start, count)) i = (start i \<or> (i \<in> set xs \<and> read i \<noteq> MAX_TIME)) \<and>
     snd (fold (warmup_one read) xs (start, count)) =
           count + int (card {i \<in> set xs. \<not> start i \<and> read i \<noteq> MAX_TIME})"
    using assms
  proof (induction xs arbitrary: start count)
    case (Cons x xs)
    show ?case
    proof (cases "\<not> start x \<and> read x \<noteq> MAX_TIME")
      case True
      let ?N = "{i \<in> set xs. \<not> start i \<and> read i \<noteq> MAX_TIME}"
      define s1 where "s1 = start(x := True)"
      have s1: "s1 i \<longleftrightarrow> i = x \<or> start i" for i by (simp add: s1_def)
      have run: "fold (warmup_one read) (x # xs) (start, count) = fold (warmup_one read) xs (s1, count + 1)"
        using True by (simp add: warmup_one_def s1_def)
      have same: "{i \<in> set xs. \<not> s1 i \<and> read i \<noteq> MAX_TIME} = ?N"
        and new: "{i \<in> set (x # xs). \<not> start i \<and> read i \<noteq> MAX_TIME} = insert x ?N" "x \<notin> ?N" "finite ?N"
        using Cons.prems True by (auto simp: s1)
      have IH: "fst (fold (warmup_one read) (x # xs) (start, count)) i =
          (s1 i \<or> (i \<in> set xs \<and> read i \<noteq> MAX_TIME))"
        "snd (fold (warmup_one read) (x # xs) (start, count)) = count + 1 + int (card ?N)"
        using Cons.IH [of s1 "count + 1"] Cons.prems unfolding run same by simp_all
      show ?thesis unfolding IH new(1) s1 using True new(2,3) by auto
    next
      case False
      then have "{i \<in> set (x # xs). \<not> start i \<and> read i \<noteq> MAX_TIME} = {i \<in> set xs. \<not> start i \<and> read i \<noteq> MAX_TIME}"
        by auto
      then show ?thesis using Cons.IH [of start count] Cons.prems False by (auto simp: warmup_one_def Let_def)
    qed
  qed simp
  then show "fst (fold (warmup_one read) xs (start, count)) i \<longleftrightarrow> start i \<or> (i \<in> set xs \<and> read i \<noteq> MAX_TIME)"
    and "snd (fold (warmup_one read) xs (start, count)) =
           count + int (card {i \<in> set xs. \<not> start i \<and> read i \<noteq> MAX_TIME})"
    by blast+
qed

lemma warmup_pass_count:
  assumes "count = int (card {i \<in> {2..n}. start i})"
    and "fold (warmup_one read) [2..n] (start, count) = (start', count')"
  shows "count' = int (card {i \<in> {2..n}. start' i})"
proof -
  have s: "start' i \<longleftrightarrow> start i \<or> (i \<in> {2..n} \<and> read i \<noteq> MAX_TIME)" for i
    using warmup_pass(1) [of "[2..n]" read start count i] assms(2) by simp
  have "{i \<in> {2..n}. start' i} = {i \<in> {2..n}. start i} \<union> {i \<in> {2..n}. \<not> start i \<and> read i \<noteq> MAX_TIME}"
    using s by auto
  moreover have fin: "finite {i \<in> {2..n}. Q i}" for Q by (rule finite_subset [of _ "{2..n}"]) auto
  ultimately have "card {i \<in> {2..n}. start' i} =
      card {i \<in> {2..n}. start i} + card {i \<in> {2..n}. \<not> start i \<and> read i \<noteq> MAX_TIME}"
    using fin by (subst card_Un_disjoint [symmetric]) auto
  then show ?thesis using warmup_pass(2) [of "[2..n]" read start count] assms by simp
qed

lemma card_all_started:
  assumes "1 \<le> n"
  shows "int (card {i \<in> {2..n}. start i}) < n - 1 \<longleftrightarrow> \<not> (\<forall>i \<in> {2..n}. start i)"
proof -
  have all: "card {2..n} = nat (n - 1)" by simp
  show ?thesis
  proof
    assume "\<not> (\<forall>i \<in> {2..n}. start i)"
    then have "{i \<in> {2..n}. start i} \<subset> {2..n}" by auto
    then have "card {i \<in> {2..n}. start i} < card {2..n}" by (intro psubset_card_mono) auto
    then show "int (card {i \<in> {2..n}. start i}) < n - 1" using all assms by simp
  next
    assume less: "int (card {i \<in> {2..n}. start i}) < n - 1"
    show "\<not> (\<forall>i \<in> {2..n}. start i)"
    proof
      assume "\<forall>i \<in> {2..n}. start i"
      then have "{i \<in> {2..n}. start i} = {2..n}" by auto
      then show False using less all assms by simp
    qed
  qed
qed

lemma warmup_wait_spec:
  assumes "1 \<le> n" and "count = int (card {i \<in> {2..n}. start i})"
  shows "if \<forall>i \<in> {2..n}. start i \<or> (\<exists>p < fuel. reads p i \<noteq> MAX_TIME)
         then \<exists>st. warmup_wait fuel n reads (start, count) = Inr st
         else warmup_wait fuel n reads (start, count) = Inl No_return"
  using assms(2)
proof (induction fuel arbitrary: reads start count)
  case 0
  then show ?case
    using card_all_started [OF assms(1), of start] by (subst warmup_wait.simps) (simp add: warmup_wait.simps)
next
  case (Suc fuel)
  obtain start' count' where f: "fold (warmup_one (reads 0)) [2..n] (start, count) = (start', count')" by fastforce
  have c: "count' = int (card {i \<in> {2..n}. start' i})" by (rule warmup_pass_count [OF Suc.prems f])
  have s: "start' i \<longleftrightarrow> start i \<or> (i \<in> {2..n} \<and> reads 0 i \<noteq> MAX_TIME)" for i
    using warmup_pass(1) [of "[2..n]" "reads 0" start count i] f by simp
  have less: "(\<exists>p < Suc fuel. reads p i \<noteq> MAX_TIME) \<longleftrightarrow>
      reads 0 i \<noteq> MAX_TIME \<or> (\<exists>p < fuel. reads (Suc p) i \<noteq> MAX_TIME)" for i
    by (auto simp: less_Suc_eq_0_disj)
  show ?case
  proof (cases "count < n - 1")
    case True
    then have "warmup_wait (Suc fuel) n reads (start, count) = warmup_wait fuel n (\<lambda>p. reads (Suc p)) (start', count')"
      by (subst warmup_wait.simps) (simp add: f)
    moreover have "(\<forall>i \<in> {2..n}. start' i \<or> (\<exists>p < fuel. reads (Suc p) i \<noteq> MAX_TIME)) \<longleftrightarrow>
        (\<forall>i \<in> {2..n}. start i \<or> (\<exists>p < Suc fuel. reads p i \<noteq> MAX_TIME))"
      unfolding s less by blast
    ultimately show ?thesis using Suc.IH [OF c, of "\<lambda>p. reads (Suc p)"] by (simp only:)
  next
    case False
    then have "\<forall>i \<in> {2..n}. start i" using card_all_started [OF assms(1), of start] Suc.prems by simp
    then show ?thesis using False by (subst warmup_wait.simps) (auto simp: warmup_wait.simps)
  qed
qed

lemma probe_wait_spec:
  "probe_wait fuel probes = (if \<exists>p \<le> fuel. probes p = 1 then Inr () else Inl No_return)"
proof (induction fuel arbitrary: probes)
  case (Suc fuel)
  have "(\<exists>p \<le> Suc fuel. probes p = 1) \<longleftrightarrow> probes 0 = 1 \<or> (\<exists>p \<le> fuel. probes (Suc p) = 1)"
    by (metis Suc_le_mono le0 not0_implies_Suc)
  then show ?case using Suc.IH [of "\<lambda>p. probes (Suc p)"] by (simp add: probe_wait.simps [of "Suc fuel"])
qed (simp add: probe_wait.simps)

lemma transmission_latency_ok:
  "\<exists>res v' r'. transmission_latency fuel msg ''zigbee'' (v, r) = Inr (res, v', r') \<and>
     v' = v\<lparr>TotalPacketTransTimes := TotalPacketTransTimes v + 1\<rparr> \<and> fail_latency res = None"
  by (simp add: transmission_latency_def latency_gen_def Let_def ack_loop.simps csma_loop.simps next_rand_def
      RandomHit_zero m2m_const_defs)

lemma latency_gen_cases:
  assumes "latency_gen fuel busy txbusy msg ''zigbee'' (v, r) = Inr (res, v', r')"
  obtains us where "res = \<lparr>latency = us * 1000, fail_latency = None\<rparr>"
      "v' = v\<lparr>TotalPacketTransTimes := TotalPacketTransTimes v + 1\<rparr>"
      "128 \<le> unat us" "unat us < 2 ^ 36" "unat (us * 1000) = unat us * 1000" "us * 1000 \<noteq> 0"
  | us where "res = \<lparr>latency = 0, fail_latency = Some (us * 1000)\<rparr>"
      "v' = v\<lparr>TotalPacketTransTimes := TotalPacketTransTimes v + 1, TotalPacketLossTimes := TotalPacketLossTimes v + 1\<rparr>"
      "128 \<le> unat us" "unat us < 2 ^ 36" "unat (us * 1000) = unat us * 1000"
proof -
  obtain ok us r1 where a: "ack_loop fuel busy txbusy (PacketSize msg) MaxFrameRetries 0 r = Inr (ok, us, r1)"
    and res: "if ok then res = \<lparr>latency = us * 1000, fail_latency = None\<rparr> \<and> v' = v\<lparr>TotalPacketTransTimes := TotalPacketTransTimes v + 1\<rparr>
       else res = \<lparr>latency = 0, fail_latency = Some (us * 1000)\<rparr> \<and>
            v' = v\<lparr>TotalPacketTransTimes := TotalPacketTransTimes v + 1, TotalPacketLossTimes := TotalPacketLossTimes v + 1\<rparr>"
    using assms by (auto simp: latency_gen_def Let_def split: if_splits)
  note b = ack_loop_bound [OF a]
  have u: "unat (us * 1000) = unat us * 1000" using b by (simp add: unat_word_ariths)
  then have "us * 1000 \<noteq> 0" using b by auto
  then show ?thesis using that res b u by (cases ok) auto
qed

lemma transmission_latency_pos:
  assumes "transmission_latency fuel msg ''zigbee'' (v, r) = Inr (res, v', r')" and "fail_latency res = None"
  shows "latency res \<noteq> 0"
  using assms(1) [unfolded transmission_latency_def]
  by (cases rule: latency_gen_cases) (use assms(2) in auto)

section \<open>Properties of time\<close>

definition hqe0 :: m2m_HQe where
  "hqe0 = \<lparr>tag = 0, PacketSize = 10, SenderID = 1, ReceiverID = 2, ForwardID = 1, EntryNum = 0,
     SendTime = 0, TransTime = 0\<rparr>"

definition shm0 :: shm where
  "shm0 = \<lparr>localtime = \<lambda>_. 0, hq_meta = \<lambda>_. \<lparr>producer = 0, consumer = 0\<rparr>, hq_ent = \<lambda>_. Bytes [],
     hq_cf = \<lambda>_. \<lparr>dataflag = 0, transtime = 0\<rparr>, db_meta = \<lambda>_. \<lparr>db_dataflag = 0, db_transtime = 0\<rparr>\<rparr>"

text \<open>
  With the channel rates of \<^verbatim>\<open>m2m.h\<close> a transmission always succeeds: it returns at once
  and takes between 0 and 3 back-off periods, one channel check, 32 microseconds for each byte of the
  packet with its header, and the acknowledgement wait, in nanoseconds. It counts one transmission,
  no loss, and draws exactly three random numbers.
\<close>

theorem transmission_latency_value:
  "transmission_latency fuel msg ''zigbee'' (v, r) =
     Inr (\<lparr>latency = (of_nat (r 0 mod 4) * 320 + 128 + ucast ((PacketSize msg + 43) * 32 :: u32) + 864) * 1000,
           fail_latency = None\<rparr>,
          v\<lparr>TotalPacketTransTimes := TotalPacketTransTimes v + 1\<rparr>, \<lambda>n. r (n + 3))"
  by (simp add: transmission_latency_def latency_gen_def Let_def ack_loop.simps csma_loop.simps next_rand_def
      RandomHit_zero m2m_const_defs numeral_3_eq_3)

text \<open>
  For every channel rate the latency is bounded, the conversion through a double is
  exact, and the outcome is one of two: a positive latency and no loss, or latency 0, one more loss
  and a positive failure latency. Every case counts one transmission.
\<close>

theorem transmission_latency_bounds:
  assumes "latency_gen fuel busy txbusy msg ''zigbee'' (v, r) = Inr (res, v', r')"
  shows "unat (latency res) < 1000 * 2 ^ 36 \<and>
     TotalPacketTransTimes v' = TotalPacketTransTimes v + 1 \<and>
     (if latency res = 0
      then TotalPacketLossTimes v' = TotalPacketLossTimes v + 1 \<and>
           (\<exists>f. fail_latency res = Some f \<and> 128000 \<le> unat f \<and> unat f < 1000 * 2 ^ 36)
      else 128000 \<le> unat (latency res) \<and> TotalPacketLossTimes v' = TotalPacketLossTimes v \<and>
           fail_latency res = None)"
  using assms by (cases rule: latency_gen_cases) auto

theorem transmission_latency_bounds_witness:
  "\<exists>res v' r'. latency_gen 1 0 0 hqe0 ''zigbee'' (vnd0, \<lambda>_. 0) = Inr (res, v', r') \<and>
     unat (latency res) < 1000 * 2 ^ 36 \<and> TotalPacketTransTimes v' = TotalPacketTransTimes vnd0 + 1"
proof -
  obtain res v' r' where *: "latency_gen 1 0 0 hqe0 ''zigbee'' (vnd0, \<lambda>_. 0) = Inr (res, v', r')"
    by (simp add: latency_gen_def Let_def ack_loop.simps csma_loop.simps next_rand_def RandomHit_zero)
  with transmission_latency_bounds [OF *] show ?thesis by blast
qed

text \<open>
  \<open>RandomHit\<close> marks exactly as many of the 100 boxes as the percentage says, all
  different, so its answer is a hit with exactly that share of the guesses; a percentage above 100
  never returns.
\<close>

theorem RandomHit_share:
  assumes "RandomHit fuel p r = Inr (hit, r')" and "0 \<le> p"
  shows "p \<le> 100 \<and> (\<exists>box guess. box \<subseteq> {..<100 :: nat} \<and> int (card box) = p \<and> guess < 100 \<and> hit = (guess \<in> box))"
proof -
  obtain box r1 where f: "fill_box fuel (nat p) {} r = Inr (box, r1)" and hit: "hit = (r1 0 mod Percentage \<in> box)"
    using assms(1) by (auto simp: RandomHit_def next_rand_def)
  have "card box = nat p" "box \<subseteq> {..<100}" using fill_box_card [OF f] by (auto simp: Percentage_def)
  then show ?thesis
    using hit fill_box_over [OF f] assms(2) by (auto simp: Percentage_def intro!: exI [of _ box] exI [of _ "r1 0 mod 100"])
qed

theorem RandomHit_share_witness:
  "RandomHit 1 2 id = Inr (False, \<lambda>n. n + 3) \<and>
     (2 :: int) \<le> 100 \<and> (\<exists>box guess. box \<subseteq> {..<100} \<and> int (card box) = 2 \<and> guess < (100 :: nat) \<and> False = (guess \<in> box))"
proof -
  have *: "RandomHit 1 2 id = Inr (False, \<lambda>n. n + 3)"
    by (simp add: RandomHit_def next_rand_def Let_def Percentage_def numeral_2_eq_2 numeral_3_eq_3)
  with RandomHit_share [OF *] show ?thesis by simp
qed

text \<open>
  Property C10. A router never runs ahead: the time \<open>time_sync\<close> gives it is at most the local time of
  every neighbour it follows, it is 0 while one of them has not started, and otherwise it is the
  time of one of them (or \<open>MAX_TIME\<close> when there is none).
\<close>

theorem time_sync_conservative:
  assumes "is_ZR v"
  shows "(\<forall>nb \<in> set (sync_nodes rp). time_sync v d rp vt h \<le> localtime h (m2m_localtime_start d nb)) \<and>
     (if \<exists>nb \<in> set (sync_nodes rp). localtime h (m2m_localtime_start d nb) = MAX_TIME
      then time_sync v d rp vt h = 0
      else time_sync v d rp vt h \<in> insert MAX_TIME ((\<lambda>nb. localtime h (m2m_localtime_start d nb)) ` set (sync_nodes rp)))"
  using time_sync_router [OF assms, where h = h and d = d and rp = rp and vt = vt] by (auto split: if_splits)

definition vnd_zr :: VND where
  "vnd_zr = vnd0\<lparr>DeviceID := 2, DeviceType := [CHR ''Z'', CHR ''R'', NUL], TotalDeviceNum := 3\<rparr>"

definition rp2 :: rp_lists where
  "rp2 = \<lparr>end_count = 1, router_count = 1, neighbor_end = 1, neighbor_end_list = \<lambda>_. 3, neighbor_router_list = \<lambda>_. 1\<rparr>"

theorem time_sync_conservative_witness:
  "sync_nodes rp2 = [3] \<and> time_sync vnd_zr dbp0 rp2 0 (set_localtime 0 5 shm0) \<le> 5"
proof -
  have "is_ZR vnd_zr" by (simp add: vnd_zr_def cstr_def NUL_def)
  moreover have "sync_nodes rp2 = [3]" by (simp add: sync_nodes_def rp2_def upto_0_0)
  ultimately show ?thesis
    using time_sync_conservative [of vnd_zr rp2 dbp0 0 "set_localtime 0 5 shm0"]
    by (simp add: set_localtime_def dbp0_def)
qed

text \<open>
  The start barrier: the coordinator's loop over the devices \<open>2..n\<close> ends within a number
  of passes exactly when each of them has been seen with a started clock in one of these passes.
\<close>

theorem start_barrier:
  assumes "1 \<le> n"
  shows "if \<forall>i \<in> {2..n}. \<exists>p < fuel. reads p i \<noteq> MAX_TIME
         then \<exists>st. warmup_wait fuel n reads (\<lambda>_. False, 0) = Inr st
         else warmup_wait fuel n reads (\<lambda>_. False, 0) = Inl No_return"
  using warmup_wait_spec [OF assms, of 0 "\<lambda>_. False" fuel reads] by simp

theorem start_barrier_witness:
  "\<exists>st. warmup_wait 2 3 (\<lambda>p i. if i = 3 \<and> p = 0 then MAX_TIME else 0) (\<lambda>_. False, 0) = Inr st"
proof -
  have "\<forall>i \<in> {2..3}. \<exists>p < (2 :: nat). (if i = (3 :: int) \<and> p = 0 then MAX_TIME else 0) \<noteq> MAX_TIME"
    by (intro ballI exI [of _ 1]) (simp add: MAX_TIME_def)
  then show ?thesis
    using start_barrier [of 3 2 "\<lambda>p i. if i = 3 \<and> p = 0 then MAX_TIME else 0"] by (simp only: if_True one_le_numeral)
qed

end
