(* ===== verification/M2M_HeaderQueue.thy ===== *)
theory M2M_HeaderQueue
  imports M2M_Types
begin

text \<open>
  The header queue in shared memory: four entries and two counters. A small message takes two
  entries, the header at \<open>producer\<close> and the data at \<open>producer + 1\<close>, and both counters move by two, so
  they only take the values 0 and 2. The theory has the tests and updates that
  \<^verbatim>\<open>hw/m2m_send_recv.c\<close> and \<^verbatim>\<open>hw/m2m_route_processor.c\<close> perform on a queue, the interface of a
  bounded queue as a locale, and the proof that the ring implements it with a capacity of one message.
\<close>

section \<open>Tests and updates of the code\<close>

record hq =
  q_meta :: int             \<comment> \<open>address of the metadata\<close>
  q_entry :: "u32 \<Rightarrow> int"   \<comment> \<open>addresses of the entries\<close>

definition ring4 :: "u32 \<Rightarrow> u32" where
  "ring4 x = x mod of_int HEADER_QUEUE_ENTRY_NUM"

definition q_prod :: "hq \<Rightarrow> shm \<Rightarrow> u32" where "q_prod q h = producer (hq_meta h (q_meta q))"
definition q_cons :: "hq \<Rightarrow> shm \<Rightarrow> u32" where "q_cons q h = consumer (hq_meta h (q_meta q))"

definition q_empty :: "hq \<Rightarrow> shm \<Rightarrow> bool" where
  "q_empty q h \<longleftrightarrow> q_prod q h = q_cons q h"

text \<open>The two waits of a sender: for the header entry and for the data entry.\<close>

definition header_full :: "hq \<Rightarrow> shm \<Rightarrow> bool" where
  "header_full q h \<longleftrightarrow> ring4 (q_prod q h + 1) = q_cons q h"

definition data_full :: "hq \<Rightarrow> shm \<Rightarrow> bool" where
  "data_full q h \<longleftrightarrow> ring4 (q_prod q h + 2) = q_cons q h"

definition set_entry :: "int \<Rightarrow> hq_entry \<Rightarrow> shm \<Rightarrow> shm" where
  "set_entry a x h = h\<lparr>hq_ent := (hq_ent h)(a := x)\<rparr>"

definition advance_producer :: "hq \<Rightarrow> shm \<Rightarrow> shm" where
  "advance_producer q h = h\<lparr>hq_meta := (hq_meta h)(q_meta q :=
     (hq_meta h (q_meta q))\<lparr>producer := ring4 (q_prod q h + 2)\<rparr>)\<rparr>"

definition advance_consumer :: "hq \<Rightarrow> shm \<Rightarrow> shm" where
  "advance_consumer q h = h\<lparr>hq_meta := (hq_meta h)(q_meta q :=
     (hq_meta h (q_meta q))\<lparr>consumer := ring4 (q_cons q h + 2)\<rparr>)\<rparr>"

definition header_at :: "int \<Rightarrow> shm \<Rightarrow> m2m_HQe res" where
  "header_at a h = (case hq_ent h a of Header p \<Rightarrow> Inr p | Bytes _ \<Rightarrow> Inl Undefined)"

text \<open>\<open>memcpy\<close> of \<open>n\<close> bytes out of a data entry.\<close>

definition data_at :: "int \<Rightarrow> u32 \<Rightarrow> shm \<Rightarrow> u8 list res" where
  "data_at a n h = (case hq_ent h a of Header _ \<Rightarrow> Inl Undefined
     | Bytes bs \<Rightarrow> if unat n \<le> length bs then Inr (take (unat n) bs) else Inl Bad_copy)"

definition peek_header :: "hq \<Rightarrow> shm \<Rightarrow> m2m_HQe res" where
  "peek_header q h = header_at (q_entry q (q_cons q h)) h"

lemmas hq_op_defs = q_prod_def q_cons_def q_empty_def header_full_def data_full_def set_entry_def
  advance_producer_def advance_consumer_def header_at_def data_at_def peek_header_def

section \<open>A bounded queue as an interface\<close>

datatype 'm queue_op = Enq 'm | Deq

text \<open>
  A run of operations; an operation that the queue refuses has no effect. The result is the final
  state with the messages accepted and the messages delivered, in order.
\<close>

fun queue_run :: "('m \<Rightarrow> 'h \<Rightarrow> 'h option) \<Rightarrow> ('h \<Rightarrow> ('m \<times> 'h) option) \<Rightarrow>
    'm queue_op list \<Rightarrow> 'h \<Rightarrow> 'h \<times> 'm list \<times> 'm list" where
  "queue_run enq deq [] h = (h, [], [])"
| "queue_run enq deq (Enq m # ops) h =
     (case enq m h of None \<Rightarrow> queue_run enq deq ops h
      | Some h \<Rightarrow> let (h, sent, got) = queue_run enq deq ops h in (h, m # sent, got))"
| "queue_run enq deq (Deq # ops) h =
     (case deq h of None \<Rightarrow> queue_run enq deq ops h
      | Some (m, h) \<Rightarrow> let (h, sent, got) = queue_run enq deq ops h in (h, sent, m # got))"

locale bounded_queue =
  fixes ok :: "'h \<Rightarrow> bool"
    and contents :: "'h \<Rightarrow> 'm list"
    and enq :: "'m \<Rightarrow> 'h \<Rightarrow> 'h option"
    and deq :: "'h \<Rightarrow> ('m \<times> 'h) option"
    and cap :: nat
  assumes bounded: "ok h \<Longrightarrow> length (contents h) \<le> cap"
    and enq_room: "ok h \<Longrightarrow> length (contents h) < cap \<Longrightarrow>
          \<exists>h'. enq m h = Some h' \<and> ok h' \<and> contents h' = contents h @ [m]"
    and enq_full: "ok h \<Longrightarrow> length (contents h) = cap \<Longrightarrow> enq m h = None"
    and deq_first: "ok h \<Longrightarrow> contents h = m # ms \<Longrightarrow>
          \<exists>h'. deq h = Some (m, h') \<and> ok h' \<and> contents h' = ms"
    and deq_empty: "ok h \<Longrightarrow> contents h = [] \<Longrightarrow> deq h = None"
begin

lemma run_fifo:
  "ok h \<Longrightarrow> queue_run enq deq ops h = (h', sent, got) \<Longrightarrow>
     ok h' \<and> contents h @ sent = got @ contents h'"
proof (induction ops arbitrary: h sent got)
  case (Cons op ops)
  note IH = Cons.IH and ok = Cons.prems(1) and run = Cons.prems(2)
  show ?case
  proof (cases op)
    case (Enq m)
    show ?thesis
    proof (cases "length (contents h) < cap")
      case True
      then obtain h1 where h1: "enq m h = Some h1" "ok h1" "contents h1 = contents h @ [m]"
        using enq_room Cons.prems(1) by blast
      with Cons.IH [OF h1(2)] Cons.prems(2) Enq show ?thesis by (auto split: prod.splits)
    next
      case False
      then have "enq m h = None" using enq_full bounded Cons.prems(1) by (metis le_neq_implies_less)
      then show ?thesis using Cons Enq by simp
    qed
  next
    case Deq
    show ?thesis
    proof (cases "contents h")
      case Nil
      then show ?thesis using IH [OF ok] run Deq deq_empty [OF ok] by simp
    next
      case (Cons m ms)
      then obtain h1 where h1: "deq h = Some (m, h1)" "ok h1" "contents h1 = ms"
        using deq_first ok by blast
      with IH [OF h1(2)] run Deq Cons show ?thesis
        by (auto split: prod.splits)
    qed
  qed
qed simp

end

section \<open>The ring implements it\<close>

text \<open>The message between the counters: at most one.\<close>

definition hq_ok :: "hq \<Rightarrow> shm \<Rightarrow> bool" where
  "hq_ok q h \<longleftrightarrow> q_prod q h \<in> {0, 2} \<and> q_cons q h \<in> {0, 2} \<and>
     inj_on (q_entry q) {0, 1, 2, 3} \<and>
     (q_prod q h \<noteq> q_cons q h \<longrightarrow>
        (\<exists>p bs. hq_ent h (q_entry q (q_cons q h)) = Header p \<and>
                hq_ent h (q_entry q (ring4 (q_cons q h + 1))) = Bytes bs))"

definition hq_contents :: "hq \<Rightarrow> shm \<Rightarrow> (m2m_HQe \<times> u8 list) list" where
  "hq_contents q h =
     (if q_empty q h then []
      else case (hq_ent h (q_entry q (q_cons q h)), hq_ent h (q_entry q (ring4 (q_cons q h + 1)))) of
             (Header p, Bytes bs) \<Rightarrow> [(p, bs)] | _ \<Rightarrow> [])"

text \<open>A sender that finds room runs its two copies and moves the producer; otherwise it waits.\<close>

definition hq_enqueue :: "hq \<Rightarrow> m2m_HQe \<times> u8 list \<Rightarrow> shm \<Rightarrow> shm option" where
  "hq_enqueue q m h =
     (if header_full q h \<or> data_full q h then None
      else Some (advance_producer q
             (set_entry (q_entry q (ring4 (q_prod q h + 1))) (Bytes (snd m))
               (set_entry (q_entry q (q_prod q h)) (Header (fst m)) h))))"

definition hq_dequeue :: "hq \<Rightarrow> shm \<Rightarrow> ((m2m_HQe \<times> u8 list) \<times> shm) option" where
  "hq_dequeue q h =
     (if q_empty q h then None
      else case (hq_ent h (q_entry q (q_cons q h)), hq_ent h (q_entry q (ring4 (q_cons q h + 1)))) of
             (Header p, Bytes bs) \<Rightarrow> Some ((p, bs), advance_consumer q h) | _ \<Rightarrow> None)"

lemma ring4_simps [simp]:
  "ring4 0 = 0" "ring4 1 = 1" "ring4 2 = 2" "ring4 3 = 3" "ring4 4 = 0"
  by (simp_all add: ring4_def HEADER_QUEUE_ENTRY_NUM_def)

lemma ring4_plus [simp]: "ring4 (0 + x) = ring4 x" "ring4 (2 + 1) = 3" "ring4 (2 + 2) = 0"
  by (simp_all add: ring4_def HEADER_QUEUE_ENTRY_NUM_def)

lemma q_prod_cons_simps [simp]:
  "q_prod q (set_entry a x h) = q_prod q h" "q_cons q (set_entry a x h) = q_cons q h"
  "q_prod q (advance_producer q h) = ring4 (q_prod q h + 2)" "q_cons q (advance_producer q h) = q_cons q h"
  "q_prod q (advance_consumer q h) = q_prod q h" "q_cons q (advance_consumer q h) = ring4 (q_cons q h + 2)"
  "hq_ent (advance_producer q h) = hq_ent h" "hq_ent (advance_consumer q h) = hq_ent h"
  "hq_ent (set_entry a x h) = (hq_ent h)(a := x)"
  by (simp_all add: hq_op_defs)

text \<open>With the counters at 0 or 2, the header wait never blocks and the data wait is the one that does.\<close>

lemma hq_full_iff:
  assumes "q_prod q h \<in> {0, 2}" and "q_cons q h \<in> {0, 2}"
  shows "\<not> header_full q h" and "data_full q h \<longleftrightarrow> q_prod q h \<noteq> q_cons q h"
  using assms by (auto simp: header_full_def data_full_def)

lemma hq_ok_cases:
  assumes "hq_ok q h"
  obtains (empty) "q_prod q h = q_cons q h" "hq_contents q h = []"
  | (one) p bs where "q_prod q h = ring4 (q_cons q h + 2)" "q_prod q h \<noteq> q_cons q h"
      "hq_ent h (q_entry q (q_cons q h)) = Header p"
      "hq_ent h (q_entry q (ring4 (q_cons q h + 1))) = Bytes bs" "hq_contents q h = [(p, bs)]"
  using assms by (auto simp: hq_ok_def hq_contents_def q_empty_def split: if_splits)

lemma entry_inj:
  assumes "hq_ok q h" and "x \<in> {0, 1, 2, 3}" and "y \<in> {0, 1, 2, 3}"
  shows "q_entry q x = q_entry q y \<longleftrightarrow> x = y"
  using assms by (auto simp: hq_ok_def dest: inj_onD)

lemma hq_enqueue_room:
  assumes "hq_ok q h" and "hq_contents q h = []"
  shows "\<exists>h'. hq_enqueue q m h = Some h' \<and> hq_ok q h' \<and> hq_contents q h' = [m]"
proof -
  have e: "q_prod q h = q_cons q h" using assms by (cases rule: hq_ok_cases) auto
  have pc: "q_cons q h \<in> {0, 2}" using assms(1) by (simp add: hq_ok_def)
  have neq: "q_entry q (ring4 (q_cons q h + 1)) \<noteq> q_entry q (q_cons q h)"
    using pc entry_inj [OF assms(1), of "ring4 (q_cons q h + 1)" "q_cons q h"] by auto
  have "ring4 (q_cons q h + 2) \<noteq> q_cons q h" "ring4 (q_cons q h + 2) \<in> {0, 2}" using pc by auto
  then show ?thesis
    using assms(1) e pc neq hq_full_iff [of q h]
    by (auto simp: hq_enqueue_def hq_ok_def hq_contents_def q_empty_def)
qed

interpretation lq: bounded_queue "hq_ok q" "hq_contents q" "hq_enqueue q" "hq_dequeue q" 1
  for q
proof (unfold_locales, goal_cases)
  case (1 h)
  then show ?case by (cases rule: hq_ok_cases) auto
next
  case (2 h m)
  then show ?case using hq_enqueue_room [of q h m] by simp
next
  case (3 h m)
  then show ?case
  proof (cases rule: hq_ok_cases)
    case (one p bs)
    then show ?thesis using 3 hq_full_iff [of q h] by (auto simp: hq_enqueue_def hq_ok_def)
  qed simp
next
  case (4 h m ms)
  then show ?case
  proof (cases rule: hq_ok_cases)
    case (one p bs)
    have "hq_ok q (advance_consumer q h)" using one 4(1) by (auto simp: hq_ok_def)
    then show ?thesis using one 4 by (auto simp: hq_dequeue_def hq_contents_def q_empty_def)
  qed simp
next
  case (5 h)
  then show ?case by (cases rule: hq_ok_cases) (auto simp: hq_dequeue_def q_empty_def)
qed

section \<open>Properties of the header queue\<close>

text \<open>
  Property C11. A header queue delivers every message it accepts exactly once, unchanged and in
  order: after any interleaving of attempts to send and to receive, starting empty, the messages
  accepted are those received followed by what is still in the queue, and that is at most one message.
\<close>

theorem header_queue_fifo:
  assumes "hq_ok q h" and "hq_contents q h = []"
    and "queue_run (hq_enqueue q) (hq_dequeue q) ops h = (h', sent, got)"
  shows "sent = got @ hq_contents q h' \<and> length (hq_contents q h') \<le> 1 \<and> hq_ok q h'"
  using lq.run_fifo [OF assms(1,3)] lq.bounded [of q h'] assms(2) by auto

definition q_example :: hq where
  "q_example = \<lparr>q_meta = 1000, q_entry = \<lambda>i. 128 * uint i\<rparr>"

definition shm_example :: shm where
  "shm_example = \<lparr>localtime = \<lambda>_. 0, hq_meta = \<lambda>_. \<lparr>producer = 0, consumer = 0\<rparr>, hq_ent = \<lambda>_. Bytes [],
     hq_cf = \<lambda>_. \<lparr>dataflag = 0, transtime = 0\<rparr>, db_meta = \<lambda>_. \<lparr>db_dataflag = 0, db_transtime = 0\<rparr>\<rparr>"

lemma q_example_ok: "hq_ok q_example shm_example" "hq_contents q_example shm_example = []"
  by (simp_all add: hq_ok_def hq_contents_def q_empty_def q_prod_def q_cons_def shm_example_def q_example_def)

definition hqe_example :: m2m_HQe where
  "hqe_example = \<lparr>tag = 0, PacketSize = 2, SenderID = 1, ReceiverID = 2, ForwardID = 1, EntryNum = -1,
     SendTime = 5, TransTime = 7\<rparr>"

theorem header_queue_fifo_witness:
  "\<exists>h' sent got. queue_run (hq_enqueue q_example) (hq_dequeue q_example)
       [Enq (hqe_example, [1, 2]), Enq (hqe_example, [3, 4]), Deq] shm_example = (h', sent, got) \<and>
     sent = got @ hq_contents q_example h' \<and> length (hq_contents q_example h') \<le> 1 \<and> hq_ok q_example h'"
proof -
  obtain h' sent got where r: "queue_run (hq_enqueue q_example) (hq_dequeue q_example)
       [Enq (hqe_example, [1, 2]), Enq (hqe_example, [3, 4]), Deq] shm_example = (h', sent, got)"
    by (metis prod_cases3)
  from header_queue_fifo [OF q_example_ok r] r show ?thesis by blast
qed

end
