(* ===== verification/M2M_SendRecv.thy ===== *)
theory M2M_SendRecv
  imports M2M_HeaderQueue M2M_Time M2M_Routing
begin

text \<open>
  Sending and receiving (\<^verbatim>\<open>hw/m2m_send_recv.c\<close>). \<open>m2m_send\<close> and \<open>m2m_recv\<close> busy-wait on memory that
  other processes change, so each is a step function on a program counter: a step that finds its
  waiting condition true leaves the state as it is. \<open>m2m_send\<close> and \<open>m2m_recv\<close> run the steps
  against a sequence \<open>others\<close> of what the other processes do to the memory before each step.
\<close>

section \<open>State\<close>

text \<open>The tables a process computed at start, and its own mutable globals.\<close>

record env =
  e_topo :: topo
  e_dbp :: dbp
  e_rp :: rp_lists

record dev =
  vnd :: VND
  routes :: route_g
  rands :: rnd
  cpu_ns :: u64           \<comment> \<open>pipeline and memory time of the virtual CPU, which stands still during the call\<close>
  netsend_qemu :: u64
  netrecv_qemu :: u64
  netsend_count :: u64
  netrecv_count :: u64
  tmp_time :: u64         \<comment> \<open>the static variable of \<open>m2m_get_local_msg\<close>\<close>

definition dev_time :: "dev \<Rightarrow> u64" where
  "dev_time s = get_vpmu_time (cpu_ns s + (netsend_qemu s + netrecv_qemu s))"

definition dev_sync :: "env \<Rightarrow> dev \<Rightarrow> shm \<Rightarrow> u64" where
  "dev_sync E s h = time_sync (vnd s) (e_dbp E) (e_rp E) (dev_time s) h"

definition own_time :: "env \<Rightarrow> dev \<Rightarrow> int" where
  "own_time E s = m2m_localtime_start (e_dbp E) (DeviceID (vnd s))"

definition resync :: "env \<Rightarrow> dev \<Rightarrow> shm \<Rightarrow> shm" where
  "resync E s h = set_localtime (own_time E s) (dev_sync E s h) h"

definition set_cf :: "int \<Rightarrow> m2m_HQ_cf \<Rightarrow> shm \<Rightarrow> shm" where
  "set_cf a x h = h\<lparr>hq_cf := (hq_cf h)(a := x)\<rparr>"

definition own_cf :: "env \<Rightarrow> dev \<Rightarrow> int" where
  "own_cf E s = m2m_hq_conflag_start (e_dbp E) (DeviceID (vnd s))"

section \<open>Initialisation\<close>

definition set_meta0 :: "int \<Rightarrow> shm \<Rightarrow> shm" where
  "set_meta0 a h = h\<lparr>hq_meta := (hq_meta h)(a := \<lparr>producer = 0, consumer = 0\<rparr>)\<rparr>"

definition set_db0 :: "int \<Rightarrow> shm \<Rightarrow> shm" where
  "set_db0 a h = h\<lparr>db_meta := (db_meta h)(a := \<lparr>db_dataflag = 0, db_transtime = 0\<rparr>)\<rparr>"

text \<open>\<open>log_ok\<close> is whether the log file could be opened.\<close>

definition m2m_send_recv_init :: "bool \<Rightarrow> env \<Rightarrow> dev \<times> shm \<Rightarrow> (M2M_ERR_T \<times> dev \<times> shm) res" where
  "m2m_send_recv_init log_ok E st = (let (s, h) = st; d = e_dbp E; v = vnd s;
       s = s\<lparr>vnd := v\<lparr>TotalTransTimes := 0\<rparr>\<rparr>;
       h = (if \<not> is_ZR v then set_cf (own_cf E s) \<lparr>dataflag = 0, transtime = 0\<rparr> h else h);
       h = (if is_ZR v then h
            else fold (\<lambda>i. set_db0 (m2m_dbp_meta_start d i)) [0..DATA_BUFFER_ENTRY_NUM - 1] h);
       h = (if is_ZR v then fold (\<lambda>i. set_meta0 (m2m_hq_meta_start d i)) [0..NODE_MAX_LINKS - 1] h
            else if is_ZC v then fold (\<lambda>i. set_meta0 (m2m_hq_meta_start d i)) [0..NODE_MAX_LINKS + 1] h
            else set_meta0 (m2m_hq_meta_start d 0) h)
     in if log_ok then Inr (M2M_SUCCESS, s, h) else Inl Exit_process)"

definition m2m_send_recv_exit :: M2M_ERR_T where
  "m2m_send_recv_exit = M2M_SUCCESS"

section \<open>Sending\<close>

text \<open>
  The queue a sender writes: an end device writes its only neighbour's queue, a coordinator the
  queue towards its own routing thread. The queue a receiver reads.
\<close>

definition send_queue :: "env \<Rightarrow> VND \<Rightarrow> hq" where
  "send_queue E v = (let d = e_dbp E in
     if is_ZED v then \<lparr>q_meta = m2m_remote_hq_meta_start d 0, q_entry = \<lambda>i. m2m_remote_hq_buffer_start d 0 (uint i)\<rparr>
     else \<lparr>q_meta = m2m_hq_meta_start d (NODE_MAX_LINKS + 1),
           q_entry = \<lambda>i. m2m_hq_buffer_start d (NODE_MAX_LINKS + 1) (uint i)\<rparr>)"

definition recv_queue :: "env \<Rightarrow> VND \<Rightarrow> hq" where
  "recv_queue E v = (let d = e_dbp E in
     if is_ZED v then \<lparr>q_meta = m2m_hq_meta_start d 0, q_entry = \<lambda>i. m2m_hq_buffer_start d 0 (uint i)\<rparr>
     else \<lparr>q_meta = m2m_hq_meta_start d NODE_MAX_LINKS, q_entry = \<lambda>i. m2m_hq_buffer_start d NODE_MAX_LINKS (uint i)\<rparr>)"

text \<open>
  The search for the next hop in \<open>Neighbors\<close>. The loop runs to \<open>TotalDeviceNum\<close> although the array
  has eight entries.
\<close>

fun find_neighbor :: "nat \<Rightarrow> VND \<Rightarrow> int \<Rightarrow> int \<Rightarrow> int res" where
  "find_neighbor 0 v hop count = Inl Exit_process"
| "find_neighbor (Suc n) v hop count =
     (if count < NODE_MAX_LINKS
      then if Neighbors v count = hop then Inr count else find_neighbor n v hop (count + 1)
      else Inl Out_of_bounds)"

datatype send_pc =
    Hdr_wait m2m_HQe "u8 list"     \<comment> \<open>waiting for the header entry\<close>
  | Data_wait m2m_HQe "u8 list"    \<comment> \<open>header copied, waiting for the data entry\<close>
  | Ack_wait m2m_HQe               \<comment> \<open>message in the queue, waiting for the control flag\<close>
  | Sent M2M_ERR_T

definition add_send_time :: "u64 \<Rightarrow> dev \<Rightarrow> dev" where
  "add_send_time t s = s\<lparr>vnd := (vnd s)\<lparr>TotalTransTimes := TotalTransTimes (vnd s) + t\<rparr>,
     netsend_qemu := netsend_qemu s + t\<rparr>"

text \<open>Up to the first wait: route, header, latency, local time.\<close>

definition post_begin ::
  "nat \<Rightarrow> env \<Rightarrow> int \<Rightarrow> u8 list \<Rightarrow> m2m_HQe \<Rightarrow> dev \<times> shm \<Rightarrow> (send_pc \<times> dev \<times> shm) res" where
  "post_begin fuel E receiverID data msg_info st = (let (s, h) = st; v = vnd s in
     bind_res (route_discovery fuel (NODE_MAP (e_topo E)) (TotalDeviceNum v) (DeviceID v) receiverID (routes s))
       (\<lambda>(next_hop_ID, g).
     bind_res (find_neighbor (nat (TotalDeviceNum v)) v next_hop_ID 0) (\<lambda>_.
     let msg_info = msg_info\<lparr>ForwardID := DeviceID v, EntryNum := -1, SendTime := dev_time s\<rparr> in
     bind_res (transmission_latency fuel msg_info ''zigbee'' (v, rands s)) (\<lambda>(res, v, r).
     let msg_info = msg_info\<lparr>TransTime := latency res\<rparr>; s = s\<lparr>vnd := v, routes := g, rands := r\<rparr> in
     if latency res = 0 then
       (case fail_latency res of None \<Rightarrow> Inl Undefined
        | Some f \<Rightarrow> let s = add_send_time f s in Inr (Sent M2M_TRANS_FAIL, s, resync E s h))
     else let s = add_send_time (latency res) s in Inr (Hdr_wait msg_info data, s, resync E s h)))))"

text \<open>The three waits and what follows each.\<close>

fun post_step :: "env \<Rightarrow> send_pc \<Rightarrow> dev \<times> shm \<Rightarrow> send_pc \<times> dev \<times> shm" where
  "post_step E (Hdr_wait p bs) (s, h) =
     (let q = send_queue E (vnd s) in
      if header_full q h then (Hdr_wait p bs, s, h)
      else (Data_wait p bs, s, set_entry (q_entry q (q_prod q h)) (Header p) h))"
| "post_step E (Data_wait p bs) (s, h) =
     (let q = send_queue E (vnd s) in
      if data_full q h then (Data_wait p bs, s, h)
      else let h = set_entry (q_entry q (ring4 (q_prod q h + 1))) (Bytes bs) h;
               h = set_cf (own_cf E s) \<lparr>dataflag = 77, transtime = 0\<rparr> h
           in (Ack_wait p, s, advance_producer q h))"
| "post_step E (Ack_wait p) (s, h) =
     (let cf = hq_cf h (own_cf E s) in
      if dataflag cf = 77 then (Ack_wait p, s, h)
      else let s = add_send_time (transtime cf - localtime h (own_time E s)) s;
               h = resync E s h
           in (Sent (if dataflag cf \<noteq> 44 then M2M_TRANS_SUCCESS else M2M_TRANS_FAIL), s, h))"
| "post_step E (Sent rc) (s, h) = (Sent rc, s, h)"

fun post_run :: "nat \<Rightarrow> env \<Rightarrow> (nat \<Rightarrow> shm \<Rightarrow> shm) \<Rightarrow> send_pc \<Rightarrow> dev \<times> shm \<Rightarrow> (M2M_ERR_T \<times> dev \<times> shm) res" where
  "post_run fuel E others (Sent rc) st = Inr (rc, st)"
| "post_run 0 E others pc st = Inl No_return"
| "post_run (Suc fuel) E others pc st =
     (let (pc, st) = post_step E pc (fst st, others 0 (snd st))
      in post_run fuel E (\<lambda>n. others (Suc n)) pc st)"

definition m2m_post_remote_msg ::
  "nat \<Rightarrow> env \<Rightarrow> (nat \<Rightarrow> shm \<Rightarrow> shm) \<Rightarrow> int \<Rightarrow> u8 list \<Rightarrow> m2m_HQe \<Rightarrow> dev \<times> shm \<Rightarrow> (M2M_ERR_T \<times> dev \<times> shm) res" where
  "m2m_post_remote_msg fuel E others receiverID data msg_info st =
     bind_res (post_begin fuel E receiverID data msg_info st) (\<lambda>(pc, st). post_run fuel E others pc st)"

text \<open>
  \<open>m2m_send\<close>. The caller's buffer is \<open>src_data\<close>; \<open>memcpy\<close> of a negative size, or of more bytes than
  the buffer holds, leaves the object. \<open>m2m_post_remote_msg\<close> returns only success or failure for a
  small message, so the loop around it runs once.
\<close>

definition m2m_send ::
  "nat \<Rightarrow> env \<Rightarrow> (nat \<Rightarrow> shm \<Rightarrow> shm) \<Rightarrow> u8 list \<Rightarrow> int \<Rightarrow> int \<Rightarrow> u32 \<Rightarrow> dev \<times> shm \<Rightarrow> (M2M_ERR_T \<times> dev \<times> shm) res" where
  "m2m_send fuel E others src_data sizeb receiverID tag0 st = (let (s, h) = st; v = vnd s in
     if receiverID = DeviceID v \<or> receiverID > TotalDeviceNum v \<or> receiverID < 0 then Inr (M2M_ERROR, s, h)
     else if sizeb \<le> HEADER_QUEUE_ENTRY_SIZE then
       bind_res (guard_res (0 \<le> sizeb \<and> sizeb \<le> int (length src_data)) Bad_copy) (\<lambda>_.
       bind_res (m2m_post_remote_msg fuel E others receiverID (take (nat sizeb) src_data)
                   \<lparr>tag = tag0, PacketSize = of_int sizeb, SenderID = DeviceID v, ReceiverID = receiverID,
                    ForwardID = 0, EntryNum = 0, SendTime = 0, TransTime = 0\<rparr> (s, h)) (\<lambda>(rc, s, h).
         Inr (if rc = M2M_TRANS_FAIL then M2M_TRANS_FAIL else M2M_TRANS_SUCCESS,
              s\<lparr>netsend_count := netsend_count s + 1\<rparr>, h)))
     else Inr (M2M_TRANS_SUCCESS, s\<lparr>netsend_count := netsend_count s + 1\<rparr>, h))"

section \<open>Receiving\<close>

text \<open>While it waits, a receiver shows the largest started time, so that nobody waits for it.\<close>

definition recv_enter :: "env \<Rightarrow> dev \<times> shm \<Rightarrow> dev \<times> shm" where
  "recv_enter E st = (let (s, h) = st in
     if tmp_time s = 0
     then let t = dev_sync E s h in (s\<lparr>tmp_time := t\<rparr>, set_localtime (own_time E s) (MAX_TIME - 1) h)
     else (s, h))"

text \<open>
  Copy the data out, restore the local time and free the two entries (small messages only). The first
  component of the result is what is written from the start of the caller's buffer.
\<close>

definition recv_copy :: "env \<Rightarrow> hq \<Rightarrow> m2m_HQe \<Rightarrow> u8 list \<Rightarrow> dev \<times> shm \<Rightarrow> (u8 list \<times> dev \<times> shm) res" where
  "recv_copy E q p msg st = (let (s, h) = st in
     if EntryNum p = -1
     then bind_res (data_at (q_entry q (ring4 (q_cons q h + 1))) (PacketSize p) h) (\<lambda>bs.
            Inr (bs, s\<lparr>tmp_time := 0\<rparr>, advance_consumer q (set_localtime (own_time E s) (tmp_time s) h)))
     else Inr (msg, s, h))"

text \<open>A packet that arrives later than the local time moves the clock to its arrival.\<close>

definition recv_clock :: "env \<Rightarrow> m2m_HQe \<Rightarrow> dev \<times> shm \<Rightarrow> dev \<times> shm" where
  "recv_clock E p st = (let (s, h) = st; t = localtime h (own_time E s); arrival = SendTime p + TransTime p;
       s = (if t < arrival
            then s\<lparr>vnd := (vnd s)\<lparr>TotalTransTimes := TotalTransTimes (vnd s) + (arrival - t)\<rparr>,
                   netrecv_qemu := netrecv_qemu s + (arrival - t)\<rparr>
            else s)
     in (s, resync E s h))"

definition m2m_get_local_msg ::
  "env \<Rightarrow> u8 list \<Rightarrow> dev \<times> shm \<Rightarrow> (M2M_ERR_T \<times> u8 list \<times> dev \<times> shm) res" where
  "m2m_get_local_msg E msg st = (let (s, h) = recv_enter E st; q = recv_queue E (vnd s) in
     if q_empty q h then Inr (M2M_TRANS_NOT_READY, msg, s, h)
     else bind_res (peek_header q h) (\<lambda>p.
          bind_res (recv_copy E q p msg (s, h)) (\<lambda>(msg, st).
            Inr (M2M_TRANS_SUCCESS, msg, recv_clock E p st))))"

fun recv_run :: "nat \<Rightarrow> env \<Rightarrow> (nat \<Rightarrow> shm \<Rightarrow> shm) \<Rightarrow> u8 list \<Rightarrow> dev \<times> shm \<Rightarrow> (u8 list \<times> dev \<times> shm) res" where
  "recv_run 0 E others msg st = Inl No_return"
| "recv_run (Suc fuel) E others msg st =
     bind_res (m2m_get_local_msg E msg (fst st, others 0 (snd st))) (\<lambda>(rc, msg, st).
       if rc \<noteq> M2M_TRANS_SUCCESS \<and> rc \<noteq> M2M_TRANS_FAIL then recv_run fuel E (\<lambda>n. others (Suc n)) msg st
       else Inr (msg, st))"

definition m2m_recv ::
  "nat \<Rightarrow> env \<Rightarrow> (nat \<Rightarrow> shm \<Rightarrow> shm) \<Rightarrow> u8 list \<Rightarrow> int \<Rightarrow> dev \<times> shm \<Rightarrow> (M2M_ERR_T \<times> u8 list \<times> dev \<times> shm) res" where
  "m2m_recv fuel E others dst_data senderID st = (let (s, h) = st; v = vnd s in
     if senderID \<noteq> -1 \<and> (senderID = DeviceID v \<or> senderID > TotalDeviceNum v \<or> senderID < 0)
     then Inr (M2M_ERROR, dst_data, s, h)
     else bind_res (recv_run fuel E others dst_data (s, h)) (\<lambda>(msg, s, h).
            Inr (M2M_SUCCESS, msg, s\<lparr>netrecv_count := netrecv_count s + 1\<rparr>, h)))"

section \<open>The clock of a device\<close>

lemma dev_sync_cpu: "\<not> is_ZR (vnd s) \<Longrightarrow> dev_sync E s h = dev_time s"
  by (simp add: dev_sync_def time_sync_def)

lemma dev_time_add:
  "dev_time (add_send_time t s) = dev_time s + t" "vnd (add_send_time t s) = (vnd s)\<lparr>TotalTransTimes := TotalTransTimes (vnd s) + t\<rparr>"
  by (simp_all add: add_send_time_def dev_time_def get_vpmu_time_def)

lemma own_addr_simps [simp]:
  "own_time E (add_send_time t s) = own_time E s" "own_cf E (add_send_time t s) = own_cf E s"
  by (simp_all add: own_time_def own_cf_def add_send_time_def)

lemma localtime_simps [simp]:
  "localtime (set_localtime a t h) = (localtime h)(a := t)"
  "hq_meta (set_localtime a t h) = hq_meta h" "hq_ent (set_localtime a t h) = hq_ent h"
  "hq_cf (set_localtime a t h) = hq_cf h"
  "localtime (set_cf a x h) = localtime h" "hq_meta (set_cf a x h) = hq_meta h"
  "hq_ent (set_cf a x h) = hq_ent h" "hq_cf (set_cf a x h) = (hq_cf h)(a := x)"
  "localtime (set_entry a y h) = localtime h" "hq_cf (set_entry a y h) = hq_cf h"
  "localtime (advance_producer q h) = localtime h" "hq_cf (advance_producer q h) = hq_cf h"
  "localtime (advance_consumer q h) = localtime h" "hq_cf (advance_consumer q h) = hq_cf h"
  by (simp_all add: set_localtime_def set_cf_def hq_op_defs)

text \<open>Queues only look at their metadata and entries.\<close>

lemma queue_frame:
  assumes "hq_meta h' = hq_meta h" and "hq_ent h' = hq_ent h"
  shows "q_prod q h' = q_prod q h" "q_cons q h' = q_cons q h" "q_empty q h' = q_empty q h"
    "hq_ok q h' = hq_ok q h" "hq_contents q h' = hq_contents q h"
    "header_full q h' = header_full q h" "data_full q h' = data_full q h" "peek_header q h' = peek_header q h"
    "data_at a n h' = data_at a n h"
  using assms by (simp_all add: hq_op_defs hq_ok_def hq_contents_def)

section \<open>Sending into the queue\<close>

lemma post_put:
  assumes ok: "hq_ok (send_queue E (vnd s)) h" and e: "hq_contents (send_queue E (vnd s)) h = []"
  shows "\<exists>h1 h2. post_step E (Hdr_wait p bs) (s, h) = (Data_wait p bs, s, h1) \<and>
     post_step E (Data_wait p bs) (s, h1) = (Ack_wait p, s, h2) \<and>
     hq_ok (send_queue E (vnd s)) h2 \<and> hq_contents (send_queue E (vnd s)) h2 = [(p, bs)] \<and>
     hq_cf h2 (own_cf E s) = \<lparr>dataflag = 77, transtime = 0\<rparr> \<and> localtime h2 = localtime h"
proof -
  let ?q = "send_queue E (vnd s)"
  from hq_enqueue_room [OF ok e, of "(p, bs)"] obtain h3 where
    h3: "hq_enqueue ?q (p, bs) h = Some h3" "hq_ok ?q h3" "hq_contents ?q h3 = [(p, bs)]" by blast
  have nf: "\<not> header_full ?q h" "\<not> data_full ?q h"
    and eq: "h3 = advance_producer ?q (set_entry (q_entry ?q (ring4 (q_prod ?q h + 1))) (Bytes bs)
               (set_entry (q_entry ?q (q_prod ?q h)) (Header p) h))"
    using h3(1) by (auto simp: hq_enqueue_def split: if_splits)
  define h1 where "h1 = set_entry (q_entry ?q (q_prod ?q h)) (Header p) h"
  define h2 where "h2 = advance_producer ?q (set_cf (own_cf E s) \<lparr>dataflag = 77, transtime = 0\<rparr>
     (set_entry (q_entry ?q (ring4 (q_prod ?q h1 + 1))) (Bytes bs) h1))"
  have nf1: "\<not> data_full ?q h1" using nf(2) by (simp add: h1_def data_full_def)
  have meta: "hq_meta h2 = hq_meta h3"
    by (simp add: eq h1_def h2_def advance_producer_def set_cf_def set_entry_def q_prod_def)
  have ent: "hq_ent h2 = hq_ent h3" by (simp add: eq h1_def h2_def)
  have lt: "localtime h2 = localtime h" by (simp add: h2_def h1_def)
  have cf: "hq_cf h2 (own_cf E s) = \<lparr>dataflag = 77, transtime = 0\<rparr>" by (simp add: h2_def)
  have "post_step E (Hdr_wait p bs) (s, h) = (Data_wait p bs, s, h1)"
    "post_step E (Data_wait p bs) (s, h1) = (Ack_wait p, s, h2)"
    using nf(1) nf1 by (simp_all add: h1_def h2_def Let_def)
  then show ?thesis
    using queue_frame(4,5) [OF meta ent, of ?q] h3(2,3) cf lt by auto
qed

text \<open>While the queue holds a message the sender neither advances nor damages it.\<close>

lemma post_blocked:
  assumes "hq_ok (send_queue E (vnd s)) h" and "hq_contents (send_queue E (vnd s)) h \<noteq> []"
  shows "\<exists>h1. post_step E (Hdr_wait p bs) (s, h) = (Data_wait p bs, s, h1) \<and>
     hq_ok (send_queue E (vnd s)) h1 \<and>
     hq_contents (send_queue E (vnd s)) h1 = hq_contents (send_queue E (vnd s)) h \<and>
     post_step E (Data_wait p bs) (s, h1) = (Data_wait p bs, s, h1)"
proof -
  let ?q = "send_queue E (vnd s)"
  let ?h1 = "set_entry (q_entry ?q (q_prod ?q h)) (Header p) h"
  have pc: "q_prod ?q h \<in> {0, 2}" "q_cons ?q h \<in> {0, 2}" using assms(1) by (auto simp: hq_ok_def)
  note full = hq_full_iff [OF pc]
  from assms(1) show ?thesis
  proof (cases rule: hq_ok_cases)
    case (one p1 bs1)
    have "q_entry ?q (q_prod ?q h) \<noteq> q_entry ?q (q_cons ?q h)"
      "q_entry ?q (q_prod ?q h) \<noteq> q_entry ?q (ring4 (q_cons ?q h + 1))"
      using pc one(2) entry_inj [OF assms(1), of "q_prod ?q h" "q_cons ?q h"]
        entry_inj [OF assms(1), of "q_prod ?q h" "ring4 (q_cons ?q h + 1)"] by auto
    then have "hq_ok ?q ?h1" "hq_contents ?q ?h1 = hq_contents ?q h"
      using assms(1) one by (auto simp: hq_ok_def hq_contents_def q_empty_def)
    moreover have "data_full ?q ?h1" using full(2) one(2) by (simp add: data_full_def)
    ultimately show ?thesis using full(1) by (auto simp: Let_def)
  qed (use assms(2) in simp)
qed

lemma find_neighbor_found:
  assumes "Neighbors v i = hop" and "count \<le> i" and "i < count + int n" and "i < NODE_MAX_LINKS"
  shows "\<exists>j. find_neighbor n v hop count = Inr j \<and> Neighbors v j = hop \<and> count \<le> j \<and> j \<le> i"
  using assms
proof (induction n arbitrary: count)
  case (Suc n)
  show ?case
  proof (cases "Neighbors v count = hop")
    case False
    then have "count + 1 \<le> i" using Suc.prems by (metis int_one_le_iff_zero_less le_less zless_imp_add1_zle)
    then obtain j where "find_neighbor n v hop (count + 1) = Inr j" "Neighbors v j = hop" "count + 1 \<le> j" "j \<le> i"
      using Suc.IH [of "count + 1"] Suc.prems by auto
    then show ?thesis using False Suc.prems by auto
  qed (use Suc.prems in auto)
qed simp

text \<open>The header that \<open>post_begin\<close> writes and the state it leaves.\<close>

lemma post_begin_ok:
  assumes unit: "\<And>u v. NODE_MAP (e_topo E) u v \<in> {0, 1}"
    and n: "TotalDeviceNum (vnd s) < GRAPHSIZE" "TotalDeviceNum (vnd s) < int fuel"
    and route: "shortest (NODE_MAP (e_topo E)) (TotalDeviceNum (vnd s)) (DeviceID (vnd s)) receiverID c"
      "0 < c" "c \<le> ROUTE_PATH_LEN"
    and nbs: "\<And>u. NODE_MAP (e_topo E) (DeviceID (vnd s)) u \<noteq> 0 \<Longrightarrow>
        \<exists>i. 0 \<le> i \<and> i < NODE_MAX_LINKS \<and> i < TotalDeviceNum (vnd s) \<and> Neighbors (vnd s) i = u"
    and cpu: "\<not> is_ZR (vnd s)"
  obtains t s' where "post_begin fuel E receiverID bs p (s, h) =
      Inr (Hdr_wait (p\<lparr>ForwardID := DeviceID (vnd s), EntryNum := -1, SendTime := dev_time s, TransTime := t\<rparr>) bs,
           s', set_localtime (own_time E s) (dev_time s') h)"
    "dev_time s' = dev_time s + t" "DeviceID (vnd s') = DeviceID (vnd s)" "DeviceType (vnd s') = DeviceType (vnd s)"
    "netsend_count s' = netsend_count s"
proof -
  let ?v = "vnd s"
  let ?p = "p\<lparr>ForwardID := DeviceID ?v, EntryNum := -1, SendTime := dev_time s\<rparr>"
  obtain hop g where hop: "route_discovery fuel (NODE_MAP (e_topo E)) (TotalDeviceNum ?v) (DeviceID ?v) receiverID (routes s)
      = Inr (hop, g)" "NODE_MAP (e_topo E) (DeviceID ?v) hop \<noteq> 0"
    using route_discovery_hop [OF unit n route, of "routes s"] by blast
  obtain i where i: "0 \<le> i" "i < NODE_MAX_LINKS" "i < TotalDeviceNum ?v" "Neighbors ?v i = hop"
    using nbs [OF hop(2)] by blast
  then obtain j where j: "find_neighbor (nat (TotalDeviceNum ?v)) ?v hop 0 = Inr j"
    using find_neighbor_found [of ?v i hop 0 "nat (TotalDeviceNum ?v)"] by auto
  obtain res v' r' where lat: "transmission_latency fuel ?p ''zigbee'' (?v, rands s) = Inr (res, v', r')"
    "v' = ?v\<lparr>TotalPacketTransTimes := TotalPacketTransTimes ?v + 1\<rparr>" "fail_latency res = None"
    using transmission_latency_ok [of fuel ?p ?v "rands s"] by blast
  have pos: "latency res \<noteq> 0" using transmission_latency_pos [OF lat(1)] lat(3) by blast
  let ?s = "add_send_time (latency res) (s\<lparr>vnd := v', routes := g, rands := r'\<rparr>)"
  have zr: "\<not> is_ZR (vnd ?s)" using cpu lat(2) by (simp add: add_send_time_def)
  have own: "own_time E (s\<lparr>vnd := v', routes := g, rands := r'\<rparr>) = own_time E s" by (simp add: own_time_def lat(2))
  have time: "dev_time ?s = dev_time s + latency res" by (simp add: dev_time_add) (simp add: dev_time_def)
  have "post_begin fuel E receiverID bs p (s, h) = Inr (Hdr_wait (?p\<lparr>TransTime := latency res\<rparr>) bs, ?s, resync E ?s h)"
    using hop(1) j lat(1) pos by (simp add: post_begin_def Let_def)
  moreover have "resync E ?s h = set_localtime (own_time E s) (dev_time ?s) h"
    unfolding resync_def dev_sync_cpu [OF zr] by (simp add: own)
  ultimately show ?thesis using that [of "latency res" ?s] time by (simp add: add_send_time_def lat(2))
qed

text \<open>
  What a sender needs of the others: they keep its local time slot, and after \<open>k\<close> polls its control
  flag is no longer 77; then it is \<open>f\<close> with arrival time \<open>t\<close>.
\<close>

definition acked :: "env \<Rightarrow> dev \<Rightarrow> (nat \<Rightarrow> shm \<Rightarrow> shm) \<Rightarrow> nat \<Rightarrow> u32 \<Rightarrow> u64 \<Rightarrow> bool" where
  "acked E s others k f t \<longleftrightarrow> f \<noteq> 77 \<and>
     (\<forall>i h. localtime (others i h) (own_time E s) = localtime h (own_time E s)) \<and>
     (\<forall>i < k. \<forall>h. dataflag (hq_cf (others i h) (own_cf E s)) = 77) \<and>
     (\<forall>h. hq_cf (others k h) (own_cf E s) = \<lparr>dataflag = f, transtime = t\<rparr>)"

lemma post_run_ack:
  assumes "acked E s others k f t" and "\<not> is_ZR (vnd s)" and "k < fuel"
    and "localtime h (own_time E s) = dev_time s"
  shows "\<exists>h'. post_run fuel E others (Ack_wait p) (s, h) =
       Inr (if f \<noteq> 44 then M2M_TRANS_SUCCESS else M2M_TRANS_FAIL, add_send_time (t - dev_time s) s, h') \<and>
     localtime h' (own_time E s) = t"
  using assms(1,3,4)
proof (induction k arbitrary: others fuel h)
  case 0
  then obtain fu where fu: "fuel = Suc fu" by (cases fuel) auto
  let ?s = "add_send_time (t - dev_time s) s"
  have "hq_cf (others 0 h) (own_cf E s) = \<lparr>dataflag = f, transtime = t\<rparr>" "f \<noteq> 77"
    "localtime (others 0 h) (own_time E s) = dev_time s"
    using 0 by (auto simp: acked_def)
  then have "post_step E (Ack_wait p) (s, others 0 h) =
      (Sent (if f \<noteq> 44 then M2M_TRANS_SUCCESS else M2M_TRANS_FAIL), ?s, resync E ?s (others 0 h))"
    by (simp add: Let_def)
  moreover have "\<not> is_ZR (vnd ?s)" using assms(2) by (simp add: dev_time_add)
  ultimately show ?case by (simp add: fu resync_def dev_sync_cpu dev_time_add)
next
  case (Suc k)
  then obtain fu where fu: "fuel = Suc fu" by (cases fuel) auto
  let ?o = "\<lambda>n. others (Suc n)"
  have "acked E s ?o k f t" using Suc.prems(1) by (auto simp: acked_def)
  moreover have "localtime (others 0 h) (own_time E s) = dev_time s" using Suc.prems(1,3) by (simp add: acked_def)
  ultimately obtain h' where "post_run fu E ?o (Ack_wait p) (s, others 0 h) =
       Inr (if f \<noteq> 44 then M2M_TRANS_SUCCESS else M2M_TRANS_FAIL, add_send_time (t - dev_time s) s, h')"
     "localtime h' (own_time E s) = t"
    using Suc.IH [of ?o fu "others 0 h"] Suc.prems(2) fu by auto
  moreover have "dataflag (hq_cf (others 0 h) (own_cf E s)) = 77" using Suc.prems(1) by (auto simp: acked_def)
  ultimately show ?case by (simp add: fu)
qed

text \<open>What it needs before that: an empty queue at its first step, and nobody touching it before the second.\<close>

definition lets_in :: "env \<Rightarrow> dev \<Rightarrow> (nat \<Rightarrow> shm \<Rightarrow> shm) \<Rightarrow> bool" where
  "lets_in E s others \<longleftrightarrow>
     (\<forall>h. hq_ok (send_queue E (vnd s)) (others 0 h) \<and> hq_contents (send_queue E (vnd s)) (others 0 h) = []) \<and>
     (\<forall>h. hq_meta (others 1 h) = hq_meta h \<and> hq_ent (others 1 h) = hq_ent h)"

lemma post_run_all:
  assumes lets: "lets_in E s others" and ack: "acked E s (\<lambda>n. others (n + 2)) k f t"
    and keep: "\<And>i h. localtime (others i h) (own_time E s) = localtime h (own_time E s)"
    and cpu: "\<not> is_ZR (vnd s)" and fuel: "k + 2 < fuel"
    and h: "localtime h (own_time E s) = dev_time s"
  shows "\<exists>h'. post_run fuel E others (Hdr_wait p bs) (s, h) =
       Inr (if f \<noteq> 44 then M2M_TRANS_SUCCESS else M2M_TRANS_FAIL, add_send_time (t - dev_time s) s, h') \<and>
     localtime h' (own_time E s) = t"
proof -
  let ?q = "send_queue E (vnd s)" and ?o = "\<lambda>n. others (n + 2)"
  let ?h0 = "others 0 h"
  obtain fu where fu: "fuel = Suc (Suc fu)" "k < fu" by (rule that [of "fuel - 2"]) (use fuel in auto)
  have ok: "hq_ok ?q ?h0" "hq_contents ?q ?h0 = []" using lets by (auto simp: lets_in_def)
  then have nf: "\<not> header_full ?q ?h0" "\<not> data_full ?q ?h0"
    using hq_enqueue_room [OF ok, of "(p, bs)"] by (auto simp: hq_enqueue_def split: if_splits)
  define h1 where "h1 = set_entry (q_entry ?q (q_prod ?q ?h0)) (Header p) ?h0"
  have s1: "post_step E (Hdr_wait p bs) (s, ?h0) = (Data_wait p bs, s, h1)" using nf by (simp add: h1_def Let_def)
  have same: "hq_meta (others 1 h1) = hq_meta h1" "hq_ent (others 1 h1) = hq_ent h1" using lets by (auto simp: lets_in_def)
  have "\<not> data_full ?q (others 1 h1)"
    using nf(2) queue_frame(7) [OF same, of ?q] by (simp add: h1_def data_full_def)
  then obtain h2 where s2: "post_step E (Data_wait p bs) (s, others 1 h1) = (Ack_wait p, s, h2)"
    "localtime h2 = localtime (others 1 h1)"
    by (simp add: Let_def)
  have "localtime h2 (own_time E s) = dev_time s" using s2(2) keep h by (simp add: h1_def)
  from post_run_ack [OF ack cpu fu(2) this, of p] obtain h' where
    "post_run fu E ?o (Ack_wait p) (s, h2) =
       Inr (if f \<noteq> 44 then M2M_TRANS_SUCCESS else M2M_TRANS_FAIL, add_send_time (t - dev_time s) s, h')"
    "localtime h' (own_time E s) = t" by blast
  moreover have "post_run fuel E others (Hdr_wait p bs) (s, h) = post_run fu E ?o (Ack_wait p) (s, h2)"
    using s1 s2(1) by (simp add: fu(1) del: post_step.simps)
  ultimately show ?thesis by metis
qed

section \<open>Receiving\<close>

lemma recv_enter_cpu:
  assumes "\<not> is_ZR (vnd s)" and "tmp_time s \<in> {0, dev_time s}"
  obtains h' where "recv_enter E (s, h) = (s\<lparr>tmp_time := dev_time s\<rparr>, h')"
    "hq_meta h' = hq_meta h" "hq_ent h' = hq_ent h"
proof -
  have "s\<lparr>tmp_time := tmp_time s\<rparr> = s" by simp
  then have "recv_enter E (s, h) = (s\<lparr>tmp_time := dev_time s\<rparr>,
      if tmp_time s = 0 then set_localtime (own_time E s) (MAX_TIME - 1) h else h)"
    using assms by (auto simp: recv_enter_def dev_sync_cpu)
  then show ?thesis using that by simp
qed

lemma get_local_empty:
  assumes "q_empty (recv_queue E (vnd s)) h" and "\<not> is_ZR (vnd s)" and "tmp_time s \<in> {0, dev_time s}"
  shows "\<exists>h'. m2m_get_local_msg E msg (s, h) = Inr (M2M_TRANS_NOT_READY, msg, s\<lparr>tmp_time := dev_time s\<rparr>, h')"
proof -
  obtain h' where h': "recv_enter E (s, h) = (s\<lparr>tmp_time := dev_time s\<rparr>, h')"
    "hq_meta h' = hq_meta h" "hq_ent h' = hq_ent h"
    using recv_enter_cpu [OF assms(2,3)] by blast
  then show ?thesis using assms(1) queue_frame(3) [OF h'(2,3)] by (simp add: m2m_get_local_msg_def)
qed

lemma recv_clock_max:
  assumes "\<not> is_ZR (vnd s)" and "localtime h (own_time E s) = dev_time s"
  obtains s' where "recv_clock E p (s, h) = (s', set_localtime (own_time E s) (dev_time s') h)"
    "dev_time s' = max (dev_time s) (SendTime p + TransTime p)" "tmp_time s' = tmp_time s"
    "netrecv_count s' = netrecv_count s"
proof -
  let ?arr = "SendTime p + TransTime p" and ?t = "dev_time s"
  define s' where "s' = (if ?t < ?arr
     then s\<lparr>vnd := (vnd s)\<lparr>TotalTransTimes := TotalTransTimes (vnd s) + (?arr - ?t)\<rparr>, netrecv_qemu := netrecv_qemu s + (?arr - ?t)\<rparr>
     else s)"
  have r: "recv_clock E p (s, h) = (s', resync E s' h)" using assms(2) by (simp add: recv_clock_def s'_def Let_def)
  have d: "dev_time s' = max ?t ?arr" by (auto simp: s'_def dev_time_def get_vpmu_time_def max_def)
  have "\<not> is_ZR (vnd s')" "own_time E s' = own_time E s" "tmp_time s' = tmp_time s" "netrecv_count s' = netrecv_count s"
    using assms(1) by (simp_all add: s'_def own_time_def)
  with that [of s'] r d show ?thesis by (simp add: resync_def dev_sync_cpu)
qed

lemma get_local_one:
  assumes ok: "hq_ok (recv_queue E (vnd s)) h" and c: "hq_contents (recv_queue E (vnd s)) h = [(p, bs)]"
    and p: "EntryNum p = -1" "unat (PacketSize p) = length bs"
    and cpu: "\<not> is_ZR (vnd s)" and tmp: "tmp_time s \<in> {0, dev_time s}"
  shows "\<exists>s' h'. m2m_get_local_msg E msg (s, h) = Inr (M2M_TRANS_SUCCESS, bs, s', h') \<and>
     dev_time s' = max (dev_time s) (SendTime p + TransTime p) \<and> tmp_time s' = 0 \<and>
     localtime h' (own_time E s) = dev_time s' \<and> hq_ok (recv_queue E (vnd s)) h' \<and>
     hq_contents (recv_queue E (vnd s)) h' = [] \<and> netrecv_count s' = netrecv_count s"
proof -
  let ?q = "recv_queue E (vnd s)" and ?t = "dev_time s"
  from ok c have e: "q_prod ?q h \<noteq> q_cons ?q h" "hq_ent h (q_entry ?q (q_cons ?q h)) = Header p"
    "hq_ent h (q_entry ?q (ring4 (q_cons ?q h + 1))) = Bytes bs"
    by (cases rule: hq_ok_cases; auto)+
  obtain h0 where h0: "recv_enter E (s, h) = (s\<lparr>tmp_time := ?t\<rparr>, h0)" "hq_meta h0 = hq_meta h" "hq_ent h0 = hq_ent h"
    using recv_enter_cpu [OF cpu tmp] by blast
  note f = queue_frame [OF h0(2,3)]
  let ?s0 = "s\<lparr>tmp_time := 0\<rparr>"
  define h1 where "h1 = advance_consumer ?q (set_localtime (own_time E s) ?t h0)"
  have own: "own_time E ?s0 = own_time E s" "dev_time ?s0 = ?t" by (simp_all add: own_time_def dev_time_def)
  have copy: "recv_copy E ?q p msg (s\<lparr>tmp_time := ?t\<rparr>, h0) = Inr (bs, ?s0, h1)"
    using e p f by (simp add: recv_copy_def data_at_def h0(3) h1_def own_time_def)
  have lt: "localtime h1 (own_time E ?s0) = dev_time ?s0" by (simp add: h1_def own)
  obtain s' where s': "recv_clock E p (?s0, h1) = (s', set_localtime (own_time E ?s0) (dev_time s') h1)"
    "dev_time s' = max (dev_time ?s0) (SendTime p + TransTime p)" "tmp_time s' = tmp_time ?s0"
    "netrecv_count s' = netrecv_count ?s0"
    using recv_clock_max [OF _ lt, of p] cpu by auto
  have peek: "peek_header ?q h0 = Inr p" "\<not> q_empty ?q h0" using e f by (simp_all add: peek_header_def header_at_def q_empty_def)
  have run: "m2m_get_local_msg E msg (s, h) = Inr (M2M_TRANS_SUCCESS, bs, s', set_localtime (own_time E s) (dev_time s') h1)"
    using peek copy s'(1) own by (simp add: m2m_get_local_msg_def h0(1))
  have d: "hq_dequeue ?q h = Some ((p, bs), advance_consumer ?q h)"
    using e by (simp add: hq_dequeue_def q_empty_def)
  have ok1: "hq_ok ?q (advance_consumer ?q h)" "hq_contents ?q (advance_consumer ?q h) = []"
    using lq.deq_first [OF ok c] d by auto
  have m: "hq_meta (set_localtime (own_time E s) (dev_time s') h1) = hq_meta (advance_consumer ?q h)"
    by (simp add: h1_def advance_consumer_def q_cons_def h0(2))
  have n: "hq_ent (set_localtime (own_time E s) (dev_time s') h1) = hq_ent (advance_consumer ?q h)"
    by (simp add: h1_def h0(3))
  show ?thesis using run ok1 queue_frame(4,5) [OF m n, of ?q] s'(2-4) own by simp
qed

lemma tmp_time_simps [simp]:
  "dev_time (s\<lparr>tmp_time := x\<rparr>) = dev_time s" "own_time E (s\<lparr>tmp_time := x\<rparr>) = own_time E s"
  by (simp_all add: dev_time_def own_time_def)

lemma recv_run_waits:
  assumes "\<And>i h. i < k \<Longrightarrow> q_empty (recv_queue E (vnd s)) (others i h)"
    and "\<And>h. hq_ok (recv_queue E (vnd s)) (others k h)"
    and "\<And>h. hq_contents (recv_queue E (vnd s)) (others k h) = [(p, bs)]"
    and p: "EntryNum p = -1" "unat (PacketSize p) = length bs"
    and "\<not> is_ZR (vnd s)" and "tmp_time s \<in> {0, dev_time s}" and "k < fuel"
  shows "\<exists>s' h'. recv_run fuel E others msg (s, h) = Inr (bs, s', h') \<and>
     dev_time s' = max (dev_time s) (SendTime p + TransTime p) \<and> tmp_time s' = 0 \<and>
     localtime h' (own_time E s) = dev_time s' \<and>
     hq_contents (recv_queue E (vnd s)) h' = [] \<and> netrecv_count s' = netrecv_count s"
  using assms(1-3,6-)
proof (induction k arbitrary: others fuel h s)
  case 0
  then obtain fu where fu: "fuel = Suc fu" by (cases fuel) auto
  obtain s' h' where "m2m_get_local_msg E msg (s, others 0 h) = Inr (M2M_TRANS_SUCCESS, bs, s', h')"
     "dev_time s' = max (dev_time s) (SendTime p + TransTime p)" "tmp_time s' = 0"
     "localtime h' (own_time E s) = dev_time s'" "hq_contents (recv_queue E (vnd s)) h' = []"
     "netrecv_count s' = netrecv_count s"
    using get_local_one [of E s "others 0 h" p bs msg] p "0.prems" by blast
  then show ?case by (auto simp: fu)
next
  case (Suc k)
  then obtain fu where fu: "fuel = Suc fu" by (cases fuel) auto
  let ?s = "s\<lparr>tmp_time := dev_time s\<rparr>" and ?o = "\<lambda>n. others (Suc n)"
  obtain h' where "m2m_get_local_msg E msg (s, others 0 h) = Inr (M2M_TRANS_NOT_READY, msg, ?s, h')"
    using get_local_empty [of E s "others 0 h" msg] Suc.prems by blast
  moreover have "\<exists>s' h''. recv_run fu E ?o msg (?s, h') = Inr (bs, s', h'') \<and>
     dev_time s' = max (dev_time ?s) (SendTime p + TransTime p) \<and> tmp_time s' = 0 \<and>
     localtime h'' (own_time E ?s) = dev_time s' \<and>
     hq_contents (recv_queue E (vnd ?s)) h'' = [] \<and> netrecv_count s' = netrecv_count ?s"
    using Suc.prems fu by (intro Suc.IH) auto
  ultimately show ?case by (simp add: fu)
qed

section \<open>Properties of sending and receiving\<close>

text \<open>An end device 2 next to a coordinator 1.\<close>

definition env2 :: env where
  "env2 = \<lparr>e_topo = topo2,
     e_dbp = dbp0\<lparr>m2m_localtime_start := \<lambda>i. 8 * i, m2m_hq_conflag_start := \<lambda>i. 2000 + i,
       m2m_hq_meta_start := \<lambda>i. 3000 + i, m2m_hq_buffer_start := \<lambda>q i. 4000 + 1000 * q + 128 * i,
       m2m_remote_hq_meta_start := \<lambda>i. 20000 + i, m2m_remote_hq_buffer_start := \<lambda>q i. 30000 + 1000 * q + 128 * i\<rparr>,
     e_rp = rp2\<rparr>"

definition dev2 :: dev where
  "dev2 = \<lparr>vnd = vnd_zed, routes = route_g0, rands = \<lambda>_. 0, cpu_ns = 100, netsend_qemu = 0, netrecv_qemu = 0,
     netsend_count = 0, netrecv_count = 0, tmp_time = 0\<rparr>"

lemma dev2_simps:
  "vnd dev2 = vnd_zed" "is_ZED vnd_zed" "\<not> is_ZR vnd_zed" "DeviceID vnd_zed = 2" "TotalDeviceNum vnd_zed = 2"
  "Neighbors vnd_zed 0 = 1" "dev_time dev2 = 100" "tmp_time dev2 = 0" "netrecv_count dev2 = 0" "netsend_count dev2 = 0"
  by (simp_all add: dev2_def vnd_zed_def dev_time_def get_vpmu_time_def cstr_def NUL_def)

text \<open>
  Property C12. Sending is complete: for a reachable receiver and a message that fits an entry,
  \<open>m2m_send\<close> of a device with a processor returns as soon as the queue lets the message in and the
  control flag is answered. It reports what the answer says, counts the call, and leaves the clock
  of the device, and its slot in shared memory, at exactly the arrival time in the answer.
\<close>

theorem m2m_send_completes:
  assumes unit: "\<And>u v. NODE_MAP (e_topo E) u v \<in> {0, 1}"
    and n: "TotalDeviceNum (vnd s) < GRAPHSIZE" "TotalDeviceNum (vnd s) < int fuel"
    and route: "shortest (NODE_MAP (e_topo E)) (TotalDeviceNum (vnd s)) (DeviceID (vnd s)) receiverID c"
      "0 < c" "c \<le> ROUTE_PATH_LEN"
    and nbs: "\<And>u. NODE_MAP (e_topo E) (DeviceID (vnd s)) u \<noteq> 0 \<Longrightarrow>
        \<exists>i. 0 \<le> i \<and> i < NODE_MAX_LINKS \<and> i < TotalDeviceNum (vnd s) \<and> Neighbors (vnd s) i = u"
    and cpu: "\<not> is_ZR (vnd s)"
    and size: "0 \<le> sizeb" "sizeb \<le> HEADER_QUEUE_ENTRY_SIZE" "sizeb \<le> int (length data)"
    and lets: "lets_in E s others" and ack: "acked E s (\<lambda>i. others (i + 2)) k f t"
    and keep: "\<And>i h. localtime (others i h) (own_time E s) = localtime h (own_time E s)"
    and fuel: "k + 2 < fuel"
  shows "\<exists>s' h'. m2m_send fuel E others data sizeb receiverID tag0 (s, h) =
       Inr (if f \<noteq> 44 then M2M_TRANS_SUCCESS else M2M_TRANS_FAIL, s', h') \<and>
     dev_time s' = t \<and> localtime h' (own_time E s) = t \<and> netsend_count s' = netsend_count s + 1"
proof -
  let ?v = "vnd s"
  have nn: "\<And>u v. 0 \<le> NODE_MAP (e_topo E) u v" using unit by (metis empty_iff insert_iff order_refl zero_le_one)
  have "receiverID \<in> {1..TotalDeviceNum ?v}" using route(1) walk_nodes by (auto simp: shortest_def)
  moreover have "receiverID \<noteq> DeviceID ?v" using shortest_zero [of "NODE_MAP (e_topo E)", OF nn route(1)] route(2) by auto
  ultimately have valid: "\<not> (receiverID = DeviceID ?v \<or> receiverID > TotalDeviceNum ?v \<or> receiverID < 0)" by auto
  define p where "p = \<lparr>tag = tag0, PacketSize = of_int sizeb, SenderID = DeviceID ?v, ReceiverID = receiverID,
                    ForwardID = 0, EntryNum = 0, SendTime = 0, TransTime = (0 :: u64)\<rparr>"
  obtain l s1 where b: "post_begin fuel E receiverID (take (nat sizeb) data) p (s, h) =
      Inr (Hdr_wait (p\<lparr>ForwardID := DeviceID ?v, EntryNum := -1, SendTime := dev_time s, TransTime := l\<rparr>) (take (nat sizeb) data),
           s1, set_localtime (own_time E s) (dev_time s1) h)"
    "DeviceID (vnd s1) = DeviceID ?v" "DeviceType (vnd s1) = DeviceType ?v" "netsend_count s1 = netsend_count s"
    using post_begin_ok [OF unit n route nbs cpu, where bs = "take (nat sizeb) data" and p = p and h = h] by blast
  have own: "own_time E s1 = own_time E s" "own_cf E s1 = own_cf E s" "send_queue E (vnd s1) = send_queue E ?v"
    using b(2,3) by (simp_all add: own_time_def own_cf_def send_queue_def)
  have "lets_in E s1 others" "acked E s1 (\<lambda>i. others (i + 2)) k f t" "\<not> is_ZR (vnd s1)"
    "\<And>i h. localtime (others i h) (own_time E s1) = localtime h (own_time E s1)"
    using lets ack cpu keep b(3) by (simp_all add: lets_in_def acked_def own)
  from post_run_all [OF this(1,2,4,3) fuel, of "set_localtime (own_time E s) (dev_time s1) h"] obtain h' where
    r: "post_run fuel E others (Hdr_wait (p\<lparr>ForwardID := DeviceID ?v, EntryNum := -1, SendTime := dev_time s, TransTime := l\<rparr>) (take (nat sizeb) data))
         (s1, set_localtime (own_time E s) (dev_time s1) h) =
       Inr (if f \<noteq> 44 then M2M_TRANS_SUCCESS else M2M_TRANS_FAIL, add_send_time (t - dev_time s1) s1, h')"
    "localtime h' (own_time E s) = t" by (auto simp: own)
  have "m2m_post_remote_msg fuel E others receiverID (take (nat sizeb) data) p (s, h) =
      Inr (if f \<noteq> 44 then M2M_TRANS_SUCCESS else M2M_TRANS_FAIL, add_send_time (t - dev_time s1) s1, h')"
    using b(1) r(1) by (simp add: m2m_post_remote_msg_def)
  then have "m2m_send fuel E others data sizeb receiverID tag0 (s, h) =
       Inr (if f \<noteq> 44 then M2M_TRANS_SUCCESS else M2M_TRANS_FAIL,
            (add_send_time (t - dev_time s1) s1)\<lparr>netsend_count := netsend_count s + 1\<rparr>, h')"
    using valid size b(4) by (simp add: m2m_send_def p_def [symmetric]) (simp add: add_send_time_def)
  moreover have "dev_time ((add_send_time (t - dev_time s1) s1)\<lparr>netsend_count := netsend_count s + 1\<rparr>) = t"
    using dev_time_add(1) [of "t - dev_time s1" s1] by (simp add: dev_time_def)
  ultimately show ?thesis using r(2) by auto
qed

definition others_send :: "nat \<Rightarrow> shm \<Rightarrow> shm" where
  "others_send i h = (if i = 0 then h\<lparr>hq_meta := \<lambda>_. \<lparr>producer = 0, consumer = 0\<rparr>\<rparr>
     else if i = 1 then h else h\<lparr>hq_cf := \<lambda>_. \<lparr>dataflag = 0, transtime = 5000000\<rparr>\<rparr>)"

lemma topo2_route: "shortest (NODE_MAP topo2) 2 2 1 1"
proof -
  have "walk (NODE_MAP topo2) 2 2 1 1"
    using walk_edge [of 2 2 1 "NODE_MAP topo2"] by (simp add: topo2_def)
  moreover have "1 \<le> c" if "walk (NODE_MAP topo2) 2 2 1 c" for c
    using that by (cases rule: walk.cases)
      (auto simp: topo2_def split: if_splits dest: shortest_nonneg [rotated])
  ultimately show ?thesis by (simp add: shortest_def)
qed

theorem m2m_send_completes_witness:
  "\<exists>s' h'. m2m_send 9 env2 others_send [1, 2, 3] 3 1 0 (dev2, shm0) =
       Inr (if (0 :: u32) \<noteq> 44 then M2M_TRANS_SUCCESS else M2M_TRANS_FAIL, s', h') \<and>
     dev_time s' = 5000000 \<and> localtime h' (own_time env2 dev2) = 5000000 \<and> netsend_count s' = netsend_count dev2 + 1"
proof (rule m2m_send_completes)
  show "lets_in env2 dev2 others_send"
    by (auto simp: lets_in_def others_send_def hq_ok_def hq_contents_def q_empty_def q_prod_def q_cons_def
        send_queue_def env2_def dev2_simps inj_on_def)
  show "acked env2 dev2 (\<lambda>i. others_send (i + 2)) 0 0 5000000"
    by (simp add: acked_def others_send_def)
  show "shortest (NODE_MAP (e_topo env2)) (TotalDeviceNum (vnd dev2)) (DeviceID (vnd dev2)) 1 1"
    using topo2_route by (simp add: env2_def dev2_simps)
qed (auto simp: others_send_def dev2_simps env2_def topo2_def route_const_defs NODE_MAX_LINKS_def
    HEADER_QUEUE_ENTRY_SIZE_def split: if_splits intro: exI [of _ 0])

text \<open>
  Receiving is exact: a device with a processor that calls \<open>m2m_recv\<close> waits as long as
  its queue is empty and then gets exactly the bytes of the message; the two entries are free again,
  the call is counted, and the clock of the device and its slot become the later of its time at the
  call and the arrival time of the packet, however long it waited.
\<close>

theorem m2m_recv_delivers:
  assumes "senderID = -1 \<or> \<not> (senderID = DeviceID (vnd s) \<or> senderID > TotalDeviceNum (vnd s) \<or> senderID < 0)"
    and "\<And>i h. i < k \<Longrightarrow> q_empty (recv_queue E (vnd s)) (others i h)"
    and "\<And>h. hq_ok (recv_queue E (vnd s)) (others k h)"
    and "\<And>h. hq_contents (recv_queue E (vnd s)) (others k h) = [(p, bs)]"
    and "EntryNum p = -1" "unat (PacketSize p) = length bs"
    and "\<not> is_ZR (vnd s)" and "tmp_time s = 0" and "k < fuel"
  shows "\<exists>s' h'. m2m_recv fuel E others dst senderID (s, h) = Inr (M2M_SUCCESS, bs, s', h') \<and>
     dev_time s' = max (dev_time s) (SendTime p + TransTime p) \<and>
     localtime h' (own_time E s) = dev_time s' \<and>
     hq_contents (recv_queue E (vnd s)) h' = [] \<and> netrecv_count s' = netrecv_count s + 1"
proof -
  have "\<exists>s' h'. recv_run fuel E others dst (s, h) = Inr (bs, s', h') \<and>
     dev_time s' = max (dev_time s) (SendTime p + TransTime p) \<and> tmp_time s' = 0 \<and>
     localtime h' (own_time E s) = dev_time s' \<and>
     hq_contents (recv_queue E (vnd s)) h' = [] \<and> netrecv_count s' = netrecv_count s"
    using assms(2-) by (intro recv_run_waits) auto
  then show ?thesis using assms(1) by (auto simp: m2m_recv_def Let_def dev_time_def)
qed

definition others_recv :: "nat \<Rightarrow> shm \<Rightarrow> shm" where
  "others_recv i h = (if i < 2 then h\<lparr>hq_meta := \<lambda>_. \<lparr>producer = 0, consumer = 0\<rparr>\<rparr>
     else h\<lparr>hq_meta := \<lambda>_. \<lparr>producer = 2, consumer = 0\<rparr>,
            hq_ent := (\<lambda>_. Bytes [7, 8])(4000 := Header hqe_example)\<rparr>)"

theorem m2m_recv_delivers_witness:
  "\<exists>s' h'. m2m_recv 5 env2 others_recv [] (-1) (dev2, shm0) = Inr (M2M_SUCCESS, [7, 8], s', h') \<and>
     dev_time s' = max (dev_time dev2) (SendTime hqe_example + TransTime hqe_example) \<and>
     localtime h' (own_time env2 dev2) = dev_time s' \<and>
     hq_contents (recv_queue env2 (vnd dev2)) h' = [] \<and> netrecv_count s' = netrecv_count dev2 + 1"
proof (rule m2m_recv_delivers [where k = 2])
  show "hq_ok (recv_queue env2 (vnd dev2)) (others_recv 2 h)"
    "hq_contents (recv_queue env2 (vnd dev2)) (others_recv 2 h) = [(hqe_example, [7, 8])]" for h
    by (auto simp: others_recv_def hq_ok_def hq_contents_def q_empty_def q_prod_def q_cons_def
        recv_queue_def env2_def dev2_simps inj_on_def)
qed (auto simp: others_recv_def dev2_simps q_empty_def q_prod_def q_cons_def hqe_example_def)

text \<open>
  The argument checks and the unimplemented path of \<open>m2m_send\<close>: a receiver that is the
  device itself or out of range is refused without any effect, and a message of more than 128 bytes is
  reported as sent although neither the memory nor the clock changes.
\<close>

theorem m2m_send_without_sending:
  assumes "receiverID = DeviceID (vnd s) \<or> receiverID > TotalDeviceNum (vnd s) \<or> receiverID < 0 \<or>
    sizeb > HEADER_QUEUE_ENTRY_SIZE"
  shows "m2m_send fuel E others data sizeb receiverID tag0 (s, h) =
    (if receiverID = DeviceID (vnd s) \<or> receiverID > TotalDeviceNum (vnd s) \<or> receiverID < 0
     then Inr (M2M_ERROR, s, h)
     else Inr (M2M_TRANS_SUCCESS, s\<lparr>netsend_count := netsend_count s + 1\<rparr>, h))"
  using assms by (auto simp: m2m_send_def Let_def)

theorem m2m_send_without_sending_witness:
  "m2m_send 5 env2 others_send (replicate 200 0) 200 1 0 (dev2, shm0) =
     Inr (M2M_TRANS_SUCCESS, dev2\<lparr>netsend_count := netsend_count dev2 + 1\<rparr>, shm0)"
  using m2m_send_without_sending [of 1 dev2 200 5 env2 others_send "replicate 200 0" 0 shm0]
  by (simp add: dev2_simps HEADER_QUEUE_ENTRY_SIZE_def)

end
