(* ===== verification/M2M_Router.thy ===== *)
theory M2M_Router
  imports M2M_SendRecv
begin

text \<open>
  The routing thread of a router or coordinator (\<^verbatim>\<open>m2m_route_processor_create\<close> in
  \<^verbatim>\<open>hw/m2m_route_processor.c\<close>). One turn of its loop polls the incoming queues, picks the packet with
  the earliest arrival, waits until the neighbours' clocks have passed it, and delivers the packet to
  the device itself or to the next hop. Every busy wait is a program counter that stays where it is.

  \<open>ohl\<close> is the value of \<open>one_hop_latency("zigbee")\<close>, which the constants of \<^verbatim>\<open>m2m.h\<close> make a division
  by zero, and \<open>fail_addr\<close> is the address of the local \<open>fail_latency\<close>, which the code adds to the
  time instead of its value.
\<close>

section \<open>Start and stop\<close>

definition rp_add :: "topo \<Rightarrow> VND \<Rightarrow> int \<Rightarrow> rp_lists \<Rightarrow> rp_lists res" where
  "rp_add T v ind rp =
     bind_res (guard_res (ind < NODE_MAX_LINKS \<and> 0 \<le> Neighbors v ind \<and> Neighbors v ind < MAX_NODE_NUM)
                Out_of_bounds) (\<lambda>_.
     let nb = Neighbors v ind in
     if NODE_TYPE T nb = ''ZED''
     then Inr (rp\<lparr>neighbor_end_list := (neighbor_end_list rp)(end_count rp := nb), end_count := end_count rp + 1,
                  neighbor_end := (if neighbor_end rp = 0 then neighbor_end rp + 1 else neighbor_end rp)\<rparr>)
     else Inr (rp\<lparr>neighbor_router_list := (neighbor_router_list rp)(router_count rp := nb),
                  router_count := router_count rp + 1\<rparr>))"

definition m2m_route_processor_init :: "topo \<Rightarrow> VND \<Rightarrow> rp_lists \<Rightarrow> (M2M_ERR_T \<times> rp_lists) res" where
  "m2m_route_processor_init T v rp =
     (let rp = rp\<lparr>neighbor_end := 0, end_count := 0, router_count := 0\<rparr> in
      if \<not> is_ZED v
      then bind_res (fold_res (rp_add T v) [0..NeighborNum v - 1] rp) (\<lambda>rp. Inr (M2M_SUCCESS, rp))
      else Inr (M2M_SUCCESS, rp))"

definition m2m_route_processor_exit :: "rp_lists \<Rightarrow> M2M_ERR_T \<times> rp_lists" where
  "m2m_route_processor_exit rp = (M2M_SUCCESS, rp\<lparr>neighbor_end := 0, end_count := 0, router_count := 0\<rparr>)"

text \<open>What the thread does before its loop; the router's own clock starts at 0.\<close>

definition router_start :: "env \<Rightarrow> dev \<Rightarrow> shm \<Rightarrow> u64 \<times> shm" where
  "router_start E s h = (0, if is_ZR (vnd s) then resync E s h else h)"

section \<open>Choosing the packet\<close>

definition search_num :: "VND \<Rightarrow> int" where
  "search_num v = (if is_ZR v then NeighborNum v else NeighborNum v + 1)"

text \<open>Queue number of a loop index: the last index of a coordinator is its own queue.\<close>

definition queue_no :: "VND \<Rightarrow> int \<Rightarrow> int" where
  "queue_no v index = (if index = NeighborNum v then NODE_MAX_LINKS + 1 else index)"

definition local_queue :: "env \<Rightarrow> int \<Rightarrow> hq" where
  "local_queue E i = \<lparr>q_meta = m2m_hq_meta_start (e_dbp E) i, q_entry = \<lambda>e. m2m_hq_buffer_start (e_dbp E) i (uint e)\<rparr>"

definition remote_queue :: "env \<Rightarrow> int \<Rightarrow> hq" where
  "remote_queue E i = \<lparr>q_meta = m2m_remote_hq_meta_start (e_dbp E) i,
     q_entry = \<lambda>e. m2m_remote_hq_buffer_start (e_dbp E) i (uint e)\<rparr>"

text \<open>One round of the polling loop: is there a packet, and the clock of a router.\<close>

definition router_poll :: "env \<Rightarrow> dev \<Rightarrow> shm \<Rightarrow> bool \<times> shm" where
  "router_poll E s h =
     (list_ex (\<lambda>index. \<not> q_empty (local_queue E (queue_no (vnd s) index)) h) [0..search_num (vnd s) - 1],
      if is_ZR (vnd s) then resync E s h else h)"

record cand =
  packet_mintime :: u64
  packet_sendtime :: u64
  packet_from :: int
  packet_next :: int
  packet_ind :: int

definition cand0 :: cand where
  "cand0 = \<lparr>packet_mintime = MAX_TIME, packet_sendtime = MAX_TIME, packet_from = -1, packet_next = -1, packet_ind = -1\<rparr>"

definition earlier :: "m2m_HQe \<Rightarrow> cand \<Rightarrow> bool" where
  "earlier p c \<longleftrightarrow> packet_mintime c > SendTime p + TransTime p \<or>
     (packet_mintime c = SendTime p + TransTime p \<and> packet_sendtime c > SendTime p)"

definition next_of :: "nat \<Rightarrow> env \<Rightarrow> m2m_HQe \<Rightarrow> dev \<Rightarrow> (int \<times> dev) res" where
  "next_of fuel E p s = (let v = vnd s in
     if DeviceID v \<noteq> ReceiverID p
     then bind_res (route_discovery fuel (NODE_MAP (e_topo E)) (TotalDeviceNum v) (DeviceID v) (ReceiverID p) (routes s))
            (\<lambda>(hop, g). Inr (hop, s\<lparr>routes := g\<rparr>))
     else Inr (DeviceID v, s))"

text \<open>
  Look at queue \<open>index\<close>; a packet earlier than the candidate replaces it. The flag says whether it did.
\<close>

definition look_at :: "nat \<Rightarrow> env \<Rightarrow> shm \<Rightarrow> int \<Rightarrow> cand \<times> dev \<Rightarrow> (bool \<times> cand \<times> dev) res" where
  "look_at fuel E h index st = (let (c, s) = st; qn = queue_no (vnd s) index; q = local_queue E qn in
     if q_empty q h then Inr (False, c, s)
     else bind_res (peek_header q h) (\<lambda>p.
          if earlier p c
          then bind_res (next_of fuel E p s) (\<lambda>(nxt, s).
                 Inr (True, \<lparr>packet_mintime = SendTime p + TransTime p, packet_sendtime = SendTime p,
                             packet_from = ForwardID p, packet_next = nxt, packet_ind = qn\<rparr>, s))
          else Inr (False, c, s)))"

definition find_earliest :: "nat \<Rightarrow> env \<Rightarrow> shm \<Rightarrow> dev \<Rightarrow> (cand \<times> dev) res" where
  "find_earliest fuel E h s =
     fold_res (\<lambda>index st. bind_res (look_at fuel E h index st) (\<lambda>(upd, st). Inr st))
       [0..search_num (vnd s) - 1] (cand0, s)"

section \<open>Waiting for the neighbours' clocks\<close>

type_synonym deadline = "(int \<Rightarrow> bool) \<times> int"

definition clock_of :: "VND \<Rightarrow> int \<Rightarrow> int" where
  "clock_of v index = (if index = NeighborNum v then DeviceID v else Neighbors v index)"

definition passed :: "u64 \<Rightarrow> cand \<Rightarrow> u64 \<Rightarrow> bool" where
  "passed ohl c t \<longleftrightarrow> (if packet_mintime c > ohl then packet_mintime c - ohl else 0) \<le> t"

definition deadline_one :: "nat \<Rightarrow> env \<Rightarrow> u64 \<Rightarrow> shm \<Rightarrow> int \<Rightarrow> deadline \<times> cand \<times> dev \<Rightarrow> (deadline \<times> cand \<times> dev) res" where
  "deadline_one fuel E ohl h index st = (let ((dl, count), cs) = st in
     bind_res (look_at fuel E h index cs) (\<lambda>(upd, c, s).
     let (dl, count) = (if upd then (\<lambda>_. False, 0) else (dl, count));
         slot = queue_no (vnd s) index; dev_id = clock_of (vnd s) index
     in if \<not> dl slot \<and> packet_from c \<noteq> dev_id \<and> passed ohl c (localtime h (m2m_localtime_start (e_dbp E) dev_id))
        then Inr ((dl(slot := True), count + 1), c, s)
        else Inr ((dl, count), c, s)))"

definition deadline_pass :: "nat \<Rightarrow> env \<Rightarrow> u64 \<Rightarrow> deadline \<times> cand \<times> dev \<Rightarrow> shm \<Rightarrow> (deadline \<times> cand \<times> dev \<times> shm) res" where
  "deadline_pass fuel E ohl st h =
     bind_res (fold_res (deadline_one fuel E ohl h) [0..search_num (vnd (snd (snd st))) - 1] st) (\<lambda>(dl, c, s).
       Inr (dl, c, s, if is_ZR (vnd s) then resync E s h else h))"

section \<open>Delivering\<close>

record fwd =
  f_from :: hq
  f_to :: hq
  f_entry :: int          \<comment> \<open>\<open>FROM_packet\<close>: the address of the header being forwarded\<close>
  f_local :: bool         \<comment> \<open>delivered to the device itself\<close>
  f_next :: int

datatype router_pc =
    R_poll
  | R_find
  | R_deadline deadline cand
  | R_deliver cand
  | R_hdr fwd             \<comment> \<open>waiting for the header entry of the next queue\<close>
  | R_data fwd            \<comment> \<open>waiting for its data entry\<close>

text \<open>
  The answer to the original sender: always when the packet reached this device, which first adds the
  latency of the packet to its own time; otherwise when the next hop is the receiver and an end device.
\<close>

definition answer_sender :: "env \<Rightarrow> bool \<Rightarrow> int \<Rightarrow> m2m_HQe \<Rightarrow> u64 \<times> dev \<times> shm \<Rightarrow> u64 \<times> dev \<times> shm" where
  "answer_sender E self nxt p st = (let (rt, s, h) = st; cf = m2m_hq_conflag_start (e_dbp E) (SenderID p) in
     if self then let rt = rt + TransTime p in (rt, s, set_cf cf \<lparr>dataflag = 0, transtime = rt\<rparr> h)
     else if ReceiverID p = nxt \<and> NODE_TYPE (e_topo E) nxt = ''ZED''
     then (rt, s, set_cf cf \<lparr>dataflag = 0, transtime = rt\<rparr> h)
     else (rt, s, h))"

text \<open>To the device itself: only the time in the header may change.\<close>

definition deliver_local :: "env \<Rightarrow> cand \<Rightarrow> u64 \<times> dev \<times> shm \<Rightarrow> (router_pc \<times> u64 \<times> dev \<times> shm) res" where
  "deliver_local E c st = (let (rt, s, h) = st; q = local_queue E (packet_ind c); a = q_entry q (q_cons q h) in
     bind_res (guard_res (0 \<le> packet_ind c) Out_of_bounds) (\<lambda>_.
     bind_res (header_at a h) (\<lambda>p.
     let (rt, p) = (if rt > SendTime p then (rt, p\<lparr>SendTime := rt\<rparr>) else (SendTime p, p));
         h = set_entry a (Header p) h
     in if EntryNum p = -1
        then Inr (R_hdr \<lparr>f_from = q, f_to = local_queue E NODE_MAX_LINKS, f_entry = a, f_local = True, f_next = packet_next c\<rparr>, rt, s, h)
        else Inr (R_poll, answer_sender E True (packet_next c) p (rt, s, h)))))"

text \<open>Adding the address of \<open>fail_latency\<close>: pointer arithmetic on \<open>uint64_t *\<close>.\<close>

definition add_fail_addr :: "u32 \<Rightarrow> u64 \<Rightarrow> u64" where
  "add_fail_addr fail_addr t = scast (fail_addr + 8 * ucast t :: u32)"

definition fwd_header :: "nat \<Rightarrow> m2m_HQe \<Rightarrow> u64 \<times> dev \<Rightarrow> (m2m_HQe \<times> u64 \<times> dev) res" where
  "fwd_header fuel p st = (let (rt, s) = st; v = vnd s;
       rt = (if rt < SendTime p then SendTime p else rt);
       p = p\<lparr>ForwardID := DeviceID v, SendTime := rt\<rparr> in
     if SenderID p \<noteq> DeviceID v
     then let p = p\<lparr>SendTime := rt + TransTime p\<rparr> in
          bind_res (transmission_latency fuel p ''zigbee'' (v, rands s)) (\<lambda>(res, v, r).
            Inr (p\<lparr>TransTime := latency res\<rparr>, rt, s\<lparr>vnd := v, rands := r\<rparr>))
     else Inr (p, rt, s))"

definition deliver_remote :: "nat \<Rightarrow> env \<Rightarrow> u32 \<Rightarrow> cand \<Rightarrow> u64 \<times> dev \<times> shm \<Rightarrow> (router_pc \<times> u64 \<times> dev \<times> shm) res" where
  "deliver_remote fuel E fail_addr c st = (let (rt, s, h) = st; v = vnd s;
       q = local_queue E (packet_ind c); a = q_entry q (q_cons q h) in
     bind_res (find_neighbor (nat (TotalDeviceNum v)) v (packet_next c) 0) (\<lambda>count.
     bind_res (guard_res (0 \<le> packet_ind c) Out_of_bounds) (\<lambda>_.
     bind_res (header_at a h) (\<lambda>p.
     bind_res (fwd_header fuel p (rt, s)) (\<lambda>(p, rt, s).
     let h = set_entry a (Header p) h in
     if TransTime p = 0 then
       if EntryNum p = -1
       then Inr (R_poll, add_fail_addr fail_addr rt, s,
              advance_consumer q (set_cf (m2m_hq_conflag_start (e_dbp E) (SenderID p))
                \<lparr>dataflag = 44, transtime = add_fail_addr fail_addr (SendTime p)\<rparr> h))
       else Inr (R_poll, rt, s, h)
     else if EntryNum p = -1
       then Inr (R_hdr \<lparr>f_from = q, f_to = remote_queue E count, f_entry = a, f_local = False, f_next = packet_next c\<rparr>,
                 rt + TransTime p, s, h)
       else Inr (R_poll, answer_sender E False (packet_next c) p (rt + TransTime p, s, h)))))))"

text \<open>The second copy, the two counters, and the answer.\<close>

definition fwd_finish :: "env \<Rightarrow> fwd \<Rightarrow> u64 \<times> dev \<times> shm \<Rightarrow> (router_pc \<times> u64 \<times> dev \<times> shm) res" where
  "fwd_finish E f st = (let (rt, s, h) = st; qf = f_from f; qt = f_to f in
     bind_res (header_at (f_entry f) h) (\<lambda>p.
     bind_res (data_at (q_entry qf (ring4 (q_cons qf h + 1))) (PacketSize p) h) (\<lambda>bs.
     let h = set_entry (q_entry qt (ring4 (q_prod qt h + 1))) (Bytes bs) h;
         h = advance_producer qt (advance_consumer qf h)
     in Inr (R_poll, answer_sender E (f_local f) (f_next f) p (rt, s, h)))))"

text \<open>One step of the thread.\<close>

fun router_step :: "nat \<Rightarrow> env \<Rightarrow> u64 \<Rightarrow> u32 \<Rightarrow> router_pc \<Rightarrow> u64 \<times> dev \<times> shm \<Rightarrow> (router_pc \<times> u64 \<times> dev \<times> shm) res" where
  "router_step fuel E ohl fail_addr R_poll (rt, s, h) =
     (let (found, h) = router_poll E s h in Inr (if found then R_find else R_poll, rt, s, h))"
| "router_step fuel E ohl fail_addr R_find (rt, s, h) =
     bind_res (find_earliest fuel E h s) (\<lambda>(c, s).
       Inr (if search_num (vnd s) > 2 then R_deadline (\<lambda>_. False, 0) c else R_deliver c, rt, s, h))"
| "router_step fuel E ohl fail_addr (R_deadline dl c) (rt, s, h) =
     bind_res (deadline_pass fuel E ohl (dl, c, s) h) (\<lambda>(dl, c, s, h).
       Inr (if snd dl = search_num (vnd s) - 2 then R_deliver c else R_deadline dl c, rt, s, h))"
| "router_step fuel E ohl fail_addr (R_deliver c) (rt, s, h) =
     (if packet_next c = DeviceID (vnd s) then deliver_local E c (rt, s, h)
      else deliver_remote fuel E fail_addr c (rt, s, h))"
| "router_step fuel E ohl fail_addr (R_hdr f) (rt, s, h) =
     (if header_full (f_to f) h then Inr (R_hdr f, rt, s, h)
      else Inr (R_data f, rt, s, set_entry (q_entry (f_to f) (q_prod (f_to f) h)) (hq_ent h (f_entry f)) h))"
| "router_step fuel E ohl fail_addr (R_data f) (rt, s, h) =
     (if data_full (f_to f) h then Inr (R_data f, rt, s, h) else fwd_finish E f (rt, s, h))"


section \<open>Neighbour lists\<close>

definition rp_inv :: "topo \<Rightarrow> VND \<Rightarrow> int \<Rightarrow> rp_lists \<Rightarrow> bool" where
  "rp_inv T v k rp \<longleftrightarrow> (let nbs = map (Neighbors v) [0..k] in
     0 \<le> end_count rp \<and> 0 \<le> router_count rp \<and>
     map (neighbor_end_list rp) [0..end_count rp - 1] = filter (\<lambda>nb. NODE_TYPE T nb = ''ZED'') nbs \<and>
     map (neighbor_router_list rp) [0..router_count rp - 1] = filter (\<lambda>nb. NODE_TYPE T nb \<noteq> ''ZED'') nbs \<and>
     (neighbor_end rp \<noteq> 0 \<longleftrightarrow> (\<exists>nb \<in> set nbs. NODE_TYPE T nb = ''ZED'')))"

lemma map_upto_snoc: "0 \<le> n \<Longrightarrow> map (f(n := x)) [0..n] = map f [0..n - 1] @ [x]" for n :: int
  by (simp add: upto_rec2)

lemma rp_add_inv:
  assumes "rp_inv T v (k - 1) rp" and "0 \<le> k" "k < NODE_MAX_LINKS" "0 \<le> Neighbors v k" "Neighbors v k < MAX_NODE_NUM"
  shows "\<exists>rp'. rp_add T v k rp = Inr rp' \<and> rp_inv T v k rp'"
proof -
  have k: "[0..k] = [0..k - 1] @ [k]" using assms(2) by (simp add: upto_rec2)
  show ?thesis
    using assms by (cases "NODE_TYPE T (Neighbors v k) = ''ZED''")
      (auto simp: rp_add_def rp_inv_def Let_def k map_upto_snoc simp del: fun_upd_apply)
qed

lemma route_processor_lists:
  assumes "\<not> is_ZED v" and "0 \<le> NeighborNum v" "NeighborNum v \<le> NODE_MAX_LINKS"
    and "\<And>i. 0 \<le> i \<Longrightarrow> i < NeighborNum v \<Longrightarrow> 0 \<le> Neighbors v i \<and> Neighbors v i < MAX_NODE_NUM"
  shows "\<exists>rp'. m2m_route_processor_init T v rp = Inr (M2M_SUCCESS, rp') \<and> rp_inv T v (NeighborNum v - 1) rp'"
proof -
  let ?rp = "rp\<lparr>neighbor_end := 0, end_count := 0, router_count := 0\<rparr>"
  have "\<exists>rp'. fold_res (rp_add T v) [0..NeighborNum v - 1] ?rp = Inr rp' \<and> rp_inv T v (NeighborNum v - 1) rp'"
  proof (rule fold_res_upto_total)
    show "rp_inv T v (0 - 1) ?rp" by (simp add: rp_inv_def)
    show "\<exists>s'. rp_add T v k s = Inr s' \<and> rp_inv T v k s'"
      if "0 \<le> k" "k \<le> NeighborNum v - 1" "rp_inv T v (k - 1) s" for k s
      using that assms(3,4) by (intro rp_add_inv) auto
  qed (use assms in simp)
  then show ?thesis using assms(1) by (auto simp: m2m_route_processor_init_def)
qed

section \<open>The earliest packet\<close>

text \<open>What a packet needs for the router to know its next hop.\<close>

definition routable :: "env \<Rightarrow> VND \<Rightarrow> int \<Rightarrow> bool" where
  "routable E v r \<longleftrightarrow> r = DeviceID v \<or>
     (\<exists>c. shortest (NODE_MAP (e_topo E)) (TotalDeviceNum v) (DeviceID v) r c \<and> 0 < c \<and> c \<le> ROUTE_PATH_LEN)"

definition good_hop :: "env \<Rightarrow> VND \<Rightarrow> int \<Rightarrow> int \<Rightarrow> bool" where
  "good_hop E v r hop \<longleftrightarrow>
     (if r = DeviceID v then hop = r
      else NODE_MAP (e_topo E) (DeviceID v) hop \<noteq> 0 \<and>
        (\<exists>c. shortest (NODE_MAP (e_topo E)) (TotalDeviceNum v) (DeviceID v) r c \<and>
             shortest (NODE_MAP (e_topo E)) (TotalDeviceNum v) hop r (c - 1)))"

definition net_ok :: "nat \<Rightarrow> env \<Rightarrow> VND \<Rightarrow> bool" where
  "net_ok fuel E v \<longleftrightarrow> (\<forall>u w. NODE_MAP (e_topo E) u w \<in> {0, 1}) \<and> TotalDeviceNum v < GRAPHSIZE \<and>
     TotalDeviceNum v < int fuel"

lemma next_of_ok:
  assumes "net_ok fuel E (vnd s)" and "routable E (vnd s) (ReceiverID p)"
  shows "\<exists>hop g. next_of fuel E p s = Inr (hop, s\<lparr>routes := g\<rparr>) \<and> good_hop E (vnd s) (ReceiverID p) hop"
proof (cases "DeviceID (vnd s) = ReceiverID p")
  case True
  then have "next_of fuel E p s = Inr (ReceiverID p, s\<lparr>routes := routes s\<rparr>)" by (simp add: next_of_def Let_def)
  then show ?thesis using True
    by (intro exI [of _ "ReceiverID p"] exI [of _ "routes s"]) (simp add: good_hop_def)
next
  case False
  then obtain c where c: "shortest (NODE_MAP (e_topo E)) (TotalDeviceNum (vnd s)) (DeviceID (vnd s)) (ReceiverID p) c"
    "0 < c" "c \<le> ROUTE_PATH_LEN" using assms(2) by (auto simp: routable_def)
  have u: "\<And>u w. NODE_MAP (e_topo E) u w \<in> {0, 1}" "TotalDeviceNum (vnd s) < GRAPHSIZE" "TotalDeviceNum (vnd s) < int fuel"
    using assms(1) by (auto simp: net_ok_def)
  from route_discovery_hop [OF u c, of "routes s"] False c(1) show ?thesis
    by (auto simp: next_of_def good_hop_def Let_def)
qed

text \<open>Arrival time first, time of sending second.\<close>

definition key_le :: "u64 \<times> u64 \<Rightarrow> u64 \<times> u64 \<Rightarrow> bool" where
  "key_le a b \<longleftrightarrow> fst a < fst b \<or> (fst a = fst b \<and> snd a \<le> snd b)"

definition pkey :: "m2m_HQe \<Rightarrow> u64 \<times> u64" where "pkey p = (SendTime p + TransTime p, SendTime p)"
definition ckey :: "cand \<Rightarrow> u64 \<times> u64" where "ckey c = (packet_mintime c, packet_sendtime c)"

lemma key_le_trans: "key_le a b \<Longrightarrow> key_le b c \<Longrightarrow> key_le a c"
  by (auto simp: key_le_def)

lemma earlier_key: "earlier p c \<longleftrightarrow> \<not> key_le (ckey c) (pkey p)"
  by (auto simp: earlier_def key_le_def pkey_def ckey_def)

lemma key_le_linear: "\<not> key_le a b \<Longrightarrow> key_le b a"
  by (auto simp: key_le_def)

text \<open>The candidate \<open>c\<close> describes the packet at the head of its queue.\<close>

definition cand_of :: "env \<Rightarrow> VND \<Rightarrow> shm \<Rightarrow> m2m_HQe \<Rightarrow> cand \<Rightarrow> bool" where
  "cand_of E v h p c \<longleftrightarrow> \<not> q_empty (local_queue E (packet_ind c)) h \<and>
     peek_header (local_queue E (packet_ind c)) h = Inr p \<and> ckey c = pkey p \<and> packet_from c = ForwardID p \<and>
     good_hop E v (ReceiverID p) (packet_next c)"

definition queues_ready :: "env \<Rightarrow> VND \<Rightarrow> shm \<Rightarrow> int set \<Rightarrow> bool" where
  "queues_ready E v h I \<longleftrightarrow> (\<forall>i \<in> I. \<not> q_empty (local_queue E (queue_no v i)) h \<longrightarrow>
     (\<exists>p. peek_header (local_queue E (queue_no v i)) h = Inr p \<and> routable E v (ReceiverID p)))"

lemma look_at_ok:
  assumes "net_ok fuel E (vnd s)" and "queues_ready E (vnd s) h {i}"
  obtains upd c' g where "look_at fuel E h i (c, s) = Inr (upd, c', s\<lparr>routes := g\<rparr>)"
    "if upd then packet_ind c' = queue_no (vnd s) i \<and> \<not> key_le (ckey c) (ckey c') \<and> (\<exists>p. cand_of E (vnd s) h p c')
     else c' = c"
    "\<And>p. \<not> q_empty (local_queue E (queue_no (vnd s) i)) h \<Longrightarrow>
       peek_header (local_queue E (queue_no (vnd s) i)) h = Inr p \<Longrightarrow> key_le (ckey c') (pkey p)"
proof -
  let ?q = "local_queue E (queue_no (vnd s) i)"
  show ?thesis
  proof (cases "q_empty ?q h")
    case True
    then show ?thesis using that [of False c "routes s"] by (simp add: look_at_def Let_def)
  next
    case False
    then obtain p where p: "peek_header ?q h = Inr p" "routable E (vnd s) (ReceiverID p)"
      using assms(2) by (auto simp: queues_ready_def)
    show ?thesis
    proof (cases "earlier p c")
      case e: True
      obtain hop g where hop: "next_of fuel E p s = Inr (hop, s\<lparr>routes := g\<rparr>)" "good_hop E (vnd s) (ReceiverID p) hop"
        using next_of_ok [OF assms(1) p(2)] by blast
      define c' where "c' = \<lparr>packet_mintime = SendTime p + TransTime p, packet_sendtime = SendTime p,
                 packet_from = ForwardID p, packet_next = hop, packet_ind = queue_no (vnd s) i\<rparr>"
      have k: "ckey c' = pkey p" "packet_ind c' = queue_no (vnd s) i" by (simp_all add: ckey_def pkey_def c'_def)
      have "cand_of E (vnd s) h p c'" using False p(1) hop(2) k by (simp add: cand_of_def c'_def)
      moreover have "look_at fuel E h i (c, s) = Inr (True, c', s\<lparr>routes := g\<rparr>)"
        using False p(1) e hop(1) by (simp add: look_at_def Let_def c'_def)
      moreover have "\<not> key_le (ckey c) (ckey c')" "key_le (ckey c') (pkey p)"
        using e by (auto simp: earlier_key k(1) key_le_def)
      ultimately show ?thesis using that [of True c' g] p(1) k(2) by auto
    next
      case e: False
      then show ?thesis using that [of False c "routes s"] False p(1)
        by (simp add: look_at_def Let_def earlier_key)
    qed
  qed
qed

text \<open>After the loop over the first queues the candidate is the earliest packet in them.\<close>

definition best :: "env \<Rightarrow> VND \<Rightarrow> shm \<Rightarrow> int set \<Rightarrow> cand \<Rightarrow> bool" where
  "best E v h I c \<longleftrightarrow>
     (c = cand0 \<or> (\<exists>p i. i \<in> I \<and> packet_ind c = queue_no v i \<and> cand_of E v h p c)) \<and>
     (\<forall>i \<in> I. \<forall>p. \<not> q_empty (local_queue E (queue_no v i)) h \<longrightarrow>
        peek_header (local_queue E (queue_no v i)) h = Inr p \<longrightarrow> key_le (ckey c) (pkey p))"

lemma best_look_at:
  assumes "net_ok fuel E (vnd s)" and "queues_ready E (vnd s) h {i}" and "best E (vnd s) h I c"
  obtains upd c' g where "look_at fuel E h i (c, s) = Inr (upd, c', s\<lparr>routes := g\<rparr>)"
    "best E (vnd s) h (insert i I) c'"
proof -
  obtain upd c' g where l: "look_at fuel E h i (c, s) = Inr (upd, c', s\<lparr>routes := g\<rparr>)"
    "if upd then packet_ind c' = queue_no (vnd s) i \<and> \<not> key_le (ckey c) (ckey c') \<and> (\<exists>p. cand_of E (vnd s) h p c')
     else c' = c"
    "\<And>p. \<not> q_empty (local_queue E (queue_no (vnd s) i)) h \<Longrightarrow>
       peek_header (local_queue E (queue_no (vnd s) i)) h = Inr p \<Longrightarrow> key_le (ckey c') (pkey p)"
    using look_at_ok [OF assms(1,2)] by blast
  have "key_le (ckey c') (ckey c)" using l(2) key_le_linear by (cases upd) (auto simp: key_le_def)
  then have "\<forall>j \<in> insert i I. \<forall>p. \<not> q_empty (local_queue E (queue_no (vnd s) j)) h \<longrightarrow>
        peek_header (local_queue E (queue_no (vnd s) j)) h = Inr p \<longrightarrow> key_le (ckey c') (pkey p)"
    using assms(3) l(3) key_le_trans unfolding best_def by (metis insertE)
  moreover have "c' = cand0 \<or> (\<exists>p j. j \<in> insert i I \<and> packet_ind c' = queue_no (vnd s) j \<and> cand_of E (vnd s) h p c')"
    using assms(3) l(2) unfolding best_def by (cases upd) auto
  ultimately have "best E (vnd s) h (insert i I) c'" by (simp add: best_def)
  with l(1) show ?thesis by (rule that)
qed

lemma find_earliest_best:
  assumes net: "net_ok fuel E (vnd s)" and ready: "queues_ready E (vnd s) h {0..search_num (vnd s) - 1}"
    and n: "0 \<le> search_num (vnd s)"
  shows "\<exists>c g. find_earliest fuel E h s = Inr (c, s\<lparr>routes := g\<rparr>) \<and>
     best E (vnd s) h {0..search_num (vnd s) - 1} c"
proof -
  let ?I = "\<lambda>k (c, s'). (\<exists>g. s' = s\<lparr>routes := g\<rparr>) \<and> best E (vnd s) h {0..k} c"
  have "\<exists>st. fold_res (\<lambda>index st. bind_res (look_at fuel E h index st) (\<lambda>(upd, st). Inr st))
       [0..search_num (vnd s) - 1] (cand0, s) = Inr st \<and> ?I (search_num (vnd s) - 1) st"
  proof (rule fold_res_upto_total)
    have "s = s\<lparr>routes := routes s\<rparr>" by simp
    then have "\<exists>g. s = s\<lparr>routes := g\<rparr>" by (rule exI)
    then show "?I (0 - 1) (cand0, s)" by (simp add: best_def)
    show "\<exists>st'. bind_res (look_at fuel E h k st) (\<lambda>(upd, st). Inr st) = Inr st' \<and> ?I k st'"
      if k: "0 \<le> k" "k \<le> search_num (vnd s) - 1" and I: "?I (k - 1) st" for k st
    proof -
      obtain c g where st: "st = (c, s\<lparr>routes := g\<rparr>)" "best E (vnd s) h {0..k - 1} c" using I by auto
      have "queues_ready E (vnd s) h {k}" using ready k by (auto simp: queues_ready_def)
      then obtain upd c' g' where l: "look_at fuel E h k st = Inr (upd, c', s\<lparr>routes := g'\<rparr>)"
        "best E (vnd s) h (insert k {0..k - 1}) c'"
        using best_look_at [of fuel E "s\<lparr>routes := g\<rparr>" h k "{0..k - 1}" c] net st by auto
      moreover have "insert k {0..k - 1} = {0..k}" using k by auto
      ultimately show ?thesis by auto
    qed
  qed (use n in simp)
  then show ?thesis by (auto simp: find_earliest_def)
qed

section \<open>Waiting\<close>

text \<open>The participants the router looks at, by loop index, and the flags already set.\<close>

abbreviation parts :: "VND \<Rightarrow> int set" where "parts v \<equiv> {0..search_num v - 1}"

definition flagged :: "VND \<Rightarrow> (int \<Rightarrow> bool) \<Rightarrow> int set" where
  "flagged v dl = {i \<in> parts v. dl (queue_no v i)}"

definition clock_ok :: "env \<Rightarrow> VND \<Rightarrow> u64 \<Rightarrow> cand \<Rightarrow> shm \<Rightarrow> int \<Rightarrow> bool" where
  "clock_ok E v ohl c h i \<longleftrightarrow> packet_from c \<noteq> clock_of v i \<and>
     passed ohl c (localtime h (m2m_localtime_start (e_dbp E) (clock_of v i)))"

text \<open>
  The counter is the number of flags, and a flag means that the clock had passed in one of the
  memories \<open>H\<close> seen so far.
\<close>

definition dl_inv :: "env \<Rightarrow> VND \<Rightarrow> u64 \<Rightarrow> shm set \<Rightarrow> deadline \<Rightarrow> cand \<Rightarrow> bool" where
  "dl_inv E v ohl H d c \<longleftrightarrow> snd d = int (card (flagged v (fst d))) \<and>
     (\<forall>i \<in> flagged v (fst d). \<exists>h \<in> H. clock_ok E v ohl c h i)"

lemma queue_no_inj:
  assumes "NeighborNum v \<le> NODE_MAX_LINKS" and "i \<in> parts v" "j \<in> parts v" and "queue_no v i = queue_no v j"
  shows "i = j"
  using assms by (auto simp: queue_no_def search_num_def split: if_splits)

lemma flagged_upd:
  assumes "NeighborNum v \<le> NODE_MAX_LINKS" and "i \<in> parts v"
  shows "flagged v (dl(queue_no v i := True)) = insert i (flagged v dl)"
  using assms queue_no_inj [OF assms(1)] by (auto simp: flagged_def)

lemma flagged_none [simp]: "flagged v (\<lambda>_. False) = {}"
  by (simp add: flagged_def)

lemma finite_flagged [simp]: "finite (flagged v dl)"
  by (rule finite_subset [of _ "parts v"]) (auto simp: flagged_def)

lemma dl_inv_flag:
  assumes "NeighborNum v \<le> NODE_MAX_LINKS" and "i \<in> parts v" and "dl_inv E v ohl H (dl, n) c"
    and "\<not> dl (queue_no v i)" and "h \<in> H" "clock_ok E v ohl c h i"
  shows "dl_inv E v ohl H (dl(queue_no v i := True), n + 1) c"
proof -
  have "i \<notin> flagged v dl" using assms(4) by (simp add: flagged_def)
  then show ?thesis using assms(3,5,6) by (auto simp: dl_inv_def flagged_upd [OF assms(1,2)])
qed

lemma deadline_one_inv:
  assumes "NeighborNum (vnd s) \<le> NODE_MAX_LINKS" and i: "i \<in> parts (vnd s)" and "h \<in> H"
    and "net_ok fuel E (vnd s)" and "queues_ready E (vnd s) h (parts (vnd s))"
    and I: "dl_inv E (vnd s) ohl H d c" and k: "key_le (ckey c) k"
  obtains d' c' g where "deadline_one fuel E ohl h i (d, c, s) = Inr (d', c', s\<lparr>routes := g\<rparr>)"
    "dl_inv E (vnd s) ohl H d' c'" "key_le (ckey c') k"
proof -
  have qr: "queues_ready E (vnd s) h {i}" using assms(5) i by (auto simp: queues_ready_def)
  obtain upd c' g where l: "look_at fuel E h i (c, s) = Inr (upd, c', s\<lparr>routes := g\<rparr>)"
    "if upd then packet_ind c' = queue_no (vnd s) i \<and> \<not> key_le (ckey c) (ckey c') \<and> (\<exists>p. cand_of E (vnd s) h p c')
     else c' = c"
    "\<And>p. \<not> q_empty (local_queue E (queue_no (vnd s) i)) h \<Longrightarrow>
       peek_header (local_queue E (queue_no (vnd s) i)) h = Inr p \<Longrightarrow> key_le (ckey c') (pkey p)"
    using look_at_ok [OF assms(4) qr] by blast
  have "key_le (ckey c') (ckey c)" using l(2) key_le_linear by (cases upd) (auto simp: key_le_def)
  then have k': "key_le (ckey c') k" using k by (rule key_le_trans)
  obtain dl n where d: "(if upd then (\<lambda>_. False, 0) else d) = (dl, n)" by fastforce
  have I1: "dl_inv E (vnd s) ohl H (dl, n) c'"
    using I l(2) d by (cases upd) (auto simp: dl_inv_def)
  let ?t = "\<not> dl (queue_no (vnd s) i) \<and> clock_ok E (vnd s) ohl c' h i"
  have "deadline_one fuel E ohl h i (d, c, s) =
      Inr (if ?t then (dl(queue_no (vnd s) i := True), n + 1) else (dl, n), c', s\<lparr>routes := g\<rparr>)"
    using l(1) d by (cases d; cases upd) (auto simp: deadline_one_def Let_def clock_ok_def)
  then show ?thesis
    using that dl_inv_flag [OF assms(1) i I1 _ assms(3)] I1 k' by (cases ?t) auto
qed

lemma deadline_pass_inv:
  assumes nb: "NeighborNum (vnd s) \<le> NODE_MAX_LINKS" "0 \<le> search_num (vnd s)"
    and net: "net_ok fuel E (vnd s)" and ready: "queues_ready E (vnd s) h (parts (vnd s))"
    and I: "dl_inv E (vnd s) ohl H d c" and k: "key_le (ckey c) k"
  obtains d' c' g h' where "deadline_pass fuel E ohl (d, c, s) h = Inr (d', c', s\<lparr>routes := g\<rparr>, h')"
    "dl_inv E (vnd s) ohl (insert h H) d' c'" "key_le (ckey c') k"
proof -
  let ?I = "\<lambda>_ (d, c, s'). (\<exists>g. s' = s\<lparr>routes := g\<rparr>) \<and> dl_inv E (vnd s) ohl (insert h H) d c \<and> key_le (ckey c) k"
  have "\<exists>st. fold_res (deadline_one fuel E ohl h) [0..search_num (vnd s) - 1] (d, c, s) = Inr st \<and>
      ?I (search_num (vnd s) - 1) st"
  proof (rule fold_res_upto_total)
    have "s = s\<lparr>routes := routes s\<rparr>" by simp
    then have "\<exists>g. s = s\<lparr>routes := g\<rparr>" by (rule exI)
    then show "?I (0 - 1) (d, c, s)" using I k by (auto simp: dl_inv_def)
    show "\<exists>st'. deadline_one fuel E ohl h i st = Inr st' \<and> ?I i st'"
      if i: "0 \<le> i" "i \<le> search_num (vnd s) - 1" and st: "?I (i - 1) st" for i st
    proof -
      obtain d1 c1 g1 where st: "st = (d1, c1, s\<lparr>routes := g1\<rparr>)" "dl_inv E (vnd s) ohl (insert h H) d1 c1"
        "key_le (ckey c1) k" using st by (cases st) auto
      show ?thesis
        by (rule deadline_one_inv [of "s\<lparr>routes := g1\<rparr>" i h "insert h H" fuel E ohl d1 c1 k])
          (use st nb i net ready in auto)
    qed
  qed (use nb in simp)
  then obtain d' c' g where "fold_res (deadline_one fuel E ohl h) [0..search_num (vnd s) - 1] (d, c, s) =
      Inr (d', c', s\<lparr>routes := g\<rparr>)" "dl_inv E (vnd s) ohl (insert h H) d' c'" "key_le (ckey c') k" by auto
  then show ?thesis using that by (simp add: deadline_pass_def)
qed

text \<open>The passes of the waiting loop over a sequence of memories.\<close>

fun deadline_passes :: "nat \<Rightarrow> env \<Rightarrow> u64 \<Rightarrow> shm list \<Rightarrow> deadline \<times> cand \<times> dev \<Rightarrow> (deadline \<times> cand \<times> dev) res" where
  "deadline_passes fuel E ohl [] st = Inr st"
| "deadline_passes fuel E ohl (h # hs) st =
     bind_res (deadline_pass fuel E ohl st h) (\<lambda>(d, c, s, h'). deadline_passes fuel E ohl hs (d, c, s))"

lemma deadline_passes_inv:
  assumes "NeighborNum (vnd s) \<le> NODE_MAX_LINKS" "0 \<le> search_num (vnd s)" "net_ok fuel E (vnd s)"
    and "\<And>h. h \<in> set hs \<Longrightarrow> queues_ready E (vnd s) h (parts (vnd s))"
    and "dl_inv E (vnd s) ohl H d c" and "key_le (ckey c) k"
  shows "\<exists>d' c' g. deadline_passes fuel E ohl hs (d, c, s) = Inr (d', c', s\<lparr>routes := g\<rparr>) \<and>
    dl_inv E (vnd s) ohl (H \<union> set hs) d' c' \<and> key_le (ckey c') k"
  using assms
proof (induction hs arbitrary: d c s H)
  case Nil
  then show ?case by (auto intro!: exI [of _ "routes s"])
next
  case (Cons h hs)
  have "queues_ready E (vnd s) h (parts (vnd s))" using Cons.prems(4) by simp
  from deadline_pass_inv [OF Cons.prems(1-3) this Cons.prems(5,6)] obtain d1 c1 g1 h1 where
    p: "deadline_pass fuel E ohl (d, c, s) h = Inr (d1, c1, s\<lparr>routes := g1\<rparr>, h1)"
      "dl_inv E (vnd s) ohl (insert h H) d1 c1" "key_le (ckey c1) k" by blast
  show ?case using Cons.IH [of "s\<lparr>routes := g1\<rparr>" "insert h H" d1 c1] Cons.prems p by auto
qed

text \<open>Without an earlier packet a pass only sets flags.\<close>

definition quiet :: "env \<Rightarrow> VND \<Rightarrow> shm \<Rightarrow> cand \<Rightarrow> bool" where
  "quiet E v h c \<longleftrightarrow> (\<forall>i \<in> parts v. let q = local_queue E (queue_no v i) in
     q_empty q h \<or> (\<exists>p. peek_header q h = Inr p \<and> \<not> earlier p c))"

lemma deadline_one_quiet:
  assumes "quiet E (vnd s) h c" and "i \<in> parts (vnd s)"
  shows "deadline_one fuel E ohl h i ((dl, n), c, s) =
     Inr (if \<not> dl (queue_no (vnd s) i) \<and> clock_ok E (vnd s) ohl c h i
          then (dl(queue_no (vnd s) i := True), n + 1) else (dl, n), c, s)"
proof -
  have "look_at fuel E h i (c, s) = Inr (False, c, s)"
    using assms by (auto simp: quiet_def look_at_def Let_def)
  then show ?thesis by (simp add: deadline_one_def Let_def clock_ok_def)
qed

lemma deadline_fold_all:
  assumes nb: "NeighborNum (vnd s) \<le> NODE_MAX_LINKS" and q: "quiet E (vnd s) h c" and n: "0 \<le> search_num (vnd s)"
    and ok: "\<And>i. i \<in> parts (vnd s) \<Longrightarrow> clock_ok E (vnd s) ohl c h i \<longleftrightarrow> packet_from c \<noteq> clock_of (vnd s) i"
  shows "\<exists>dl. fold_res (deadline_one fuel E ohl h) [0..search_num (vnd s) - 1] ((\<lambda>_. False, 0), c, s) =
       Inr ((dl, int (card {i \<in> parts (vnd s). packet_from c \<noteq> clock_of (vnd s) i})), c, s) \<and>
     flagged (vnd s) dl = {i \<in> parts (vnd s). packet_from c \<noteq> clock_of (vnd s) i}"
proof -
  let ?v = "vnd s"
  let ?F = "\<lambda>k. {i \<in> {0..k}. packet_from c \<noteq> clock_of ?v i}"
  let ?I = "\<lambda>k st. \<exists>dl. st = ((dl, int (card (?F k))), c, s) \<and> flagged ?v dl = ?F k"
  have "\<exists>st. fold_res (deadline_one fuel E ohl h) [0..search_num ?v - 1] ((\<lambda>_. False, 0), c, s) = Inr st \<and>
      ?I (search_num ?v - 1) st"
  proof (rule fold_res_upto_total)
    show "?I (0 - 1) ((\<lambda>_. False, 0), c, s)" by (intro exI [of _ "\<lambda>_. False"]) simp
    show "\<exists>st'. deadline_one fuel E ohl h k st = Inr st' \<and> ?I k st'"
      if k: "0 \<le> k" "k \<le> search_num ?v - 1" and st: "?I (k - 1) st" for k st
    proof -
      obtain dl where dl: "st = ((dl, int (card (?F (k - 1)))), c, s)" "flagged ?v dl = ?F (k - 1)" using st by blast
      have kp: "k \<in> parts ?v" using k by simp
      then have "k \<notin> flagged ?v dl" unfolding dl(2) by simp
      then have nf: "\<not> dl (queue_no ?v k)" using kp by (simp add: flagged_def)
      have F: "?F k = (if packet_from c \<noteq> clock_of ?v k then insert k (?F (k - 1)) else ?F (k - 1))"
      proof -
        have "{0..k} = insert k {0..k - 1}" using k by auto
        then show ?thesis by auto
      qed
      have fin: "finite (?F (k - 1))" by (rule finite_subset [of _ "{0..k - 1}"]) auto
      have card: "card (insert k (?F (k - 1))) = Suc (card (?F (k - 1)))" using fin by simp
      show ?thesis
      proof (cases "packet_from c \<noteq> clock_of ?v k")
        case True
        then show ?thesis
          using dl deadline_one_quiet [OF q kp, of fuel ohl dl "int (card (?F (k - 1)))"] ok [OF kp] nf F card
            flagged_upd [OF nb kp, of dl] by (auto intro!: exI [of _ "dl(queue_no ?v k := True)"])
      next
        case False
        then show ?thesis
          using dl deadline_one_quiet [OF q kp, of fuel ohl dl "int (card (?F (k - 1)))"] ok [OF kp] F
          by (auto intro!: exI [of _ dl])
      qed
    qed
  qed (use n in simp)
  then show ?thesis by auto
qed

lemma deadline_fold_stuck:
  assumes q: "quiet E (vnd s) h c" and n: "0 \<le> search_num (vnd s)"
    and F: "flagged (vnd s) dl = {i \<in> parts (vnd s). packet_from c \<noteq> clock_of (vnd s) i}"
  shows "fold_res (deadline_one fuel E ohl h) [0..search_num (vnd s) - 1] ((dl, m), c, s) = Inr ((dl, m), c, s)"
proof -
  have "\<exists>st. fold_res (deadline_one fuel E ohl h) [0..search_num (vnd s) - 1] ((dl, m), c, s) = Inr st \<and> st = ((dl, m), c, s)"
  proof (rule fold_res_upto_total)
    show "\<exists>st'. deadline_one fuel E ohl h k st = Inr st' \<and> st' = ((dl, m), c, s)"
      if k: "0 \<le> k" "k \<le> search_num (vnd s) - 1" and st: "st = ((dl, m), c, s)" for k st
    proof -
      have kp: "k \<in> parts (vnd s)" using k by simp
      have "dl (queue_no (vnd s) k) \<longleftrightarrow> packet_from c \<noteq> clock_of (vnd s) k"
        using F kp by (auto simp: flagged_def set_eq_iff)
      then show ?thesis using deadline_one_quiet [OF q kp, of fuel ohl dl m] st by (simp add: clock_ok_def)
    qed
  qed (use n in auto)
  then show ?thesis by simp
qed

section \<open>Forwarding\<close>

definition disjoint_queues :: "hq \<Rightarrow> hq \<Rightarrow> bool" where
  "disjoint_queues q r \<longleftrightarrow> q_meta q \<noteq> q_meta r \<and>
     (\<forall>x \<in> {0, 1, 2, 3}. \<forall>y \<in> {0, 1, 2, 3}. q_entry q x \<noteq> q_entry r y)"

lemma disjoint_counters [simp]:
  assumes "q_meta q \<noteq> q_meta r"
  shows "q_prod q (advance_producer r h) = q_prod q h" "q_cons q (advance_producer r h) = q_cons q h"
    "q_prod q (advance_consumer r h) = q_prod q h" "q_cons q (advance_consumer r h) = q_cons q h"
  using assms by (simp_all add: q_prod_def q_cons_def advance_producer_def advance_consumer_def)

lemma ring4_in:
  assumes "x \<in> {0, 2}"
  shows "x \<in> {0, 1, 2, 3}" "ring4 (x + 1) \<in> {0, 1, 2, 3}" "ring4 (x + 2) \<in> {0, 2}" "ring4 (x + 2) \<noteq> x" "ring4 (x + 1) \<noteq> x"
  using assms by auto

lemma answer_sender_frame:
  assumes "answer_sender E b nxt p (rt, s, h) = (rt', s', h')"
  shows "s' = s" "hq_meta h' = hq_meta h" "hq_ent h' = hq_ent h"
  using assms by (auto simp: answer_sender_def Let_def split: if_splits)

text \<open>The two copies and the counters: the message leaves one queue and enters the other.\<close>

lemma move_message:
  assumes ok: "hq_ok qf h" "hq_ok qt h" and dj: "disjoint_queues qf qt"
    and c: "hq_contents qf h = [(p, bs)]" "hq_contents qt h = []"
  defines "h1 \<equiv> set_entry (q_entry qt (q_prod qt h)) (Header p) h"
  defines "h2 \<equiv> advance_producer qt (advance_consumer qf
       (set_entry (q_entry qt (ring4 (q_prod qt h + 1))) (Bytes bs) h1))"
  shows "\<not> header_full qt h" "\<not> data_full qt h1"
    "hq_ent h (q_entry qf (q_cons qf h)) = Header p"
    "hq_ent h1 (q_entry qf (q_cons qf h)) = Header p"
    "hq_ent h1 (q_entry qf (ring4 (q_cons qf h + 1))) = Bytes bs"
    "hq_ok qf h2" "hq_ok qt h2" "hq_contents qf h2 = []" "hq_contents qt h2 = [(p, bs)]"
proof -
  have f: "q_prod qf h = ring4 (q_cons qf h + 2)" "hq_ent h (q_entry qf (q_cons qf h)) = Header p"
    "hq_ent h (q_entry qf (ring4 (q_cons qf h + 1))) = Bytes bs"
    using ok(1) c(1) by (cases rule: hq_ok_cases; simp)+
  have t: "q_prod qt h = q_cons qt h" using ok(2) c(2) by (cases rule: hq_ok_cases) auto
  have cf: "q_cons qf h \<in> {0, 2}" and ct: "q_cons qt h \<in> {0, 2}" using ok by (simp_all add: hq_ok_def)
  have m: "q_meta qf \<noteq> q_meta qt" "q_meta qt \<noteq> q_meta qf" using dj by (auto simp: disjoint_queues_def)
  have inj: "q_entry qt (ring4 (q_cons qt h + 1)) \<noteq> q_entry qt (q_cons qt h)"
    using entry_inj [OF ok(2), of "ring4 (q_cons qt h + 1)" "q_cons qt h"] ring4_in [OF ct] by simp
  have ne: "q_entry qf x \<noteq> q_entry qt y" if "x \<in> {0, 1, 2, 3}" "y \<in> {0, 1, 2, 3}" for x y
    using dj that by (auto simp: disjoint_queues_def)
  note ne = ne [OF ring4_in(1) [OF cf] ring4_in(1) [OF ct]] ne [OF ring4_in(1) [OF cf] ring4_in(2) [OF ct]]
    ne [OF ring4_in(2) [OF cf] ring4_in(1) [OF ct]] ne [OF ring4_in(2) [OF cf] ring4_in(2) [OF ct]]
  show "\<not> header_full qt h" "\<not> data_full qt h1"
    using hq_full_iff [of qt h] t ct by (auto simp: h1_def data_full_def)
  show "hq_ent h (q_entry qf (q_cons qf h)) = Header p"
    "hq_ent h1 (q_entry qf (q_cons qf h)) = Header p"
    "hq_ent h1 (q_entry qf (ring4 (q_cons qf h + 1))) = Bytes bs"
    using f ne t by (simp_all add: h1_def)
  have q2: "q_prod qf h2 = ring4 (q_cons qf h + 2)" "q_cons qf h2 = ring4 (q_cons qf h + 2)"
    "q_prod qt h2 = ring4 (q_cons qt h + 2)" "q_cons qt h2 = q_cons qt h"
    using m f(1) t by (simp_all add: h1_def h2_def)
  have e2: "hq_ent h2 (q_entry qt (q_cons qt h)) = Header p"
    "hq_ent h2 (q_entry qt (ring4 (q_cons qt h + 1))) = Bytes bs"
    using inj t by (simp_all add: h1_def h2_def)
  show "hq_ok qf h2" "hq_contents qf h2 = []"
    using ok(1) q2 ring4_in [OF cf] by (simp_all add: hq_ok_def hq_contents_def q_empty_def)
  show "hq_ok qt h2" "hq_contents qt h2 = [(p, bs)]"
    using ok(2) q2 e2 ring4_in [OF ct] by (simp_all add: hq_ok_def hq_contents_def q_empty_def)
qed

lemma router_forward_steps:
  assumes ok: "hq_ok (f_from f) h" "hq_ok (f_to f) h" and dj: "disjoint_queues (f_from f) (f_to f)"
    and c: "hq_contents (f_from f) h = [(p, bs)]" "hq_contents (f_to f) h = []"
    and a: "f_entry f = q_entry (f_from f) (q_cons (f_from f) h)" and n: "unat (PacketSize p) = length bs"
  shows "\<exists>h1 rt' h'. router_step fuel E ohl fa (R_hdr f) (rt, s, h) = Inr (R_data f, rt, s, h1) \<and>
     router_step fuel E ohl fa (R_data f) (rt, s, h1) = Inr (R_poll, rt', s, h') \<and>
     hq_ok (f_from f) h' \<and> hq_ok (f_to f) h' \<and> hq_contents (f_from f) h' = [] \<and> hq_contents (f_to f) h' = [(p, bs)]"
proof -
  let ?qf = "f_from f" and ?qt = "f_to f"
  define h1 where "h1 = set_entry (q_entry ?qt (q_prod ?qt h)) (Header p) h"
  define h2 where "h2 = advance_producer ?qt (advance_consumer ?qf
       (set_entry (q_entry ?qt (ring4 (q_prod ?qt h + 1))) (Bytes bs) h1))"
  note mv = move_message [OF ok dj c, folded h1_def, folded h2_def]
  obtain rt' s' h' where an: "answer_sender E (f_local f) (f_next f) p (rt, s, h2) = (rt', s', h')"
    by (metis prod_cases3)
  note fr = answer_sender_frame [OF an]
  have "router_step fuel E ohl fa (R_hdr f) (rt, s, h) = Inr (R_data f, rt, s, h1)"
    using mv(1,3) a by (simp add: h1_def)
  moreover have "router_step fuel E ohl fa (R_data f) (rt, s, h1) = Inr (R_poll, rt', s, h')"
  proof -
    have "header_at (f_entry f) h1 = Inr p" "data_at (q_entry ?qf (ring4 (q_cons ?qf h1 + 1))) (PacketSize p) h1 = Inr bs"
      using mv(4,5) n a by (simp_all add: header_at_def data_at_def h1_def)
    then have "fwd_finish E f (rt, s, h1) = Inr (R_poll, answer_sender E (f_local f) (f_next f) p (rt, s, h2))"
      by (simp add: fwd_finish_def Let_def h2_def) (simp add: h1_def)
    then show ?thesis using mv(2) an fr(1) by simp
  qed
  ultimately show ?thesis using mv(6-9) queue_frame(4,5) [OF fr(2,3)] by auto
qed

text \<open>What the first step of a delivery leaves at the head of the queue.\<close>

lemma rehead:
  fixes p' :: m2m_HQe
  assumes "hq_ok q h" and "hq_contents q h = [(p, bs)]"
  defines "h' \<equiv> set_entry (q_entry q (q_cons q h)) (Header p') h"
  shows "hq_ok q h'" "hq_contents q h' = [(p', bs)]" "q_cons q h' = q_cons q h" "header_at (q_entry q (q_cons q h)) h = Inr p"
proof -
  have c: "q_cons q h \<in> {0, 2}" using assms(1) by (simp add: hq_ok_def)
  have f: "q_prod q h \<noteq> q_cons q h" "hq_ent h (q_entry q (q_cons q h)) = Header p"
    "hq_ent h (q_entry q (ring4 (q_cons q h + 1))) = Bytes bs"
    using assms(1,2) by (cases rule: hq_ok_cases; simp)+
  have "q_entry q (ring4 (q_cons q h + 1)) \<noteq> q_entry q (q_cons q h)"
    using entry_inj [OF assms(1), of "ring4 (q_cons q h + 1)" "q_cons q h"] ring4_in [OF c] by simp
  then show "hq_ok q h'" "hq_contents q h' = [(p', bs)]" "q_cons q h' = q_cons q h" "header_at (q_entry q (q_cons q h)) h = Inr p"
    using assms(1) f by (auto simp: hq_ok_def hq_contents_def q_empty_def h'_def header_at_def)
qed

lemma other_queue_entry:
  assumes "disjoint_queues q r" and "hq_ok q h" and "hq_ok r h"
  shows "hq_ok r (set_entry (q_entry q (q_cons q h)) x h)"
    "hq_contents r (set_entry (q_entry q (q_cons q h)) x h) = hq_contents r h"
proof -
  have ne: "q_entry r y \<noteq> q_entry q (q_cons q h)" if "y \<in> {0, 1, 2, 3}" for y
    using assms(1) that ring4_in(1) [of "q_cons q h"] assms(2) unfolding disjoint_queues_def hq_ok_def by metis
  have "q_cons r h \<in> {0, 2}" using assms(3) by (simp add: hq_ok_def)
  note ne = ne [OF ring4_in(1) [OF this]] ne [OF ring4_in(2) [OF this]]
  show "hq_ok r (set_entry (q_entry q (q_cons q h)) x h)"
    "hq_contents r (set_entry (q_entry q (q_cons q h)) x h) = hq_contents r h"
    using assms(3) ne by (auto simp: hq_ok_def hq_contents_def q_empty_def)
qed

text \<open>The header fields that identify a packet.\<close>

definition same_packet :: "m2m_HQe \<Rightarrow> m2m_HQe \<Rightarrow> bool" where
  "same_packet p p' \<longleftrightarrow> tag p' = tag p \<and> PacketSize p' = PacketSize p \<and> SenderID p' = SenderID p \<and>
     ReceiverID p' = ReceiverID p \<and> EntryNum p' = EntryNum p"

text \<open>A packet that its sender's own routing thread passes on keeps its latency, so it must have one.\<close>

definition has_latency :: "VND \<Rightarrow> m2m_HQe \<Rightarrow> bool" where
  "has_latency v p \<longleftrightarrow> (SenderID p = DeviceID v \<longrightarrow> TransTime p \<noteq> 0)"

lemma fwd_header_ok:
  assumes "has_latency (vnd s) p"
  shows "\<exists>p' rt' s'. fwd_header fuel p (rt, s) = Inr (p', rt', s') \<and> same_packet p p' \<and>
     ForwardID p' = DeviceID (vnd s) \<and> TransTime p' \<noteq> 0 \<and> rt' = max rt (SendTime p)"
proof (cases "SenderID p = DeviceID (vnd s)")
  case True
  then show ?thesis using assms by (auto simp: fwd_header_def Let_def same_packet_def has_latency_def)
next
  case False
  let ?p = "p\<lparr>ForwardID := DeviceID (vnd s), SendTime := max rt (SendTime p) + TransTime p\<rparr>"
  obtain res v' r' where l: "transmission_latency fuel ?p ''zigbee'' (vnd s, rands s) = Inr (res, v', r')"
    "fail_latency res = None"
    using transmission_latency_ok [of fuel ?p "vnd s" "rands s"] by blast
  moreover have "latency res \<noteq> 0" using transmission_latency_pos [OF l] .
  ultimately show ?thesis using False
    by (auto simp: fwd_header_def Let_def same_packet_def max_def not_less split: if_splits)
qed

text \<open>The whole delivery of the chosen packet, three steps of the thread.\<close>

definition to_queue :: "env \<Rightarrow> VND \<Rightarrow> cand \<Rightarrow> int \<Rightarrow> hq" where
  "to_queue E v c count = (if packet_next c = DeviceID v then local_queue E NODE_MAX_LINKS else remote_queue E count)"

lemma router_deliver_steps:
  assumes ind: "0 \<le> packet_ind c"
    and hop: "packet_next c \<noteq> DeviceID (vnd s) \<Longrightarrow>
        find_neighbor (nat (TotalDeviceNum (vnd s))) (vnd s) (packet_next c) 0 = Inr count"
    and ok: "hq_ok (local_queue E (packet_ind c)) h" "hq_ok (to_queue E (vnd s) c count) h"
    and dj: "disjoint_queues (local_queue E (packet_ind c)) (to_queue E (vnd s) c count)"
    and c: "hq_contents (local_queue E (packet_ind c)) h = [(p, bs)]" "hq_contents (to_queue E (vnd s) c count) h = []"
    and p: "EntryNum p = -1" "unat (PacketSize p) = length bs" "has_latency (vnd s) p"
  shows "\<exists>f rt1 s1 h1 p'. router_step fuel E ohl fa (R_deliver c) (rt, s, h) = Inr (R_hdr f, rt1, s1, h1) \<and>
     f_from f = local_queue E (packet_ind c) \<and> f_to f = to_queue E (vnd s) c count \<and>
     f_entry f = q_entry (f_from f) (q_cons (f_from f) h1) \<and>
     hq_ok (f_from f) h1 \<and> hq_ok (f_to f) h1 \<and> hq_contents (f_from f) h1 = [(p', bs)] \<and> hq_contents (f_to f) h1 = [] \<and>
     same_packet p p'"
proof -
  let ?q = "local_queue E (packet_ind c)" and ?t = "to_queue E (vnd s) c count"
  note rh = rehead [OF ok(1) c(1)] and ot = other_queue_entry [OF dj ok]
  let ?f = "\<lambda>b. \<lparr>f_from = ?q, f_to = ?t, f_entry = q_entry ?q (q_cons ?q h), f_local = b, f_next = packet_next c\<rparr>"
    and ?h = "\<lambda>p'. set_entry (q_entry ?q (q_cons ?q h)) (Header p') h"
  have fin: ?thesis
    if "router_step fuel E ohl fa (R_deliver c) (rt, s, h) = Inr (R_hdr (?f b), rt1, s1, ?h p')" "same_packet p p'" for b rt1 s1 p'
    by (intro exI [of _ "?f b"] exI [of _ rt1] exI [of _ s1] exI [of _ "?h p'"] exI [of _ p'])
      (use that rh(1-3) [of p'] ot c(2) in simp)
  show ?thesis
  proof (cases "packet_next c = DeviceID (vnd s)")
    case True
    let ?p = "if rt > SendTime p then p\<lparr>SendTime := rt\<rparr> else p"
    have "router_step fuel E ohl fa (R_deliver c) (rt, s, h) =
       Inr (R_hdr (?f True), max rt (SendTime p), s, ?h ?p)"
      using True ind rh(4) p(1) by (auto simp: deliver_local_def Let_def to_queue_def max_def)
    moreover have "same_packet p ?p" by (simp add: same_packet_def)
    ultimately show ?thesis by (rule fin)
  next
    case False
    obtain p' rt' s' where f: "fwd_header fuel p (rt, s) = Inr (p', rt', s')" "same_packet p p'" "TransTime p' \<noteq> 0"
      "rt' = max rt (SendTime p)" using fwd_header_ok [OF p(3)] by blast
    have "EntryNum p' = -1" using f(2) p(1) by (simp add: same_packet_def)
    have "router_step fuel E ohl fa (R_deliver c) (rt, s, h) =
       Inr (R_hdr (?f False), rt' + TransTime p', s', ?h p')"
      using False ind rh(4) f(1,3) hop \<open>EntryNum p' = -1\<close>
      by (simp add: deliver_remote_def Let_def to_queue_def)
    then show ?thesis using f(2) by (rule fin)
  qed
qed

section \<open>Properties of the routing thread\<close>

text \<open>A coordinator 1 with the end devices 2 and 3; device 2 has sent two bytes to device 3.\<close>

definition topo3 :: topo where
  "topo3 = topo0\<lparr>NODE_MAP := \<lambda>i j. if (i, j) \<in> {(1, 2), (2, 1), (1, 3), (3, 1)} then 1 else 0,
     NODE_TYPE := (\<lambda>_. [])(1 := ''ZC'', 2 := ''ZED'', 3 := ''ZED'')\<rparr>"

definition env3 :: env where "env3 = env2\<lparr>e_topo := topo3\<rparr>"

definition vnd_zc3 :: VND where
  "vnd_zc3 = vnd0\<lparr>DeviceID := 1, DeviceType := [CHR ''Z'', CHR ''C'', NUL], TotalDeviceNum := 3,
     Neighbors := (\<lambda>_. 0)(0 := 2, 1 := 3), NeighborNum := 2\<rparr>"

definition dev3 :: dev where "dev3 = dev2\<lparr>vnd := vnd_zc3\<rparr>"

definition hqe3 :: m2m_HQe where
  "hqe3 = \<lparr>tag = 0, PacketSize = 2, SenderID = 2, ReceiverID = 3, ForwardID = 2, EntryNum = -1,
     SendTime = 5, TransTime = 7\<rparr>"

definition shm3 :: shm where
  "shm3 = shm0\<lparr>hq_meta := (\<lambda>_. \<lparr>producer = 0, consumer = 0\<rparr>)(3000 := \<lparr>producer = 2, consumer = 0\<rparr>),
     hq_ent := (\<lambda>_. Bytes [])(4000 := Header hqe3, 4128 := Bytes [7, 8])\<rparr>"

definition cand3 :: cand where
  "cand3 = \<lparr>packet_mintime = 12, packet_sendtime = 5, packet_from = 2, packet_next = 3, packet_ind = 0\<rparr>"

lemma vnd_zc3_simps [simp]:
  "vnd dev3 = vnd_zc3" "is_ZC vnd_zc3" "\<not> is_ZR vnd_zc3" "\<not> is_ZED vnd_zc3" "DeviceID vnd_zc3 = 1"
  "TotalDeviceNum vnd_zc3 = 3" "NeighborNum vnd_zc3 = 2" "Neighbors vnd_zc3 0 = 2" "Neighbors vnd_zc3 1 = 3"
  "search_num vnd_zc3 = 3"
  by (simp_all add: dev3_def vnd_zc3_def cstr_def NUL_def search_num_def)

lemma queue3_simps [simp]:
  "q_meta (local_queue env3 i) = 3000 + i" "q_entry (local_queue env3 i) e = 4000 + 1000 * i + 128 * uint e"
  "q_meta (remote_queue env3 i) = 20000 + i" "q_entry (remote_queue env3 i) e = 30000 + 1000 * i + 128 * uint e"
  "e_topo env3 = topo3" "m2m_localtime_start (e_dbp env3) i = 8 * i"
  by (simp_all add: local_queue_def remote_queue_def env3_def env2_def)

lemma topo3_route: "shortest (NODE_MAP topo3) 3 1 3 1"
proof -
  have "walk (NODE_MAP topo3) 3 1 3 1"
    using walk_edge [of 1 3 3 "NODE_MAP topo3"] by (simp add: topo3_def)
  moreover have "1 \<le> c" if "walk (NODE_MAP topo3) 3 1 3 c" for c
    using that by (cases rule: walk.cases)
      (auto simp: topo3_def split: if_splits dest: shortest_nonneg [rotated])
  ultimately show ?thesis by (simp add: shortest_def)
qed

lemma net3: "net_ok 9 env3 vnd_zc3"
  by (simp add: net_ok_def topo3_def route_const_defs)

lemma shm3_counters:
  "q_cons (local_queue env3 i) shm3 = 0" "q_prod (local_queue env3 i) shm3 = (if i = 0 then 2 else 0)"
  by (simp_all add: q_prod_def q_cons_def shm3_def)

lemma shm3_queues:
  "peek_header (local_queue env3 0) shm3 = Inr hqe3" "q_empty (local_queue env3 i) shm3 \<longleftrightarrow> i \<noteq> 0"
  by (simp_all add: peek_header_def header_at_def q_empty_def shm3_counters) (simp add: shm3_def)

lemma parts3: "parts vnd_zc3 = {0, 1, 2}"
  by auto

lemma queue_no3 [simp]: "queue_no vnd_zc3 0 = 0" "queue_no vnd_zc3 1 = 1" "queue_no vnd_zc3 2 = 9"
  by (simp_all add: queue_no_def NODE_MAX_LINKS_def)

lemma ready3: "queues_ready env3 vnd_zc3 shm3 (parts vnd_zc3)"
  unfolding queues_ready_def parts3
  using topo3_route by (auto simp: shm3_queues routable_def hqe3_def route_const_defs intro!: exI [of _ 1])

text \<open>
  Property C13. The routing thread takes packets in time order: when some incoming queue holds a
  packet, the search returns and describes a packet at the head of one of the queues, no packet in any
  queue arrives earlier (or arrives at the same time and was sent earlier), and the next hop is the
  device itself for its own packets and otherwise a neighbour one link closer to the receiver.
\<close>

theorem router_picks_earliest:
  assumes "net_ok fuel E (vnd s)" and "queues_ready E (vnd s) h {0..search_num (vnd s) - 1}"
    and "i0 \<in> {0..search_num (vnd s) - 1}" "\<not> q_empty (local_queue E (queue_no (vnd s) i0)) h"
    and "peek_header (local_queue E (queue_no (vnd s) i0)) h = Inr p0" "SendTime p0 + TransTime p0 < MAX_TIME"
  shows "\<exists>c g p i. find_earliest fuel E h s = Inr (c, s\<lparr>routes := g\<rparr>) \<and>
     i \<in> {0..search_num (vnd s) - 1} \<and> packet_ind c = queue_no (vnd s) i \<and>
     \<not> q_empty (local_queue E (packet_ind c)) h \<and> peek_header (local_queue E (packet_ind c)) h = Inr p \<and>
     packet_mintime c = SendTime p + TransTime p \<and> packet_from c = ForwardID p \<and>
     good_hop E (vnd s) (ReceiverID p) (packet_next c) \<and>
     (\<forall>j \<in> {0..search_num (vnd s) - 1}. \<forall>p'. \<not> q_empty (local_queue E (queue_no (vnd s) j)) h \<longrightarrow>
        peek_header (local_queue E (queue_no (vnd s) j)) h = Inr p' \<longrightarrow>
        SendTime p + TransTime p < SendTime p' + TransTime p' \<or>
        SendTime p + TransTime p = SendTime p' + TransTime p' \<and> SendTime p \<le> SendTime p')"
proof -
  have n: "0 \<le> search_num (vnd s)" using assms(3) by simp
  obtain c g where f: "find_earliest fuel E h s = Inr (c, s\<lparr>routes := g\<rparr>)"
    "best E (vnd s) h {0..search_num (vnd s) - 1} c"
    using find_earliest_best [OF assms(1,2) n] by blast
  have le: "key_le (ckey c) (pkey p')" if "j \<in> {0..search_num (vnd s) - 1}"
    "\<not> q_empty (local_queue E (queue_no (vnd s) j)) h" "peek_header (local_queue E (queue_no (vnd s) j)) h = Inr p'" for j p'
    using f(2) that unfolding best_def by blast
  have "c \<noteq> cand0" using le [OF assms(3-5)] assms(6) by (auto simp: key_le_def ckey_def pkey_def cand0_def)
  then obtain p i where pi: "i \<in> {0..search_num (vnd s) - 1}" "packet_ind c = queue_no (vnd s) i" "cand_of E (vnd s) h p c"
    using f(2) unfolding best_def by blast
  have k: "ckey c = pkey p" using pi(3) by (simp add: cand_of_def)
  show ?thesis
    using f(1) pi le unfolding k
    by (intro exI [of _ c] exI [of _ g] exI [of _ p] exI [of _ i]) (auto simp: cand_of_def key_le_def pkey_def ckey_def)
qed

theorem router_picks_earliest_witness:
  "\<exists>c g p i. find_earliest 9 env3 shm3 dev3 = Inr (c, dev3\<lparr>routes := g\<rparr>) \<and>
     i \<in> {0..search_num (vnd dev3) - 1} \<and> packet_ind c = queue_no (vnd dev3) i \<and>
     \<not> q_empty (local_queue env3 (packet_ind c)) shm3 \<and> peek_header (local_queue env3 (packet_ind c)) shm3 = Inr p \<and>
     packet_mintime c = SendTime p + TransTime p"
  using router_picks_earliest [of 9 env3 dev3 shm3 0 hqe3] net3 ready3 shm3_queues
  by (auto simp: hqe3_def MAX_TIME_def)

text \<open>
  Property C14. Forwarding is exact: when the next queue has room, the delivery of a chosen packet takes
  three steps, after which the queue it came from is empty and the next queue (the device's own
  receive queue, or the queue of the neighbour that is the next hop) holds exactly the same bytes under
  a header with the same tag, size, sender and receiver.
\<close>

theorem router_forwards:
  assumes ind: "0 \<le> packet_ind c"
    and hop: "packet_next c \<noteq> DeviceID (vnd s) \<Longrightarrow> 0 \<le> count \<and> count < NODE_MAX_LINKS \<and>
        count < TotalDeviceNum (vnd s) \<and> Neighbors (vnd s) count = packet_next c \<and>
        (\<forall>j. 0 \<le> j \<longrightarrow> j < count \<longrightarrow> Neighbors (vnd s) j \<noteq> packet_next c)"
    and q: "qf = local_queue E (packet_ind c)" "qt = to_queue E (vnd s) c count"
    and ok: "hq_ok qf h" "hq_ok qt h" "disjoint_queues qf qt"
    and m: "hq_contents qf h = [(p, bs)]" "hq_contents qt h = []"
    and p: "EntryNum p = -1" "unat (PacketSize p) = length bs" "has_latency (vnd s) p"
  shows "\<exists>f rt1 s1 h1 h2 rt' h' p'. router_step fuel E ohl fa (R_deliver c) (rt, s, h) = Inr (R_hdr f, rt1, s1, h1) \<and>
     router_step fuel E ohl fa (R_hdr f) (rt1, s1, h1) = Inr (R_data f, rt1, s1, h2) \<and>
     router_step fuel E ohl fa (R_data f) (rt1, s1, h2) = Inr (R_poll, rt', s1, h') \<and>
     hq_contents qf h' = [] \<and> hq_contents qt h' = [(p', bs)] \<and> same_packet p p' \<and> hq_ok qf h' \<and> hq_ok qt h'"
proof -
  have fn: "find_neighbor (nat (TotalDeviceNum (vnd s))) (vnd s) (packet_next c) 0 = Inr count"
    if "packet_next c \<noteq> DeviceID (vnd s)"
    using hop [OF that] find_neighbor_found [of "vnd s" count "packet_next c" 0 "nat (TotalDeviceNum (vnd s))"]
    by (auto simp: le_less)
  obtain f rt1 s1 h1 p' where d: "router_step fuel E ohl fa (R_deliver c) (rt, s, h) = Inr (R_hdr f, rt1, s1, h1)"
     "f_from f = qf" "f_to f = qt" "f_entry f = q_entry (f_from f) (q_cons (f_from f) h1)"
     "hq_ok (f_from f) h1" "hq_ok (f_to f) h1" "hq_contents (f_from f) h1 = [(p', bs)]" "hq_contents (f_to f) h1 = []"
     "same_packet p p'"
    using router_deliver_steps [OF ind fn ok [unfolded q] m [unfolded q] p, of fuel ohl fa rt] unfolding q by auto
  have sz: "unat (PacketSize p') = length bs" using d(9) p(2) by (simp add: same_packet_def)
  have dj: "disjoint_queues (f_from f) (f_to f)" using ok(3) d(2,3) by simp
  from router_forward_steps [OF d(5,6) dj d(7,8,4) sz, of fuel E ohl fa rt1 s1]
  show ?thesis using d(1,9) unfolding d(2,3) by blast
qed

theorem router_forwards_witness:
  "\<exists>f rt1 s1 h1 h2 rt' h' p'. router_step 9 env3 0 0 (R_deliver cand3) (0, dev3, shm3) = Inr (R_hdr f, rt1, s1, h1) \<and>
     router_step 9 env3 0 0 (R_hdr f) (rt1, s1, h1) = Inr (R_data f, rt1, s1, h2) \<and>
     router_step 9 env3 0 0 (R_data f) (rt1, s1, h2) = Inr (R_poll, rt', s1, h') \<and>
     hq_contents (local_queue env3 0) h' = [] \<and> hq_contents (remote_queue env3 1) h' = [(p', [7, 8])] \<and>
     same_packet hqe3 p' \<and> hq_ok (local_queue env3 0) h' \<and> hq_ok (remote_queue env3 1) h'"
proof (rule router_forwards [where c = cand3 and count = 1 and p = hqe3])
  show "hq_ok (local_queue env3 0) shm3" "hq_contents (local_queue env3 0) shm3 = [(hqe3, [7, 8])]"
    by (simp_all add: hq_ok_def hq_contents_def q_empty_def shm3_counters inj_on_def) (simp_all add: shm3_def)
  show "hq_ok (remote_queue env3 1) shm3" "hq_contents (remote_queue env3 1) shm3 = []"
    by (simp_all add: hq_ok_def hq_contents_def q_empty_def q_prod_def q_cons_def shm3_def inj_on_def)
  show "disjoint_queues (local_queue env3 0) (remote_queue env3 1)" by (simp add: disjoint_queues_def)
  show "packet_next cand3 \<noteq> DeviceID (vnd dev3) \<Longrightarrow> 0 \<le> (1 :: int) \<and> (1 :: int) < NODE_MAX_LINKS \<and>
        1 < TotalDeviceNum (vnd dev3) \<and> Neighbors (vnd dev3) 1 = packet_next cand3 \<and>
        (\<forall>j. 0 \<le> j \<longrightarrow> j < 1 \<longrightarrow> Neighbors (vnd dev3) j \<noteq> packet_next cand3)"
    by (auto simp: NODE_MAX_LINKS_def cand3_def dest: order_antisym)
qed (auto simp: cand3_def hqe3_def to_queue_def has_latency_def)

text \<open>
  The wait before a delivery counts correctly: over any sequence of memories the waiting loop
  returns, its candidate never becomes later, its counter is the number of participants that are flagged,
  and every flagged participant is another device than the one the packet came from and has been seen
  with a clock past the arrival time less one hop.
\<close>

theorem router_wait_counts:
  assumes "NeighborNum (vnd s) \<le> NODE_MAX_LINKS" "0 \<le> search_num (vnd s)" "net_ok fuel E (vnd s)"
    and "\<And>h. h \<in> set hs \<Longrightarrow> queues_ready E (vnd s) h {0..search_num (vnd s) - 1}"
  shows "\<exists>dl n c' g. deadline_passes fuel E ohl hs ((\<lambda>_. False, 0), c, s) = Inr ((dl, n), c', s\<lparr>routes := g\<rparr>) \<and>
     (packet_mintime c' < packet_mintime c \<or>
      packet_mintime c' = packet_mintime c \<and> packet_sendtime c' \<le> packet_sendtime c) \<and>
     n = int (card {i \<in> {0..search_num (vnd s) - 1}. dl (queue_no (vnd s) i)}) \<and>
     (\<forall>i \<in> {0..search_num (vnd s) - 1}. dl (queue_no (vnd s) i) \<longrightarrow> packet_from c' \<noteq> clock_of (vnd s) i \<and>
        (\<exists>h \<in> set hs. passed ohl c' (localtime h (m2m_localtime_start (e_dbp E) (clock_of (vnd s) i)))))"
proof -
  have "dl_inv E (vnd s) ohl {} (\<lambda>_. False, 0) c" "key_le (ckey c) (ckey c)" by (simp_all add: dl_inv_def key_le_def)
  from deadline_passes_inv [where hs = hs, OF assms(1-3) _ this, OF assms(4)] obtain dl n c' g where
    d: "deadline_passes fuel E ohl hs ((\<lambda>_. False, 0), c, s) = Inr ((dl, n), c', s\<lparr>routes := g\<rparr>)"
      "dl_inv E (vnd s) ohl (set hs) (dl, n) c'" "key_le (ckey c') (ckey c)" by auto
  show ?thesis
    using d by (intro exI [of _ dl] exI [of _ n] exI [of _ c'] exI [of _ g])
      (auto simp: dl_inv_def flagged_def clock_ok_def key_le_def ckey_def)
qed

theorem router_wait_counts_witness:
  "\<exists>dl n c' g. deadline_passes 9 env3 4 [shm3, shm3\<lparr>localtime := \<lambda>_. 50\<rparr>] ((\<lambda>_. False, 0), cand3, dev3) =
       Inr ((dl, n), c', dev3\<lparr>routes := g\<rparr>) \<and>
     n = int (card {i \<in> {0..search_num (vnd dev3) - 1}. dl (queue_no (vnd dev3) i)})"
proof -
  have "queues_ready env3 vnd_zc3 (shm3\<lparr>localtime := t\<rparr>) (parts vnd_zc3)" for t
    using ready3 by (simp add: queues_ready_def hq_op_defs)
  then have r: "\<And>h. h \<in> set [shm3, shm3\<lparr>localtime := \<lambda>_. 50\<rparr>] \<Longrightarrow>
      queues_ready env3 (vnd dev3) h {0..search_num (vnd dev3) - 1}"
    using ready3 by auto
  from router_wait_counts [where hs = "[shm3, shm3\<lparr>localtime := \<lambda>_. 50\<rparr>]" and s = dev3 and fuel = 9 and E = env3
      and ohl = 4 and c = cand3, OF _ _ _ r] net3
  show ?thesis by (simp add: NODE_MAX_LINKS_def del: deadline_passes.simps) blast
qed

text \<open>
  Property C15. The wait may miss its end: the loop leaves only when the counter equals the number of
  participants less two. When all the clocks but the source's have passed in the same pass, the counter
  jumps over that value, and from then on every pass over a memory without an earlier packet leaves
  the thread in the same waiting state, whatever the clocks show.
\<close>

theorem router_wait_overshoot:
  assumes nb: "NeighborNum (vnd s) \<le> NODE_MAX_LINKS" "2 < search_num (vnd s)" and "\<not> is_ZR (vnd s)"
    and "quiet E (vnd s) h c"
    and from1: "card {i \<in> {0..search_num (vnd s) - 1}. packet_from c \<noteq> clock_of (vnd s) i} = nat (search_num (vnd s) - 1)"
    and passed: "\<And>i. i \<in> {0..search_num (vnd s) - 1} \<Longrightarrow> packet_from c \<noteq> clock_of (vnd s) i \<Longrightarrow>
       passed ohl c (localtime h (m2m_localtime_start (e_dbp E) (clock_of (vnd s) i)))"
  shows "\<exists>dl. router_step fuel E ohl fa (R_deadline (\<lambda>_. False, 0) c) (rt, s, h) =
       Inr (R_deadline (dl, search_num (vnd s) - 1) c, rt, s, h) \<and>
     (\<forall>h'. quiet E (vnd s) h' c \<longrightarrow>
        router_step fuel E ohl fa (R_deadline (dl, search_num (vnd s) - 1) c) (rt, s, h') =
          Inr (R_deadline (dl, search_num (vnd s) - 1) c, rt, s, h'))"
proof -
  have n: "0 \<le> search_num (vnd s)" using nb(2) by simp
  have "clock_ok E (vnd s) ohl c h i \<longleftrightarrow> packet_from c \<noteq> clock_of (vnd s) i" if "i \<in> parts (vnd s)" for i
    using passed [OF that] by (auto simp: clock_ok_def)
  from deadline_fold_all [OF nb(1) assms(4) n this, of fuel] obtain dl where
    dl: "fold_res (deadline_one fuel E ohl h) [0..search_num (vnd s) - 1] ((\<lambda>_. False, 0), c, s) =
       Inr ((dl, search_num (vnd s) - 1), c, s)"
     "flagged (vnd s) dl = {i \<in> parts (vnd s). packet_from c \<noteq> clock_of (vnd s) i}"
    using from1 nb(2) by auto
  have "deadline_pass fuel E ohl ((\<lambda>_. False, 0), c, s) h = Inr ((dl, search_num (vnd s) - 1), c, s, h)"
    using dl(1) assms(3) by (simp add: deadline_pass_def)
  moreover have "deadline_pass fuel E ohl ((dl, search_num (vnd s) - 1), c, s) h' = Inr ((dl, search_num (vnd s) - 1), c, s, h')"
    if "quiet E (vnd s) h' c" for h'
    using deadline_fold_stuck [OF that n dl(2), of fuel ohl "search_num (vnd s) - 1"] assms(3) by (simp add: deadline_pass_def)
  ultimately show ?thesis by (intro exI [of _ dl]) simp
qed

theorem router_wait_overshoot_witness:
  "\<exists>dl. router_step 9 env3 4 0 (R_deadline (\<lambda>_. False, 0) cand3) (0, dev3, shm3\<lparr>localtime := \<lambda>_. 50\<rparr>) =
       Inr (R_deadline (dl, 2) cand3, 0, dev3, shm3\<lparr>localtime := \<lambda>_. 50\<rparr>)"
proof -
  let ?h = "shm3\<lparr>localtime := \<lambda>_. 50\<rparr>"
  have q: "quiet env3 (vnd dev3) ?h cand3"
    using shm3_queues by (auto simp: quiet_def hq_op_defs parts3 earlier_def cand3_def hqe3_def)
  have "{i \<in> {0..search_num (vnd dev3) - 1}. packet_from cand3 \<noteq> clock_of (vnd dev3) i} = {1, 2}"
    using parts3 by (auto simp: clock_of_def cand3_def)
  then have "card {i \<in> {0..search_num (vnd dev3) - 1}. packet_from cand3 \<noteq> clock_of (vnd dev3) i} =
      nat (search_num (vnd dev3) - 1)" by simp
  from router_wait_overshoot [OF _ _ _ q this, of 4 9 0 0] show ?thesis
    by (auto simp: NODE_MAX_LINKS_def passed_def cand3_def simp del: router_step.simps)
qed

text \<open>
  Starting the routing thread splits the neighbours: the two lists are the end devices and
  the other devices among the neighbours, in order, and \<open>time_sync\<close> follows the end devices when there
  is one and the routers otherwise.
\<close>

theorem route_processor_init_splits:
  assumes "\<not> is_ZED v" and "0 \<le> NeighborNum v" "NeighborNum v \<le> NODE_MAX_LINKS"
    and "\<And>i. 0 \<le> i \<Longrightarrow> i < NeighborNum v \<Longrightarrow> 0 \<le> Neighbors v i \<and> Neighbors v i < MAX_NODE_NUM"
    and "nbs = map (Neighbors v) [0..NeighborNum v - 1]"
  shows "\<exists>rp'. m2m_route_processor_init T v rp = Inr (M2M_SUCCESS, rp') \<and>
     map (neighbor_end_list rp') [0..end_count rp' - 1] = filter (\<lambda>nb. NODE_TYPE T nb = ''ZED'') nbs \<and>
     map (neighbor_router_list rp') [0..router_count rp' - 1] = filter (\<lambda>nb. NODE_TYPE T nb \<noteq> ''ZED'') nbs \<and>
     sync_nodes rp' = (if \<exists>nb \<in> set nbs. NODE_TYPE T nb = ''ZED'' then filter (\<lambda>nb. NODE_TYPE T nb = ''ZED'') nbs else nbs)"
proof -
  obtain rp' where r: "m2m_route_processor_init T v rp = Inr (M2M_SUCCESS, rp')" "rp_inv T v (NeighborNum v - 1) rp'"
    using route_processor_lists [OF assms(1-4)] by blast
  have "filter (\<lambda>nb. NODE_TYPE T nb \<noteq> ''ZED'') nbs = nbs" if "\<not> (\<exists>nb \<in> set nbs. NODE_TYPE T nb = ''ZED'')"
    using that by (intro filter_True) auto
  then show ?thesis using r assms(5) by (auto simp: rp_inv_def Let_def sync_nodes_def)
qed

theorem route_processor_init_splits_witness:
  "\<exists>rp'. m2m_route_processor_init topo3 vnd_zc3 rp2 = Inr (M2M_SUCCESS, rp') \<and> sync_nodes rp' = [2, 3]"
proof -
  have u: "[0..1] = [0, 1 :: int]" by code_simp
  have "0 \<le> Neighbors vnd_zc3 i \<and> Neighbors vnd_zc3 i < MAX_NODE_NUM" for i
    by (simp add: vnd_zc3_def MAX_NODE_NUM_def vnd0_def)
  then show ?thesis
    using route_processor_init_splits [of vnd_zc3 "[2, 3]" topo3 rp2]
    by (auto simp: NODE_MAX_LINKS_def u topo3_def)
qed
end
