(* ===== verification/M2M_Device.thy ===== *)
theory M2M_Device
  imports M2M_Router
begin

text \<open>
  The virtual network device that the guest program writes to (\<^verbatim>\<open>hw/virtual-network-device.c\<close>). A write
  to one of its four registers passes the guest address of a request; the device starts the network,
  sends, receives or stops, and stores the return value in the request. This is where the components
  of the other theories are put together, in the order of the code.
\<close>

section \<open>State\<close>

text \<open>The answers of the operating system and the files a process reads.\<close>

record os =
  o_conf :: "string option"               \<comment> \<open>\<^verbatim>\<open>topology.conf\<close>\<close>
  o_info :: string                        \<comment> \<open>the line buffer before the first line\<close>
  o_shmget :: "int \<Rightarrow> bool \<Rightarrow> int"
  o_shmat :: "int \<Rightarrow> int"
  o_shmdt :: "int \<Rightarrow> int"
  o_shmctl :: "int \<Rightarrow> int"
  o_affinity :: bool
  o_log :: bool

text \<open>What the other processes do while this one waits for the start of the network.\<close>

record start_wait =
  w_reads :: "nat \<Rightarrow> int \<Rightarrow> u64"
  w_probes :: "nat \<Rightarrow> u64"
  w_after :: "shm \<Rightarrow> shm"

record proc =
  p_env :: env
  p_dev :: dev
  p_shmid :: int
  p_addr :: int
  p_trigger :: int

section \<open>The handlers\<close>

text \<open>A call that is made only when the previous one returned \<open>M2M_SUCCESS\<close>.\<close>

definition and_then :: "(M2M_ERR_T \<times> 's) res \<Rightarrow> ('s \<Rightarrow> (M2M_ERR_T \<times> 's) res) \<Rightarrow> (M2M_ERR_T \<times> 's) res" where
  "and_then m f = bind_res m (\<lambda>(rc, st). if rc = M2M_SUCCESS then f st else Inr (rc, st))"

definition call_topology :: "os \<Rightarrow> int \<Rightarrow> proc \<times> shm \<Rightarrow> (M2M_ERR_T \<times> proc \<times> shm) res" where
  "call_topology S dev_id st = (let (P, h) = st in
     bind_res (m2m_topology_init (o_conf S) (o_info S) dev_id (e_topo (p_env P), vnd (p_dev P))) (\<lambda>(rc, T, v).
       Inr (rc, P\<lparr>p_env := (p_env P)\<lparr>e_topo := T\<rparr>, p_dev := (p_dev P)\<lparr>vnd := v\<rparr>\<rparr>, h)))"

definition call_mm :: "os \<Rightarrow> proc \<times> shm \<Rightarrow> (M2M_ERR_T \<times> proc \<times> shm) res" where
  "call_mm S st = (let (P, h) = st in
     bind_res (m2m_mm_init (o_shmget S) (o_shmat S) (e_topo (p_env P)) (vnd (p_dev P))) (\<lambda>(rc, id, addr).
       Inr (rc, P\<lparr>p_shmid := id, p_addr := addr\<rparr>, h)))"

definition call_dbp :: "proc \<times> shm \<Rightarrow> (M2M_ERR_T \<times> proc \<times> shm) res" where
  "call_dbp st = (let (P, h) = st in
     bind_res (m2m_dbp_init (p_addr P) (e_topo (p_env P), vnd (p_dev P), e_dbp (p_env P))) (\<lambda>(rc, T, v, d).
       Inr (rc, P\<lparr>p_env := (p_env P)\<lparr>e_topo := T, e_dbp := d\<rparr>, p_dev := (p_dev P)\<lparr>vnd := v\<rparr>\<rparr>, h)))"

definition call_rp :: "proc \<times> shm \<Rightarrow> (M2M_ERR_T \<times> proc \<times> shm) res" where
  "call_rp st = (let (P, h) = st in
     bind_res (m2m_route_processor_init (e_topo (p_env P)) (vnd (p_dev P)) (e_rp (p_env P))) (\<lambda>(rc, rp).
       Inr (rc, P\<lparr>p_env := (p_env P)\<lparr>e_rp := rp\<rparr>\<rparr>, h)))"

definition call_affinity :: "os \<Rightarrow> proc \<times> shm \<Rightarrow> (M2M_ERR_T \<times> proc \<times> shm) res" where
  "call_affinity S st = bind_res (set_core_affinity (o_affinity S) (vnd (p_dev (fst st)))) (\<lambda>(rc, core). Inr (rc, st))"

definition call_send_recv :: "os \<Rightarrow> proc \<times> shm \<Rightarrow> (M2M_ERR_T \<times> proc \<times> shm) res" where
  "call_send_recv S st = (let (P, h) = st in
     bind_res (m2m_send_recv_init (o_log S) (p_env P) (p_dev P, h)) (\<lambda>(rc, s, h). Inr (rc, P\<lparr>p_dev := s\<rparr>, h)))"

definition call_time :: "nat \<Rightarrow> start_wait \<Rightarrow> proc \<times> shm \<Rightarrow> (M2M_ERR_T \<times> proc \<times> shm) res" where
  "call_time fuel W st = (let (P, h) = st; v = vnd (p_dev P); d = e_dbp (p_env P); h = time_init_begin v d h in
     bind_res (m2m_time_init fuel (w_reads W) (w_probes W) (w_after W h) v d (p_trigger P)) (\<lambda>(rc, h, trigger).
       Inr (rc, P\<lparr>p_trigger := trigger\<rparr>, h)))"

text \<open>\<open>NETWORK_INIT\<close>: the seven initialisations in order; the return value is 1 whatever they returned.\<close>

definition network_init :: "nat \<Rightarrow> os \<Rightarrow> start_wait \<Rightarrow> int \<Rightarrow> proc \<times> shm \<Rightarrow> (int \<times> proc \<times> shm) res" where
  "network_init fuel S W dev_id st = (let (P, h) = st;
       P = P\<lparr>p_dev := (p_dev P)\<lparr>vnd := (vnd (p_dev P))\<lparr>DeviceID := dev_id\<rparr>\<rparr>\<rparr> in
     bind_res (and_then (and_then (and_then (and_then (and_then (and_then
         (call_topology S dev_id (P, h)) (call_mm S)) call_dbp) call_rp) (call_affinity S)) (call_send_recv S))
         (call_time fuel W)) (\<lambda>(rc, st). Inr (1, st)))"

text \<open>\<open>NETWORK_EXIT\<close>: the five exits in order.\<close>

definition exit_rp :: "proc \<times> shm \<Rightarrow> (M2M_ERR_T \<times> proc \<times> shm) res" where
  "exit_rp st = (let (P, h) = st; (rc, rp) = m2m_route_processor_exit (e_rp (p_env P)) in
     Inr (rc, P\<lparr>p_env := (p_env P)\<lparr>e_rp := rp\<rparr>\<rparr>, h))"

definition exit_time :: "proc \<times> shm \<Rightarrow> (M2M_ERR_T \<times> proc \<times> shm) res" where
  "exit_time st = (let (P, h) = st; (rc, h, trigger) = m2m_time_exit (vnd (p_dev P)) (e_dbp (p_env P)) h in
     Inr (rc, P\<lparr>p_trigger := trigger\<rparr>, h))"

definition exit_mm :: "os \<Rightarrow> proc \<times> shm \<Rightarrow> (M2M_ERR_T \<times> proc \<times> shm) res" where
  "exit_mm S st = (let (P, h) = st in
     bind_res (m2m_mm_exit (o_shmdt S) (o_shmctl S) (p_shmid P) (p_addr P) (vnd (p_dev P))) (\<lambda>rc. Inr (rc, st)))"

definition exit_dbp :: "proc \<times> shm \<Rightarrow> (M2M_ERR_T \<times> proc \<times> shm) res" where
  "exit_dbp st = (let (P, h) = st; (rc, T, v) = m2m_dbp_exit (e_topo (p_env P), vnd (p_dev P)) in
     Inr (rc, P\<lparr>p_env := (p_env P)\<lparr>e_topo := T\<rparr>, p_dev := (p_dev P)\<lparr>vnd := v\<rparr>\<rparr>, h))"

definition network_exit :: "os \<Rightarrow> proc \<times> shm \<Rightarrow> (int \<times> proc \<times> shm) res" where
  "network_exit S st =
     bind_res (and_then (and_then (and_then (and_then (exit_rp st) exit_time) (exit_mm S)) exit_dbp)
       (\<lambda>st. Inr (m2m_send_recv_exit, st))) (\<lambda>(rc, st). Inr (1, st))"

section \<open>The registers\<close>

text \<open>
  Guest memory as the device sees it: the request records and the data buffers, at the host addresses
  that \<open>v2p\<close> gives for guest addresses.
\<close>

datatype guest_obj =
    Net_init int int              \<comment> \<open>\<open>DeviceID\<close>, \<open>rv\<close>\<close>
  | Net_send int u32 u32 int      \<comment> \<open>\<open>ReceiverID\<close>, \<open>DataAddress\<close>, \<open>DataSize\<close>, \<open>rv\<close>\<close>
  | Net_recv int u32 int          \<comment> \<open>\<open>SenderID\<close>, \<open>DataAddress\<close>, \<open>rv\<close>\<close>
  | Net_exit int int              \<comment> \<open>\<open>DeviceID\<close>, \<open>rv\<close>\<close>

record guest =
  g_obj :: "u32 \<Rightarrow> guest_obj"
  g_data :: "u32 \<Rightarrow> u8 list"

definition set_obj :: "u32 \<Rightarrow> guest_obj \<Rightarrow> guest \<Rightarrow> guest" where
  "set_obj a x G = G\<lparr>g_obj := (g_obj G)(a := x)\<rparr>"

definition NET_DIST :: u32 where "NET_DIST = 0x10"
definition ZIGBEE :: u32 where "ZIGBEE = 0"
definition NETWORK_INIT :: u32 where "NETWORK_INIT = 0"
definition NETWORK_SEND :: u32 where "NETWORK_SEND = 4"
definition NETWORK_RECV :: u32 where "NETWORK_RECV = 8"
definition NETWORK_EXIT :: u32 where "NETWORK_EXIT = 0xC"

lemmas register_defs = NET_DIST_def ZIGBEE_def NETWORK_INIT_def NETWORK_SEND_def NETWORK_RECV_def NETWORK_EXIT_def

definition handle_send ::
  "nat \<Rightarrow> (nat \<Rightarrow> shm \<Rightarrow> shm) \<Rightarrow> (u32 \<Rightarrow> u32) \<Rightarrow> u32 \<Rightarrow> proc \<times> shm \<times> guest \<Rightarrow> (proc \<times> shm \<times> guest) res" where
  "handle_send fuel others v2p value st = (let (P, h, G) = st in
     case g_obj G (v2p value) of
       Net_send r a n rv \<Rightarrow>
         bind_res (m2m_send fuel (p_env P) others (g_data G (v2p a)) (sint n) r 0 (p_dev P, h)) (\<lambda>(rc, s, h).
           Inr (P\<lparr>p_dev := s\<rparr>, h, set_obj (v2p value) (Net_send r a n (if rc = M2M_TRANS_SUCCESS then 1 else 0)) G))
     | _ \<Rightarrow> Inl Undefined)"

definition handle_recv ::
  "nat \<Rightarrow> (nat \<Rightarrow> shm \<Rightarrow> shm) \<Rightarrow> (u32 \<Rightarrow> u32) \<Rightarrow> u32 \<Rightarrow> proc \<times> shm \<times> guest \<Rightarrow> (proc \<times> shm \<times> guest) res" where
  "handle_recv fuel others v2p value st = (let (P, h, G) = st in
     case g_obj G (v2p value) of
       Net_recv sd a rv \<Rightarrow>
         bind_res (m2m_recv fuel (p_env P) others (g_data G (v2p a)) (- 1) (p_dev P, h)) (\<lambda>(rc, bs, s, h).
           Inr (P\<lparr>p_dev := s\<rparr>, h, set_obj (v2p value) (Net_recv sd a 1)
             (G\<lparr>g_data := (g_data G)(v2p a := bs @ drop (length bs) (g_data G (v2p a)))\<rparr>)))
     | _ \<Rightarrow> Inl Undefined)"

definition special_write ::
  "nat \<Rightarrow> os \<Rightarrow> start_wait \<Rightarrow> (nat \<Rightarrow> shm \<Rightarrow> shm) \<Rightarrow> (u32 \<Rightarrow> u32) \<Rightarrow> u32 \<Rightarrow> u32 \<Rightarrow> proc \<times> shm \<times> guest \<Rightarrow>
   (proc \<times> shm \<times> guest) res" where
  "special_write fuel S W others v2p addr value st = (let (P, h, G) = st in
     if addr div NET_DIST = ZIGBEE then
       if addr mod NET_DIST = NETWORK_INIT then
         (case g_obj G (v2p value) of
            Net_init i rv \<Rightarrow> bind_res (network_init fuel S W i (P, h)) (\<lambda>(rv, P, h).
              Inr (P, h, set_obj (v2p value) (Net_init i rv) G))
          | _ \<Rightarrow> Inl Undefined)
       else if addr mod NET_DIST = NETWORK_SEND then handle_send fuel others v2p value st
       else if addr mod NET_DIST = NETWORK_RECV then handle_recv fuel others v2p value st
       else if addr mod NET_DIST = NETWORK_EXIT then
         (case g_obj G (v2p value) of
            Net_exit i rv \<Rightarrow> bind_res (network_exit S (P, h)) (\<lambda>(rv, P, h).
              Inr (P, h, set_obj (v2p value) (Net_exit i rv) G))
          | _ \<Rightarrow> Inl Undefined)
       else Inr st
     else Inr st)"

section \<open>Starting a device\<close>

lemma and_then_simps [simp]:
  "and_then (Inr (M2M_SUCCESS, st)) f = f st" "and_then (Inl e) f = Inl e"
  by (simp_all add: and_then_def)

lemma dbp_node_total:
  "ind < MAX_NODE_NUM \<Longrightarrow> \<exists>T' d'. dbp_node base ind (T, d) = Inr (T', d')"
  by (simp add: dbp_node_def Let_def)

lemma dbp_remote_total:
  "i < NODE_MAX_LINKS \<Longrightarrow> 0 \<le> Neighbors v i \<Longrightarrow> Neighbors v i < MAX_NODE_NUM \<Longrightarrow> \<exists>d'. dbp_remote T v i d = Inr d'"
  by (simp add: dbp_remote_def Let_def)

lemma m2m_dbp_init_total:
  assumes "0 \<le> TotalDeviceNum v" "TotalDeviceNum v < MAX_NODE_NUM" and "0 \<le> DeviceID v" "DeviceID v < MAX_NODE_NUM"
    and "0 \<le> NeighborNum v" "NeighborNum v \<le> NODE_MAX_LINKS"
    and "\<And>i. 0 \<le> i \<Longrightarrow> i < NeighborNum v \<Longrightarrow> 0 \<le> Neighbors v i \<and> Neighbors v i < MAX_NODE_NUM"
  shows "\<exists>T' d'. m2m_dbp_init base (T, v, d) =
    Inr (M2M_SUCCESS, T', v\<lparr>Shared_memory_address := NODE_SHM_LOCATION T' (DeviceID v)\<rparr>, d')"
proof -
  let ?d = "d\<lparr>m2m_localtime_start := (m2m_localtime_start d)(0 := base)\<rparr>"
  have "\<exists>st. fold_res (dbp_node base) [1..TotalDeviceNum v] (T, ?d) = Inr st \<and> True"
    using assms(1,2) dbp_node_total by (intro fold_res_upto_total) (auto split: prod.splits)
  then obtain T' d1 where 1: "fold_res (dbp_node base) [1..TotalDeviceNum v] (T, ?d) = Inr (T', d1)" by auto
  let ?v = "v\<lparr>Shared_memory_address := NODE_SHM_LOCATION T' (DeviceID v)\<rparr>"
  have "\<exists>st. fold_res (dbp_remote T' ?v) [0..NeighborNum v - 1] (dbp_local ?v d1) = Inr st \<and> True"
    using assms(5-7) dbp_remote_total [of _ ?v] by (intro fold_res_upto_total) auto
  then obtain d' where "fold_res (dbp_remote T' ?v) [0..NeighborNum v - 1] (dbp_local ?v d1) = Inr d'" by auto
  then show ?thesis using 1 assms(3,4) by (auto simp: m2m_dbp_init_def Let_def)
qed

lemma call_rp_total:
  assumes "0 \<le> NeighborNum v" "NeighborNum v \<le> NODE_MAX_LINKS"
    and "\<And>i. 0 \<le> i \<Longrightarrow> i < NeighborNum v \<Longrightarrow> 0 \<le> Neighbors v i \<and> Neighbors v i < MAX_NODE_NUM"
  shows "\<exists>rp'. m2m_route_processor_init T v rp = Inr (M2M_SUCCESS, rp')"
  using route_processor_lists [of v T rp] assms
  by (cases "is_ZED v") (auto simp: m2m_route_processor_init_def Let_def)

lemma probe_wait_total: "p \<le> fuel \<Longrightarrow> probes p = 1 \<Longrightarrow> probe_wait fuel probes = Inr ()"
proof (induction fuel arbitrary: p probes)
  case 0
  then show ?case by (simp add: probe_wait.simps)
next
  case (Suc fuel)
  show ?case
  proof (cases "probes 0 = 1")
    case False
    then obtain k where "p = Suc k" using Suc.prems by (cases p) auto
    then show ?thesis using Suc.IH [of k "\<lambda>p. probes (Suc p)"] Suc.prems False
      by (simp add: probe_wait.simps [of "Suc fuel"])
  qed (simp add: probe_wait.simps)
qed

definition barrier_ends :: "nat \<Rightarrow> start_wait \<Rightarrow> string \<Rightarrow> int \<Rightarrow> bool" where
  "barrier_ends fuel W ty n \<longleftrightarrow>
     (if ty = ''ZC'' then \<forall>i \<in> {2..n}. \<exists>p < fuel. w_reads W p i \<noteq> MAX_TIME else \<exists>p \<le> fuel. w_probes W p = 1)"

lemma call_time_total:
  assumes "barrier_ends fuel W (cstr (DeviceType (vnd (p_dev P)))) (TotalDeviceNum (vnd (p_dev P)))"
    and "1 \<le> TotalDeviceNum (vnd (p_dev P))"
  shows "\<exists>x h'. call_time fuel W (P, h) = Inr (M2M_SUCCESS, P\<lparr>p_trigger := x\<rparr>, h')"
proof (cases "is_ZC (vnd (p_dev P))")
  case True
  then show ?thesis
    using assms warmup_wait_spec [OF assms(2), of 0 "\<lambda>_. False" fuel "w_reads W"]
    by (auto simp: barrier_ends_def call_time_def m2m_time_init_def Let_def)
next
  case False
  then have "probe_wait fuel (w_probes W) = Inr ()" using assms(1) probe_wait_total by (auto simp: barrier_ends_def)
  then show ?thesis using False by (intro exI [of _ "p_trigger P"]) (simp add: call_time_def m2m_time_init_def Let_def)
qed

lemma topology_init_DeviceID:
  "m2m_topology_init conf info d (T, v\<lparr>DeviceID := x\<rparr>) = m2m_topology_init conf info d (T, v)"
proof -
  have eq: "v\<lparr>DeviceID := x, DeviceID := d\<rparr> = v\<lparr>DeviceID := d\<rparr>" by simp
  show ?thesis unfolding m2m_topology_init_def node_infofetch_def Let_def prod.case eq by (rule refl)
qed

lemma dbp_init_counts:
  assumes "m2m_dbp_init base (T, v, d) = Inr (e, T', v', d')"
  shows "TotalNetworkTypeDevice T' = TotalNetworkTypeDevice T \<and> NODE_LOCATION T' = NODE_LOCATION T"
proof -
  obtain T1 d1 where "fold_res (dbp_node base) [1..TotalDeviceNum v] (T, d\<lparr>m2m_localtime_start := (m2m_localtime_start d)(0 := base)\<rparr>) =
      Inr (T1, d1)" "T' = T1"
    using assms by (auto simp: m2m_dbp_init_def Let_def)
  from fold_res_invariant [OF this(1), of "\<lambda>st. TotalNetworkTypeDevice (fst st) = TotalNetworkTypeDevice T \<and>
      NODE_LOCATION (fst st) = NODE_LOCATION T"] this(2)
  show ?thesis by (force simp: dbp_node_def Let_def split: if_splits)
qed


lemma device_neighbours:
  assumes "device_of D v" and "dev_ok D"
  shows "0 \<le> NeighborNum v" "NeighborNum v \<le> NODE_MAX_LINKS"
    "0 \<le> i \<Longrightarrow> i < NeighborNum v \<Longrightarrow> 0 \<le> Neighbors v i \<and> Neighbors v i < MAX_NODE_NUM"
proof -
  obtain ty x y z ns where D: "D = (ty, (x, y, z), ns)" by (cases D) auto
  have n: "NeighborNum v = int (length ns)" and m: "map (Neighbors v) [0..int (length ns) - 1] = map int ns"
    using assms(1) by (simp_all add: device_of_def D)
  then show "0 \<le> NeighborNum v" "NeighborNum v \<le> NODE_MAX_LINKS"
    using assms(2) by (simp_all add: dev_ok_def D NODE_MAX_LINKS_def)
  show "0 \<le> Neighbors v i \<and> Neighbors v i < MAX_NODE_NUM" if "0 \<le> i" "i < NeighborNum v"
  proof -
    have "Neighbors v i \<in> Neighbors v ` set [0..int (length ns) - 1]" using that n by simp
    also have "\<dots> = set (map (Neighbors v) [0..int (length ns) - 1])" by simp
    also have "\<dots> = int ` set ns" unfolding m by simp
    finally show ?thesis using assms(2) by (auto simp: dev_ok_def D MAX_NODE_NUM_def)
  qed
qed

lemma mm_init_total:
  assumes "\<And>n b. 0 \<le> o_shmget S n b" and "\<And>i. o_shmat S i \<noteq> -1"
  shows "\<exists>i a. call_mm S (P, h) = Inr (M2M_SUCCESS, P\<lparr>p_shmid := i, p_addr := a\<rparr>, h)"
  using assms by (simp add: call_mm_def m2m_mm_init_def Let_def not_less) (auto simp: not_le [symmetric])

lemma send_recv_init_total:
  assumes "o_log S"
  shows "\<exists>h'. call_send_recv S (P, h) = Inr (M2M_SUCCESS,
     P\<lparr>p_dev := (p_dev P)\<lparr>vnd := (vnd (p_dev P))\<lparr>TotalTransTimes := 0\<rparr>\<rparr>\<rparr>, h')"
  using assms by (simp add: call_send_recv_def m2m_send_recv_init_def Let_def)

text \<open>The seven calls one after the other.\<close>

lemma network_init_run:
  assumes ds: "\<forall>D \<in> set ds. dev_ok D" "length ds < 100" "1 \<le> d" "d \<le> int (length ds)"
    and S: "o_conf S = Some (print_conf ds)" "length (o_info S) = 40" "\<And>n b. 0 \<le> o_shmget S n b"
      "\<And>i. o_shmat S i \<noteq> -1" "o_affinity S" "o_log S"
    and P: "e_topo (p_env P) = topo0" "vnd (p_dev P) = vnd0"
    and W: "barrier_ends fuel W (fst (ds ! nat (d - 1))) (int (length ds))"
  obtains T1 v1 T2 d2 rp a i x h' where
    "network_init fuel S W d (P, h) = Inr (1, P\<lparr>p_env := (p_env P)\<lparr>e_topo := T2, e_dbp := d2, e_rp := rp\<rparr>,
       p_dev := (p_dev P)\<lparr>vnd := v1\<lparr>Shared_memory_address := NODE_SHM_LOCATION T2 (DeviceID v1), TotalTransTimes := 0\<rparr>\<rparr>,
       p_shmid := i, p_addr := a, p_trigger := x\<rparr>, h')"
    "m2m_topology_init (Some (print_conf ds)) (o_info S) d (topo0, vnd0) = Inr (M2M_SUCCESS, T1, v1)"
    "m2m_dbp_init a (T1, v1, e_dbp (p_env P)) =
       Inr (M2M_SUCCESS, T2, v1\<lparr>Shared_memory_address := NODE_SHM_LOCATION T2 (DeviceID v1)\<rparr>, d2)"
    "DeviceID v1 = d" "TotalDeviceNum v1 = int (length ds)" "tables_of ds d (int (length ds)) T1" "device_of (ds ! nat (d - 1)) v1"
proof -
  let ?n = "int (length ds)" and ?D = "ds ! nat (d - 1)"
  have mem: "?D \<in> set ds" using ds(3,4) by simp
  then have D: "dev_ok ?D" using ds(1) by blast
  define P0 where "P0 = P\<lparr>p_dev := (p_dev P)\<lparr>vnd := vnd0\<lparr>DeviceID := d\<rparr>\<rparr>\<rparr>"
  obtain T1 v1 where t: "m2m_topology_init (Some (print_conf ds)) (o_info S) d (topo0, vnd0) = Inr (M2M_SUCCESS, T1, v1)"
    "DeviceID v1 = d" "TotalDeviceNum v1 = ?n" "tables_of ds d ?n T1" "device_of ?D v1"
    using topology_readback [OF ds S(2)] by blast
  have ct: "call_topology S d (P0, h) = Inr (M2M_SUCCESS, P0\<lparr>p_env := (p_env P)\<lparr>e_topo := T1\<rparr>, p_dev := (p_dev P)\<lparr>vnd := v1\<rparr>\<rparr>, h)"
    using t(1) S(1) P by (simp add: call_topology_def P0_def topology_init_DeviceID)
  let ?P1 = "P0\<lparr>p_env := (p_env P)\<lparr>e_topo := T1\<rparr>, p_dev := (p_dev P)\<lparr>vnd := v1\<rparr>\<rparr>"
  obtain i a where mm: "call_mm S (?P1, h) = Inr (M2M_SUCCESS, ?P1\<lparr>p_shmid := i, p_addr := a\<rparr>, h)"
    using mm_init_total [OF S(3,4)] by blast
  let ?P2 = "?P1\<lparr>p_shmid := i, p_addr := a\<rparr>"
  note nb = device_neighbours [OF t(5) D]
  obtain T2 d2 where db: "m2m_dbp_init a (T1, v1, e_dbp (p_env P)) =
      Inr (M2M_SUCCESS, T2, v1\<lparr>Shared_memory_address := NODE_SHM_LOCATION T2 (DeviceID v1)\<rparr>, d2)"
    using m2m_dbp_init_total [of v1 a T1 "e_dbp (p_env P)"] nb t(2,3) ds by (auto simp: MAX_NODE_NUM_def)
  let ?v2 = "v1\<lparr>Shared_memory_address := NODE_SHM_LOCATION T2 (DeviceID v1)\<rparr>"
  let ?P3 = "?P2\<lparr>p_env := (p_env P)\<lparr>e_topo := T2, e_dbp := d2\<rparr>, p_dev := (p_dev P)\<lparr>vnd := ?v2\<rparr>\<rparr>"
  have cd: "call_dbp (?P2, h) = Inr (M2M_SUCCESS, ?P3, h)" using db by (simp add: call_dbp_def)
  obtain rp where rp: "m2m_route_processor_init T2 ?v2 (e_rp (p_env P)) = Inr (M2M_SUCCESS, rp)"
    using call_rp_total [of ?v2 T2 "e_rp (p_env P)"] nb by auto
  let ?P4 = "?P3\<lparr>p_env := (p_env P)\<lparr>e_topo := T2, e_dbp := d2, e_rp := rp\<rparr>\<rparr>"
  have cr: "call_rp (?P3, h) = Inr (M2M_SUCCESS, ?P4, h)" using rp by (simp add: call_rp_def)
  have ca: "call_affinity S (?P4, h) = Inr (M2M_SUCCESS, ?P4, h)" using S(5) by (simp add: call_affinity_def set_core_affinity_def)
  let ?P5 = "?P4\<lparr>p_dev := (p_dev P)\<lparr>vnd := ?v2\<lparr>TotalTransTimes := 0\<rparr>\<rparr>\<rparr>"
  obtain h5 where cs: "call_send_recv S (?P4, h) = Inr (M2M_SUCCESS, ?P5, h5)"
    using send_recv_init_total [OF S(6), of ?P4 h] by auto
  have ty: "cstr (DeviceType v1) = fst ?D" using t(5) by (simp add: device_of_def)
  obtain x h6 where cm: "call_time fuel W (?P5, h5) = Inr (M2M_SUCCESS, ?P5\<lparr>p_trigger := x\<rparr>, h6)"
    using call_time_total [of fuel W ?P5 h5] W ty t(3) ds(3,4) by auto
  have run: "network_init fuel S W d (P, h) = Inr (1, P\<lparr>p_env := (p_env P)\<lparr>e_topo := T2, e_dbp := d2, e_rp := rp\<rparr>,
       p_dev := (p_dev P)\<lparr>vnd := v1\<lparr>Shared_memory_address := NODE_SHM_LOCATION T2 (DeviceID v1), TotalTransTimes := 0\<rparr>\<rparr>,
       p_shmid := i, p_addr := a, p_trigger := x\<rparr>, h6)"
    using ct mm cd cr ca cs cm P(2) by (simp add: network_init_def P0_def)
  show ?thesis using that [OF run t(1) db] t by simp
qed

text \<open>The layout that the topology and the address tables give together.\<close>

lemma init_layout:
  assumes "m2m_topology_init conf info d (topo0, vnd0) = Inr (M2M_SUCCESS, T1, v1)"
    and "m2m_dbp_init a (T1, v1, d1) = Inr (M2M_SUCCESS, T2, v2, d2)" and n: "n = TotalDeviceNum v1" "1 \<le> n"
  shows "NODE_TYPE T2 = NODE_TYPE T1" "NODE_MAP T2 = NODE_MAP T1" "NODE_LOCATION T2 = NODE_LOCATION T1"
    "NODE_SHM_LOCATION T2 1 = a + MAX_NODE_NUM * SIZEOF_UINT64"
    "i \<in> {1..<n} \<Longrightarrow> NODE_SHM_LOCATION T2 (i + 1) = NODE_SHM_LOCATION T2 i + type_size (NODE_TYPE T2 i)"
    "NODE_SHM_LOCATION T2 n + type_size (NODE_TYPE T2 n) = a + SHM_SIZE T2"
proof -
  obtain l where l: "shm_ok n T1 l" using topology_shm_ok [OF assms(1)] n by auto
  obtain d3 where nd: "nodes_done a T1 (d1\<lparr>m2m_localtime_start := (m2m_localtime_start d1)(0 := a)\<rparr>) n (T2, d3)"
    using m2m_dbp_init_steps [OF assms(2)] n by (metis order.trans zero_le_one)
  note ct = dbp_init_counts [OF assms(2)]
  show same: "NODE_TYPE T2 = NODE_TYPE T1" "NODE_MAP T2 = NODE_MAP T1" "NODE_LOCATION T2 = NODE_LOCATION T1"
    using nd ct by (simp_all add: nodes_done_def)
  have loc: "NODE_SHM_LOCATION T2 j = NODE_SHM_LOCATION T1 j + (a + MAX_NODE_NUM * SIZEOF_UINT64)" if "j \<in> {1..n}" for j
    using nd that by (simp add: nodes_done_def)
  have off: "NODE_SHM_LOCATION T1 j = (if j = 1 then 0 else NODE_SHM_LOCATION T1 (j - 1) + type_size (NODE_TYPE T1 (j - 1)))"
    if "j \<in> {1..n}" for j
    using l that unfolding shm_ok_def by blast
  show "NODE_SHM_LOCATION T2 1 = a + MAX_NODE_NUM * SIZEOF_UINT64" using loc [of 1] off [of 1] n(2) by simp
  show "NODE_SHM_LOCATION T2 (i + 1) = NODE_SHM_LOCATION T2 i + type_size (NODE_TYPE T2 i)" if "i \<in> {1..<n}"
    using loc [of i] loc [of "i + 1"] off [of "i + 1"] that same(1) by simp
  have "NODE_SHM_LOCATION T1 n + type_size (NODE_TYPE T1 n) = reserved T1"
    using l n(2) unfolding shm_ok_def by (metis not_one_le_zero)
  then show "NODE_SHM_LOCATION T2 n + type_size (NODE_TYPE T2 n) = a + SHM_SIZE T2"
    using loc [of n] n(2) ct same(1) by (simp add: reserved_def SHM_SIZE_def)
qed

section \<open>Properties of the device\<close>

text \<open>
  Property C16. Starting a device: for every topology file in the documented form, when the system calls
  succeed and the start barrier ends, \<open>NETWORK_INIT\<close> returns. Afterwards the device knows its id, its type,
  its neighbours and the links, the regions of the devices follow each other from the end of the time
  slots to the end of the segment, and the objects of the device tile its own region.
\<close>

theorem network_init_ready:
  assumes ds: "\<forall>D \<in> set ds. dev_ok D" "length ds < 100" "1 \<le> d" "d \<le> int (length ds)"
    and S: "o_conf S = Some (print_conf ds)" "length (o_info S) = 40" "\<And>n b. 0 \<le> o_shmget S n b"
      "\<And>i. o_shmat S i \<noteq> -1" "o_affinity S" "o_log S"
    and P: "e_topo (p_env P) = topo0" "vnd (p_dev P) = vnd0"
    and W: "barrier_ends fuel W (fst (ds ! nat (d - 1))) (int (length ds))"
  shows "\<exists>P' h' T v. network_init fuel S W d (P, h) = Inr (1, P', h') \<and> T = e_topo (p_env P') \<and> v = vnd (p_dev P') \<and>
     DeviceID v = d \<and> TotalDeviceNum v = int (length ds) \<and> device_of (ds ! nat (d - 1)) v \<and>
     tables_of ds d (int (length ds)) T \<and>
     NODE_SHM_LOCATION T 1 = p_addr P' + MAX_NODE_NUM * SIZEOF_UINT64 \<and>
     (\<forall>i \<in> {1..<int (length ds)}. NODE_SHM_LOCATION T (i + 1) = NODE_SHM_LOCATION T i + type_size (NODE_TYPE T i)) \<and>
     NODE_SHM_LOCATION T (int (length ds)) + type_size (NODE_TYPE T (int (length ds))) = p_addr P' + SHM_SIZE T \<and>
     chain (NODE_SHM_LOCATION T d) (device_regions (cstr (DeviceType v)) d (e_dbp (p_env P')))
       (NODE_SHM_LOCATION T d + type_size (cstr (DeviceType v)))"
proof -
  let ?n = "int (length ds)" and ?D = "ds ! nat (d - 1)"
  obtain T1 v1 T2 d2 rp a i x h' where
    run: "network_init fuel S W d (P, h) = Inr (1, P\<lparr>p_env := (p_env P)\<lparr>e_topo := T2, e_dbp := d2, e_rp := rp\<rparr>,
       p_dev := (p_dev P)\<lparr>vnd := v1\<lparr>Shared_memory_address := NODE_SHM_LOCATION T2 (DeviceID v1), TotalTransTimes := 0\<rparr>\<rparr>,
       p_shmid := i, p_addr := a, p_trigger := x\<rparr>, h')"
    and t: "m2m_topology_init (Some (print_conf ds)) (o_info S) d (topo0, vnd0) = Inr (M2M_SUCCESS, T1, v1)"
    and db: "m2m_dbp_init a (T1, v1, e_dbp (p_env P)) =
       Inr (M2M_SUCCESS, T2, v1\<lparr>Shared_memory_address := NODE_SHM_LOCATION T2 (DeviceID v1)\<rparr>, d2)"
    and v1: "DeviceID v1 = d" "TotalDeviceNum v1 = ?n" "tables_of ds d ?n T1" "device_of ?D v1"
    by (rule network_init_run [OF assms])
  have n: "?n = TotalDeviceNum v1" "1 \<le> ?n" using v1(2) ds(3,4) by simp_all
  note lay = init_layout [OF t db n]
  have ty: "NODE_TYPE T1 (DeviceID v1) = cstr (DeviceType v1)" using v1 ds(3,4) by (simp add: tables_of_def device_of_def)
  moreover have "cstr (DeviceType v1) \<in> {''ZC'', ''ZR'', ''ZED''}"
  proof -
    have "ds ! nat (d - 1) \<in> set ds" using ds(3,4) by simp
    then have "dev_ok ?D" using ds(1) by blast
    then show ?thesis using v1(4) by (cases ?D) (simp add: device_of_def dev_ok_def split: prod.splits)
  qed
  ultimately have "chain (NODE_SHM_LOCATION T2 d) (device_regions (cstr (DeviceType v1)) d d2)
      (NODE_SHM_LOCATION T2 d + type_size (cstr (DeviceType v1)))"
    using dbp_tiles [OF db] v1(1,2) ds(3,4) by simp
  moreover have "tables_of ds d ?n T2" using v1(3) lay(1-3) by (simp add: tables_of_def)
  moreover have "device_of ?D (v1\<lparr>Shared_memory_address := y, TotalTransTimes := z\<rparr>)" for y z
    using v1(4) by (simp add: device_of_def)
  ultimately show ?thesis
    using v1(1,2) lay(4,6) lay(5) by - (intro exI conjI, rule run, rule refl, rule refl, auto)
qed

definition os3 :: os where
  "os3 = \<lparr>o_conf = Some (print_conf conf3), o_info = replicate 40 NUL, o_shmget = \<lambda>_ _. 7, o_shmat = \<lambda>_. 4096,
     o_shmdt = \<lambda>_. 0, o_shmctl = \<lambda>_. 0, o_affinity = True, o_log = True\<rparr>"

definition wait3 :: start_wait where
  "wait3 = \<lparr>w_reads = \<lambda>_ _. 0, w_probes = \<lambda>p. if p = 2 then 1 else 0, w_after = \<lambda>h. h\<rparr>"

definition proc0 :: proc where
  "proc0 = \<lparr>p_env = \<lparr>e_topo = topo0, e_dbp = dbp0, e_rp = rp2\<rparr>, p_dev = dev2\<lparr>vnd := vnd0\<rparr>, p_shmid = 0, p_addr = 0, p_trigger = 0\<rparr>"

theorem network_init_ready_witness:
  "\<exists>P' h'. network_init 5 os3 wait3 2 (proc0, shm0) = Inr (1, P', h') \<and> DeviceID (vnd (p_dev P')) = 2 \<and>
     NODE_SHM_LOCATION (e_topo (p_env P')) 1 = p_addr P' + MAX_NODE_NUM * SIZEOF_UINT64"
proof -
  have "barrier_ends 5 wait3 (fst (conf3 ! nat (2 - 1))) (int (length conf3))"
    by (auto simp: barrier_ends_def conf3_def wait3_def intro: exI [of _ 2])
  then show ?thesis
    using network_init_ready [OF conf3_dev_ok, of 2 os3 proc0 5 wait3 shm0]
    by (auto simp: conf3_def os3_def proc0_def)
qed

text \<open>
  Stopping a device: \<open>NETWORK_EXIT\<close> shows the largest started time in the device's slot, so that
  no router waits for it, and touches no other part of the shared memory. The coordinator detaches and
  removes the segment while its type is still known, which only then is cleared; a failure of either
  system call ends the process.
\<close>

lemma network_exit_result:
  "network_exit S (P, h) =
     (if is_ZC (vnd (p_dev P)) \<and> (o_shmdt S (p_addr P) = -1 \<or> o_shmctl S (p_shmid P) = -1) then Inl Exit_process
      else Inr (1, P\<lparr>p_env := (p_env P)\<lparr>
          e_topo := (e_topo (p_env P))\<lparr>NODE_TYPE := \<lambda>i. if i \<in> {0..<MAX_NODE_NUM} then [] else NODE_TYPE (e_topo (p_env P)) i\<rparr>,
          e_rp := (e_rp (p_env P))\<lparr>neighbor_end := 0, end_count := 0, router_count := 0\<rparr>\<rparr>,
        p_dev := (p_dev P)\<lparr>vnd := (vnd (p_dev P))\<lparr>DeviceType := [NUL, NUL, NUL]\<rparr>\<rparr>, p_trigger := 0\<rparr>,
        set_localtime (own_time (p_env P) (p_dev P)) (MAX_TIME - 1) h))"
  by (simp add: network_exit_def exit_rp_def exit_time_def exit_mm_def exit_dbp_def m2m_route_processor_exit_def
      m2m_time_exit_def m2m_mm_exit_def m2m_dbp_exit_def m2m_send_recv_exit_def own_time_def Let_def cong: if_cong)

text \<open>
  A failed start is reported as a success: with an id above the number of devices in the file
  the topology returns an error and nothing is attached or started, but the guest reads the return
  value 1 as after a complete start.
\<close>

theorem network_init_hides_error:
  assumes "length ds < 100" and "d > int (length ds)" and "o_conf S = Some (print_conf ds)"
  shows "\<exists>P'. network_init fuel S W d (P, h) = Inr (1, P', h) \<and> p_addr P' = p_addr P \<and> p_shmid P' = p_shmid P \<and>
     e_dbp (p_env P') = e_dbp (p_env P) \<and> p_trigger P' = p_trigger P"
proof -
  let ?f = "concat (map print_dev ds)" and ?info = "o_info S"
  note num = atoi_show [OF assms(1)]
  have g: "fgets40 ?info (print_conf ds) =
      Some (show_nat (length ds) @ nl @ NUL # drop (length (show_nat (length ds)) + 2) ?info, ?f)"
    using fgets40_line [OF num(3,2), of ?info ?f] by (simp add: print_conf_def)
  have "\<exists>T v. m2m_topology_init (Some (print_conf ds)) ?info d st = Inr (M2M_ERROR, T, v)" for st
    using g num(1) cstr_line [OF num(4)] assms(2)
    by (cases st) (simp add: m2m_topology_init_def node_infofetch_def Let_def)
  then obtain T v where t: "m2m_topology_init (Some (print_conf ds)) ?info d
      (e_topo (p_env P), (vnd (p_dev P))\<lparr>DeviceID := d\<rparr>) = Inr (M2M_ERROR, T, v)" by blast
  show ?thesis using t assms(3) by (simp add: network_init_def call_topology_def and_then_def)
qed

theorem network_init_hides_error_witness:
  "\<exists>P'. network_init 5 os3 wait3 9 (proc0, shm0) = Inr (1, P', shm0) \<and> p_addr P' = p_addr proc0"
  using network_init_hides_error [of conf3 9 os3 5 wait3 proc0 shm0] by (auto simp: conf3_def os3_def)

end
