(* ===== verification/VPMU_Types.thy ===== *)
theory VPMU_Types
  imports M2M_Prelude
begin

unbundle bit_operations_syntax

text \<open>
  Data of the virtual performance monitoring unit (\<^verbatim>\<open>vpmu.h\<close>, \<^verbatim>\<open>hw/vpmu-device.c\<close>): the enumeration of the
  ARM instructions and the table of their names, the analysis record \<open>ExtraTBInfo\<close> of a translated block,
  the counters of the unit, and the register that selects the timing model and the simulators.

  \<^item> \<open>VPMU\<close> has the fields of the struct that the modelled functions use. Its network times and counts
    are in the record of the process in \<open>M2M_SendRecv\<close>, where the network operations add to them.
  \<^item> C's \<open>unsigned long long\<close> and \<open>uint64_t\<close> are \<^typ>\<open>u64\<close>, \<open>unsigned int\<close> is \<^typ>\<open>u32\<close>, and
    \<open>unsigned char\<close> is \<^typ>\<open>u8\<close>: their sums wrap as in C.
\<close>

section \<open>Instructions\<close>

abbreviation (input) ARM_INSTRUCTION_B :: nat where "ARM_INSTRUCTION_B \<equiv> 0"
abbreviation (input) ARM_INSTRUCTION_BL :: nat where "ARM_INSTRUCTION_BL \<equiv> 1"
abbreviation (input) ARM_INSTRUCTION_BLX :: nat where "ARM_INSTRUCTION_BLX \<equiv> 2"
abbreviation (input) ARM_INSTRUCTION_BX :: nat where "ARM_INSTRUCTION_BX \<equiv> 3"
abbreviation (input) ARM_INSTRUCTION_BXJ :: nat where "ARM_INSTRUCTION_BXJ \<equiv> 4"
abbreviation (input) ARM_INSTRUCTION_ADC :: nat where "ARM_INSTRUCTION_ADC \<equiv> 5"
abbreviation (input) ARM_INSTRUCTION_ADD :: nat where "ARM_INSTRUCTION_ADD \<equiv> 6"
abbreviation (input) ARM_INSTRUCTION_AND :: nat where "ARM_INSTRUCTION_AND \<equiv> 7"
abbreviation (input) ARM_INSTRUCTION_BIC :: nat where "ARM_INSTRUCTION_BIC \<equiv> 8"
abbreviation (input) ARM_INSTRUCTION_CMN :: nat where "ARM_INSTRUCTION_CMN \<equiv> 9"
abbreviation (input) ARM_INSTRUCTION_CMP :: nat where "ARM_INSTRUCTION_CMP \<equiv> 10"
abbreviation (input) ARM_INSTRUCTION_EOR :: nat where "ARM_INSTRUCTION_EOR \<equiv> 11"
abbreviation (input) ARM_INSTRUCTION_MOV :: nat where "ARM_INSTRUCTION_MOV \<equiv> 12"
abbreviation (input) ARM_INSTRUCTION_MVN :: nat where "ARM_INSTRUCTION_MVN \<equiv> 13"
abbreviation (input) ARM_INSTRUCTION_ORR :: nat where "ARM_INSTRUCTION_ORR \<equiv> 14"
abbreviation (input) ARM_INSTRUCTION_RSB :: nat where "ARM_INSTRUCTION_RSB \<equiv> 15"
abbreviation (input) ARM_INSTRUCTION_RSC :: nat where "ARM_INSTRUCTION_RSC \<equiv> 16"
abbreviation (input) ARM_INSTRUCTION_SBC :: nat where "ARM_INSTRUCTION_SBC \<equiv> 17"
abbreviation (input) ARM_INSTRUCTION_SUB :: nat where "ARM_INSTRUCTION_SUB \<equiv> 18"
abbreviation (input) ARM_INSTRUCTION_TEQ :: nat where "ARM_INSTRUCTION_TEQ \<equiv> 19"
abbreviation (input) ARM_INSTRUCTION_TST :: nat where "ARM_INSTRUCTION_TST \<equiv> 20"
abbreviation (input) ARM_INSTRUCTION_MUL :: nat where "ARM_INSTRUCTION_MUL \<equiv> 21"
abbreviation (input) ARM_INSTRUCTION_MULS :: nat where "ARM_INSTRUCTION_MULS \<equiv> 22"
abbreviation (input) ARM_INSTRUCTION_MLA :: nat where "ARM_INSTRUCTION_MLA \<equiv> 23"
abbreviation (input) ARM_INSTRUCTION_MLAS :: nat where "ARM_INSTRUCTION_MLAS \<equiv> 24"
abbreviation (input) ARM_INSTRUCTION_SMLAXY :: nat where "ARM_INSTRUCTION_SMLAXY \<equiv> 25"
abbreviation (input) ARM_INSTRUCTION_SMLAL :: nat where "ARM_INSTRUCTION_SMLAL \<equiv> 26"
abbreviation (input) ARM_INSTRUCTION_SMLALS :: nat where "ARM_INSTRUCTION_SMLALS \<equiv> 27"
abbreviation (input) ARM_INSTRUCTION_SMLALXY :: nat where "ARM_INSTRUCTION_SMLALXY \<equiv> 28"
abbreviation (input) ARM_INSTRUCTION_SMLAWY :: nat where "ARM_INSTRUCTION_SMLAWY \<equiv> 29"
abbreviation (input) ARM_INSTRUCTION_SMUAD :: nat where "ARM_INSTRUCTION_SMUAD \<equiv> 30"
abbreviation (input) ARM_INSTRUCTION_SMUSD :: nat where "ARM_INSTRUCTION_SMUSD \<equiv> 31"
abbreviation (input) ARM_INSTRUCTION_SMLAD :: nat where "ARM_INSTRUCTION_SMLAD \<equiv> 32"
abbreviation (input) ARM_INSTRUCTION_SMLSD :: nat where "ARM_INSTRUCTION_SMLSD \<equiv> 33"
abbreviation (input) ARM_INSTRUCTION_SMLALD :: nat where "ARM_INSTRUCTION_SMLALD \<equiv> 34"
abbreviation (input) ARM_INSTRUCTION_SMLSLD :: nat where "ARM_INSTRUCTION_SMLSLD \<equiv> 35"
abbreviation (input) ARM_INSTRUCTION_SMMLA :: nat where "ARM_INSTRUCTION_SMMLA \<equiv> 36"
abbreviation (input) ARM_INSTRUCTION_SMMLS :: nat where "ARM_INSTRUCTION_SMMLS \<equiv> 37"
abbreviation (input) ARM_INSTRUCTION_SMMUL :: nat where "ARM_INSTRUCTION_SMMUL \<equiv> 38"
abbreviation (input) ARM_INSTRUCTION_SMULXY :: nat where "ARM_INSTRUCTION_SMULXY \<equiv> 39"
abbreviation (input) ARM_INSTRUCTION_SMULL :: nat where "ARM_INSTRUCTION_SMULL \<equiv> 40"
abbreviation (input) ARM_INSTRUCTION_SMULLS :: nat where "ARM_INSTRUCTION_SMULLS \<equiv> 41"
abbreviation (input) ARM_INSTRUCTION_SMULWY :: nat where "ARM_INSTRUCTION_SMULWY \<equiv> 42"
abbreviation (input) ARM_INSTRUCTION_UMAAL :: nat where "ARM_INSTRUCTION_UMAAL \<equiv> 43"
abbreviation (input) ARM_INSTRUCTION_UMLAL :: nat where "ARM_INSTRUCTION_UMLAL \<equiv> 44"
abbreviation (input) ARM_INSTRUCTION_UMLALS :: nat where "ARM_INSTRUCTION_UMLALS \<equiv> 45"
abbreviation (input) ARM_INSTRUCTION_UMULL :: nat where "ARM_INSTRUCTION_UMULL \<equiv> 46"
abbreviation (input) ARM_INSTRUCTION_UMULLS :: nat where "ARM_INSTRUCTION_UMULLS \<equiv> 47"
abbreviation (input) ARM_INSTRUCTION_QADD :: nat where "ARM_INSTRUCTION_QADD \<equiv> 48"
abbreviation (input) ARM_INSTRUCTION_QDADD :: nat where "ARM_INSTRUCTION_QDADD \<equiv> 49"
abbreviation (input) ARM_INSTRUCTION_QADD16 :: nat where "ARM_INSTRUCTION_QADD16 \<equiv> 50"
abbreviation (input) ARM_INSTRUCTION_QADDSUBX :: nat where "ARM_INSTRUCTION_QADDSUBX \<equiv> 51"
abbreviation (input) ARM_INSTRUCTION_QSUBADDX :: nat where "ARM_INSTRUCTION_QSUBADDX \<equiv> 52"
abbreviation (input) ARM_INSTRUCTION_QSUB16 :: nat where "ARM_INSTRUCTION_QSUB16 \<equiv> 53"
abbreviation (input) ARM_INSTRUCTION_QADD8 :: nat where "ARM_INSTRUCTION_QADD8 \<equiv> 54"
abbreviation (input) ARM_INSTRUCTION_QSUB8 :: nat where "ARM_INSTRUCTION_QSUB8 \<equiv> 55"
abbreviation (input) ARM_INSTRUCTION_QSUB :: nat where "ARM_INSTRUCTION_QSUB \<equiv> 56"
abbreviation (input) ARM_INSTRUCTION_QDSUB :: nat where "ARM_INSTRUCTION_QDSUB \<equiv> 57"
abbreviation (input) ARM_INSTRUCTION_SADD16 :: nat where "ARM_INSTRUCTION_SADD16 \<equiv> 58"
abbreviation (input) ARM_INSTRUCTION_SADDSUBX :: nat where "ARM_INSTRUCTION_SADDSUBX \<equiv> 59"
abbreviation (input) ARM_INSTRUCTION_SSUBADDX :: nat where "ARM_INSTRUCTION_SSUBADDX \<equiv> 60"
abbreviation (input) ARM_INSTRUCTION_SSUB16 :: nat where "ARM_INSTRUCTION_SSUB16 \<equiv> 61"
abbreviation (input) ARM_INSTRUCTION_SADD8 :: nat where "ARM_INSTRUCTION_SADD8 \<equiv> 62"
abbreviation (input) ARM_INSTRUCTION_SSUB8 :: nat where "ARM_INSTRUCTION_SSUB8 \<equiv> 63"
abbreviation (input) ARM_INSTRUCTION_SHADD16 :: nat where "ARM_INSTRUCTION_SHADD16 \<equiv> 64"
abbreviation (input) ARM_INSTRUCTION_SHADDSUBX :: nat where "ARM_INSTRUCTION_SHADDSUBX \<equiv> 65"
abbreviation (input) ARM_INSTRUCTION_SHSUBADDX :: nat where "ARM_INSTRUCTION_SHSUBADDX \<equiv> 66"
abbreviation (input) ARM_INSTRUCTION_SHSUB16 :: nat where "ARM_INSTRUCTION_SHSUB16 \<equiv> 67"
abbreviation (input) ARM_INSTRUCTION_SHADD8 :: nat where "ARM_INSTRUCTION_SHADD8 \<equiv> 68"
abbreviation (input) ARM_INSTRUCTION_SHSUB8 :: nat where "ARM_INSTRUCTION_SHSUB8 \<equiv> 69"
abbreviation (input) ARM_INSTRUCTION_UADD16 :: nat where "ARM_INSTRUCTION_UADD16 \<equiv> 70"
abbreviation (input) ARM_INSTRUCTION_UADDSUBX :: nat where "ARM_INSTRUCTION_UADDSUBX \<equiv> 71"
abbreviation (input) ARM_INSTRUCTION_USUBADDX :: nat where "ARM_INSTRUCTION_USUBADDX \<equiv> 72"
abbreviation (input) ARM_INSTRUCTION_USUB16 :: nat where "ARM_INSTRUCTION_USUB16 \<equiv> 73"
abbreviation (input) ARM_INSTRUCTION_UADD8 :: nat where "ARM_INSTRUCTION_UADD8 \<equiv> 74"
abbreviation (input) ARM_INSTRUCTION_USUB8 :: nat where "ARM_INSTRUCTION_USUB8 \<equiv> 75"
abbreviation (input) ARM_INSTRUCTION_UHADD16 :: nat where "ARM_INSTRUCTION_UHADD16 \<equiv> 76"
abbreviation (input) ARM_INSTRUCTION_UHADDSUBX :: nat where "ARM_INSTRUCTION_UHADDSUBX \<equiv> 77"
abbreviation (input) ARM_INSTRUCTION_UHSUBADDX :: nat where "ARM_INSTRUCTION_UHSUBADDX \<equiv> 78"
abbreviation (input) ARM_INSTRUCTION_UHSUB16 :: nat where "ARM_INSTRUCTION_UHSUB16 \<equiv> 79"
abbreviation (input) ARM_INSTRUCTION_UHADD8 :: nat where "ARM_INSTRUCTION_UHADD8 \<equiv> 80"
abbreviation (input) ARM_INSTRUCTION_UHSUB8 :: nat where "ARM_INSTRUCTION_UHSUB8 \<equiv> 81"
abbreviation (input) ARM_INSTRUCTION_UQADD16 :: nat where "ARM_INSTRUCTION_UQADD16 \<equiv> 82"
abbreviation (input) ARM_INSTRUCTION_UQADDSUBX :: nat where "ARM_INSTRUCTION_UQADDSUBX \<equiv> 83"
abbreviation (input) ARM_INSTRUCTION_UQSUBADDX :: nat where "ARM_INSTRUCTION_UQSUBADDX \<equiv> 84"
abbreviation (input) ARM_INSTRUCTION_UQSUB16 :: nat where "ARM_INSTRUCTION_UQSUB16 \<equiv> 85"
abbreviation (input) ARM_INSTRUCTION_UQADD8 :: nat where "ARM_INSTRUCTION_UQADD8 \<equiv> 86"
abbreviation (input) ARM_INSTRUCTION_UQSUB8 :: nat where "ARM_INSTRUCTION_UQSUB8 \<equiv> 87"
abbreviation (input) ARM_INSTRUCTION_SXTAB16 :: nat where "ARM_INSTRUCTION_SXTAB16 \<equiv> 88"
abbreviation (input) ARM_INSTRUCTION_SXTAB :: nat where "ARM_INSTRUCTION_SXTAB \<equiv> 89"
abbreviation (input) ARM_INSTRUCTION_SXTAH :: nat where "ARM_INSTRUCTION_SXTAH \<equiv> 90"
abbreviation (input) ARM_INSTRUCTION_SXTB16 :: nat where "ARM_INSTRUCTION_SXTB16 \<equiv> 91"
abbreviation (input) ARM_INSTRUCTION_SXTB :: nat where "ARM_INSTRUCTION_SXTB \<equiv> 92"
abbreviation (input) ARM_INSTRUCTION_SXTH :: nat where "ARM_INSTRUCTION_SXTH \<equiv> 93"
abbreviation (input) ARM_INSTRUCTION_UXTAB16 :: nat where "ARM_INSTRUCTION_UXTAB16 \<equiv> 94"
abbreviation (input) ARM_INSTRUCTION_UXTAB :: nat where "ARM_INSTRUCTION_UXTAB \<equiv> 95"
abbreviation (input) ARM_INSTRUCTION_UXTAH :: nat where "ARM_INSTRUCTION_UXTAH \<equiv> 96"
abbreviation (input) ARM_INSTRUCTION_UXTB16 :: nat where "ARM_INSTRUCTION_UXTB16 \<equiv> 97"
abbreviation (input) ARM_INSTRUCTION_UXTB :: nat where "ARM_INSTRUCTION_UXTB \<equiv> 98"
abbreviation (input) ARM_INSTRUCTION_UXTH :: nat where "ARM_INSTRUCTION_UXTH \<equiv> 99"
abbreviation (input) ARM_INSTRUCTION_CLZ :: nat where "ARM_INSTRUCTION_CLZ \<equiv> 100"
abbreviation (input) ARM_INSTRUCTION_USAD8 :: nat where "ARM_INSTRUCTION_USAD8 \<equiv> 101"
abbreviation (input) ARM_INSTRUCTION_USADA8 :: nat where "ARM_INSTRUCTION_USADA8 \<equiv> 102"
abbreviation (input) ARM_INSTRUCTION_PKH :: nat where "ARM_INSTRUCTION_PKH \<equiv> 103"
abbreviation (input) ARM_INSTRUCTION_PKHBT :: nat where "ARM_INSTRUCTION_PKHBT \<equiv> 104"
abbreviation (input) ARM_INSTRUCTION_PKHTB :: nat where "ARM_INSTRUCTION_PKHTB \<equiv> 105"
abbreviation (input) ARM_INSTRUCTION_REV :: nat where "ARM_INSTRUCTION_REV \<equiv> 106"
abbreviation (input) ARM_INSTRUCTION_REV16 :: nat where "ARM_INSTRUCTION_REV16 \<equiv> 107"
abbreviation (input) ARM_INSTRUCTION_REVSH :: nat where "ARM_INSTRUCTION_REVSH \<equiv> 108"
abbreviation (input) ARM_INSTRUCTION_SEL :: nat where "ARM_INSTRUCTION_SEL \<equiv> 109"
abbreviation (input) ARM_INSTRUCTION_SSAT :: nat where "ARM_INSTRUCTION_SSAT \<equiv> 110"
abbreviation (input) ARM_INSTRUCTION_SSAT16 :: nat where "ARM_INSTRUCTION_SSAT16 \<equiv> 111"
abbreviation (input) ARM_INSTRUCTION_USAT :: nat where "ARM_INSTRUCTION_USAT \<equiv> 112"
abbreviation (input) ARM_INSTRUCTION_USAT16 :: nat where "ARM_INSTRUCTION_USAT16 \<equiv> 113"
abbreviation (input) ARM_INSTRUCTION_MRS :: nat where "ARM_INSTRUCTION_MRS \<equiv> 114"
abbreviation (input) ARM_INSTRUCTION_MSR :: nat where "ARM_INSTRUCTION_MSR \<equiv> 115"
abbreviation (input) ARM_INSTRUCTION_CPS :: nat where "ARM_INSTRUCTION_CPS \<equiv> 116"
abbreviation (input) ARM_INSTRUCTION_SETEND :: nat where "ARM_INSTRUCTION_SETEND \<equiv> 117"
abbreviation (input) ARM_INSTRUCTION_LDR :: nat where "ARM_INSTRUCTION_LDR \<equiv> 118"
abbreviation (input) ARM_INSTRUCTION_LDRB :: nat where "ARM_INSTRUCTION_LDRB \<equiv> 119"
abbreviation (input) ARM_INSTRUCTION_LDRBT :: nat where "ARM_INSTRUCTION_LDRBT \<equiv> 120"
abbreviation (input) ARM_INSTRUCTION_LDRD :: nat where "ARM_INSTRUCTION_LDRD \<equiv> 121"
abbreviation (input) ARM_INSTRUCTION_LDREX :: nat where "ARM_INSTRUCTION_LDREX \<equiv> 122"
abbreviation (input) ARM_INSTRUCTION_LDRH :: nat where "ARM_INSTRUCTION_LDRH \<equiv> 123"
abbreviation (input) ARM_INSTRUCTION_LDRSB :: nat where "ARM_INSTRUCTION_LDRSB \<equiv> 124"
abbreviation (input) ARM_INSTRUCTION_LDRSH :: nat where "ARM_INSTRUCTION_LDRSH \<equiv> 125"
abbreviation (input) ARM_INSTRUCTION_LDRT :: nat where "ARM_INSTRUCTION_LDRT \<equiv> 126"
abbreviation (input) ARM_INSTRUCTION_STR :: nat where "ARM_INSTRUCTION_STR \<equiv> 127"
abbreviation (input) ARM_INSTRUCTION_STRB :: nat where "ARM_INSTRUCTION_STRB \<equiv> 128"
abbreviation (input) ARM_INSTRUCTION_STRBT :: nat where "ARM_INSTRUCTION_STRBT \<equiv> 129"
abbreviation (input) ARM_INSTRUCTION_STRD :: nat where "ARM_INSTRUCTION_STRD \<equiv> 130"
abbreviation (input) ARM_INSTRUCTION_STREX :: nat where "ARM_INSTRUCTION_STREX \<equiv> 131"
abbreviation (input) ARM_INSTRUCTION_STRH :: nat where "ARM_INSTRUCTION_STRH \<equiv> 132"
abbreviation (input) ARM_INSTRUCTION_STRT :: nat where "ARM_INSTRUCTION_STRT \<equiv> 133"
abbreviation (input) ARM_INSTRUCTION_LDM1 :: nat where "ARM_INSTRUCTION_LDM1 \<equiv> 134"
abbreviation (input) ARM_INSTRUCTION_LDM2 :: nat where "ARM_INSTRUCTION_LDM2 \<equiv> 135"
abbreviation (input) ARM_INSTRUCTION_LDM3 :: nat where "ARM_INSTRUCTION_LDM3 \<equiv> 136"
abbreviation (input) ARM_INSTRUCTION_STM1 :: nat where "ARM_INSTRUCTION_STM1 \<equiv> 137"
abbreviation (input) ARM_INSTRUCTION_STM2 :: nat where "ARM_INSTRUCTION_STM2 \<equiv> 138"
abbreviation (input) ARM_INSTRUCTION_SWP :: nat where "ARM_INSTRUCTION_SWP \<equiv> 139"
abbreviation (input) ARM_INSTRUCTION_SWPB :: nat where "ARM_INSTRUCTION_SWPB \<equiv> 140"
abbreviation (input) ARM_INSTRUCTION_BKPT :: nat where "ARM_INSTRUCTION_BKPT \<equiv> 141"
abbreviation (input) ARM_INSTRUCTION_SWI :: nat where "ARM_INSTRUCTION_SWI \<equiv> 142"
abbreviation (input) ARM_INSTRUCTION_CDP :: nat where "ARM_INSTRUCTION_CDP \<equiv> 143"
abbreviation (input) ARM_INSTRUCTION_LDC :: nat where "ARM_INSTRUCTION_LDC \<equiv> 144"
abbreviation (input) ARM_INSTRUCTION_MCR :: nat where "ARM_INSTRUCTION_MCR \<equiv> 145"
abbreviation (input) ARM_INSTRUCTION_MCRR :: nat where "ARM_INSTRUCTION_MCRR \<equiv> 146"
abbreviation (input) ARM_INSTRUCTION_MRC :: nat where "ARM_INSTRUCTION_MRC \<equiv> 147"
abbreviation (input) ARM_INSTRUCTION_MRRC :: nat where "ARM_INSTRUCTION_MRRC \<equiv> 148"
abbreviation (input) ARM_INSTRUCTION_STC :: nat where "ARM_INSTRUCTION_STC \<equiv> 149"
abbreviation (input) ARM_INSTRUCTION_PLD :: nat where "ARM_INSTRUCTION_PLD \<equiv> 150"
abbreviation (input) ARM_INSTRUCTION_RFE :: nat where "ARM_INSTRUCTION_RFE \<equiv> 151"
abbreviation (input) ARM_INSTRUCTION_SRS :: nat where "ARM_INSTRUCTION_SRS \<equiv> 152"
abbreviation (input) ARM_INSTRUCTION_MCRR2 :: nat where "ARM_INSTRUCTION_MCRR2 \<equiv> 153"
abbreviation (input) ARM_INSTRUCTION_MRRC2 :: nat where "ARM_INSTRUCTION_MRRC2 \<equiv> 154"
abbreviation (input) ARM_INSTRUCTION_STC2 :: nat where "ARM_INSTRUCTION_STC2 \<equiv> 155"
abbreviation (input) ARM_INSTRUCTION_LDC2 :: nat where "ARM_INSTRUCTION_LDC2 \<equiv> 156"
abbreviation (input) ARM_INSTRUCTION_CDP2 :: nat where "ARM_INSTRUCTION_CDP2 \<equiv> 157"
abbreviation (input) ARM_INSTRUCTION_MCR2 :: nat where "ARM_INSTRUCTION_MCR2 \<equiv> 158"
abbreviation (input) ARM_INSTRUCTION_MRC2 :: nat where "ARM_INSTRUCTION_MRC2 \<equiv> 159"
abbreviation (input) ARM_INSTRUCTION_COPROCESSOR :: nat where "ARM_INSTRUCTION_COPROCESSOR \<equiv> 160"
abbreviation (input) ARM_INSTRUCTION_NEON_DP :: nat where "ARM_INSTRUCTION_NEON_DP \<equiv> 161"
abbreviation (input) ARM_INSTRUCTION_NEON_LS :: nat where "ARM_INSTRUCTION_NEON_LS \<equiv> 162"
abbreviation (input) ARM_INSTRUCTION_CLREX :: nat where "ARM_INSTRUCTION_CLREX \<equiv> 163"
abbreviation (input) ARM_INSTRUCTION_DSB :: nat where "ARM_INSTRUCTION_DSB \<equiv> 164"
abbreviation (input) ARM_INSTRUCTION_DMB :: nat where "ARM_INSTRUCTION_DMB \<equiv> 165"
abbreviation (input) ARM_INSTRUCTION_ISB :: nat where "ARM_INSTRUCTION_ISB \<equiv> 166"
abbreviation (input) ARM_INSTRUCTION_MOVW :: nat where "ARM_INSTRUCTION_MOVW \<equiv> 167"
abbreviation (input) ARM_INSTRUCTION_MOVT :: nat where "ARM_INSTRUCTION_MOVT \<equiv> 168"
abbreviation (input) ARM_INSTRUCTION_UNKNOWN :: nat where "ARM_INSTRUCTION_UNKNOWN \<equiv> 169"
abbreviation (input) ARM_INSTRUCTION_NOT_INSTRUMENTED :: nat where "ARM_INSTRUCTION_NOT_INSTRUMENTED \<equiv> 170"
abbreviation (input) ARM_INSTRUCTION_TOTAL_COUNT :: nat where "ARM_INSTRUCTION_TOTAL_COUNT \<equiv> 171"
abbreviation (input) ARM_INSTRUCTIONS :: nat where "ARM_INSTRUCTIONS \<equiv> 172"

text \<open>The names that the reports print, in the order of the enumeration.\<close>

definition arm_instr_names :: "string list" where
  "arm_instr_names = [
  ''b'', ''bl'', ''blx'', ''bx'', ''bxj'', ''adc'', ''add'', ''and'', ''bic'', ''cmn'', ''cmp'',
    ''eor'', ''mov'', ''mvn'', ''orr'', ''rsb'', ''rsc'', ''sbc'', ''sub'', ''teq'', ''tst'', ''mul'',
    ''muls'', ''mla'', ''mlas'', ''smla<x><y>'', ''smlal'', ''smlals'', ''smlal<x><y>'', ''smlaw<y>'',
    ''smuad'', ''smusd'', ''smlad'', ''smlsd'', ''smlald'', ''smlsld'', ''smmla'', ''smmls'', ''smmul'',
    ''smul<x><y>'', ''smull'', ''smulls'', ''smulw<y>'', ''umaal'', ''umlal'', ''umlals'', ''umull'',
    ''umulls'', ''qadd'', ''qdadd'', ''qadd16'', ''qaddsubx'', ''qsubaddx'', ''qsub16'', ''qadd8'',
    ''qsub8'', ''qsub'', ''qdsub'', ''sadd16'', ''saddsubx'', ''ssubaddx'', ''ssub16'', ''sadd8'',
    ''ssub8'', ''shadd16'', ''shaddsubx'', ''shsubaddx'', ''shsub16'', ''shadd8'', ''shsub8'',
    ''uadd16'', ''uaddsubx'', ''usubaddx'', ''usub16'', ''uadd8'', ''usub8'', ''uhadd16'',
    ''uhaddsubx'', ''uhsubaddx'', ''uhsub16'', ''uhadd8'', ''uhsub8'', ''uqadd16'', ''uqaddsubx'',
    ''uqsubaddx'', ''uqsub16'', ''uqadd8'', ''uqsub8'', ''sxtab16'', ''sxtab'', ''sxtah'', ''sxtb16'',
    ''sxtb'', ''sxth'', ''uxtab16'', ''uxtab'', ''uxtah'', ''uxtb16'', ''uxtb'', ''uxth'', ''clz'',
    ''usad8'', ''usada8'', ''pkh'', ''pkhbt'', ''pkhtb'', ''rev'', ''rev16'', ''revsh'', ''sel'',
    ''ssat'', ''ssat16'', ''usat'', ''usat16'', ''mrs'', ''msr'', ''cps'', ''setend'', ''ldr'',
    ''ldrb'', ''ldrbt'', ''ldrd'', ''ldrex'', ''ldrh'', ''ldrsb'', ''ldrsh'', ''ldrt'', ''str'',
    ''strb'', ''strbt'', ''strd'', ''strex'', ''strh'', ''strt'', ''ldm1'', ''ldm2'', ''ldm3'',
    ''stm1'', ''stm2'', ''swp'', ''swpb'', ''bkpt'', ''swi'', ''cdp'', ''ldc'', ''mcr'', ''mcrr'',
    ''mrc'', ''mrrc'', ''stc'', ''pld'', ''rfe'', ''srs'', ''mcrr2'', ''mrrc2'', ''stc2'', ''ldc2'',
    ''cdp2'', ''mcr2'', ''mrc2'', ''coprocessor'', ''neon_dp'', ''neon_ls'', ''clrex'', ''dsb'',
    ''dmb'', ''isb'', ''movw'', ''movt'', ''unknown'', ''not_instrumented'', ''total_instructions'',
    ''arm_vfp_coprocessor'']"

text \<open>The entries of \<open>arm_instr_time\<close>; the array is filled from the configuration file.\<close>

type_synonym arm_time = "nat \<Rightarrow> int"

section \<open>Blocks and counters\<close>

record d4memref =
  address :: u32
  accesstype :: int
  rsize :: int

record ExtraTBInfo =
  tb_insn_count :: u32
  tb_load_count :: u8
  tb_store_count :: u8
  tb_ticks :: u64
  icache_ref :: d4memref
  tb_branch_count :: u32
  tb_all_changes_to_PC_count :: u32
  arm_count :: "nat \<Rightarrow> u64"
  insn_buf :: "nat \<Rightarrow> u64"
  insn_buf_index :: nat
  dual_issue_reduce_ticks :: u64

text \<open>The fields of the block that starting its analysis sets (\<open>icache_ref\<close> keeps its value).\<close>

definition tb_extra_info_init :: "ExtraTBInfo \<Rightarrow> ExtraTBInfo" where
  "tb_extra_info_init tb = tb\<lparr>tb_ticks := 0, tb_insn_count := 0, tb_branch_count := 0,
     tb_all_changes_to_PC_count := 0, tb_load_count := 0, tb_store_count := 0,
     arm_count := \<lambda>i. if i < ARM_INSTRUCTIONS + 2 then 0 else arm_count tb i,
     insn_buf := (insn_buf tb)(0 := 0, 1 := 0), insn_buf_index := 0, dual_issue_reduce_ticks := 0\<rparr>"

record VPMU =
  ARM_count :: "nat \<Rightarrow> u64"
  target_cpu_frequency :: u64
  cpu_model :: int
  USR_icount :: u64
  IRQ_icount :: u64
  SVC_icount :: u64
  sys_call_icount :: u64
  sys_rest_icount :: u64
  USR_ldst_count :: u64
  SVC_ldst_count :: u64
  IRQ_ldst_count :: u64
  sys_call_ldst_count :: u64
  sys_rest_ldst_count :: u64
  USR_load_count :: u64
  SVC_load_count :: u64
  IRQ_load_count :: u64
  sys_call_load_count :: u64
  sys_rest_load_count :: u64
  USR_store_count :: u64
  SVC_store_count :: u64
  IRQ_store_count :: u64
  sys_call_store_count :: u64
  sys_rest_store_count :: u64
  ticks :: u64
  eet_ns :: u64
  last_ticks :: u64
  epc_mpu :: u64
  branch_count :: u64
  all_changes_to_PC_count :: u64
  additional_icache_access :: u64
  iomem_count :: u64
  iomem_qemu :: u64
  reduce_ticks :: u64
  d4_maxlevel :: int
  l1_cache_miss_lat :: u64
  l2_cache_miss_lat :: u64
  branch_predict_correct :: u32
  branch_predict_wrong :: u32
  timing_register :: u32
  swi_fired :: int

section \<open>Timing models and simulators\<close>

definition TIMING_MODEL_A :: u32 where "TIMING_MODEL_A = 0x10000000"
definition TIMING_MODEL_B :: u32 where "TIMING_MODEL_B = 0x20000000"
definition TIMING_MODEL_C :: u32 where "TIMING_MODEL_C = 0x30000000"
definition TIMING_MODEL_D :: u32 where "TIMING_MODEL_D = 0x40000000"
definition TIMING_MODEL_E :: u32 where "TIMING_MODEL_E = 0x50000000"
definition TIMING_MODEL_F :: u32 where "TIMING_MODEL_F = 0x60000000"
definition TIMING_MODEL_G :: u32 where "TIMING_MODEL_G = 0x70000000"

definition VPMU_INSN_COUNT_SIM :: u32 where "VPMU_INSN_COUNT_SIM = 0x1"
definition VPMU_DCACHE_SIM :: u32 where "VPMU_DCACHE_SIM = 0x2"
definition VPMU_ICACHE_SIM :: u32 where "VPMU_ICACHE_SIM = 0x4"
definition VPMU_BRANCH_SIM :: u32 where "VPMU_BRANCH_SIM = 0x8"
definition VPMU_PIPELINE_SIM :: u32 where "VPMU_PIPELINE_SIM = 0x10"
definition VPMU_SAMPLING :: u32 where "VPMU_SAMPLING = 0x20"

lemmas timing_masks = TIMING_MODEL_A_def TIMING_MODEL_B_def TIMING_MODEL_C_def TIMING_MODEL_D_def
  TIMING_MODEL_E_def TIMING_MODEL_F_def TIMING_MODEL_G_def VPMU_INSN_COUNT_SIM_def VPMU_DCACHE_SIM_def
  VPMU_ICACHE_SIM_def VPMU_BRANCH_SIM_def VPMU_PIPELINE_SIM_def VPMU_SAMPLING_def

definition vpmu_simulator_turn_on :: "u32 \<Rightarrow> VPMU \<Rightarrow> VPMU" where
  "vpmu_simulator_turn_on m v = v\<lparr>timing_register := timing_register v OR m\<rparr>"

definition vpmu_model_setup :: "u32 \<Rightarrow> VPMU \<Rightarrow> VPMU" where
  "vpmu_model_setup model v = (let v = v\<lparr>timing_register := model\<rparr> in
     if model = TIMING_MODEL_A then vpmu_simulator_turn_on VPMU_INSN_COUNT_SIM v
     else if model = TIMING_MODEL_B then vpmu_simulator_turn_on VPMU_PIPELINE_SIM v
     else if model = TIMING_MODEL_C then vpmu_simulator_turn_on (VPMU_PIPELINE_SIM OR VPMU_DCACHE_SIM) v
     else if model = TIMING_MODEL_D
       then vpmu_simulator_turn_on (VPMU_PIPELINE_SIM OR VPMU_DCACHE_SIM OR VPMU_ICACHE_SIM) v
     else if model = TIMING_MODEL_E
       then vpmu_simulator_turn_on (VPMU_INSN_COUNT_SIM OR VPMU_DCACHE_SIM OR VPMU_ICACHE_SIM OR VPMU_BRANCH_SIM
         OR VPMU_PIPELINE_SIM) v
     else if model = TIMING_MODEL_F then vpmu_simulator_turn_on (VPMU_INSN_COUNT_SIM OR VPMU_PIPELINE_SIM) v
     else if model = TIMING_MODEL_G
       then vpmu_simulator_turn_on (VPMU_INSN_COUNT_SIM OR VPMU_DCACHE_SIM OR VPMU_ICACHE_SIM OR VPMU_PIPELINE_SIM) v
     else v)"

definition vpmu_simulator_status :: "u32 \<Rightarrow> VPMU \<Rightarrow> int" where
  "vpmu_simulator_status opt v = (let ctrl_reg = timing_register v in
     if opt = 0 then 0
     else if opt \<in> {VPMU_INSN_COUNT_SIM, VPMU_DCACHE_SIM, VPMU_ICACHE_SIM, VPMU_BRANCH_SIM, VPMU_PIPELINE_SIM, VPMU_SAMPLING}
       then if ctrl_reg AND opt \<noteq> 0 then 1 else 0
     else -1)"

text \<open>The test of a call in a condition: every value but 0 is true.\<close>

abbreviation sim_on :: "u32 \<Rightarrow> VPMU \<Rightarrow> bool" where
  "sim_on opt v \<equiv> vpmu_simulator_status opt v \<noteq> 0"

end
