(* ===== verification/VPMU_Insn.thy ===== *)
theory VPMU_Insn
  imports VPMU_Types
begin

unbundle bit_operations_syntax

text \<open>
  The instruction analysis of the virtual performance monitoring unit (\<^verbatim>\<open>hw/vpmu-device.c\<close>):
  \<open>get_insn_ticks\<close>, the number of cycles of an ARM instruction with the register interlocks of the
  pipeline, and \<open>get_insn_parser\<close>, which counts the instructions that change the program counter. The
  table \<open>arm_instr_time\<close> is read from the configuration and is the parameter \<open>tm\<close>. The two static
  counters are C integers that are never reset; the bounds below show how far they are from an overflow.
\<close>

section \<open>Register interlocks\<close>

record ilock =
  interlocks :: "int \<Rightarrow> int"
  interlock_base :: int

definition interlock_def :: "int \<Rightarrow> int \<Rightarrow> ilock \<Rightarrow> ilock" where
  "interlock_def reg delay s =
     (if 0 \<le> reg then s\<lparr>interlocks := (interlocks s)(reg := interlock_base s + delay)\<rparr> else s)"

definition interlock_use :: "int \<Rightarrow> ilock \<Rightarrow> int" where
  "interlock_use reg s =
     (if 0 \<le> reg then let delay = interlocks s reg - interlock_base s in if delay < 0 then 0 else delay else 0)"

section \<open>Decoding helpers\<close>

definition fld :: "nat \<Rightarrow> u32 \<Rightarrow> int" where
  "fld n insn = uint (drop_bit n insn AND 15)"

definition set_in :: "u32 \<Rightarrow> u32 \<Rightarrow> bool" where
  "set_in insn m \<longleftrightarrow> insn AND m \<noteq> 0"

section \<open>Cycles by instruction class\<close>

text \<open>Multiplies, swaps and the extra loads and stores (bits 7 and 4 set). \<open>None\<close> is the jump to \<open>Exit\<close>.\<close>

definition ticks_mul :: "arm_time \<Rightarrow> u32 \<Rightarrow> ilock \<Rightarrow> int \<times> ilock" where
  "ticks_mul tm insn s = (let Rm = fld 0 insn; Rs = fld 8 insn; Rn = fld 12 insn; Rd = fld 16 insn; result = 1 in
     if \<not> set_in insn 0x00200000 \<and> Rn \<noteq> 0 then (result, s)
     else let result = (if set_in insn 0x00200000 \<and> interlock_use Rn s > 1 then result + (interlock_use Rn s - 1) else result);
              result = result + (tm (if set_in insn 0x00100000 then ARM_INSTRUCTION_MULS else ARM_INSTRUCTION_MUL) - 1 + interlock_use Rm s + interlock_use Rs s)
          in (result, interlock_def Rd (result + 1) s))"

definition ticks_mul_long :: "arm_time \<Rightarrow> u32 \<Rightarrow> ilock \<Rightarrow> int \<times> ilock" where
  "ticks_mul_long tm insn s = (let Rm = fld 0 insn; Rs = fld 8 insn; RdLo = fld 12 insn; RdHi = fld 16 insn; result = 1;
       result = (if set_in insn 0x00200000 \<and> interlock_use RdLo s > 1 then result + (interlock_use RdLo s - 1) else result);
       result = (if set_in insn 0x00200000 \<and> interlock_use RdHi s > 1 then result + (interlock_use RdHi s - 1) else result);
       result = result + (tm (if set_in insn 0x00100000 then ARM_INSTRUCTION_SMULLS else ARM_INSTRUCTION_SMULL) - 1 + interlock_use Rm s + interlock_use Rs s)
     in (result, interlock_def RdHi (result + 1) (interlock_def RdLo (result + 1) s)))"

definition ticks_swap :: "arm_time \<Rightarrow> u32 \<Rightarrow> ilock \<Rightarrow> int \<times> ilock" where
  "ticks_swap tm insn s = (let Rm = fld 0 insn; Rd = fld 8 insn; result = 2 + interlock_use Rm s in
     (result, interlock_def Rd (result + tm (if set_in insn 0x00400000 then ARM_INSTRUCTION_SWPB else ARM_INSTRUCTION_SWP) - 1) s))"

definition ticks_half_reg :: "arm_time \<Rightarrow> u32 \<Rightarrow> ilock \<Rightarrow> int \<times> ilock" where
  "ticks_half_reg tm insn s = (let Rm = fld 0 insn; Rd = fld 12 insn; Rn = fld 16 insn;
       result = 1 + (interlock_use Rn s + interlock_use Rm s) in
     (result, if set_in insn 0x00100000 then interlock_def Rd (result + tm ARM_INSTRUCTION_LDRH - 1) s else s))"

definition ticks_half_imm :: "arm_time \<Rightarrow> u32 \<Rightarrow> ilock \<Rightarrow> int \<times> ilock" where
  "ticks_half_imm tm insn s = (let Rd = fld 12 insn; Rn = fld 16 insn; result = 1 + interlock_use Rn s in
     (result, if set_in insn 0x00100000 then interlock_def Rd (result + tm ARM_INSTRUCTION_LDRH - 1) s else s))"

definition ticks_two_reg :: "arm_time \<Rightarrow> u32 \<Rightarrow> ilock \<Rightarrow> int \<times> ilock" where
  "ticks_two_reg tm insn s = (let Rd = fld 12 insn; Rn = fld 16 insn; result = 1 + (1 + interlock_use Rn s) in
     (result, if \<not> set_in insn 0x00000020 \<and> Rd \<noteq> 15 then interlock_def (Rd + 1) (result + tm ARM_INSTRUCTION_LDR - 1) s else s))"

definition ticks_signed_reg :: "arm_time \<Rightarrow> u32 \<Rightarrow> ilock \<Rightarrow> int \<times> ilock" where
  "ticks_signed_reg tm insn s = (let Rm = fld 0 insn; Rd = fld 12 insn; Rn = fld 16 insn;
       result = 1 + (interlock_use Rn s + interlock_use Rm s) in
     (result, if set_in insn 0x00100000 then interlock_def Rd (result + tm ARM_INSTRUCTION_LDRSH - 1) s else s))"

text \<open>The two immediate forms define the interlock without the cycles of the instruction itself.\<close>

definition ticks_two_imm :: "arm_time \<Rightarrow> u32 \<Rightarrow> ilock \<Rightarrow> int \<times> ilock" where
  "ticks_two_imm tm insn s = (let Rd = fld 12 insn; Rn = fld 16 insn; result = 1 + (1 + interlock_use Rn s) in
     (result, if \<not> set_in insn 0x00000020 \<and> Rd \<noteq> 15 then interlock_def (Rd + 1) (tm ARM_INSTRUCTION_LDR - 1) s else s))"

definition ticks_signed_imm :: "arm_time \<Rightarrow> u32 \<Rightarrow> ilock \<Rightarrow> int \<times> ilock" where
  "ticks_signed_imm tm insn s = (let Rd = fld 12 insn; Rn = fld 16 insn; result = 1 + interlock_use Rn s in
     (result, if set_in insn 0x00100000 then interlock_def Rd (tm ARM_INSTRUCTION_LDRSH - 1) s else s))"

definition ticks_extra :: "arm_time \<Rightarrow> u32 \<Rightarrow> ilock \<Rightarrow> int \<times> ilock" where
  "ticks_extra tm insn s =
     (if insn AND 0x0fc000f0 = 0x00000090 then ticks_mul tm insn s
      else if insn AND 0x0f8000f0 = 0x00800090 then ticks_mul_long tm insn s
      else if insn AND 0x0fb00ff0 = 0x01000090 then ticks_swap tm insn s
      else if insn AND 0x0e400ff0 = 0x000000b0 then ticks_half_reg tm insn s
      else if insn AND 0x0e4000f0 = 0x004000b0 then ticks_half_imm tm insn s
      else if insn AND 0x0e500fd0 = 0x000000d0 then ticks_two_reg tm insn s
      else if insn AND 0x0e500fd0 = 0x001000d0 then ticks_signed_reg tm insn s
      else if insn AND 0x0e5000d0 = 0x004000d0 then ticks_two_imm tm insn s
      else if insn AND 0x0e5000d0 = 0x005000d0 then ticks_signed_imm tm insn s
      else (1, s))"

text \<open>Status register moves, branch and exchange, count leading zeroes.\<close>

definition ticks_misc :: "arm_time \<Rightarrow> u32 \<Rightarrow> ilock \<Rightarrow> int" where
  "ticks_misc tm insn s = (let Rm = fld 0 insn; k = fld 4 insn in
     if k = 0 then
       if insn AND 0x0fb0fff0 = 0x0120f000
       then if 0 < drop_bit 16 insn AND 7 then 1 + (2 + interlock_use Rm s) else 1 + interlock_use Rm s
       else if insn AND 0xfbf0fff = 0x010f0000 then 1 + 1 else 1
     else if k = 1 then
       if insn AND 0x0ffffff0 = 0x012fff10 then 1 + (tm ARM_INSTRUCTION_BX - 1 + interlock_use Rm s)
       else if insn AND 0x0fff0ff0 = 0x016f0f10 then 1 + (tm ARM_INSTRUCTION_CLZ - 1 + interlock_use Rm s) else 1
     else if k = 3 then
       if insn AND 0x0ffffff0 = 0x012fff30 then 1 + (tm ARM_INSTRUCTION_BLX - 1 + interlock_use Rm s) else 1
     else 1)"

definition ticks_data :: "u32 \<Rightarrow> ilock \<Rightarrow> int" where
  "ticks_data insn s = (let Rm = fld 0 insn; Rn = fld 16 insn; Rs = fld 8 insn; Rd = fld 12 insn;
       result = 1 + (interlock_use Rn s + interlock_use Rm s);
       result = (if set_in insn 0x10 then result + (1 + interlock_use Rs s) else result)
     in if Rd = 15 then result + 2 else result)"

definition ticks_data_imm :: "u32 \<Rightarrow> ilock \<Rightarrow> int" where
  "ticks_data_imm insn s =
     (if insn AND 0x03b0f000 = 0x0320f000 then 1 else let Rn = fld 12 insn in 1 + interlock_use Rn s)"

definition ticks_ldst_imm :: "u32 \<Rightarrow> ilock \<Rightarrow> int \<times> ilock" where
  "ticks_ldst_imm insn s = (let Rn = fld 16 insn; Rd = fld 12 insn; result = 1 + interlock_use Rn s in
     if set_in insn 0x00100000
     then if Rd = 15 then (result + 4, s) else (result, interlock_def Rd (result + 1) s)
     else (result, s))"

definition ticks_ldst_reg :: "u32 \<Rightarrow> ilock \<Rightarrow> int \<times> ilock" where
  "ticks_ldst_reg insn s =
     (if \<not> set_in insn 0x10 then
        let Rm = fld 0 insn; Rn = fld 16 insn; Rd = fld 12 insn; result = 1 + (interlock_use Rm s + interlock_use Rn s) in
        if set_in insn 0x00100000
        then if Rd = 15 then (if insn AND 0xff0 = 0 then 5 else 6, s) else (result, interlock_def Rd (result + 1) s)
        else (if insn AND 0xff0 = 0 then 1 else 2, s)
      else (1, s))"

text \<open>Load and store multiple: the first register of the list, and the number of registers.\<close>

fun ldm_scan :: "nat \<Rightarrow> int \<Rightarrow> u32 \<Rightarrow> ilock \<Rightarrow> int" where
  "ldm_scan 0 count m s = 0"
| "ldm_scan (Suc n) count m s =
     (if m AND 1 \<noteq> 0 then (if interlock_use count s = 1 then 2 else 0)
      else ldm_scan n (count + 1) (drop_bit 1 m) s)"

lemma clear_lowest_less: "m \<noteq> 0 \<Longrightarrow> unat (m AND (m - 1)) < unat m" for m :: u32
proof -
  assume "m \<noteq> 0"
  then have "m - 1 < m" by (simp add: word_less_nat_alt unat_minus_one unat_gt_0)
  moreover have "m AND (m - 1) \<le> m - 1" by (simp add: word_and_le1)
  ultimately show ?thesis by (simp add: word_less_nat_alt word_le_nat_alt)
qed

function count_regs :: "u32 \<Rightarrow> int" where
  "count_regs m = (if m = 0 then 0 else 1 + count_regs (m AND (m - 1)))"
  by auto
termination by (relation "measure unat") (auto simp: clear_lowest_less)

declare count_regs.simps [simp del]

definition ldm_defs :: "u32 \<Rightarrow> int \<Rightarrow> ilock \<Rightarrow> ilock" where
  "ldm_defs insn result s =
     fold (\<lambda>nn s. if insn AND push_bit (nat nn) 1 \<noteq> 0 then interlock_def nn result s else s) [0..14] s"

definition ticks_multiple :: "u32 \<Rightarrow> ilock \<Rightarrow> int \<times> ilock" where
  "ticks_multiple insn s = (let Rn = fld 16 insn; m = insn AND 0xffff; result = 1 + ldm_scan 15 0 m s;
       count = count_regs m; result = result + interlock_use Rn s; moved = (if count < 2 then 2 else count) - 1 in
     if set_in insn 0x00100000
     then let result = (if set_in insn 0x8000 then count + 4 else result + moved) in (result, ldm_defs insn result s)
     else (result + moved, s))"

definition ticks_coproc :: "u32 \<Rightarrow> ilock \<Rightarrow> int" where
  "ticks_coproc insn s = (if set_in insn 0x00100000 then 1 + interlock_use (fld 16 insn) s else 1)"

definition insn_ticks :: "arm_time \<Rightarrow> u32 \<Rightarrow> ilock \<Rightarrow> int \<times> ilock" where
  "insn_ticks tm insn s =
     (if drop_bit 28 insn = 0xf then
        if drop_bit 25 insn = 0x7d then (tm ARM_INSTRUCTION_BLX, s)
        else if insn AND 0x0d70f000 = 0x0550f000 then (tm ARM_INSTRUCTION_PLD, s)
        else (1, s)
      else let k = uint (drop_bit 25 insn AND 7) in
        if k = 0 then
          if insn AND 0x90 = 0x90 then ticks_extra tm insn s
          else if insn AND 0x0f900000 = 0x01000000 then (ticks_misc tm insn s, s)
          else (ticks_data insn s, s)
        else if k = 1 then (ticks_data_imm insn s, s)
        else if k = 2 then ticks_ldst_imm insn s
        else if k = 3 then ticks_ldst_reg insn s
        else if k = 4 then ticks_multiple insn s
        else if k = 5 then (3, s)
        else if k = 6 then (ticks_coproc insn s, s)
        else (1, s))"

definition get_insn_ticks :: "arm_time \<Rightarrow> u32 \<Rightarrow> ilock \<Rightarrow> int \<times> ilock" where
  "get_insn_ticks tm insn s = (let (result, s) = insn_ticks tm insn s in
     (result, s\<lparr>interlock_base := interlock_base s + result\<rparr>))"

section \<open>Changes of the program counter\<close>

text \<open>
  The second switch is reached only with the program counter as one of two register fields; its case
  for the first class is dead code because the first switch has left the function for that class.
\<close>

definition pc_late :: "u32 \<Rightarrow> bool" where
  "pc_late insn = (let k = uint (drop_bit 25 insn AND 7) in
     if k = 0 then
       if insn AND 0x90 = 0x90 then False
       else if insn AND 0x0f900000 = 0x01000000 then False
       else fld 12 insn = 15
     else if k = 1 then insn AND 0x01900000 \<noteq> 0x01900000 \<and> fld 12 insn = 15
     else if k = 2 then set_in insn 0x00100000 \<and> fld 12 insn = 15
     else if k = 3 then \<not> set_in insn 0x10 \<and> set_in insn 0x00100000 \<and> fld 16 insn = 15
     else if k = 4 then set_in insn 0x00100000 \<and> set_in insn 0x8000
     else False)"

definition count_PC_change :: "ExtraTBInfo \<Rightarrow> ExtraTBInfo" where
  "count_PC_change s = s\<lparr>tb_all_changes_to_PC_count := tb_all_changes_to_PC_count s + 1\<rparr>"

definition get_insn_parser :: "u32 \<Rightarrow> ExtraTBInfo \<Rightarrow> ExtraTBInfo" where
  "get_insn_parser insn s =
     (if drop_bit 28 insn = 0xf \<and> drop_bit 25 insn = 0x7d then count_PC_change s
      else let k = uint (drop_bit 25 insn AND 7) in
        if k = 0 then
          if insn AND 0x0f900000 = 0x01000000 \<and> fld 4 insn = 1 \<and> insn AND 0x0ffffff0 = 0x01200010
          then count_PC_change s
          else count_PC_change s
        else if k = 5 then count_PC_change s
        else if (fld 12 insn = 15 \<or> fld 16 insn = 15) \<and> pc_late insn then count_PC_change s
        else s)"

section \<open>Counting registers\<close>

lemma bit_even_Suc: "bit (2 * n) i \<longleftrightarrow> (\<exists>j. i = Suc j \<and> bit n j)" "bit (2 * n + 1) i \<longleftrightarrow> i = 0 \<or> (\<exists>j. i = Suc j \<and> bit n j)" for n :: nat
  by (cases i; simp add: bit_0 bit_Suc)+
lemma and_pred_odd: "(2 * q + 1) AND (2 * q) = 2 * q" for q :: nat
  by (rule bit_eqI) (auto simp only: bit_and_iff bit_even_Suc)
lemma and_pred_even: "(2 * q) AND (2 * p + 1) = 2 * (q AND p)" for p q :: nat
  by (rule bit_eqI) (auto simp only: bit_and_iff bit_even_Suc)
lemma bit_unat_u32: "bit (unat m) i = bit m i" for m :: u32 by (simp add: bit_unsigned_iff)
lemma unat_and_u32: "unat (a AND b) = unat a AND unat b" for a b :: u32 by (simp add: unsigned_and_eq)

lemma bits_double: "{i. bit (2 * n) i} = Suc ` {i. bit n i}" "{i. bit (2 * n + 1) i} = insert 0 (Suc ` {i. bit n i})" for n :: nat
  by (auto simp only: bit_even_Suc)

lemma finite_bits: "finite {i. bit n i}" for n :: nat
proof (induction n rule: less_induct)
  case (less n)
  show ?case
  proof (cases "n = 0")
    case False
    then have IH: "finite {i. bit (n div 2) i}" using less by simp
    have "n = 2 * (n div 2) \<or> n = 2 * (n div 2) + 1" by presburger
    then have "{i. bit n i} \<subseteq> insert 0 (Suc ` {i. bit (n div 2) i})"
      using bits_double [of "n div 2"] by auto
    then show ?thesis using IH by (meson finite.insertI finite_imageI finite_subset)
  qed simp
qed

lemma clear_lowest_card: "n \<noteq> 0 \<Longrightarrow> card {i. bit n i} = Suc (card {i. bit (n AND (n - 1)) i})" for n :: nat
proof (induction n rule: less_induct)
  case (less n)
  define q where "q = n div 2"
  have inj: "card (Suc ` A) = card A" for A by (simp add: card_image)
  have "n = 2 * q \<or> n = 2 * q + 1" unfolding q_def by presburger
  then show ?case
  proof
    assume n: "n = 2 * q"
    then have q: "q \<noteq> 0" "q < n" using less.prems by auto
    have "n - 1 = 2 * (q - 1) + 1" using n q by simp
    then have "n AND (n - 1) = 2 * (q AND (q - 1))" using n and_pred_even by simp
    then show ?thesis using less.IH [OF q(2,1)] n by (simp add: bits_double inj)
  next
    assume n: "n = 2 * q + 1"
    then have "n AND (n - 1) = 2 * q" using and_pred_odd by simp
    then show ?thesis using n finite_bits [of q] by (simp add: bits_double(2) [simplified] bits_double(1) inj)
  qed
qed

lemma count_regs_card: "count_regs m = int (card {i. bit m i})"
proof (induction m rule: count_regs.induct)
  case (1 m)
  show ?case
  proof (cases "m = 0")
    case False
    have "card {i. bit (unat m) i} = Suc (card {i. bit (unat m AND (unat m - 1)) i})"
      using clear_lowest_card [of "unat m"] False by (simp add: unat_eq_0)
    moreover have "unat m AND (unat m - 1) = unat (m AND (m - 1))"
      using False by (simp add: unat_and_u32 unat_minus_one)
    ultimately have "card {i. bit m i} = Suc (card {i. bit (m AND (m - 1)) i})" by (simp add: bit_unat_u32)
    then show ?thesis using 1 False by (simp add: count_regs.simps [of m])
  qed (simp add: count_regs.simps)
qed

lemma count_regs_16: "0 \<le> count_regs (insn AND 0xffff)" "count_regs (insn AND 0xffff) \<le> 16"
proof -
  have m: "(0xffff :: u32) = mask 16" by (simp add: mask_eq_exp_minus_1)
  have "{i. bit (insn AND 0xffff) i} \<subseteq> {..<16}" by (auto simp: m bit_and_iff bit_mask_iff)
  then have "card {i. bit (insn AND 0xffff) i} \<le> 16" using card_mono [of "{..<16 :: nat}"] by fastforce
  then show "0 \<le> count_regs (insn AND 0xffff)" "count_regs (insn AND 0xffff) \<le> 16" by (simp_all add: count_regs_card)
qed

section \<open>Bounds of the interlocks\<close>

text \<open>No counter is negative, and no register is locked for more than \<open>K\<close> cycles from now.\<close>

definition lock_le :: "int \<Rightarrow> ilock \<Rightarrow> bool" where
  "lock_le K s \<longleftrightarrow> 0 \<le> interlock_base s \<and> (\<forall>r \<in> {0..15}. 0 \<le> interlocks s r \<and> interlocks s r \<le> interlock_base s + K)"

lemma fld_range [simp]: "0 \<le> fld n insn" "fld n insn \<le> 15"
proof -
  show "0 \<le> fld n insn" by (simp add: fld_def)
  have "drop_bit n insn AND 15 \<le> 15" by (rule word_and_le1)
  then show "fld n insn \<le> 15" by (simp add: fld_def word_le_def)
qed

lemma use_range:
  assumes "lock_le K s" and "0 \<le> K" and "r \<le> 15"
  shows "0 \<le> interlock_use r s" "interlock_use r s \<le> K"
proof -
  have "0 \<le> r \<Longrightarrow> interlocks s r \<le> interlock_base s + K" using assms(1,3) by (simp add: lock_le_def)
  then show "0 \<le> interlock_use r s" "interlock_use r s \<le> K"
    using assms(2) by (auto simp: interlock_use_def Let_def)
qed

lemma interlock_def_base [simp]: "interlock_base (interlock_def r d s) = interlock_base s"
  by (simp add: interlock_def_def)

lemma lock_le_def_reg: "lock_le K s \<Longrightarrow> 0 \<le> d \<Longrightarrow> d \<le> K \<Longrightarrow> lock_le K (interlock_def r d s)"
  by (simp add: lock_le_def interlock_def_def)

lemma lock_le_mono: "lock_le K s \<Longrightarrow> K \<le> L \<Longrightarrow> lock_le L s"
  by (force simp: lock_le_def)

text \<open>What one instruction class must satisfy.\<close>

definition class_ok :: "int \<Rightarrow> ilock \<Rightarrow> int \<times> ilock \<Rightarrow> bool" where
  "class_ok M s r \<longleftrightarrow> 1 \<le> fst r \<and> fst r \<le> 5 * M + 18 \<and> lock_le (M + fst r) (snd r) \<and>
     interlock_base (snd r) = interlock_base s"

lemma class_ok_same: "lock_le M s \<Longrightarrow> 1 \<le> t \<Longrightarrow> t \<le> 5 * M + 18 \<Longrightarrow> class_ok M s (t, s)"
  by (auto simp: class_ok_def intro: lock_le_mono)

lemma class_ok_def_reg:
  "class_ok M s (t, s1) \<Longrightarrow> 0 \<le> d \<Longrightarrow> d \<le> M + t \<Longrightarrow> class_ok M s (t, interlock_def r d s1)"
  by (simp add: class_ok_def lock_le_def_reg)

lemmas class_ok_intros = class_ok_def_reg class_ok_same

text \<open>
  The times of the real instructions, the entries before \<open>ARM_INSTRUCTION_UNKNOWN\<close>; the three entries after them have the time 0
  in every configuration file.
\<close>

definition time_ok :: "int \<Rightarrow> arm_time \<Rightarrow> bool" where
  "time_ok M tm \<longleftrightarrow> (\<forall>i < ARM_INSTRUCTION_UNKNOWN. 1 \<le> tm i \<and> tm i \<le> M)"

lemma time_okD: "time_ok M tm \<Longrightarrow> i < ARM_INSTRUCTION_UNKNOWN \<Longrightarrow> 1 \<le> tm i" "time_ok M tm \<Longrightarrow> i < ARM_INSTRUCTION_UNKNOWN \<Longrightarrow> tm i \<le> M"
  "time_ok M tm \<Longrightarrow> 1 \<le> M"
  unfolding time_ok_def by (blast, blast, meson order_trans zero_less_numeral)

lemma fld_use:
  assumes "lock_le M s" and "1 \<le> M"
  shows "0 \<le> interlock_use (fld n insn) s" "interlock_use (fld n insn) s \<le> M"
  using use_range [OF assms(1), of "fld n insn"] assms(2) by simp_all

lemma ticks_mul_ok:
  assumes "time_ok M tm" and s: "lock_le M s"
  shows "class_ok M s (ticks_mul tm insn s)" "class_ok M s (ticks_mul_long tm insn s)"
proof -
  note M = time_okD [OF assms(1)]
  note u = fld_use [OF s M(3), where insn = insn]
  show "class_ok M s (ticks_mul tm insn s)"
    using u [of 0] u [of 8] u [of 12] M(1) [of ARM_INSTRUCTION_MULS, simplified] M(2) [of ARM_INSTRUCTION_MULS, simplified] M(1) [of ARM_INSTRUCTION_MUL, simplified] M(2) [of ARM_INSTRUCTION_MUL, simplified] M(3) s
    unfolding ticks_mul_def Let_def by (auto intro!: class_ok_intros)
  show "class_ok M s (ticks_mul_long tm insn s)"
    using u [of 0] u [of 8] u [of 12] u [of 16] M(1) [of ARM_INSTRUCTION_SMULLS, simplified] M(2) [of ARM_INSTRUCTION_SMULLS, simplified] M(1) [of ARM_INSTRUCTION_SMULL, simplified] M(2) [of ARM_INSTRUCTION_SMULL, simplified] M(3) s
    unfolding ticks_mul_long_def Let_def by (auto intro!: class_ok_intros)
qed

lemma ticks_extra_ok:
  assumes "time_ok M tm" and s: "lock_le M s"
  shows "class_ok M s (ticks_extra tm insn s)"
proof -
  note M = time_okD [OF assms(1)]
  note u = fld_use [OF s M(3), where insn = insn]
  have "class_ok M s (ticks_swap tm insn s)"
    using u [of 0] M(1) [of ARM_INSTRUCTION_SWPB, simplified] M(2) [of ARM_INSTRUCTION_SWPB, simplified] M(1) [of ARM_INSTRUCTION_SWP, simplified] M(2) [of ARM_INSTRUCTION_SWP, simplified] M(3) s
    unfolding ticks_swap_def Let_def by (auto intro!: class_ok_intros)
  moreover have "class_ok M s (ticks_half_reg tm insn s)" "class_ok M s (ticks_half_imm tm insn s)"
    using u [of 0] u [of 16] M(1) [of ARM_INSTRUCTION_LDRH, simplified] M(2) [of ARM_INSTRUCTION_LDRH, simplified] M(3) s
    unfolding ticks_half_reg_def ticks_half_imm_def Let_def by (auto intro!: class_ok_intros)
  moreover have "class_ok M s (ticks_two_reg tm insn s)" "class_ok M s (ticks_two_imm tm insn s)"
    using u [of 16] M(1) [of ARM_INSTRUCTION_LDR, simplified] M(2) [of ARM_INSTRUCTION_LDR, simplified] M(3) s
    unfolding ticks_two_reg_def ticks_two_imm_def Let_def by (auto intro!: class_ok_intros)
  moreover have "class_ok M s (ticks_signed_reg tm insn s)" "class_ok M s (ticks_signed_imm tm insn s)"
    using u [of 0] u [of 16] M(1) [of ARM_INSTRUCTION_LDRSH, simplified] M(2) [of ARM_INSTRUCTION_LDRSH, simplified] M(3) s
    unfolding ticks_signed_reg_def ticks_signed_imm_def Let_def by (auto intro!: class_ok_intros)
  moreover have "class_ok M s (1, s)" using M(3) s by (intro class_ok_same) auto
  ultimately show ?thesis using ticks_mul_ok [OF assms] unfolding ticks_extra_def by simp
qed

lemma ticks_simple_ok:
  assumes "time_ok M tm" and s: "lock_le M s"
  shows "class_ok M s (ticks_misc tm insn s, s)" "class_ok M s (ticks_data insn s, s)"
    "class_ok M s (ticks_data_imm insn s, s)" "class_ok M s (ticks_coproc insn s, s)"
    "class_ok M s (ticks_ldst_imm insn s)" "class_ok M s (ticks_ldst_reg insn s)"
proof -
  note M = time_okD [OF assms(1)]
  note u = fld_use [OF s M(3), where insn = insn]
  show "class_ok M s (ticks_misc tm insn s, s)"
    using u [of 0] M(1) [of ARM_INSTRUCTION_BX, simplified] M(2) [of ARM_INSTRUCTION_BX, simplified] M(1) [of ARM_INSTRUCTION_CLZ, simplified] M(2) [of ARM_INSTRUCTION_CLZ, simplified] M(1) [of ARM_INSTRUCTION_BLX, simplified] M(2) [of ARM_INSTRUCTION_BLX, simplified] M(3) s
    unfolding ticks_misc_def Let_def by (auto intro!: class_ok_same)
  show "class_ok M s (ticks_data insn s, s)"
    using u [of 0] u [of 8] u [of 16] M(3) s unfolding ticks_data_def Let_def by (auto intro!: class_ok_same)
  show "class_ok M s (ticks_data_imm insn s, s)" "class_ok M s (ticks_coproc insn s, s)"
    using u [of 12] u [of 16] M(3) s unfolding ticks_data_imm_def ticks_coproc_def Let_def by (auto intro!: class_ok_same)
  show "class_ok M s (ticks_ldst_imm insn s)" "class_ok M s (ticks_ldst_reg insn s)"
    using u [of 0] u [of 16] M(3) s
    unfolding ticks_ldst_imm_def ticks_ldst_reg_def Let_def by (auto intro!: class_ok_intros)
qed

lemma ldm_scan_range: "0 \<le> ldm_scan n c m s" "ldm_scan n c m s \<le> 2"
  by (induction n arbitrary: c m) auto

lemma ldm_defs_ok: "class_ok M s (t, s) \<Longrightarrow> 0 \<le> M \<Longrightarrow> class_ok M s (t, ldm_defs insn t s)"
  unfolding ldm_defs_def
  by (rule fold_invariant_set [of "\<lambda>s1. class_ok M s (t, s1)"]) (auto simp: class_ok_def intro!: lock_le_def_reg)

lemma ticks_multiple_ok:
  assumes "time_ok M tm" and s: "lock_le M s"
  shows "class_ok M s (ticks_multiple insn s)"
proof -
  note M = time_okD [OF assms(1)]
  have "class_ok M s (count_regs (insn AND 0xffff) + 4, s)"
    using count_regs_16 [of insn] M(3) s by (auto intro!: class_ok_same)
  moreover have "class_ok M s (1 + ldm_scan 15 0 (insn AND 0xffff) s + interlock_use (fld 16 insn) s +
      ((if count_regs (insn AND 0xffff) < 2 then 2 else count_regs (insn AND 0xffff)) - 1), s)"
    using count_regs_16 [of insn] M(3) s fld_use [OF s M(3), of 16 insn] ldm_scan_range [of 15 0 "insn AND 0xffff" s]
    by (auto intro!: class_ok_same)
  ultimately show ?thesis using ldm_defs_ok M(3) unfolding ticks_multiple_def Let_def by simp
qed

lemma insn_ticks_ok:
  assumes "time_ok M tm" and s: "lock_le M s"
  shows "class_ok M s (insn_ticks tm insn s)"
proof -
  note M = time_okD [OF assms(1)]
  have c: "class_ok M s (t, s)" if "1 \<le> t" "t \<le> M + 3" for t using that M(3) s by (intro class_ok_same) auto
  have "class_ok M s (tm ARM_INSTRUCTION_BLX, s)" "class_ok M s (tm ARM_INSTRUCTION_PLD, s)" "class_ok M s (1, s)" "class_ok M s (3, s)"
    using M(1) [of ARM_INSTRUCTION_BLX, simplified] M(2) [of ARM_INSTRUCTION_BLX, simplified] M(1) [of ARM_INSTRUCTION_PLD, simplified]
      M(2) [of ARM_INSTRUCTION_PLD, simplified] M(3) by (auto intro!: c)
  then show ?thesis
    using ticks_extra_ok [OF assms] ticks_simple_ok [OF assms] ticks_multiple_ok [OF assms]
    unfolding insn_ticks_def Let_def by simp
qed

text \<open>Tests of some bits decide tests of others.\<close>

lemma and_mask_sub: "x AND a = c \<Longrightarrow> x AND (a AND b) = c AND b" for x a b c :: u32
  by (metis and.assoc)

section \<open>Properties of the instruction analysis\<close>

text \<open>The times of \<^verbatim>\<open>vpmu_config/def-config-arm926\<close> and \<^verbatim>\<open>vpmu_config/def-config-cortex-a9\<close>, without the entry beyond the table.\<close>

definition arm926_table :: "int list" where
  "arm926_table = [3, 3, 3, 3, 3, 1, 1, 1, 1, 1, 1, 1, 1, 1, 1, 1, 1, 1, 1, 1, 1, 2, 4, 2, 4, 1, 3, 5, 2, 1, 1, 1, 1, 1, 2, 2, 2, 2, 2, 1, 3, 5, 1,
     3, 3, 5, 3, 5, 2, 3, 2, 1, 1, 2, 2, 2, 2, 3, 1, 1, 1, 1, 1, 1, 2, 1, 1, 2, 2, 2, 1, 1, 1, 1, 1, 1, 2, 1, 1, 2, 2, 2, 2, 1, 1, 2,
     2, 2, 3, 3, 3, 2, 2, 2, 3, 3, 3, 2, 2, 2, 1, 1, 1, 1, 1, 1, 1, 1, 1, 1, 1, 1, 3, 1, 2, 1, 1, 1, 1, 3, 1, 1, 1, 3, 3, 3, 1, 1, 2,
     1, 1, 1, 2, 1, 1, 1, 1, 1, 1, 2, 3, 1, 1, 1, 1, 1, 1, 1, 1, 1, 1, 1, 1, 1, 1, 1, 1, 1, 1, 1, 1, 1, 1, 1, 1, 1, 1, 1, 1, 0, 0, 0]"

definition cortex_a9_table :: "int list" where
  "cortex_a9_table = [1, 1, 1, 1, 1, 1, 1, 1, 1, 1, 1, 1, 1, 1, 1, 1, 1, 1, 1, 1, 1, 2, 2, 2, 2, 1, 3, 3, 2, 1, 1, 1, 1, 1, 2, 2, 2, 2, 2, 1, 3, 3, 1,
     3, 3, 3, 3, 3, 2, 3, 2, 1, 1, 2, 2, 2, 2, 3, 1, 1, 1, 1, 1, 1, 2, 1, 1, 2, 2, 2, 1, 1, 1, 1, 1, 1, 2, 1, 1, 2, 2, 2, 2, 1, 1, 2,
     2, 2, 3, 3, 3, 2, 2, 2, 3, 3, 3, 2, 2, 2, 1, 1, 1, 1, 1, 1, 1, 1, 1, 1, 1, 1, 3, 1, 2, 1, 1, 1, 1, 2, 1, 1, 1, 2, 2, 1, 1, 1, 2,
     1, 1, 1, 2, 1, 1, 1, 1, 1, 1, 1, 1, 1, 1, 1, 1, 1, 1, 1, 1, 1, 1, 1, 1, 1, 1, 1, 1, 1, 1, 1, 1, 1, 1, 1, 1, 1, 1, 1, 1, 0, 0, 0]"

definition arm926_time :: arm_time where
  "arm926_time i = (if i < ARM_INSTRUCTIONS then arm926_table ! i else 0)"

definition cortex_a9_time :: arm_time where
  "cortex_a9_time i = (if i < ARM_INSTRUCTIONS then cortex_a9_table ! i else 0)"

lemma table_time_ok:
  assumes "list_all (\<lambda>t. 1 \<le> t \<and> t \<le> M) (take 169 ts)" and "169 \<le> length ts"
  shows "\<forall>i < ARM_INSTRUCTION_UNKNOWN. 1 \<le> ts ! i \<and> ts ! i \<le> M"
  using assms by (simp add: list_all_length)

lemma arm926_time_ok: "time_ok 5 arm926_time"
proof -
  have "list_all (\<lambda>t. 1 \<le> t \<and> t \<le> 5) (take 169 arm926_table)" "169 \<le> length arm926_table" by (simp_all add: arm926_table_def)
  from table_time_ok [OF this] show ?thesis by (simp add: time_ok_def arm926_time_def)
qed

lemma cortex_a9_time_ok: "time_ok 3 cortex_a9_time"
proof -
  have "list_all (\<lambda>t. 1 \<le> t \<and> t \<le> 3) (take 169 cortex_a9_table)" "169 \<le> length cortex_a9_table" by (simp_all add: cortex_a9_table_def)
  from table_time_ok [OF this] show ?thesis by (simp add: time_ok_def cortex_a9_time_def)
qed

definition ilock0 :: ilock where "ilock0 = \<lparr>interlocks = \<lambda>_. 0, interlock_base = 0\<rparr>"

lemma ilock0_ok: "lock_le 5 ilock0"
  by (simp add: lock_le_def ilock0_def)

text \<open>
  Property C17. The cycle counter is total and bounded: when the times of the real instructions are between 1 and \<open>M\<close>, as in all
  files of \<^verbatim>\<open>vpmu_config/\<close>, and no register is locked for more than \<open>M\<close> cycles, every one of the 2^32 instruction words
  takes at least 1 and at most \<open>5 * M + 18\<close> cycles, the base advances by exactly these cycles, and again no register is locked for
  more than \<open>M\<close> cycles. While the base is at least \<open>6 * M + 18\<close> below 2^31, it and all interlocks stay in the range of a C int.
\<close>

theorem get_insn_ticks_bounds:
  assumes "time_ok M tm" and "lock_le M s" and "interlock_base s + 6 * M + 18 < 2 ^ 31" and "get_insn_ticks tm insn s = (t, s')"
  shows "1 \<le> t \<and> t \<le> 5 * M + 18 \<and> interlock_base s' = interlock_base s + t \<and> lock_le M s' \<and>
    0 \<le> interlock_base s' \<and> interlock_base s' < 2 ^ 31 \<and> (\<forall>r \<in> {0..15}. 0 \<le> interlocks s' r \<and> interlocks s' r < 2 ^ 31)"
proof -
  obtain s1 where s1: "insn_ticks tm insn s = (t, s1)" "s' = s1\<lparr>interlock_base := interlock_base s1 + t\<rparr>"
    using assms(4) by (auto simp: get_insn_ticks_def split: prod.splits)
  have c: "class_ok M s (t, s1)" using insn_ticks_ok [OF assms(1,2), of insn] s1(1) by simp
  have M: "1 \<le> M" using time_okD(3) [OF assms(1)] .
  have t: "1 \<le> t" "t \<le> 5 * M + 18" "interlock_base s' = interlock_base s + t" using c s1(2) by (simp_all add: class_ok_def)
  have l: "lock_le M s'" using c s1(2) by (force simp: class_ok_def lock_le_def)
  then have "interlocks s' r < 2 ^ 31" if "r \<in> {0..15}" for r using that t assms(3) unfolding lock_le_def by force
  then show ?thesis using t l M assms(3) by (simp add: lock_le_def)
qed

theorem get_insn_ticks_bounds_witness:
  "\<exists>t s'. get_insn_ticks arm926_time 0xe5910004 ilock0 = (t, s') \<and> 1 \<le> t \<and> t \<le> 43 \<and>
     interlock_base s' = interlock_base ilock0 + t \<and> lock_le 5 s' \<and> interlocks s' 0 < 2 ^ 31"
proof -
  obtain t s' where r: "get_insn_ticks arm926_time 0xe5910004 ilock0 = (t, s')" by fastforce
  have "interlock_base ilock0 + 6 * 5 + 18 < 2 ^ 31" by (simp add: ilock0_def)
  from get_insn_ticks_bounds [OF arm926_time_ok ilock0_ok this r] r show ?thesis by auto
qed

text \<open>
  A load interlock is one cycle: after a word load with an immediate offset into a register other
  than the program counter, an instruction that uses this register at once waits one cycle, and every
  other register is free as many cycles earlier as the load took.
\<close>

theorem load_use_interlock:
  assumes "drop_bit 28 insn \<noteq> 0xf" and "drop_bit 25 insn AND 7 = 2" and "insn AND 0x00100000 \<noteq> 0"
    and "fld 12 insn \<noteq> 15" and "get_insn_ticks tm insn s = (t, s')"
  shows "t = 1 + interlock_use (fld 16 insn) s \<and> interlock_use (fld 12 insn) s' = 1 \<and>
    (\<forall>r \<in> {0..15}. r \<noteq> fld 12 insn \<longrightarrow> interlock_use r s' = max 0 (interlock_use r s - t))"
proof -
  have i: "insn_ticks tm insn s = (1 + interlock_use (fld 16 insn) s,
      interlock_def (fld 12 insn) (1 + interlock_use (fld 16 insn) s + 1) s)"
    using assms(1-4) by (simp add: insn_ticks_def ticks_ldst_imm_def set_in_def Let_def)
  have "t = 1 + interlock_use (fld 16 insn) s"
    "s' = (interlock_def (fld 12 insn) (t + 1) s)\<lparr>interlock_base := interlock_base s + t\<rparr>"
    using assms(5) i by (auto simp: get_insn_ticks_def Let_def)
  moreover have "0 \<le> interlock_use (fld 16 insn) s" by (simp add: interlock_use_def Let_def)
  ultimately show ?thesis by (auto simp: interlock_use_def interlock_def_def Let_def)
qed

theorem load_use_interlock_witness:
  "\<exists>t s'. get_insn_ticks arm926_time 0xe5910004 ilock0 = (t, s') \<and> t = 1 \<and> interlock_use 0 s' = 1"
proof -
  obtain t s' where r: "get_insn_ticks arm926_time 0xe5910004 ilock0 = (t, s')" by fastforce
  show ?thesis
    using load_use_interlock [OF _ _ _ _ r] r by (simp add: fld_def interlock_use_def ilock0_def)
qed

text \<open>
  The swap instructions lock the wrong register: their destination is read from bits 8 to 11,
  which the test for a swap requires to be zero, so every \<open>SWP\<close> and \<open>SWPB\<close> locks register 0 and leaves
  its real destination (bits 12 to 15) free.
\<close>

lemma swap_locks_register_0:
  assumes "insn AND 0x0fb00ff0 = 0x01000090" and "drop_bit 28 insn \<noteq> 0xf"
    and "get_insn_ticks tm insn s = (t, s')"
  shows "t = 2 + interlock_use (fld 0 insn) s \<and>
    (\<forall>r \<in> {1..15}. interlocks s' r = interlocks s r) \<and>
    interlock_use 0 s' = max 0 (tm (if insn AND 0x00400000 \<noteq> 0 then ARM_INSTRUCTION_SWPB else ARM_INSTRUCTION_SWP) - 1)"
proof -
  note sub = and_mask_sub [OF assms(1)]
  have b: "insn AND 0x90 = 0x90" "insn AND 0x01000000 = 0x01000000" "insn AND 0x0e000000 = 0" "insn AND 0xf00 = 0"
    using sub [of "0x90"] sub [of "0x01000000"] sub [of "0x0e000000"] sub [of "0xf00"] by simp_all
  have n: "insn AND 0x0fc000f0 \<noteq> 0x90" "insn AND 0x0f8000f0 \<noteq> 0x00800090"
    using b(2) and_mask_sub [of insn "0x0fc000f0" "0x90" "0x01000000"] and_mask_sub [of insn "0x0f8000f0" "0x00800090" "0x01000000"] by auto
  have k: "drop_bit 25 insn AND 7 = 0"
  proof -
    have "drop_bit 25 insn AND 7 = drop_bit 25 (insn AND 0x0e000000)" by (simp add: drop_bit_and)
    then show ?thesis using b(3) by simp
  qed
  have r: "fld 8 insn = 0"
  proof -
    have "drop_bit 8 insn AND 15 = drop_bit 8 (insn AND 0xf00)" by (simp add: drop_bit_and)
    then show ?thesis using b(4) by (simp add: fld_def)
  qed
  have i: "insn_ticks tm insn s = ticks_swap tm insn s"
    using assms(1,2) b(1) n k by (simp add: insn_ticks_def ticks_extra_def Let_def)
  then show ?thesis using assms(3) r
    by (auto simp: get_insn_ticks_def ticks_swap_def set_in_def Let_def interlock_def_def interlock_use_def)
qed

text \<open>
  The counter of program counter changes counts too much: the case of the first instruction class
  has no \<open>break\<close>, so every data processing, multiply or extra load instruction counts as a change of the
  program counter, whatever its destination register.
\<close>

lemma parser_counts_first_class:
  assumes "drop_bit 25 insn AND 7 = 0"
  shows "get_insn_parser insn s = count_PC_change s"
  using assms by (simp add: get_insn_parser_def)

end
