(* ===== verification/VPMU_ArmTicks.thy ===== *)
theory VPMU_ArmTicks
  imports VPMU_Insn
begin

unbundle bit_operations_syntax

text \<open>
  The second cycle model of the unit (\<^verbatim>\<open>target-arm/vpmu_insn_ticks.c\<close>), used for \<open>cpu_model\<close> 1: \<open>get_arm_ticks\<close>
  classifies an instruction word, counts it in the block's \<open>arm_count\<close> and returns its entry of
  \<open>arm_instr_time\<close>; \<open>analyze_arm_ticks\<close> is the earlier version that only counts; \<open>dual_issue_check\<close> looks at
  pairs of instructions; \<open>disas_arm_hook\<close> is the code in \<^verbatim>\<open>target-arm/translate.c\<close> that calls them for
  each translated instruction.

  \<^item> \<open>rn\<close> and \<open>rd\<close> are the values of the local variables of these names: the media instructions read
    them before any assignment, so they are parameters. In the same way the arrays of
    \<open>dual_issue_check\<close> start with the values of a parameter.
  \<^item> \<open>insn_buf\<close> has two elements; storing a third is the error \<open>Out_of_bounds\<close>.
\<close>

section \<open>Counting\<close>

definition count_insn :: "nat \<Rightarrow> ExtraTBInfo \<Rightarrow> ExtraTBInfo" where
  "count_insn i tb = tb\<lparr>arm_count := (arm_count tb)(i := arm_count tb i + 1)\<rparr>"

definition timed :: "arm_time \<Rightarrow> nat \<Rightarrow> ExtraTBInfo \<Rightarrow> int \<times> ExtraTBInfo" where
  "timed tm i tb = (tm i, count_insn i tb)"

text \<open>The end of the function, reached by \<open>break\<close> and by \<open>goto illegal_op\<close>.\<close>

definition untimed :: "ExtraTBInfo \<Rightarrow> int \<times> ExtraTBInfo" where
  "untimed tb = (1, tb)"

definition push_insn :: "u32 \<Rightarrow> ExtraTBInfo \<Rightarrow> ExtraTBInfo" where
  "push_insn insn tb = tb\<lparr>insn_buf := (insn_buf tb)(insn_buf_index tb := ucast insn),
     insn_buf_index := insn_buf_index tb + 1\<rparr>"

section \<open>The timed classification\<close>

definition arm_uncond :: "arm_time \<Rightarrow> u32 \<Rightarrow> ExtraTBInfo \<Rightarrow> int \<times> ExtraTBInfo" where
  "arm_uncond tm insn =
     (if drop_bit 25 insn AND 7 = 1 then timed tm ARM_INSTRUCTION_NEON_DP
      else if insn AND 0x0f100000 = 0x04000000 then timed tm ARM_INSTRUCTION_NEON_LS
      else if insn AND 0x0d70f000 = 0x0550f000 then timed tm ARM_INSTRUCTION_PLD
      else if insn AND 0x0ffffdff = 0x01010000 then timed tm ARM_INSTRUCTION_SETEND
      else if insn AND 0x0fffff00 = 0x057ff000 then
        let k = drop_bit 4 insn AND 0xf in
        if k = 1 then timed tm ARM_INSTRUCTION_CLREX
        else if k = 4 then timed tm ARM_INSTRUCTION_DSB
        else if k = 5 then timed tm ARM_INSTRUCTION_DMB
        else if k = 6 then timed tm ARM_INSTRUCTION_ISB
        else untimed
      else if insn AND 0x0e5fffe0 = 0x084d0500 then timed tm ARM_INSTRUCTION_SRS
      else if insn AND 0x0e5fffe0 = 0x081d0a00 then timed tm ARM_INSTRUCTION_RFE
      else if insn AND 0x0e000000 = 0x0a000000 then timed tm ARM_INSTRUCTION_BLX
      else if insn AND 0x0e000f00 = 0x0c000100 then
        if set_in insn 0x00100000 then timed tm ARM_INSTRUCTION_LDC else timed tm ARM_INSTRUCTION_STC
      else if insn AND 0x0fe00000 = 0x0c400000 then
        if set_in insn 0x00100000 then timed tm ARM_INSTRUCTION_MRRC else timed tm ARM_INSTRUCTION_MCRR
      else if insn AND 0x0f000010 = 0x0e000010 then
        if set_in insn 0x00100000 then timed tm ARM_INSTRUCTION_MRC else timed tm ARM_INSTRUCTION_MCR
      else if insn AND 0x0ff10020 = 0x01000000 then timed tm ARM_INSTRUCTION_CPS
      else untimed)"

definition arm_move :: "arm_time \<Rightarrow> u32 \<Rightarrow> ExtraTBInfo \<Rightarrow> int \<times> ExtraTBInfo" where
  "arm_move tm insn =
     (if \<not> set_in insn 0x00200000 then
        if \<not> set_in insn 0x00400000 then timed tm ARM_INSTRUCTION_MOVW else timed tm ARM_INSTRUCTION_MOVT
      else if drop_bit 16 insn AND 0xf = 0 then untimed
      else timed tm ARM_INSTRUCTION_MSR)"

definition arm_smul :: "arm_time \<Rightarrow> u32 \<Rightarrow> u32 \<Rightarrow> ExtraTBInfo \<Rightarrow> int \<times> ExtraTBInfo" where
  "arm_smul tm op1 sh =
     (if op1 = 1 then
        if sh AND 2 = 0 then timed tm ARM_INSTRUCTION_SMLAWY else timed tm ARM_INSTRUCTION_SMULWY
      else if op1 = 3 then timed tm ARM_INSTRUCTION_SMULXY
      else if op1 = 2 then timed tm ARM_INSTRUCTION_SMLALXY
      else if op1 = 0 then timed tm ARM_INSTRUCTION_SMLAXY
      else untimed)"

text \<open>The time of \<open>QDADD\<close> is that of \<open>QADD\<close>.\<close>

definition arm_sat :: "arm_time \<Rightarrow> u32 \<Rightarrow> ExtraTBInfo \<Rightarrow> int \<times> ExtraTBInfo" where
  "arm_sat tm op1 tb =
     (if op1 AND 2 \<noteq> 0 then
        if op1 AND 1 \<noteq> 0 then timed tm ARM_INSTRUCTION_QDSUB tb
        else (tm ARM_INSTRUCTION_QADD, count_insn ARM_INSTRUCTION_QDADD tb)
      else if op1 AND 1 \<noteq> 0 then timed tm ARM_INSTRUCTION_QSUB tb
      else timed tm ARM_INSTRUCTION_QADD tb)"

definition arm_misc :: "arm_time \<Rightarrow> u32 \<Rightarrow> ExtraTBInfo \<Rightarrow> int \<times> ExtraTBInfo" where
  "arm_misc tm insn = (let op1 = drop_bit 21 insn AND 3; sh = drop_bit 4 insn AND 0xf in
     if sh = 0 then if op1 AND 1 \<noteq> 0 then timed tm ARM_INSTRUCTION_MSR else timed tm ARM_INSTRUCTION_MRS
     else if sh = 1 then
       if op1 = 1 then timed tm ARM_INSTRUCTION_BX
       else if op1 = 3 then timed tm ARM_INSTRUCTION_CLZ
       else untimed
     else if sh = 2 then if op1 = 1 then timed tm ARM_INSTRUCTION_BXJ else untimed
     else if sh = 3 then if op1 \<noteq> 1 then untimed else timed tm ARM_INSTRUCTION_BLX
     else if sh = 5 then arm_sat tm op1
     else if sh = 7 then timed tm ARM_INSTRUCTION_BKPT
     else if sh = 8 \<or> sh = 0xa \<or> sh = 0xc \<or> sh = 0xe then arm_smul tm op1 sh
     else untimed)"

definition arm_data :: "arm_time \<Rightarrow> u32 \<Rightarrow> ExtraTBInfo \<Rightarrow> int \<times> ExtraTBInfo" where
  "arm_data tm insn = (let op1 = drop_bit 21 insn AND 0xf in
     if op1 = 0x00 then timed tm ARM_INSTRUCTION_AND
     else if op1 = 0x01 then timed tm ARM_INSTRUCTION_EOR
     else if op1 = 0x02 then timed tm ARM_INSTRUCTION_SUB
     else if op1 = 0x03 then timed tm ARM_INSTRUCTION_RSB
     else if op1 = 0x04 then timed tm ARM_INSTRUCTION_ADD
     else if op1 = 0x05 then timed tm ARM_INSTRUCTION_ADC
     else if op1 = 0x06 then timed tm ARM_INSTRUCTION_SBC
     else if op1 = 0x07 then timed tm ARM_INSTRUCTION_RSC
     else if op1 = 0x08 then timed tm ARM_INSTRUCTION_TST
     else if op1 = 0x09 then timed tm ARM_INSTRUCTION_TEQ
     else if op1 = 0x0a then timed tm ARM_INSTRUCTION_CMP
     else if op1 = 0x0b then timed tm ARM_INSTRUCTION_CMN
     else if op1 = 0x0c then timed tm ARM_INSTRUCTION_ORR
     else if op1 = 0x0d then timed tm ARM_INSTRUCTION_MOV
     else if op1 = 0x0e then timed tm ARM_INSTRUCTION_BIC
     else timed tm ARM_INSTRUCTION_MVN)"

text \<open>A 32 bit multiply is counted, but its case leaves the switch without returning its time.\<close>

definition mul32_index :: "u32 \<Rightarrow> nat" where
  "mul32_index insn =
     (let i = (if set_in insn 0x00400000 then ARM_INSTRUCTION_MUL
               else if set_in insn 0x00200000 then ARM_INSTRUCTION_MLA else ARM_INSTRUCTION_MUL) in
      if set_in insn 0x00100000 then i + 1 else i)"

definition mul64_index :: "u32 \<Rightarrow> nat" where
  "mul64_index insn =
     (let i = (if set_in insn 0x00400000 then ARM_INSTRUCTION_SMULL else ARM_INSTRUCTION_UMULL);
          i = (if set_in insn 0x00200000
               then if set_in insn 0x00400000 then ARM_INSTRUCTION_SMLAL else ARM_INSTRUCTION_UMLAL else i) in
      if set_in insn 0x00100000 then i + 1 else i)"

definition arm_mul :: "arm_time \<Rightarrow> u32 \<Rightarrow> ExtraTBInfo \<Rightarrow> int \<times> ExtraTBInfo" where
  "arm_mul tm insn tb = (let op1 = drop_bit 20 insn AND 0xf in
     if op1 = 0 \<or> op1 = 1 \<or> op1 = 2 \<or> op1 = 3 \<or> op1 = 6 then untimed (count_insn (mul32_index insn) tb)
     else timed tm (mul64_index insn) tb)"

text \<open>The count of \<open>LDREX\<close> stands before the first case of a switch and is never executed.\<close>

definition arm_sync :: "arm_time \<Rightarrow> u32 \<Rightarrow> ExtraTBInfo \<Rightarrow> int \<times> ExtraTBInfo" where
  "arm_sync tm insn tb =
     (if set_in insn 0x00800000 then
        if set_in insn 0x00100000 then (tm ARM_INSTRUCTION_LDREX, tb) else timed tm ARM_INSTRUCTION_STREX tb
      else if set_in insn 0x00400000 then timed tm ARM_INSTRUCTION_SWPB tb
      else timed tm ARM_INSTRUCTION_SWP tb)"

text \<open>For \<open>sh = 3\<close> the load falls into the empty case 3; the default with \<open>LDRSH\<close> is not reached.\<close>

definition arm_extra :: "arm_time \<Rightarrow> u32 \<Rightarrow> u32 \<Rightarrow> ExtraTBInfo \<Rightarrow> int \<times> ExtraTBInfo" where
  "arm_extra tm sh insn =
     (if set_in insn 0x00100000 then
        if sh = 1 then timed tm ARM_INSTRUCTION_LDRH
        else if sh = 2 then timed tm ARM_INSTRUCTION_LDRSB
        else if sh = 3 then untimed
        else timed tm ARM_INSTRUCTION_LDRSH
      else if sh AND 2 \<noteq> 0 then
        if sh AND 1 \<noteq> 0 then timed tm ARM_INSTRUCTION_STRD else timed tm ARM_INSTRUCTION_LDRD
      else timed tm ARM_INSTRUCTION_STRH)"

text \<open>The sign and zero extensions; the variants that add are three entries earlier.\<close>

definition extend_index :: "u32 \<Rightarrow> nat option" where
  "extend_index op1 =
     (if op1 = 0 then Some ARM_INSTRUCTION_SXTB16
      else if op1 = 2 then Some ARM_INSTRUCTION_SXTB
      else if op1 = 3 then Some ARM_INSTRUCTION_SXTH
      else if op1 = 4 then Some ARM_INSTRUCTION_UXTB16
      else if op1 = 6 then Some ARM_INSTRUCTION_UXTB
      else if op1 = 7 then Some ARM_INSTRUCTION_UXTH
      else None)"

definition arm_media1 :: "arm_time \<Rightarrow> u32 \<Rightarrow> u32 \<Rightarrow> ExtraTBInfo \<Rightarrow> int \<times> ExtraTBInfo" where
  "arm_media1 tm rn insn =
     (if insn AND 0x00700020 = 0 then
        if set_in insn 0x40 then timed tm ARM_INSTRUCTION_PKHTB else timed tm ARM_INSTRUCTION_PKHBT
      else if insn AND 0x00200020 = 0x00200000 then
        if drop_bit 16 insn AND 0x1f \<noteq> 0
        then if set_in insn 0x00400000 then timed tm ARM_INSTRUCTION_USAT else timed tm ARM_INSTRUCTION_SSAT
        else untimed
      else if insn AND 0x00300fe0 = 0x00200f20 then
        if drop_bit 16 insn AND 0x1f \<noteq> 0
        then if set_in insn 0x00400000 then timed tm ARM_INSTRUCTION_USAT16 else timed tm ARM_INSTRUCTION_SSAT16
        else untimed
      else if insn AND 0x00700fe0 = 0x00000fa0 then timed tm ARM_INSTRUCTION_SEL
      else if insn AND 0x000003e0 = 0x00000060 then
        (case extend_index (drop_bit 20 insn AND 7) of
           None \<Rightarrow> untimed
         | Some i \<Rightarrow> timed tm (if rn \<noteq> 15 then i - 3 else i))
      else if insn AND 0x003f0f60 = 0x003f0f20 then
        if set_in insn 0x00400000 then untimed
        else if set_in insn 0x80 then timed tm ARM_INSTRUCTION_REV16 else timed tm ARM_INSTRUCTION_REV
      else untimed)"

definition dual_mul_index :: "u32 \<Rightarrow> u32 \<Rightarrow> nat" where
  "dual_mul_index rd insn =
     (let i = (if set_in insn 0x40 then 1 else 0) in
      if set_in insn 0x00400000 then i + ARM_INSTRUCTION_SMLALD
      else (if rd \<noteq> 15 then i + 2 else i) + ARM_INSTRUCTION_SMUAD)"

definition arm_media2 :: "arm_time \<Rightarrow> u32 \<Rightarrow> u32 \<Rightarrow> ExtraTBInfo \<Rightarrow> int \<times> ExtraTBInfo" where
  "arm_media2 tm rd insn =
     (if set_in insn 0x00100000 then
        if rd \<noteq> 15 then
          if set_in insn 0x40 then timed tm ARM_INSTRUCTION_SMMLS else timed tm ARM_INSTRUCTION_SMMLA
        else timed tm ARM_INSTRUCTION_SMMUL
      else timed tm (dual_mul_index rd insn))"

definition arm_media3 :: "arm_time \<Rightarrow> u32 \<Rightarrow> u32 \<Rightarrow> ExtraTBInfo \<Rightarrow> int \<times> ExtraTBInfo" where
  "arm_media3 tm rd insn = (let op1 = (drop_bit 17 insn AND 0x38) OR (drop_bit 5 insn AND 7) in
     if op1 = 0 then if rd \<noteq> 15 then timed tm ARM_INSTRUCTION_USADA8 else timed tm ARM_INSTRUCTION_USAD8
     else untimed)"

definition arm_media :: "arm_time \<Rightarrow> u32 \<Rightarrow> u32 \<Rightarrow> u32 \<Rightarrow> ExtraTBInfo \<Rightarrow> int \<times> ExtraTBInfo" where
  "arm_media tm rn rd insn = (let k = drop_bit 23 insn AND 3 in
     if k = 0 then untimed
     else if k = 1 then arm_media1 tm rn insn
     else if k = 2 then arm_media2 tm rd insn
     else arm_media3 tm rd insn)"

definition arm_ldst :: "arm_time \<Rightarrow> u32 \<Rightarrow> u32 \<Rightarrow> ExtraTBInfo \<Rightarrow> int \<times> ExtraTBInfo" where
  "arm_ldst tm op1 insn =
     (if op1 = 7 \<and> insn AND 0x00f000f0 = 0x00f000f0 then untimed
      else if set_in insn 0x00100000 then
        if set_in insn 0x00400000 then timed tm ARM_INSTRUCTION_LDRB else timed tm ARM_INSTRUCTION_LDR
      else if set_in insn 0x00400000 then timed tm ARM_INSTRUCTION_STRB else timed tm ARM_INSTRUCTION_STR)"

text \<open>\<open>insn & 0x00500000 >> 20\<close> is \<open>insn & 5\<close>: the shift binds more tightly than the conjunction.\<close>

definition arm_multiple :: "arm_time \<Rightarrow> u32 \<Rightarrow> ExtraTBInfo \<Rightarrow> int \<times> ExtraTBInfo" where
  "arm_multiple tm insn = (let k = insn AND drop_bit 20 0x00500000 in
     if k = 0 then timed tm ARM_INSTRUCTION_STM1
     else if k = 1 then timed tm ARM_INSTRUCTION_LDM1
     else if k = 4 then timed tm ARM_INSTRUCTION_STM2
     else if k = 5 then if set_in insn 0x8000 then timed tm ARM_INSTRUCTION_LDM3 else timed tm ARM_INSTRUCTION_LDM2
     else untimed)"

definition count_branch :: "ExtraTBInfo \<Rightarrow> ExtraTBInfo" where
  "count_branch tb = tb\<lparr>tb_branch_count := tb_branch_count tb + 1\<rparr>"

definition arm_other :: "arm_time \<Rightarrow> u32 \<Rightarrow> u32 \<Rightarrow> u32 \<Rightarrow> ExtraTBInfo \<Rightarrow> int \<times> ExtraTBInfo" where
  "arm_other tm rn rd insn tb = (let op1 = drop_bit 24 insn AND 0xf in
     if op1 = 0 \<or> op1 = 1 then
       let sh = drop_bit 5 insn AND 3 in
       if sh = 0 then if op1 = 0 then arm_mul tm insn tb else arm_sync tm insn tb
       else arm_extra tm sh insn tb
     else if op1 = 4 \<or> op1 = 5 then arm_ldst tm op1 insn tb
     else if op1 = 6 \<or> op1 = 7 then
       if set_in insn 0x10 then arm_media tm rn rd insn tb else arm_ldst tm op1 insn tb
     else if op1 = 8 \<or> op1 = 9 then arm_multiple tm insn tb
     else if op1 = 0xa \<or> op1 = 0xb then
       if set_in insn 0x01000000 then timed tm ARM_INSTRUCTION_B (count_branch tb)
       else timed tm ARM_INSTRUCTION_B (count_branch tb)
     else if op1 = 0xc \<or> op1 = 0xd \<or> op1 = 0xe then timed tm ARM_INSTRUCTION_COPROCESSOR tb
     else if op1 = 0xf then timed tm ARM_INSTRUCTION_SWI tb
     else untimed tb)"

text \<open>The four groups of instruction words, as both functions test them.\<close>

definition is_misc :: "u32 \<Rightarrow> bool" where
  "is_misc insn \<longleftrightarrow> insn AND 0x0f900000 = 0x01000000 \<and> insn AND 0x90 \<noteq> 0x90"

definition is_data :: "u32 \<Rightarrow> bool" where
  "is_data insn \<longleftrightarrow> insn AND 0x0e000000 = 0 \<and> insn AND 0x90 \<noteq> 0x90 \<or> insn AND 0x0e000000 = 0x02000000"

definition get_arm_ticks :: "arm_time \<Rightarrow> u32 \<Rightarrow> u32 \<Rightarrow> u32 \<Rightarrow> ExtraTBInfo \<Rightarrow> (int \<times> ExtraTBInfo) res" where
  "get_arm_ticks tm rn rd insn tb = bind_res (guard_res (insn_buf_index tb < 2) Out_of_bounds)
     (\<lambda>_. let tb = push_insn insn tb in Inr
       (if drop_bit 28 insn = 0xf then arm_uncond tm insn tb
        else if insn AND 0x0f900000 = 0x03000000 then arm_move tm insn tb
        else if is_misc insn then arm_misc tm insn tb
        else if is_data insn then arm_data tm insn tb
        else arm_other tm rn rd insn tb))"

section \<open>The counting classification\<close>

text \<open>Its \<open>return;\<close> statements without a value are the end of the function for the counts.\<close>

definition an_uncond :: "u32 \<Rightarrow> ExtraTBInfo \<Rightarrow> ExtraTBInfo" where
  "an_uncond insn tb =
     (if drop_bit 25 insn AND 7 = 1 then count_insn ARM_INSTRUCTION_NEON_DP tb
      else if insn AND 0x0f100000 = 0x04000000 then count_insn ARM_INSTRUCTION_NEON_LS tb
      else if insn AND 0x0d70f000 = 0x0550f000 then count_insn ARM_INSTRUCTION_PLD tb
      else if insn AND 0x0ffffdff = 0x01010000 then count_insn ARM_INSTRUCTION_SETEND tb
      else if insn AND 0x0fffff00 = 0x057ff000 then
        let k = drop_bit 4 insn AND 0xf in
        if k = 1 then count_insn ARM_INSTRUCTION_CLREX tb
        else if k = 4 then count_insn ARM_INSTRUCTION_ISB (count_insn ARM_INSTRUCTION_DMB (count_insn ARM_INSTRUCTION_DSB tb))
        else if k = 5 then count_insn ARM_INSTRUCTION_ISB (count_insn ARM_INSTRUCTION_DMB tb)
        else if k = 6 then count_insn ARM_INSTRUCTION_ISB tb
        else tb
      else if insn AND 0x0e5fffe0 = 0x084d0500 then count_insn ARM_INSTRUCTION_SRS tb
      else if insn AND 0x0e5fffe0 = 0x081d0a00 then count_insn ARM_INSTRUCTION_RFE tb
      else if insn AND 0x0e000000 = 0x0a000000 then count_insn ARM_INSTRUCTION_BLX tb
      else if insn AND 0x0e000f00 = 0x0c000100 then
        if set_in insn 0x00100000 then count_insn ARM_INSTRUCTION_LDC tb else count_insn ARM_INSTRUCTION_STC tb
      else if insn AND 0x0fe00000 = 0x0c400000 then
        if set_in insn 0x00100000 then count_insn ARM_INSTRUCTION_MRRC tb else count_insn ARM_INSTRUCTION_MCRR tb
      else if insn AND 0x0f000010 = 0x0e000010 then
        if set_in insn 0x00100000 then count_insn ARM_INSTRUCTION_MRC tb else count_insn ARM_INSTRUCTION_MCR tb
      else if insn AND 0x0ff10020 = 0x01000000 then count_insn ARM_INSTRUCTION_CPS tb
      else tb)"

definition an_move :: "u32 \<Rightarrow> ExtraTBInfo \<Rightarrow> ExtraTBInfo" where
  "an_move insn tb =
     (if \<not> set_in insn 0x00200000 then
        if \<not> set_in insn 0x00400000 then count_insn ARM_INSTRUCTION_MOVW tb else count_insn ARM_INSTRUCTION_MOVT tb
      else if drop_bit 16 insn AND 0xf = 0 then tb
      else count_insn ARM_INSTRUCTION_MSR tb)"

definition an_sat :: "u32 \<Rightarrow> ExtraTBInfo \<Rightarrow> ExtraTBInfo" where
  "an_sat op1 tb =
     (let tb = (if op1 AND 2 \<noteq> 0
                then if op1 AND 1 \<noteq> 0 then count_insn ARM_INSTRUCTION_QDSUB tb else count_insn ARM_INSTRUCTION_QDADD tb
                else tb) in
      if op1 AND 1 \<noteq> 0 then count_insn ARM_INSTRUCTION_QSUB tb else count_insn ARM_INSTRUCTION_QADD tb)"

definition an_smul :: "u32 \<Rightarrow> u32 \<Rightarrow> ExtraTBInfo \<Rightarrow> ExtraTBInfo" where
  "an_smul op1 sh tb =
     (if op1 = 1 then
        count_insn ARM_INSTRUCTION_SMULWY (if sh AND 2 = 0 then count_insn ARM_INSTRUCTION_SMLAWY tb else tb)
      else
        let tb = (if op1 = 3 then count_insn ARM_INSTRUCTION_SMULXY tb else tb) in
        if op1 = 2 then count_insn ARM_INSTRUCTION_SMLALXY tb
        else if op1 = 0 then count_insn ARM_INSTRUCTION_SMLAXY tb
        else tb)"

definition an_misc :: "u32 \<Rightarrow> ExtraTBInfo \<Rightarrow> ExtraTBInfo" where
  "an_misc insn tb = (let op1 = drop_bit 21 insn AND 3; sh = drop_bit 4 insn AND 0xf in
     if sh = 0 then if op1 AND 1 \<noteq> 0 then count_insn ARM_INSTRUCTION_MSR tb else count_insn ARM_INSTRUCTION_MRS tb
     else if sh = 1 then
       if op1 = 1 then count_insn ARM_INSTRUCTION_BX tb
       else if op1 = 3 then count_insn ARM_INSTRUCTION_CLZ tb
       else tb
     else if sh = 2 then if op1 = 1 then count_insn ARM_INSTRUCTION_BXJ tb else tb
     else if sh = 3 then if op1 \<noteq> 1 then tb else count_insn ARM_INSTRUCTION_BLX tb
     else if sh = 5 then an_sat op1 tb
     else if sh = 7 then count_insn ARM_INSTRUCTION_BKPT tb
     else if sh = 8 \<or> sh = 0xa \<or> sh = 0xc \<or> sh = 0xe then an_smul op1 sh tb
     else tb)"

definition an_data :: "u32 \<Rightarrow> ExtraTBInfo \<Rightarrow> ExtraTBInfo" where
  "an_data insn tb = (let op1 = drop_bit 21 insn AND 0xf in
     if op1 = 0x00 then count_insn ARM_INSTRUCTION_AND tb
     else if op1 = 0x01 then count_insn ARM_INSTRUCTION_EOR tb
     else if op1 = 0x02 then count_insn ARM_INSTRUCTION_SUB tb
     else if op1 = 0x03 then count_insn ARM_INSTRUCTION_RSB tb
     else if op1 = 0x04 then count_insn ARM_INSTRUCTION_ADD tb
     else if op1 = 0x05 then count_insn ARM_INSTRUCTION_ADC tb
     else if op1 = 0x06 then count_insn ARM_INSTRUCTION_SBC tb
     else if op1 = 0x07 then count_insn ARM_INSTRUCTION_RSC tb
     else if op1 = 0x08 then count_insn ARM_INSTRUCTION_TST tb
     else if op1 = 0x09 then count_insn ARM_INSTRUCTION_TEQ tb
     else if op1 = 0x0a then count_insn ARM_INSTRUCTION_CMP tb
     else if op1 = 0x0b then count_insn ARM_INSTRUCTION_CMN tb
     else if op1 = 0x0c then count_insn ARM_INSTRUCTION_ORR tb
     else if op1 = 0x0d then count_insn ARM_INSTRUCTION_MOV tb
     else if op1 = 0x0e then count_insn ARM_INSTRUCTION_BIC tb
     else count_insn ARM_INSTRUCTION_MVN tb)"

definition an_mul :: "u32 \<Rightarrow> ExtraTBInfo \<Rightarrow> ExtraTBInfo" where
  "an_mul insn tb = (let op1 = drop_bit 20 insn AND 0xf in
     if op1 = 0 \<or> op1 = 1 \<or> op1 = 2 \<or> op1 = 3 \<or> op1 = 6 then
       let i = ARM_INSTRUCTION_MUL;
           i = (if set_in insn 0x00400000 then i else if set_in insn 0x00200000 then ARM_INSTRUCTION_MLA else i);
           i = (if set_in insn 0x00100000 then i + 1 else i) in
       count_insn i tb
     else
       let i = (if set_in insn 0x00400000 then ARM_INSTRUCTION_SMULL else ARM_INSTRUCTION_UMULL);
           i = (if set_in insn 0x00200000
                then if set_in insn 0x00400000 then ARM_INSTRUCTION_SMLAL else ARM_INSTRUCTION_UMLAL else i);
           i = (if set_in insn 0x00100000 then i + 1 else i) in
       count_insn i tb)"

definition an_sync :: "u32 \<Rightarrow> ExtraTBInfo \<Rightarrow> ExtraTBInfo" where
  "an_sync insn tb =
     (if set_in insn 0x00800000 then if set_in insn 0x00100000 then tb else count_insn ARM_INSTRUCTION_STREX tb
      else if set_in insn 0x00400000 then count_insn ARM_INSTRUCTION_SWPB tb
      else count_insn ARM_INSTRUCTION_SWP tb)"

definition an_extra :: "u32 \<Rightarrow> u32 \<Rightarrow> ExtraTBInfo \<Rightarrow> ExtraTBInfo" where
  "an_extra sh insn tb =
     (if set_in insn 0x00100000 then
        if sh = 1 then count_insn ARM_INSTRUCTION_LDRH tb
        else if sh = 2 then count_insn ARM_INSTRUCTION_LDRSB tb
        else if sh = 3 then tb
        else count_insn ARM_INSTRUCTION_LDRSH tb
      else if sh AND 2 \<noteq> 0 then
        if sh AND 1 \<noteq> 0 then count_insn ARM_INSTRUCTION_STRD tb else count_insn ARM_INSTRUCTION_LDRD tb
      else count_insn ARM_INSTRUCTION_STRH tb)"

definition an_media1 :: "u32 \<Rightarrow> u32 \<Rightarrow> ExtraTBInfo \<Rightarrow> ExtraTBInfo" where
  "an_media1 rn insn tb =
     (if insn AND 0x00700020 = 0 then
        if set_in insn 0x40 then count_insn ARM_INSTRUCTION_PKHTB tb else count_insn ARM_INSTRUCTION_PKHBT tb
      else if insn AND 0x00200020 = 0x00200000 then
        if drop_bit 16 insn AND 0x1f \<noteq> 0
        then if set_in insn 0x00400000 then count_insn ARM_INSTRUCTION_USAT tb else count_insn ARM_INSTRUCTION_SSAT tb
        else tb
      else if insn AND 0x00300fe0 = 0x00200f20 then
        if drop_bit 16 insn AND 0x1f \<noteq> 0
        then if set_in insn 0x00400000 then count_insn ARM_INSTRUCTION_USAT16 tb else count_insn ARM_INSTRUCTION_SSAT16 tb
        else tb
      else if insn AND 0x00700fe0 = 0x00000fa0 then count_insn ARM_INSTRUCTION_SEL tb
      else if insn AND 0x000003e0 = 0x00000060 then
        let op1 = drop_bit 20 insn AND 7; n = (if rn \<noteq> 15 then 3 else 0) in
        if op1 = 0 then count_insn (ARM_INSTRUCTION_SXTB16 - n) tb
        else if op1 = 2 then count_insn (ARM_INSTRUCTION_SXTB - n) tb
        else if op1 = 3 then count_insn (ARM_INSTRUCTION_SXTH - n) tb
        else if op1 = 4 then count_insn (ARM_INSTRUCTION_UXTB16 - n) tb
        else if op1 = 6 then count_insn (ARM_INSTRUCTION_UXTB - n) tb
        else if op1 = 7 then count_insn (ARM_INSTRUCTION_UXTH - n) tb
        else tb
      else if insn AND 0x003f0f60 = 0x003f0f20 then
        if set_in insn 0x00400000 then tb
        else if set_in insn 0x80 then count_insn ARM_INSTRUCTION_REV16 tb else count_insn ARM_INSTRUCTION_REV tb
      else tb)"

definition an_media2 :: "u32 \<Rightarrow> u32 \<Rightarrow> ExtraTBInfo \<Rightarrow> ExtraTBInfo" where
  "an_media2 rd insn tb =
     (if set_in insn 0x00100000 then
        if rd \<noteq> 15 then
          if set_in insn 0x40 then count_insn ARM_INSTRUCTION_SMMLS tb else count_insn ARM_INSTRUCTION_SMMLA tb
        else count_insn ARM_INSTRUCTION_SMMUL tb
      else let i = (if set_in insn 0x40 then 1 else 0) in
        if set_in insn 0x00400000 then count_insn (i + ARM_INSTRUCTION_SMLALD) tb
        else let i = (if rd \<noteq> 15 then i + 2 else i) in count_insn (i + ARM_INSTRUCTION_SMUAD) tb)"

definition an_media3 :: "u32 \<Rightarrow> u32 \<Rightarrow> ExtraTBInfo \<Rightarrow> ExtraTBInfo" where
  "an_media3 rd insn tb = (let op1 = (drop_bit 17 insn AND 0x38) OR (drop_bit 5 insn AND 7) in
     if op1 = 0 then
       count_insn ARM_INSTRUCTION_USAD8 (if rd \<noteq> 15 then count_insn ARM_INSTRUCTION_USADA8 tb else tb)
     else tb)"

definition an_media :: "u32 \<Rightarrow> u32 \<Rightarrow> u32 \<Rightarrow> ExtraTBInfo \<Rightarrow> ExtraTBInfo" where
  "an_media rn rd insn tb = (let k = drop_bit 23 insn AND 3 in
     if k = 0 then tb
     else if k = 1 then an_media1 rn insn tb
     else if k = 2 then an_media2 rd insn tb
     else an_media3 rd insn tb)"

definition an_ldst :: "u32 \<Rightarrow> u32 \<Rightarrow> ExtraTBInfo \<Rightarrow> ExtraTBInfo" where
  "an_ldst op1 insn tb =
     (if op1 = 7 \<and> insn AND 0x00f000f0 = 0x00f000f0 then tb
      else if set_in insn 0x00100000 then
        if set_in insn 0x00400000 then count_insn ARM_INSTRUCTION_LDRB tb else count_insn ARM_INSTRUCTION_LDR tb
      else if set_in insn 0x00400000 then count_insn ARM_INSTRUCTION_STRB tb else count_insn ARM_INSTRUCTION_STR tb)"

definition an_multiple :: "u32 \<Rightarrow> ExtraTBInfo \<Rightarrow> ExtraTBInfo" where
  "an_multiple insn tb = (let k = insn AND drop_bit 20 0x00500000 in
     if k = 0 then count_insn ARM_INSTRUCTION_STM1 tb
     else if k = 1 then count_insn ARM_INSTRUCTION_LDM1 tb
     else if k = 4 then count_insn ARM_INSTRUCTION_STM2 tb
     else if k = 5 then if set_in insn 0x8000 then count_insn ARM_INSTRUCTION_LDM3 tb else count_insn ARM_INSTRUCTION_LDM2 tb
     else tb)"

definition an_other :: "u32 \<Rightarrow> u32 \<Rightarrow> u32 \<Rightarrow> ExtraTBInfo \<Rightarrow> ExtraTBInfo" where
  "an_other rn rd insn tb = (let op1 = drop_bit 24 insn AND 0xf in
     if op1 = 0 \<or> op1 = 1 then
       let sh = drop_bit 5 insn AND 3 in
       if sh = 0 then if op1 = 0 then an_mul insn tb else an_sync insn tb
       else an_extra sh insn tb
     else if op1 = 4 \<or> op1 = 5 then an_ldst op1 insn tb
     else if op1 = 6 \<or> op1 = 7 then
       if set_in insn 0x10 then an_media rn rd insn tb else an_ldst op1 insn tb
     else if op1 = 8 \<or> op1 = 9 then an_multiple insn tb
     else if op1 = 0xa \<or> op1 = 0xb then
       let tb = count_branch tb in
       if set_in insn 0x01000000 then count_insn ARM_INSTRUCTION_B tb else count_insn ARM_INSTRUCTION_B tb
     else if op1 = 0xc \<or> op1 = 0xd \<or> op1 = 0xe then count_insn ARM_INSTRUCTION_COPROCESSOR tb
     else if op1 = 0xf then count_insn ARM_INSTRUCTION_SWI tb
     else tb)"

definition analyze_arm_ticks :: "u32 \<Rightarrow> u32 \<Rightarrow> u32 \<Rightarrow> ExtraTBInfo \<Rightarrow> ExtraTBInfo res" where
  "analyze_arm_ticks rn rd insn tb = bind_res (guard_res (insn_buf_index tb < 2) Out_of_bounds)
     (\<lambda>_. let tb = push_insn insn tb in Inr
       (if drop_bit 28 insn = 0xf then an_uncond insn tb
        else if insn AND 0x0f900000 = 0x03000000 then an_move insn tb
        else if is_misc insn then an_misc insn tb
        else if is_data insn then an_data insn tb
        else an_other rn rd insn tb))"

section \<open>Pairs of instructions\<close>

text \<open>
  The local arrays of \<open>dual_issue_check\<close>. The loop never writes 0 into a flag and leaves all five arrays
  unassigned for the first two groups of instruction words.
\<close>

record issue =
  is_ls :: "nat \<Rightarrow> int"
  is_arith :: "nat \<Rightarrow> int"
  Rn :: "nat \<Rightarrow> int"
  Rm :: "nat \<Rightarrow> int"
  Rd :: "nat \<Rightarrow> int"

definition issue_decode :: "nat \<Rightarrow> u64 \<Rightarrow> issue \<Rightarrow> issue" where
  "issue_decode i tmp_insn u =
     (if tmp_insn AND 0x0f900000 = 0x03000000 then u
      else if tmp_insn AND 0x0f900000 = 0x01000000 \<and> tmp_insn AND 0x90 \<noteq> 0x90 then u
      else if tmp_insn AND 0x0e000000 = 0 \<and> tmp_insn AND 0x90 \<noteq> 0x90 \<or> tmp_insn AND 0x0e000000 = 0x02000000 then
        u\<lparr>Rd := (Rd u)(i := uint (drop_bit 12 tmp_insn AND 0xf)), Rn := (Rn u)(i := uint (drop_bit 16 tmp_insn AND 0xf)),
          Rm := (Rm u)(i := uint (tmp_insn AND 0xf)), is_arith := (is_arith u)(i := 1)\<rparr>
      else
        let op1 = drop_bit 24 tmp_insn AND 0xf;
            u = u\<lparr>Rd := (Rd u)(i := uint (drop_bit 12 tmp_insn AND 0xf)), Rn := (Rn u)(i := uint (drop_bit 16 tmp_insn AND 0xf))\<rparr> in
        if op1 = 4 \<or> op1 = 5 then u\<lparr>is_ls := (is_ls u)(i := 1)\<rparr> else u)"

definition issue_saves :: "issue \<Rightarrow> bool" where
  "issue_saves u =
     (if is_arith u 0 = 1 \<and> is_ls u 1 = 1 then
        Rd u 0 \<noteq> Rd u 1 \<and> Rd u 0 \<noteq> Rn u 1 \<and> Rm u 0 \<noteq> Rd u 1 \<and> Rn u 0 \<noteq> Rd u 1
      else if is_arith u 1 = 1 \<and> is_ls u 0 = 1 then
        Rd u 1 \<noteq> Rd u 0 \<and> Rd u 1 \<noteq> Rn u 0 \<and> Rm u 1 \<noteq> Rd u 0 \<and> Rn u 1 \<noteq> Rd u 0
      else False)"

definition dual_issue_check :: "issue \<Rightarrow> ExtraTBInfo \<Rightarrow> ExtraTBInfo" where
  "dual_issue_check u tb = (let u = fold (\<lambda>i. issue_decode i (insn_buf tb i)) [0, 1] u;
       tb = (if issue_saves u then tb\<lparr>dual_issue_reduce_ticks := dual_issue_reduce_ticks tb + 1\<rparr> else tb) in
     tb\<lparr>insn_buf_index := 0\<rparr>)"

text \<open>
  What the translator does for an instruction: the locals of the two functions have the values \<open>rn\<close>,
  \<open>rd\<close> and \<open>u\<close> on entry.
\<close>

definition add_ticks :: "int \<Rightarrow> ExtraTBInfo \<Rightarrow> ExtraTBInfo" where
  "add_ticks t tb = tb\<lparr>tb_ticks := tb_ticks tb + word_of_int t\<rparr>"

definition disas_arm_hook ::
    "VPMU \<Rightarrow> arm_time \<Rightarrow> u32 \<times> u32 \<times> issue \<Rightarrow> u32 \<Rightarrow> ilock \<times> ExtraTBInfo \<Rightarrow> (ilock \<times> ExtraTBInfo) res" where
  "disas_arm_hook v tm loc insn st = (let (rn, rd, u) = loc; (s, tb) = st in
     bind_res
       (if sim_on VPMU_PIPELINE_SIM v then
          if cpu_model v = 1 then
            bind_res (get_arm_ticks tm rn rd insn tb) (\<lambda>(t, tb).
              let tb = add_ticks t tb in
              Inr (s, if insn_buf_index tb = 2 then dual_issue_check u tb else tb))
          else let (t, s) = get_insn_ticks tm insn s in Inr (s, add_ticks t tb)
        else Inr (s, tb))
       (\<lambda>(s, tb). Inr (s, if sim_on VPMU_INSN_COUNT_SIM v then get_insn_parser insn tb else tb)))"

section \<open>Every instruction word is classified once\<close>

text \<open>What one call of \<open>get_arm_ticks\<close> may count and return.\<close>

definition time_of :: "arm_time \<Rightarrow> nat \<Rightarrow> int \<Rightarrow> bool" where
  "time_of tm i t \<longleftrightarrow> t = tm i \<or> t = 1 \<and> ARM_INSTRUCTION_MUL \<le> i \<and> i \<le> ARM_INSTRUCTION_MLAS \<or>
     i = ARM_INSTRUCTION_QDADD \<and> t = tm ARM_INSTRUCTION_QADD"

definition classified :: "arm_time \<Rightarrow> ExtraTBInfo \<Rightarrow> int \<times> ExtraTBInfo \<Rightarrow> bool" where
  "classified tm tb r \<longleftrightarrow>
     (fst r = 1 \<or> fst r = tm ARM_INSTRUCTION_LDREX) \<and> snd r = tb \<or>
     (\<exists>i < ARM_INSTRUCTION_UNKNOWN. time_of tm i (fst r) \<and> snd r = count_insn i tb)"

lemma classified_timed: "i < ARM_INSTRUCTION_UNKNOWN \<Longrightarrow> classified tm tb (timed tm i tb)"
  by (auto simp: classified_def timed_def time_of_def)

lemma classified_untimed: "classified tm tb (untimed tb)"
  by (simp add: classified_def untimed_def)

lemma extend_index_bound: "extend_index op1 = Some i \<Longrightarrow> i < ARM_INSTRUCTION_UNKNOWN"
  by (auto simp: extend_index_def split: if_splits)

lemma mul64_index_bound: "mul64_index insn < ARM_INSTRUCTION_UNKNOWN"
  by (simp add: mul64_index_def Let_def)

lemma dual_mul_index_bound: "dual_mul_index rd insn < ARM_INSTRUCTION_UNKNOWN"
  by (simp add: dual_mul_index_def Let_def)

lemma classified_mul32: "classified tm tb (untimed (count_insn (mul32_index insn) tb))"
proof -
  have "mul32_index insn \<in> {ARM_INSTRUCTION_MUL..ARM_INSTRUCTION_MLAS}" by (simp add: mul32_index_def Let_def)
  then show ?thesis by (auto simp: classified_def untimed_def time_of_def intro!: exI [of _ "mul32_index insn"])
qed

lemma classified_qdadd: "classified tm tb (tm ARM_INSTRUCTION_QADD, count_insn ARM_INSTRUCTION_QDADD tb)"
  unfolding classified_def by (rule disjI2, rule exI [of _ ARM_INSTRUCTION_QDADD]) (simp add: time_of_def)

lemma classified_ldrex: "classified tm tb (tm ARM_INSTRUCTION_LDREX, tb)"
  by (simp add: classified_def)

lemmas classified_leaf = classified_timed classified_untimed classified_mul32 classified_qdadd classified_ldrex
  extend_index_bound mul64_index_bound dual_mul_index_bound

lemma classified_uncond: "classified tm tb (arm_uncond tm insn tb)"
  by (simp add: arm_uncond_def Let_def classified_leaf)

lemma classified_move: "classified tm tb (arm_move tm insn tb)"
  by (simp add: arm_move_def classified_leaf)

lemma classified_misc: "classified tm tb (arm_misc tm insn tb)"
  by (simp add: arm_misc_def arm_sat_def arm_smul_def Let_def classified_leaf)

lemma classified_data: "classified tm tb (arm_data tm insn tb)"
  by (simp add: arm_data_def Let_def classified_leaf)

lemma classified_media: "classified tm tb (arm_media tm rn rd insn tb)"
  by (auto simp: arm_media_def arm_media1_def arm_media2_def arm_media3_def Let_def classified_leaf split: option.split
      dest: extend_index_bound intro!: classified_timed)


lemma classified_other:
  "classified tm tb (arm_other tm rn rd insn tb) \<or> classified tm (count_branch tb) (arm_other tm rn rd insn tb)"
  by (simp add: arm_other_def arm_mul_def arm_sync_def arm_extra_def arm_ldst_def arm_multiple_def Let_def
      classified_leaf classified_media)

lemma count_insn_sel [simp]:
  "insn_buf_index (count_insn i tb) = insn_buf_index tb" "tb_ticks (count_insn i tb) = tb_ticks tb"
  "dual_issue_reduce_ticks (count_insn i tb) = dual_issue_reduce_ticks tb"
  "arm_count (count_insn i tb) = (arm_count tb)(i := arm_count tb i + 1)" "insn_buf (count_insn i tb) = insn_buf tb"
  by (simp_all add: count_insn_def)

lemma count_branch_sel [simp]:
  "insn_buf_index (count_branch tb) = insn_buf_index tb" "tb_ticks (count_branch tb) = tb_ticks tb"
  "dual_issue_reduce_ticks (count_branch tb) = dual_issue_reduce_ticks tb"
  "arm_count (count_branch tb) = arm_count tb" "insn_buf (count_branch tb) = insn_buf tb"
  by (simp_all add: count_branch_def)

lemma push_insn_sel [simp]:
  "insn_buf_index (push_insn insn tb) = insn_buf_index tb + 1" "tb_ticks (push_insn insn tb) = tb_ticks tb"
  "dual_issue_reduce_ticks (push_insn insn tb) = dual_issue_reduce_ticks tb"
  "arm_count (push_insn insn tb) = arm_count tb" "insn_buf (push_insn insn tb) = (insn_buf tb)(insn_buf_index tb := ucast insn)"
  by (simp_all add: push_insn_def)

text \<open>The fields of the block that the cycle count rests on.\<close>

definition counted_once :: "arm_time \<Rightarrow> u32 \<Rightarrow> int \<Rightarrow> ExtraTBInfo \<Rightarrow> ExtraTBInfo \<Rightarrow> bool" where
  "counted_once tm insn t tb tb' \<longleftrightarrow>
     insn_buf tb' = (insn_buf tb)(insn_buf_index tb := ucast insn) \<and>
     insn_buf_index tb' = insn_buf_index tb + 1 \<and> tb_ticks tb' = tb_ticks tb \<and>
     dual_issue_reduce_ticks tb' = dual_issue_reduce_ticks tb \<and>
     ((t = 1 \<or> t = tm ARM_INSTRUCTION_LDREX) \<and> arm_count tb' = arm_count tb \<or>
      (\<exists>i < ARM_INSTRUCTION_UNKNOWN. time_of tm i t \<and> arm_count tb' = (arm_count tb)(i := arm_count tb i + 1)))"

lemma classified_counted:
  "classified tm (push_insn insn tb) (t, tb') \<or> classified tm (count_branch (push_insn insn tb)) (t, tb') \<Longrightarrow>
   counted_once tm insn t tb tb'"
  by (auto simp: classified_def counted_once_def)

lemma get_arm_ticks_counted:
  assumes "get_arm_ticks tm rn rd insn tb = Inr (t, tb')"
  shows "insn_buf_index tb < 2" "counted_once tm insn t tb tb'"
proof -
  let ?tb = "push_insn insn tb"
  show "insn_buf_index tb < 2" using assms by (auto simp: get_arm_ticks_def)
  have "classified tm ?tb (t, tb') \<or> classified tm (count_branch ?tb) (t, tb')"
    using assms classified_uncond [of tm ?tb insn] classified_move [of tm ?tb insn] classified_misc [of tm ?tb insn]
      classified_data [of tm ?tb insn] classified_other [of tm ?tb rn rd insn]
    by (auto simp: get_arm_ticks_def Let_def split: if_splits)
  then show "counted_once tm insn t tb tb'" by (rule classified_counted)
qed

lemma get_arm_ticks_total:
  assumes "insn_buf_index tb < 2"
  obtains t tb' where "get_arm_ticks tm rn rd insn tb = Inr (t, tb')"
  using assms unfolding get_arm_ticks_def by (simp add: Let_def) (metis surj_pair)

section \<open>The two classifications agree\<close>

text \<open>The further entries that \<open>analyze_arm_ticks\<close> counts, because it does not return after the first.\<close>

definition also_uncond :: "u32 \<Rightarrow> nat list" where
  "also_uncond insn =
     (if insn AND 0x0fffff00 = 0x057ff000 then
        if drop_bit 4 insn AND 0xf = 4 then [ARM_INSTRUCTION_DMB, ARM_INSTRUCTION_ISB]
        else if drop_bit 4 insn AND 0xf = 5 then [ARM_INSTRUCTION_ISB] else []
      else [])"

definition also_misc :: "u32 \<Rightarrow> nat list" where
  "also_misc insn = (let op1 = drop_bit 21 insn AND 3; sh = drop_bit 4 insn AND 0xf in
     if sh = 5 \<and> op1 AND 2 \<noteq> 0 then [if op1 AND 1 \<noteq> 0 then ARM_INSTRUCTION_QSUB else ARM_INSTRUCTION_QADD]
     else if (sh = 8 \<or> sh = 0xc) \<and> op1 = 1 then [ARM_INSTRUCTION_SMULWY]
     else [])"

definition also_other :: "u32 \<Rightarrow> u32 \<Rightarrow> nat list" where
  "also_other rd insn =
     (if (drop_bit 24 insn AND 0xf = 6 \<or> drop_bit 24 insn AND 0xf = 7) \<and> set_in insn 0x10 \<and>
        drop_bit 23 insn AND 3 \<notin> {0, 1, 2} \<and> (drop_bit 17 insn AND 0x38) OR (drop_bit 5 insn AND 7) = 0 \<and> rd \<noteq> 15
      then [ARM_INSTRUCTION_USAD8] else [])"

definition also_counted :: "u32 \<Rightarrow> u32 \<Rightarrow> nat list" where
  "also_counted rd insn =
     (if drop_bit 28 insn = 0xf then also_uncond insn
      else if insn AND 0x0f900000 = 0x03000000 then []
      else if is_misc insn then also_misc insn
      else if is_data insn then []
      else also_other rd insn)"

lemmas leaf_defs = timed_def untimed_def Let_def

lemma an_uncond_eq: "an_uncond insn tb = fold count_insn (also_uncond insn) (snd (arm_uncond tm insn tb))"
proof (cases "insn AND 0x0fffff00 = 0x057ff000")
  case True
  note sub = and_mask_sub [OF True]
  have b: "insn AND 0x0e000000 = 0x04000000" using sub [of "0x0e000000"] by simp
  have "drop_bit 25 insn AND 7 = drop_bit 25 (insn AND 0x0e000000)" by (simp add: drop_bit_and)
  then have "drop_bit 25 insn AND 7 = 2" by (simp add: b)
  then show ?thesis
    using True sub [of "0x0f100000"] sub [of "0x0d70f000"] and_mask_sub [of insn "0x0ffffdff" "0x01010000" "0x0ffff000"] sub [of "0x0ffff000"]
    by (auto simp: an_uncond_def arm_uncond_def also_uncond_def leaf_defs)
qed (simp add: an_uncond_def arm_uncond_def also_uncond_def leaf_defs)

lemma an_move_eq: "an_move insn tb = snd (arm_move tm insn tb)"
  by (simp add: an_move_def arm_move_def leaf_defs)

lemma an_sat_eq:
  "an_sat op1 tb = fold count_insn
     (if op1 AND 2 \<noteq> 0 then [if op1 AND 1 \<noteq> 0 then ARM_INSTRUCTION_QSUB else ARM_INSTRUCTION_QADD] else []) (snd (arm_sat tm op1 tb))"
  by (simp add: an_sat_def arm_sat_def leaf_defs)

lemma an_smul_eq:
  "an_smul op1 sh tb = fold count_insn (if sh AND 2 = 0 \<and> op1 = 1 then [ARM_INSTRUCTION_SMULWY] else []) (snd (arm_smul tm op1 sh tb))"
  by (simp add: an_smul_def arm_smul_def leaf_defs)

lemma an_misc_eq: "an_misc insn tb = fold count_insn (also_misc insn) (snd (arm_misc tm insn tb))"
proof -
  obtain op1 where op1: "drop_bit 21 insn AND 3 = op1" by simp
  obtain sh where sh: "drop_bit 4 insn AND 0xf = sh" by simp
  have e: "sh \<in> {8, 0xa, 0xc, 0xe} \<Longrightarrow> sh AND 2 = 0 \<longleftrightarrow> sh = 8 \<or> sh = 0xc" by auto
  consider "sh = 0" | "sh = 1" | "sh = 2" | "sh = 3" | "sh = 5" | "sh = 7" | "sh \<in> {8, 0xa, 0xc, 0xe}"
    | "sh \<notin> {0, 1, 2, 3, 5, 7, 8, 0xa, 0xc, 0xe}" by auto
  then show ?thesis
    by cases (auto simp: an_misc_def arm_misc_def also_misc_def op1 sh an_sat_eq [where tm = tm] an_smul_eq [where tm = tm] e leaf_defs)
qed

lemma an_data_eq: "an_data insn tb = snd (arm_data tm insn tb)"
  by (simp add: an_data_def arm_data_def leaf_defs)

lemma an_mul_eq: "an_mul insn tb = snd (arm_mul tm insn tb)"
  by (simp add: an_mul_def arm_mul_def mul32_index_def mul64_index_def leaf_defs)

lemma an_sync_eq: "an_sync insn tb = snd (arm_sync tm insn tb)"
  by (simp add: an_sync_def arm_sync_def leaf_defs)

lemma an_extra_eq: "an_extra sh insn tb = snd (arm_extra tm sh insn tb)"
  by (simp add: an_extra_def arm_extra_def leaf_defs)

lemma an_media1_eq: "an_media1 rn insn tb = snd (arm_media1 tm rn insn tb)"
  by (simp add: an_media1_def arm_media1_def extend_index_def leaf_defs)

lemma an_media2_eq: "an_media2 rd insn tb = snd (arm_media2 tm rd insn tb)"
  by (simp add: an_media2_def arm_media2_def dual_mul_index_def leaf_defs)

lemma an_media3_eq:
  "an_media3 rd insn tb = fold count_insn
     (if (drop_bit 17 insn AND 0x38) OR (drop_bit 5 insn AND 7) = 0 \<and> rd \<noteq> 15 then [ARM_INSTRUCTION_USAD8] else [])
     (snd (arm_media3 tm rd insn tb))"
  by (simp add: an_media3_def arm_media3_def leaf_defs)

lemma an_media_eq:
  "an_media rn rd insn tb = fold count_insn
     (if drop_bit 23 insn AND 3 \<notin> {0, 1, 2} \<and> (drop_bit 17 insn AND 0x38) OR (drop_bit 5 insn AND 7) = 0 \<and> rd \<noteq> 15
      then [ARM_INSTRUCTION_USAD8] else []) (snd (arm_media tm rn rd insn tb))"
proof -
  obtain k where k: "drop_bit 23 insn AND 3 = k" by simp
  show ?thesis
    unfolding an_media_def arm_media_def k Let_def
    by (simp add: an_media1_eq [where tm = tm] an_media2_eq [where tm = tm] an_media3_eq [where tm = tm] untimed_def)
qed

lemma an_ldst_eq: "an_ldst op1 insn tb = snd (arm_ldst tm op1 insn tb)"
  by (simp add: an_ldst_def arm_ldst_def leaf_defs)

lemma an_multiple_eq: "an_multiple insn tb = snd (arm_multiple tm insn tb)"
  by (simp add: an_multiple_def arm_multiple_def leaf_defs)

lemma an_other_eq: "an_other rn rd insn tb = fold count_insn (also_other rd insn) (snd (arm_other tm rn rd insn tb))"
proof -
  obtain op1 where op1: "drop_bit 24 insn AND 0xf = op1" by simp
  obtain sh where sh: "drop_bit 5 insn AND 3 = sh" by simp
  obtain m where m: "set_in insn 0x10 = m" by simp
  note eqs = an_mul_eq [where tm = tm] an_sync_eq [where tm = tm] an_extra_eq [where tm = tm] an_ldst_eq [where tm = tm]
    an_media_eq [where tm = tm] an_multiple_eq [where tm = tm]
  consider "op1 \<in> {0, 1}" | "op1 \<in> {4, 5}" | "op1 \<in> {6, 7}" | "op1 \<notin> {0, 1, 4, 5, 6, 7}" by auto
  then show ?thesis
    unfolding an_other_def arm_other_def also_other_def op1 sh m Let_def eqs
    by cases (auto simp: timed_def untimed_def)
qed

lemma analyze_eq:
  "analyze_arm_ticks rn rd insn tb =
     map_sum id (\<lambda>(t, tb'). fold count_insn (also_counted rd insn) tb') (get_arm_ticks tm rn rd insn tb)"
  by (simp add: analyze_arm_ticks_def get_arm_ticks_def guard_res_def bind_res_def also_counted_def Let_def
      an_uncond_eq [where tm = tm] an_move_eq [where tm = tm] an_misc_eq [where tm = tm] an_data_eq [where tm = tm]
      an_other_eq [where tm = tm] split_beta)

section \<open>The cycles of a block\<close>

lemma time_of_bounds:
  assumes "time_ok M tm" and "time_of tm i t" and "i < ARM_INSTRUCTION_UNKNOWN"
  shows "1 \<le> t \<and> t \<le> M"
  using assms(2) time_okD(1,2) [OF assms(1) assms(3)] time_okD(3) [OF assms(1)]
    time_okD(1) [OF assms(1), of ARM_INSTRUCTION_QADD] time_okD(2) [OF assms(1), of ARM_INSTRUCTION_QADD]
  by (auto simp: time_of_def)

lemma counted_once_bounds: "time_ok M tm \<Longrightarrow> counted_once tm insn t tb tb' \<Longrightarrow> 1 \<le> t \<and> t \<le> M"
  using time_of_bounds [of M tm] time_okD(3) [of M tm] time_okD(1,2) [of M tm ARM_INSTRUCTION_LDREX]
  by (auto simp: counted_once_def)

text \<open>After \<open>k\<close> instructions of a block.\<close>

definition block_ok :: "int \<Rightarrow> nat \<Rightarrow> ExtraTBInfo \<Rightarrow> bool" where
  "block_ok M k tb \<longleftrightarrow> insn_buf_index tb = k mod 2 \<and> int k \<le> uint (tb_ticks tb) \<and> uint (tb_ticks tb) \<le> int k * M \<and>
     unat (dual_issue_reduce_ticks tb) \<le> k div 2"

lemma block_ok_cong:
  "insn_buf_index tb' = insn_buf_index tb \<Longrightarrow> tb_ticks tb' = tb_ticks tb \<Longrightarrow>
   dual_issue_reduce_ticks tb' = dual_issue_reduce_ticks tb \<Longrightarrow> block_ok M k tb' = block_ok M k tb"
  by (simp add: block_ok_def)

lemma get_insn_parser_block: "block_ok M k (get_insn_parser insn tb) = block_ok M k tb"
  by (rule block_ok_cong) (simp_all add: get_insn_parser_def count_PC_change_def Let_def)

lemma uint_add_int:
  fixes w :: u64
  assumes "0 \<le> t" and "uint w + t < 2 ^ 64"
  shows "uint (w + word_of_int t) = uint w + t"
proof -
  have "t < 2 ^ 64" using assms uint_ge_0 [of w] by linarith
  then have "uint (word_of_int t :: u64) = t" using assms(1) by (simp add: uint_word_of_int)
  then show ?thesis using assms uint_ge_0 [of w] by (simp add: uint_word_ariths(1))
qed

lemma dual_issue_check_sel:
  "insn_buf_index (dual_issue_check u tb) = 0" "tb_ticks (dual_issue_check u tb) = tb_ticks tb"
  "unat (dual_issue_reduce_ticks (dual_issue_check u tb)) \<le> unat (dual_issue_reduce_ticks tb) + 1"
proof -
  have "unat (w + 1) \<le> unat w + 1" for w :: u64 by (simp add: unat_word_ariths(1))
  then show "unat (dual_issue_reduce_ticks (dual_issue_check u tb)) \<le> unat (dual_issue_reduce_ticks tb) + 1"
    by (simp add: dual_issue_check_def Let_def)
qed (simp_all add: dual_issue_check_def Let_def)

lemma block_step:
  assumes tm: "time_ok M tm" and ok: "block_ok M k tb" and c: "counted_once tm insn t tb tb'"
    and M: "int (k + 1) * M < 2 ^ 64"
  defines "tb'' \<equiv> add_ticks t tb'"
  shows "block_ok M (k + 1) (if insn_buf_index tb'' = 2 then dual_issue_check u tb'' else tb'')"
proof -
  have t: "1 \<le> t" "t \<le> M" using counted_once_bounds [OF tm c] by auto
  have f: "insn_buf_index tb'' = k mod 2 + 1" "tb_ticks tb'' = tb_ticks tb + word_of_int t"
    "dual_issue_reduce_ticks tb'' = dual_issue_reduce_ticks tb"
    using c ok by (simp_all add: tb''_def add_ticks_def counted_once_def block_ok_def)
  have le: "uint (tb_ticks tb) + t \<le> int (k + 1) * M" using ok t by (simp add: block_ok_def algebra_simps)
  have u: "uint (tb_ticks tb'') = uint (tb_ticks tb) + t"
    unfolding f(2) using uint_add_int [of t "tb_ticks tb"] t le M by linarith
  have b: "int (k + 1) \<le> uint (tb_ticks tb'')" "uint (tb_ticks tb'') \<le> int (k + 1) * M"
    using u le t ok by (auto simp: block_ok_def)
  show ?thesis
  proof (cases "k mod 2 = 1")
    case True
    then have "(k + 1) mod 2 = 0" "(k + 1) div 2 = k div 2 + 1" by presburger+
    then show ?thesis
      using True f b ok dual_issue_check_sel [of u tb''] by (simp add: block_ok_def)
  next
    case False
    then have "k mod 2 = 0" "(k + 1) mod 2 = 1" "k div 2 \<le> (k + 1) div 2" by presburger+
    moreover have "unat (dual_issue_reduce_ticks tb) \<le> k div 2" using ok by (simp add: block_ok_def)
    ultimately show ?thesis using f b by (simp add: block_ok_def)
  qed
qed

lemma hook_step:
  assumes "time_ok M tm" "block_ok M k tb" "int (k + 1) * M < 2 ^ 64" "sim_on VPMU_PIPELINE_SIM v" "cpu_model v = 1"
  shows "\<exists>tb'. disas_arm_hook v tm loc insn (s, tb) = Inr (s, tb') \<and> block_ok M (k + 1) tb'"
proof -
  obtain rn rd u where loc: "loc = (rn, rd, u)" by (cases loc)
  have "insn_buf_index tb < 2" using assms(2) by (simp add: block_ok_def)
  then obtain t tb1 where g: "get_arm_ticks tm rn rd insn tb = Inr (t, tb1)" by (rule get_arm_ticks_total)
  let ?tb = "if insn_buf_index (add_ticks t tb1) = 2 then dual_issue_check u (add_ticks t tb1) else add_ticks t tb1"
  have "block_ok M (k + 1) ?tb" by (rule block_step [OF assms(1,2) get_arm_ticks_counted(2) [OF g] assms(3)])
  then have "block_ok M (k + 1) (if sim_on VPMU_INSN_COUNT_SIM v then get_insn_parser insn ?tb else ?tb)"
    by (simp add: get_insn_parser_block)
  moreover have "disas_arm_hook v tm loc insn (s, tb) =
      Inr (s, if sim_on VPMU_INSN_COUNT_SIM v then get_insn_parser insn ?tb else ?tb)"
    using g assms(4,5) by (simp add: disas_arm_hook_def loc Let_def)
  ultimately show ?thesis by blast
qed

text \<open>The translation of a block: its instructions in order, with what the locals hold at each.\<close>

definition disas_block :: "VPMU \<Rightarrow> arm_time \<Rightarrow> ((u32 \<times> u32 \<times> issue) \<times> u32) list \<Rightarrow> ilock \<times> ExtraTBInfo \<Rightarrow>
    (ilock \<times> ExtraTBInfo) res" where
  "disas_block v tm xs st = fold_res (\<lambda>(loc, insn). disas_arm_hook v tm loc insn) xs st"

lemma block_run:
  assumes "time_ok M tm" "block_ok M k tb" "int (k + length xs) * M < 2 ^ 64" "sim_on VPMU_PIPELINE_SIM v" "cpu_model v = 1"
  shows "\<exists>tb'. disas_block v tm xs (s, tb) = Inr (s, tb') \<and> block_ok M (k + length xs) tb'"
  using assms(2,3)
proof (induction xs arbitrary: k tb)
  case (Cons x xs)
  obtain loc insn where x: "x = (loc, insn)" by (cases x)
  have "0 < M" using time_okD(3) [OF assms(1)] by simp
  then have "int (k + 1) * M \<le> int (k + length (x # xs)) * M" by (intro mult_right_mono) auto
  then have "int (k + 1) * M < 2 ^ 64" using Cons.prems(2) by linarith
  from hook_step [OF assms(1) Cons.prems(1) this assms(4,5), of loc insn s]
  obtain tb1 where h: "disas_arm_hook v tm loc insn (s, tb) = Inr (s, tb1)" "block_ok M (k + 1) tb1" by blast
  from Cons.IH [OF h(2)] Cons.prems(2) h(1) show ?case by (simp add: disas_block_def x)
qed (simp add: disas_block_def)

section \<open>Properties of the second cycle model\<close>

text \<open>
  Property C18. \<open>get_arm_ticks\<close> on every instruction word, with room in the buffer: it stores the word at the index and advances the index, adds 1 to
  at most one entry of \<open>arm_count\<close>, that of a real instruction, and returns this entry's time. The exceptions are
  the ones written here: the 32 bit multiplies return 1, \<open>QDADD\<close> returns the time of \<open>QADD\<close>, and an uncounted
  word returns 1 or (a load exclusive) the time of \<open>LDREX\<close>.
\<close>

theorem get_arm_ticks_classifies:
  assumes "insn_buf_index tb < 2"
  shows "\<exists>t tb'. get_arm_ticks tm rn rd insn tb = Inr (t, tb') \<and> insn_buf tb' = (insn_buf tb)(insn_buf_index tb := ucast insn) \<and>
     insn_buf_index tb' = insn_buf_index tb + 1 \<and>
     ((t = 1 \<or> t = tm ARM_INSTRUCTION_LDREX) \<and> arm_count tb' = arm_count tb \<or>
      (\<exists>i < ARM_INSTRUCTION_UNKNOWN. arm_count tb' = (arm_count tb)(i := arm_count tb i + 1) \<and>
         (t = tm i \<or> t = 1 \<and> ARM_INSTRUCTION_MUL \<le> i \<and> i \<le> ARM_INSTRUCTION_MLAS \<or>
          i = ARM_INSTRUCTION_QDADD \<and> t = tm ARM_INSTRUCTION_QADD)))"
proof -
  obtain t tb' where g: "get_arm_ticks tm rn rd insn tb = Inr (t, tb')" by (rule get_arm_ticks_total [OF assms])
  from get_arm_ticks_counted(2) [OF g] g show ?thesis by (auto simp: counted_once_def time_of_def)
qed

definition tb0 :: ExtraTBInfo where
  "tb0 = \<lparr>tb_insn_count = 0, tb_load_count = 0, tb_store_count = 0, tb_ticks = 0,
     icache_ref = \<lparr>address = 0, accesstype = 0, rsize = 0\<rparr>, tb_branch_count = 0, tb_all_changes_to_PC_count = 0,
     arm_count = \<lambda>_. 0, insn_buf = \<lambda>_. 0, insn_buf_index = 0, dual_issue_reduce_ticks = 0\<rparr>"

theorem get_arm_ticks_classifies_witness:
  "\<exists>t tb'. get_arm_ticks cortex_a9_time 0 0 0xe0810002 tb0 = Inr (t, tb') \<and> insn_buf_index tb' = 1 \<and> insn_buf tb' 0 = 0xe0810002"
  using get_arm_ticks_classifies [where tb = tb0 and tm = cortex_a9_time and rn = 0 and rd = 0 and insn = "0xe0810002"]
  by (auto simp: tb0_def)

text \<open>
  Property C19. \<open>get_arm_ticks\<close> and \<open>analyze_arm_ticks\<close>, which the comment calls almost the same, count the same
  entries for every instruction word, except that \<open>analyze_arm_ticks\<close> counts more where a \<open>break\<close> or
  \<open>return\<close> is missing: the two following barriers after \<open>DSB\<close> and the following one after \<open>DMB\<close>, \<open>QSUB\<close>
  or \<open>QADD\<close> after their doubling forms, \<open>SMULW\<close> after \<open>SMLAW\<close>, and \<open>USAD8\<close> after \<open>USADA8\<close>.
\<close>

theorem analyze_agrees_with_get:
  "analyze_arm_ticks rn rd insn tb =
     map_sum id (\<lambda>(t, tb'). fold count_insn (also_counted rd insn) tb') (get_arm_ticks tm rn rd insn tb)"
  by (rule analyze_eq)

text \<open>
  The cycles of a block under \<open>cpu_model\<close> 1: when the times of the real instructions are between 1 and
  \<open>M\<close>, translating \<open>n\<close> instructions never stores beyond the two element buffer, whatever the words
  and the uninitialised locals are. Each instruction adds between 1 and \<open>M\<close> cycles, and the pairs save at
  most one cycle each, so the later subtraction of the saved cycles cannot wrap.
\<close>

theorem block_ticks_bounds:
  assumes "time_ok M tm" and "int (length xs) * M < 2 ^ 64" and "sim_on VPMU_PIPELINE_SIM v" and "cpu_model v = 1"
  shows "\<exists>tb'. disas_block v tm xs (s, tb_extra_info_init tb) = Inr (s, tb') \<and> insn_buf_index tb' = length xs mod 2 \<and>
     int (length xs) \<le> uint (tb_ticks tb') \<and> uint (tb_ticks tb') \<le> int (length xs) * M \<and>
     unat (dual_issue_reduce_ticks tb') \<le> length xs div 2"
proof -
  have "block_ok M 0 (tb_extra_info_init tb)" by (simp add: block_ok_def tb_extra_info_init_def)
  from block_run [OF assms(1) this, of xs v s] assms(2-4) show ?thesis by (auto simp: block_ok_def)
qed

definition vpmu0 :: VPMU where
  "vpmu0 = \<lparr>ARM_count = \<lambda>_. 0, target_cpu_frequency = 1000, cpu_model = 1, USR_icount = 0, IRQ_icount = 0, SVC_icount = 0,
     sys_call_icount = 0, sys_rest_icount = 0, USR_ldst_count = 0, SVC_ldst_count = 0, IRQ_ldst_count = 0,
     sys_call_ldst_count = 0, sys_rest_ldst_count = 0, USR_load_count = 0, SVC_load_count = 0, IRQ_load_count = 0,
     sys_call_load_count = 0, sys_rest_load_count = 0, USR_store_count = 0, SVC_store_count = 0, IRQ_store_count = 0,
     sys_call_store_count = 0, sys_rest_store_count = 0, ticks = 0, eet_ns = 0, last_ticks = 0, epc_mpu = 0,
     branch_count = 0, all_changes_to_PC_count = 0, additional_icache_access = 0, iomem_count = 0, iomem_qemu = 0,
     reduce_ticks = 0, d4_maxlevel = 2, l1_cache_miss_lat = 0, l2_cache_miss_lat = 0, branch_predict_correct = 0,
     branch_predict_wrong = 0, timing_register = 0x60000011, swi_fired = 0\<rparr>"

definition issue0 :: issue where
  "issue0 = \<lparr>is_ls = \<lambda>_. 0, is_arith = \<lambda>_. 0, Rn = \<lambda>_. 0, Rm = \<lambda>_. 0, Rd = \<lambda>_. 0\<rparr>"

lemma vpmu0_on: "sim_on VPMU_PIPELINE_SIM vpmu0" "cpu_model vpmu0 = 1"
  by (simp_all add: vpmu0_def vpmu_simulator_status_def timing_masks Let_def)

theorem block_ticks_bounds_witness:
  "\<exists>tb'. disas_block vpmu0 cortex_a9_time [((0, 0, issue0), 0xe0810002), ((0, 0, issue0), 0xe5943000)] (ilock0, tb_extra_info_init tb0)
       = Inr (ilock0, tb') \<and> uint (tb_ticks tb') \<le> 6"
  using block_ticks_bounds [OF cortex_a9_time_ok _ vpmu0_on,
      of "[((0, 0, issue0), 0xe0810002), ((0, 0, issue0), 0xe5943000)]" ilock0 tb0] by auto

text \<open>
  The class of a load or store multiple is chosen by the registers 0 and 2 of its list instead of its load and
  user mode bits: without these registers every one of them is counted and timed as \<open>STM1\<close>, the loads too.
\<close>

lemma multiple_by_registers:
  assumes "insn AND 0x0e000000 = 0x08000000" and "drop_bit 28 insn \<noteq> 0xf" and "insn AND 5 = 0" and "insn_buf_index tb < 2"
  shows "get_arm_ticks tm rn rd insn tb = Inr (tm ARM_INSTRUCTION_STM1, count_insn ARM_INSTRUCTION_STM1 (push_insn insn tb))"
proof -
  note a = and_mask_sub [where b = "0x08000000" and x = insn]
  have n: "insn AND 0x0f900000 \<noteq> 0x03000000" "insn AND 0x0f900000 \<noteq> 0x01000000"
    using a [of "0x0f900000" "0x03000000"] a [of "0x0f900000" "0x01000000"] a [OF assms(1)] by auto
  have b: "x AND 1 = 0 \<or> x AND 1 = 1" for x :: u32 by (cases "even x") (simp_all add: and_one_eq mod2_eq_if)
  have e: "drop_bit 24 insn AND 0xe = drop_bit 24 (insn AND 0x0e000000)" by (simp add: drop_bit_and)
  have "drop_bit 24 insn AND 0xf = drop_bit 24 insn AND (0xe OR 1)" by simp
  also have "\<dots> = (drop_bit 24 insn AND 0xe) OR (drop_bit 24 insn AND 1)" by (rule bit.conj_disj_distrib)
  also have "\<dots> = 8 OR (drop_bit 24 insn AND 1)" by (simp add: e assms(1))
  finally have "drop_bit 24 insn AND 0xf = 8 \<or> drop_bit 24 insn AND 0xf = 9" using b [of "drop_bit 24 insn"] by auto
  then show ?thesis
    using assms n by (auto simp: get_arm_ticks_def is_misc_def is_data_def arm_other_def arm_multiple_def timed_def Let_def)
qed

text \<open>
  The flags of \<open>dual_issue_check\<close> are never cleared: for two instructions of its first two groups the saved cycle is
  decided by the values that the local arrays happen to hold.
\<close>

lemma dual_issue_uninitialised:
  assumes "insn_buf tb 0 AND 0x0f900000 = 0x03000000" and "insn_buf tb 1 AND 0x0f900000 = 0x03000000"
  shows "dual_issue_check u tb =
    (if issue_saves u then tb\<lparr>dual_issue_reduce_ticks := dual_issue_reduce_ticks tb + 1\<rparr> else tb)\<lparr>insn_buf_index := 0\<rparr>"
  using assms by (simp add: dual_issue_check_def issue_decode_def Let_def)

end
