(* ===== verification/VPMU_Branch.thy ===== *)
theory VPMU_Branch
  imports M2M_HeaderQueue VPMU_Types
begin

unbundle bit_operations_syntax

text \<open>
  The branch predictor of the unit (\<^verbatim>\<open>hw/vpmu-device.c\<close>, \<^verbatim>\<open>target-arm/op_vpmu.c\<close>). Translated code sends a signal 99 before the
  test of a conditional branch and a signal 0 when the branch is taken; \<open>branch_set\<close> turns the signals into
  outcomes and \<open>branch_update\<close> feeds them to a two bit predictor. With worker threads the signals go
  through the ring \<open>BranchTrace\<close> between \<open>put_event\<close> and \<open>branch_thread\<close>.
\<close>

section \<open>The predictor\<close>

text \<open>The static variables of \<open>branch_update\<close> and \<open>branch_set\<close>.\<close>

record bp =
  predictor :: int
  predict_correct :: u32
  predict_wrong :: u32
  last_signal :: u32

definition bp0 :: bp where
  "bp0 = \<lparr>predictor = 0, predict_correct = 0, predict_wrong = 0, last_signal = 0\<rparr>"

definition PREDICT_CORRECT :: u32 where "PREDICT_CORRECT = 0"
definition PREDICT_WRONG :: u32 where "PREDICT_WRONG = 1"
definition BRANCH_PREDICT_SYNC :: u32 where "BRANCH_PREDICT_SYNC = 2"
definition COND_SIG :: u32 where "COND_SIG = 99"

definition bp_right :: "int \<Rightarrow> bp \<Rightarrow> bp" where
  "bp_right p b = b\<lparr>predictor := p, predict_correct := predict_correct b + 1\<rparr>"

definition bp_wrong :: "int \<Rightarrow> bp \<Rightarrow> bp" where
  "bp_wrong p b = b\<lparr>predictor := p, predict_wrong := predict_wrong b + 1\<rparr>"

definition branch_update :: "u32 \<Rightarrow> bp \<times> VPMU \<Rightarrow> (bp \<times> VPMU) res" where
  "branch_update taken st = (let (b, v) = st in
     if taken = BRANCH_PREDICT_SYNC then
       Inr (b, v\<lparr>branch_predict_correct := predict_correct b, branch_predict_wrong := predict_wrong b\<rparr>)
     else if predictor b = 0 then Inr (if taken \<noteq> 0 then bp_wrong 1 b else bp_right 0 b, v)
     else if predictor b = 1 then Inr (if taken \<noteq> 0 then bp_wrong 3 b else bp_right 0 b, v)
     else if predictor b = 2 then Inr (if taken \<noteq> 0 then bp_right 3 b else bp_wrong 0 b, v)
     else if predictor b = 3 then Inr (if taken \<noteq> 0 then bp_right 3 b else bp_wrong 2 b, v)
     else Inl Exit_process)"

definition branch_set :: "u32 \<Rightarrow> bp \<times> VPMU \<Rightarrow> (bp \<times> VPMU) res" where
  "branch_set cur_sig st =
     (if last_signal (fst st) = COND_SIG then
        if cur_sig = COND_SIG then branch_update 0 st
        else bind_res (branch_update 1 st) (\<lambda>(b, v). Inr (b\<lparr>last_signal := 0\<rparr>, v))
      else Inr ((fst st)\<lparr>last_signal := cur_sig\<rparr>, snd st))"

text \<open>Reading a counter first copies both; any other request is reported and gives 0.\<close>

definition vpmu_branch_predict :: "u32 \<Rightarrow> bp \<times> VPMU \<Rightarrow> (u32 \<times> bp \<times> VPMU) res" where
  "vpmu_branch_predict request st = bind_res (branch_update BRANCH_PREDICT_SYNC st) (\<lambda>(b, v). Inr
     (if request = PREDICT_CORRECT then branch_predict_correct v
      else if request = PREDICT_WRONG then branch_predict_wrong v else 0, b, v))"

text \<open>The signals of the translated code; the helper sends them while the simulator is on.\<close>

definition branch_signals :: "bool \<Rightarrow> u32 list" where
  "branch_signals taken = (if taken then [99, 0] else [99])"

definition branch_predictor_helper :: "bool \<Rightarrow> u32 \<Rightarrow> bp \<times> VPMU \<Rightarrow> (bp \<times> VPMU) res" where
  "branch_predictor_helper VPMU_enabled cur_sig st =
     (if VPMU_enabled \<and> sim_on VPMU_BRANCH_SIM (snd st) then branch_set cur_sig st else Inr st)"

section \<open>The ring of signals\<close>

definition BRANCH_QUEUE_SIZE :: nat where "BRANCH_QUEUE_SIZE = 200"

record branch_ring =
  BranchTrace :: "nat \<Rightarrow> u8"
  branch_index_head :: nat
  branch_index_tail :: nat
  branch_buffer_size :: nat

text \<open>
  \<open>put_event\<close> writes the signal before it waits for room; the wait is the value \<open>None\<close>, after which only the
  second part is repeated.
\<close>

definition put_write :: "u8 \<Rightarrow> branch_ring \<Rightarrow> branch_ring" where
  "put_write sig q = q\<lparr>BranchTrace := (BranchTrace q)(branch_index_head q := sig)\<rparr>"

definition put_commit :: "branch_ring \<Rightarrow> branch_ring option" where
  "put_commit q =
     (if branch_buffer_size q = BRANCH_QUEUE_SIZE - 1 then None
      else Some (q\<lparr>branch_index_head := (branch_index_head q + 1) mod BRANCH_QUEUE_SIZE,
        branch_buffer_size := branch_buffer_size q + 1\<rparr>))"

definition put_event :: "u8 \<Rightarrow> branch_ring \<Rightarrow> branch_ring option" where
  "put_event sig q = put_commit (put_write sig q)"

definition branch_take :: "branch_ring \<Rightarrow> (u8 \<times> branch_ring) option" where
  "branch_take q =
     (if branch_buffer_size q = 0 then None
      else Some (BranchTrace q (branch_index_tail q),
        q\<lparr>BranchTrace := (BranchTrace q)(branch_index_tail q := 33),
          branch_index_tail := (branch_index_tail q + 1) mod BRANCH_QUEUE_SIZE,
          branch_buffer_size := branch_buffer_size q - 1\<rparr>))"

definition branch_thread_step :: "branch_ring \<Rightarrow> bp \<times> VPMU \<Rightarrow> (branch_ring \<times> bp \<times> VPMU) option res" where
  "branch_thread_step q st = (case branch_take q of
     None \<Rightarrow> Inr None
   | Some (sig, q') \<Rightarrow> bind_res (branch_set (ucast sig) st) (\<lambda>st. Inr (Some (q', st))))"

text \<open>The ring implements a queue of at most 199 signals.\<close>

definition ring_ok :: "branch_ring \<Rightarrow> bool" where
  "ring_ok q \<longleftrightarrow> branch_index_tail q < BRANCH_QUEUE_SIZE \<and> branch_buffer_size q < BRANCH_QUEUE_SIZE \<and>
     branch_index_head q = (branch_index_tail q + branch_buffer_size q) mod BRANCH_QUEUE_SIZE"

definition ring_contents :: "branch_ring \<Rightarrow> u8 list" where
  "ring_contents q = map (\<lambda>k. BranchTrace q ((branch_index_tail q + k) mod BRANCH_QUEUE_SIZE)) [0..<branch_buffer_size q]"

lemma mod_once: "x < 2 * n \<Longrightarrow> x mod n = (if x < n then x else x - n)" for n :: nat
  by (simp add: mod_if)

lemma ring_slots_differ:
  "t < BRANCH_QUEUE_SIZE \<Longrightarrow> a < b \<Longrightarrow> b < BRANCH_QUEUE_SIZE \<Longrightarrow> (t + a) mod BRANCH_QUEUE_SIZE \<noteq> (t + b) mod BRANCH_QUEUE_SIZE"
  using mod_once [of "t + a" BRANCH_QUEUE_SIZE] mod_once [of "t + b" BRANCH_QUEUE_SIZE] by auto

lemma put_write_keeps: "ring_ok q \<Longrightarrow> ring_ok (put_write s q) \<and> ring_contents (put_write s q) = ring_contents q"
  using ring_slots_differ [of "branch_index_tail q"] by (auto simp: ring_ok_def ring_contents_def put_write_def)

lemma put_event_room:
  assumes "ring_ok q" and "length (ring_contents q) < 199"
  shows "\<exists>q'. put_event s q = Some q' \<and> ring_ok q' \<and> ring_contents q' = ring_contents q @ [s]"
proof -
  have n: "branch_buffer_size q < 199" using assms(2) by (simp add: ring_contents_def)
  have c: "ring_contents (put_write s q) = ring_contents q" using put_write_keeps [OF assms(1)] by blast
  show ?thesis
    using assms(1) n c
    by (auto simp: put_event_def put_commit_def put_write_def ring_ok_def ring_contents_def BRANCH_QUEUE_SIZE_def mod_simps)
qed

lemma branch_take_first:
  assumes "ring_ok q" and "ring_contents q = s # ss"
  shows "\<exists>q'. branch_take q = Some (s, q') \<and> ring_ok q' \<and> ring_contents q' = ss"
proof -
  obtain n where n: "branch_buffer_size q = Suc n" using assms(2) by (cases "branch_buffer_size q") (auto simp: ring_contents_def)
  have t: "branch_index_tail q < BRANCH_QUEUE_SIZE" "Suc n < BRANCH_QUEUE_SIZE" using assms(1) n by (simp_all add: ring_ok_def)
  have s: "s = BranchTrace q (branch_index_tail q)" "ss = map (\<lambda>k. BranchTrace q ((branch_index_tail q + Suc k) mod BRANCH_QUEUE_SIZE)) [0..<n]"
    using assms(2) n t(1) by (auto simp: ring_contents_def map_upt_Suc simp del: upt_Suc)
  have "(branch_index_tail q + Suc k) mod BRANCH_QUEUE_SIZE \<noteq> branch_index_tail q" if "k < n" for k
    using ring_slots_differ [OF t(1), of 0 "Suc k"] that t by simp
  then show ?thesis
    using assms(1) n t s by (auto simp: branch_take_def ring_ok_def ring_contents_def mod_simps)
qed

interpretation br: bounded_queue ring_ok ring_contents put_event branch_take 199
proof (unfold_locales, goal_cases)
  case (1 h)
  then show ?case by (simp add: ring_ok_def ring_contents_def BRANCH_QUEUE_SIZE_def)
next
  case (2 h m)
  then show ?case by (rule put_event_room)
next
  case (3 h m)
  then show ?case by (simp add: ring_contents_def put_event_def put_commit_def put_write_def BRANCH_QUEUE_SIZE_def)
next
  case (4 h m ms)
  then show ?case by (rule branch_take_first)
next
  case (5 h)
  then show ?case by (simp add: ring_contents_def branch_take_def)
qed

section \<open>The abstract predictor\<close>

text \<open>
  A prediction with hysteresis: it is given up after two wrong predictions in a row. The state is the
  prediction and whether the last one was wrong.
\<close>

type_synonym hyst = "bool \<times> bool"

definition hyst_step :: "bool \<Rightarrow> hyst \<Rightarrow> hyst" where
  "hyst_step taken s = (case s of (guess, missed) \<Rightarrow>
     if taken = guess then (guess, False) else if missed then (taken, False) else (guess, True))"

fun hyst_hits :: "bool list \<Rightarrow> hyst \<Rightarrow> nat" where
  "hyst_hits [] s = 0"
| "hyst_hits (x # xs) s = (if x = fst s then 1 else 0) + hyst_hits xs (hyst_step x s)"

lemma hyst_hits_le: "hyst_hits xs s \<le> length xs"
proof (induction xs arbitrary: s)
  case (Cons x xs)
  have "hyst_hits xs (hyst_step x s) \<le> length xs" by (rule Cons.IH)
  moreover have "hyst_hits (x # xs) s \<le> 1 + hyst_hits xs (hyst_step x s)" by simp
  ultimately show ?case by (simp del: hyst_hits.simps)
qed simp

definition hyst_code :: "hyst \<Rightarrow> int" where
  "hyst_code s = (case s of (guess, missed) \<Rightarrow> if guess then (if missed then 2 else 3) else (if missed then 1 else 0))"

definition bp_after :: "nat \<Rightarrow> nat \<Rightarrow> hyst \<Rightarrow> bp \<Rightarrow> bp" where
  "bp_after hits n s b = b\<lparr>predictor := hyst_code s, predict_correct := predict_correct b + of_nat hits,
     predict_wrong := predict_wrong b + of_nat (n - hits)\<rparr>"

definition taken_word :: "bool \<Rightarrow> u32" where
  "taken_word t = (if t then 1 else 0)"

text \<open>One update follows the abstract step.\<close>

lemma branch_update_hyst:
  assumes "predictor b = hyst_code s"
  shows "branch_update (taken_word t) (b, v) = Inr (bp_after (if t = fst s then 1 else 0) 1 (hyst_step t s) b, v)"
proof -
  obtain g m where s: "s = (g, m)" by (cases s)
  show ?thesis
    using assms unfolding s
    by (cases g; cases m; cases t) (simp_all add: branch_update_def taken_word_def BRANCH_PREDICT_SYNC_def hyst_code_def
        hyst_step_def bp_right_def bp_wrong_def bp_after_def)
qed

lemma bp_after_bp_after:
  assumes "h \<le> n" and "h' \<le> n'"
  shows "bp_after h' n' s' (bp_after h n s b) = bp_after (h + h') (n + n') s' b"
proof -
  have "n + n' - (h + h') = (n - h) + (n' - h')" using assms by simp
  then show ?thesis by (simp add: bp_after_def add.assoc)
qed

lemma hyst_hits_append: "hyst_hits (xs @ ys) s = hyst_hits xs s + hyst_hits ys (fold hyst_step xs s)"
  by (induction xs arbitrary: s) auto

lemma bp_after_last [simp]: "last_signal (bp_after h n s b) = last_signal b" "predictor (bp_after h n s b) = hyst_code s"
  by (simp_all add: bp_after_def)

definition branch_run :: "u32 list \<Rightarrow> bp \<times> VPMU \<Rightarrow> (bp \<times> VPMU) res" where
  "branch_run = fold_res branch_set"

lemma fold_res_append: "fold_res f (xs @ ys) s = bind_res (fold_res f xs s) (fold_res f ys)"
  by (induction xs arbitrary: s) (auto simp: bind_res_def split: sum.splits)

definition fed :: "bool list \<Rightarrow> hyst \<Rightarrow> bp \<Rightarrow> bp" where
  "fed xs s b = bp_after (hyst_hits xs s) (length xs) (fold hyst_step xs s) b"

lemma fed_append: "fed ys (fold hyst_step xs s) (fed xs s b) = fed (xs @ ys) s b"
  using bp_after_bp_after [OF hyst_hits_le hyst_hits_le] by (simp add: fed_def hyst_hits_append)

lemma fed_last [simp]:
  "fed xs s (b\<lparr>last_signal := l\<rparr>) = (fed xs s b)\<lparr>last_signal := l\<rparr>" "last_signal (fed xs s b) = last_signal b"
  "predictor (fed xs s b) = hyst_code (fold hyst_step xs s)"
  by (simp_all add: fed_def bp_after_def)

lemma update_fed: "predictor b = hyst_code s \<Longrightarrow> branch_update (taken_word t) (b, v) = Inr (fed [t] s b, v)"
  by (simp add: branch_update_hyst fed_def)

lemma fed_Nil: "predictor b = hyst_code s \<Longrightarrow> fed [] s b = b"
  by (simp add: fed_def bp_after_def)

text \<open>
  The outcomes that the signals of a run decide, with or without an open conditional branch before it: that a
  branch was not taken is known with the next conditional branch.
\<close>

fun decided :: "bool \<Rightarrow> bool list \<Rightarrow> bool list" where
  "decided p [] = []"
| "decided p (x # xs) = (if p then [False] else []) @ (if x then [True] else []) @ decided (\<not> x) xs"

lemma one_branch:
  assumes "predictor b = hyst_code s" and "p = (last_signal b = COND_SIG)"
  shows "branch_run (branch_signals x) (b, v) =
    Inr ((fed ((if p then [False] else []) @ (if x then [True] else [])) s b)\<lparr>last_signal := if x then 0 else COND_SIG\<rparr>, v)"
proof -
  note u = update_fed [of _ _ False, unfolded taken_word_def, simplified] update_fed [of _ _ True, unfolded taken_word_def, simplified]
  note f = fed_append [where xs = "[False]" and ys = "[True]", simplified]
  show ?thesis
    using assms u(1) [OF assms(1), of v] u(2) [OF assms(1), of v] u(2) [of "fed [False] s b" "hyst_step False s" v] u(2) [of "b\<lparr>last_signal := 99\<rparr>" s v]
      fed_Nil [OF assms(1)] f [of s b]
    by (cases p; cases x) (auto simp: branch_run_def branch_signals_def branch_set_def COND_SIG_def split: prod.splits)
qed

lemma branch_run_fed:
  assumes "predictor b = hyst_code s" and "p = (last_signal b = COND_SIG)"
  shows "branch_run (concat (map branch_signals xs)) (b, v) =
    Inr ((fed (decided p xs) s b)\<lparr>last_signal := if xs = [] then last_signal b else if last xs then 0 else COND_SIG\<rparr>, v)"
  using assms
proof (induction xs arbitrary: b s p)
  case Nil
  then show ?case by (simp add: branch_run_def fed_Nil)
next
  case (Cons x xs)
  let ?zs = "(if p then [False] else []) @ (if x then [True] else [])"
  let ?b = "(fed ?zs s b)\<lparr>last_signal := if x then 0 else COND_SIG\<rparr>"
  have "branch_run (concat (map branch_signals (x # xs))) (b, v) = branch_run (concat (map branch_signals xs)) (?b, v)"
    using one_branch [OF Cons.prems, of x v] by (simp add: branch_run_def fold_res_append)
  also have "\<dots> = Inr ((fed (decided (\<not> x) xs) (fold hyst_step ?zs s) ?b)\<lparr>last_signal :=
      if xs = [] then last_signal ?b else if last xs then 0 else COND_SIG\<rparr>, v)"
    by (rule Cons.IH) (auto simp: COND_SIG_def)
  finally show ?case
    using fed_append [of "decided (\<not> x) xs" ?zs s b] by simp
qed

definition resolved :: "bool list \<Rightarrow> bool list" where
  "resolved xs = (if xs \<noteq> [] \<and> \<not> last xs then butlast xs else xs)"

lemma decided_resolved: "decided p xs = (if xs = [] then [] else (if p then [False] else []) @ resolved xs)"
  by (induction xs arbitrary: p) (auto simp: resolved_def)

section \<open>Properties of the branch predictor\<close>

text \<open>
  Property C20. The predictor follows its specification: whatever branches are executed, the signals decode to
  their outcomes (a last branch that was not taken is still open), no state outside the four of the
  predictor is reached, and the two counters read back are the numbers of right and wrong predictions
  of the predictor that changes its guess after two misses in a row, starting with not taken.
\<close>

theorem branch_predictor_refines:
  "\<exists>b v'. branch_run (concat (map branch_signals xs)) (bp0, v) = Inr (b, v) \<and>
     vpmu_branch_predict PREDICT_CORRECT (b, v) = Inr (of_nat (hyst_hits (resolved xs) (False, False)), b, v') \<and>
     vpmu_branch_predict PREDICT_WRONG (b, v) =
       Inr (of_nat (length (resolved xs) - hyst_hits (resolved xs) (False, False)), b, v')"
proof -
  let ?b = "(fed (decided False xs) (False, False) bp0)\<lparr>last_signal := if xs = [] then last_signal bp0 else if last xs then 0 else COND_SIG\<rparr>"
  have d: "decided False xs = resolved xs" by (simp add: decided_resolved) (simp add: resolved_def)
  have "branch_run (concat (map branch_signals xs)) (bp0, v) = Inr (?b, v)"
    by (rule branch_run_fed) (simp_all add: bp0_def hyst_code_def COND_SIG_def)
  then show ?thesis
    by (auto simp: vpmu_branch_predict_def branch_update_def BRANCH_PREDICT_SYNC_def PREDICT_CORRECT_def PREDICT_WRONG_def
        d fed_def bp_after_def bp0_def)
qed

text \<open>
  Property C21. The ring between the emulator and the predictor thread is a queue of 199 signals: in every
  interleaving of \<open>put_event\<close> and of the thread, the signals taken are those accepted, once each and in
  order. The write that \<open>put_event\<close> makes before it waits for room never overwrites a waiting signal.
\<close>

theorem branch_ring_fifo:
  assumes "ring_ok q" and "ring_contents q = []" and "queue_run put_event branch_take ops q = (q', sent, got)"
  shows "sent = got @ ring_contents q' \<and> length (ring_contents q') \<le> 199 \<and> ring_ok q' \<and>
     ring_contents (put_write sig q') = ring_contents q'"
  using br.run_fifo [OF assms(1,3)] br.bounded [of q'] put_write_keeps [of q' sig] assms(2) by auto

definition ring0 :: branch_ring where
  "ring0 = \<lparr>BranchTrace = \<lambda>_. 0, branch_index_head = 199, branch_index_tail = 199, branch_buffer_size = 0\<rparr>"

theorem branch_ring_fifo_witness:
  "\<exists>q' sent got. queue_run put_event branch_take [Enq 99, Enq 0, Deq] ring0 = (q', sent, got) \<and> sent = got @ ring_contents q'"
proof -
  have ok: "ring_ok ring0" "ring_contents ring0 = []"
    by (simp_all add: ring_ok_def ring_contents_def ring0_def BRANCH_QUEUE_SIZE_def)
  obtain q' sent got where r: "queue_run put_event branch_take [Enq 99, Enq 0, Deq] ring0 = (q', sent, got)" by (metis prod_cases3)
  from branch_ring_fifo [OF ok r] r show ?thesis by blast
qed

end
