(* ===== verification/VPMU_Clock.thy ===== *)
theory VPMU_Clock
  imports M2M_Device VPMU_Insn
begin

unbundle bit_operations_syntax

text \<open>
  The accounting of executed blocks and the virtual clock (\<^verbatim>\<open>target-arm/op_vpmu.c\<close>, \<^verbatim>\<open>hw/vpmu-device.c\<close>). Translated code calls
  \<open>vpmu_calculate\<close> at the start of each block: it adds the block's cycles and instruction counts to the
  counters of the unit and, once the network has started, publishes the estimated execution time as the
  local time of the device in shared memory, which the routing threads compare.

  \<^item> The cache simulator (\<^verbatim>\<open>d4-7\<close>) is third-party code: \<open>d4ref\<close> is a parameter that maps the statistics of
    the caches to those after a reference. Its counters are C doubles, here integers.
  \<^item> \<open>levcache idu lev\<close> is \<open>d4_levcache[idu][lev]\<close>: 0 unified, 1 instructions, 2 data; the pointers \<open>icache\<close> and
    \<open>dcache\<close> are those of level 0, as \<open>VPMU_cache_init\<close> sets them for split first level caches.
  \<^item> The second level cache exists when \<open>d4_maxlevel\<close> is above 1; otherwise its pointer is null, and reading its statistics is an error.
  \<^item> A double quotient that is converted to \<open>uint64_t\<close> is the floor of the real quotient, and undefined for
    a frequency of 0.
\<close>

section \<open>Caches\<close>

record d4cache =
  fetch :: "int \<Rightarrow> int"
  miss :: "int \<Rightarrow> int"

type_synonym caches = "nat \<Rightarrow> nat \<Rightarrow> d4cache"

definition D4XREAD :: int where "D4XREAD = 0"
definition D4XWRITE :: int where "D4XWRITE = 1"
definition D4XINSTRN :: int where "D4XINSTRN = 2"

lemmas d4x = D4XREAD_def D4XWRITE_def D4XINSTRN_def

text \<open>The statistics that the unit reads; the classified misses are only cleared.\<close>

definition ResetCache :: "d4cache \<Rightarrow> d4cache" where
  "ResetCache d = d\<lparr>fetch := (fetch d)(D4XREAD := 0, D4XWRITE := 0, D4XINSTRN := 0),
     miss := (miss d)(D4XREAD := 0, D4XWRITE := 0, D4XINSTRN := 0)\<rparr>"

type_synonym cache_sim = "nat \<Rightarrow> d4memref \<Rightarrow> caches \<Rightarrow> caches"

definition cache_ref :: "cache_sim \<Rightarrow> d4memref \<Rightarrow> caches \<Rightarrow> caches" where
  "cache_ref d4ref r = (if accesstype r = D4XINSTRN then d4ref 1 r else d4ref 2 r)"

definition vpmu_L1_dcache_access_count :: "caches \<Rightarrow> u64" where
  "vpmu_L1_dcache_access_count C = word_of_int (fetch (C 2 0) D4XREAD + fetch (C 2 0) D4XWRITE)"

definition vpmu_L1_dcache_miss_count :: "caches \<Rightarrow> u64" where
  "vpmu_L1_dcache_miss_count C = word_of_int (miss (C 2 0) D4XREAD + miss (C 2 0) D4XWRITE)"

definition vpmu_L1_dcache_read_miss_count :: "caches \<Rightarrow> u64" where
  "vpmu_L1_dcache_read_miss_count C = word_of_int (miss (C 2 0) D4XREAD)"

definition vpmu_L1_dcache_write_miss_count :: "caches \<Rightarrow> u64" where
  "vpmu_L1_dcache_write_miss_count C = word_of_int (miss (C 2 0) D4XWRITE)"

definition vpmu_L2_dcache_access_count :: "caches \<Rightarrow> u64" where
  "vpmu_L2_dcache_access_count C = word_of_int (fetch (C 0 1) D4XREAD + fetch (C 0 1) D4XWRITE)"

definition vpmu_L2_dcache_miss_count :: "caches \<Rightarrow> u64" where
  "vpmu_L2_dcache_miss_count C = word_of_int (miss (C 0 1) D4XREAD + miss (C 0 1) D4XWRITE)"

definition vpmu_L2_dcache_read_miss_count :: "caches \<Rightarrow> u64" where
  "vpmu_L2_dcache_read_miss_count C = word_of_int (miss (C 0 1) D4XREAD)"

text \<open>The write misses of the second level are read from the wrong counter.\<close>

definition vpmu_L2_dcache_write_miss_count :: "caches \<Rightarrow> u64" where
  "vpmu_L2_dcache_write_miss_count C = word_of_int (fetch (C 0 1) D4XWRITE)"

definition vpmu_L1_icache_access_count :: "VPMU \<Rightarrow> caches \<Rightarrow> u64" where
  "vpmu_L1_icache_access_count v C = word_of_int (fetch (C 1 0) D4XINSTRN + uint (additional_icache_access v))"

definition vpmu_L1_icache_miss_count :: "caches \<Rightarrow> u64" where
  "vpmu_L1_icache_miss_count C = word_of_int (miss (C 1 0) D4XINSTRN)"

section \<open>Counters\<close>

definition vpmu_branch_insn_count :: "VPMU \<Rightarrow> u64" where
  "vpmu_branch_insn_count v = branch_count v"

definition vpmu_total_insn_count :: "VPMU \<Rightarrow> u64" where
  "vpmu_total_insn_count v = USR_icount v + SVC_icount v + sys_call_icount v + sys_rest_icount v"

definition vpmu_total_load_count :: "VPMU \<Rightarrow> u64" where
  "vpmu_total_load_count v = USR_load_count v + SVC_load_count v + IRQ_load_count v + sys_call_load_count v + sys_rest_load_count v"

definition vpmu_total_store_count :: "VPMU \<Rightarrow> u64" where
  "vpmu_total_store_count v = USR_store_count v + SVC_store_count v + IRQ_store_count v + sys_call_store_count v + sys_rest_store_count v"

definition vpmu_total_ldst_count :: "VPMU \<Rightarrow> u64" where
  "vpmu_total_ldst_count v = USR_ldst_count v + SVC_ldst_count v + IRQ_ldst_count v + sys_call_ldst_count v + sys_rest_ldst_count v"

definition vpmu_cycle_count :: "VPMU \<Rightarrow> caches \<Rightarrow> u64" where
  "vpmu_cycle_count v C = (let model = timing_register v AND 0xf0000000;
       L2 = (if d4_maxlevel v > 1 then vpmu_L2_dcache_miss_count C else 0);
       (L1_nowMiss, L2_nowMiss) =
         (if model = TIMING_MODEL_A \<or> model = TIMING_MODEL_B then (0, 0)
          else if model = TIMING_MODEL_C then (vpmu_L1_dcache_miss_count C, L2)
          else if model = TIMING_MODEL_D \<or> model = TIMING_MODEL_E \<or> model = TIMING_MODEL_F \<or> model = TIMING_MODEL_G
            then (vpmu_L1_dcache_miss_count C + vpmu_L1_icache_miss_count C, L2)
          else (0, 0)) in
     ticks v + (L1_nowMiss + iomem_qemu v) * l1_cache_miss_lat v + L2_nowMiss * l2_cache_miss_lat v)"

definition vpmu_pipeline_cycle_count :: "VPMU \<Rightarrow> u64" where
  "vpmu_pipeline_cycle_count v = ticks v"

definition vpmu_io_memory_access_cycle_count :: "VPMU \<Rightarrow> u64" where
  "vpmu_io_memory_access_cycle_count v = iomem_qemu v * l1_cache_miss_lat v"

definition vpmu_sys_memory_access_cycle_count :: "VPMU \<Rightarrow> caches \<Rightarrow> u64 res" where
  "vpmu_sys_memory_access_cycle_count v C =
     (if cpu_model v = 1 then
        bind_res (guard_res (d4_maxlevel v > 1) Undefined) (\<lambda>_.
          Inr ((vpmu_L1_dcache_miss_count C + vpmu_L1_icache_miss_count C) * l1_cache_miss_lat v
            + vpmu_L2_dcache_miss_count C * l2_cache_miss_lat v))
      else Inr ((vpmu_L1_dcache_miss_count C + vpmu_L1_icache_miss_count C) * l1_cache_miss_lat v))"

section \<open>Estimated times\<close>

text \<open>\<open>cycles / (target_cpu_frequency / 1000.0)\<close>, converted to \<open>uint64_t\<close>.\<close>

definition ns_of :: "VPMU \<Rightarrow> u64 \<Rightarrow> u64 res" where
  "ns_of v c = (if target_cpu_frequency v = 0 then Inl Undefined
     else Inr (word_of_int \<lfloor>real_of_int (uint c) / (real_of_int (uint (target_cpu_frequency v)) / 1000)\<rfloor>))"

definition vpmu_estimated_pipeline_execution_time_ns :: "VPMU \<Rightarrow> u64 res" where
  "vpmu_estimated_pipeline_execution_time_ns v = ns_of v (vpmu_pipeline_cycle_count v)"

definition vpmu_estimated_io_memory_access_time_ns :: "VPMU \<Rightarrow> u64 res" where
  "vpmu_estimated_io_memory_access_time_ns v = ns_of v (vpmu_io_memory_access_cycle_count v)"

definition vpmu_estimated_sys_memory_access_time_ns :: "VPMU \<Rightarrow> caches \<Rightarrow> u64 res" where
  "vpmu_estimated_sys_memory_access_time_ns v C = bind_res (vpmu_sys_memory_access_cycle_count v C) (ns_of v)"

text \<open>The network times are those that sending and receiving add to in the record of the process.\<close>

definition vpmu_estimated_netsend_execution_time_ns :: "dev \<Rightarrow> u64" where
  "vpmu_estimated_netsend_execution_time_ns s = netsend_qemu s"

definition vpmu_estimated_netrecv_execution_time_ns :: "dev \<Rightarrow> u64" where
  "vpmu_estimated_netrecv_execution_time_ns s = netrecv_qemu s"

definition vpmu_estimated_netsend_count :: "dev \<Rightarrow> u64" where
  "vpmu_estimated_netsend_count s = netsend_count s"

definition vpmu_estimated_netrecv_count :: "dev \<Rightarrow> u64" where
  "vpmu_estimated_netrecv_count s = netrecv_count s"

definition vpmu_estimated_network_execution_time_ns :: "dev \<Rightarrow> u64" where
  "vpmu_estimated_network_execution_time_ns s =
     vpmu_estimated_netsend_execution_time_ns s + vpmu_estimated_netrecv_execution_time_ns s"

definition vpmu_estimated_execution_time_ns :: "VPMU \<Rightarrow> caches \<Rightarrow> dev \<Rightarrow> u64 res" where
  "vpmu_estimated_execution_time_ns v C s =
     bind_res (vpmu_estimated_pipeline_execution_time_ns v) (\<lambda>p.
     bind_res (vpmu_estimated_io_memory_access_time_ns v) (\<lambda>i.
     bind_res (vpmu_estimated_sys_memory_access_time_ns v C) (\<lambda>m.
       Inr (p + i + vpmu_estimated_network_execution_time_ns s + m))))"

text \<open>The time since the last call is added to the energy sum but not to \<open>eet_ns\<close>: that line is commented out.\<close>

definition TARGET_AVG_CPI :: real where "TARGET_AVG_CPI = 1.51189302527"

definition add_energy :: "real \<Rightarrow> real \<Rightarrow> VPMU \<Rightarrow> VPMU" where
  "add_energy mpu_power time v = v\<lparr>epc_mpu :=
     word_of_int \<lfloor>real_of_int (uint (epc_mpu v)) + real_of_int \<lfloor>time\<rfloor> * mpu_power / 1000000\<rfloor>\<rparr>"

definition vpmu_update_eet_epc :: "real \<Rightarrow> VPMU \<Rightarrow> caches \<Rightarrow> VPMU res" where
  "vpmu_update_eet_epc mpu_power v C =
     (let model = timing_register v AND 0xf0000000; f = real_of_int (uint (target_cpu_frequency v)) / 1000 in
      if model = TIMING_MODEL_A then
        bind_res (guard_res (target_cpu_frequency v \<noteq> 0) Undefined) (\<lambda>_.
          Inr (add_energy mpu_power (real_of_int (uint (vpmu_total_insn_count v - last_ticks v)) * TARGET_AVG_CPI / f)
            (v\<lparr>last_ticks := vpmu_total_insn_count v\<rparr>)))
      else if model \<in> {TIMING_MODEL_B, TIMING_MODEL_C, TIMING_MODEL_D, TIMING_MODEL_E, TIMING_MODEL_F, TIMING_MODEL_G} then
        bind_res (guard_res (target_cpu_frequency v \<noteq> 0) Undefined) (\<lambda>_.
          Inr (add_energy mpu_power (real_of_int (uint (vpmu_cycle_count v C - last_ticks v)) / f)
            (v\<lparr>last_ticks := vpmu_cycle_count v C\<rparr>)))
      else Inr (add_energy mpu_power 0 v))"

definition vpmu_estimated_execution_time :: "real \<Rightarrow> VPMU \<Rightarrow> caches \<Rightarrow> (u32 \<times> VPMU) res" where
  "vpmu_estimated_execution_time mpu_power v C =
     bind_res (vpmu_update_eet_epc mpu_power v C) (\<lambda>v. Inr (ucast (eet_ns v div 1000), v))"

section \<open>A block is executed\<close>

record vstate =
  vp :: VPMU
  levcache :: caches
  previous_pc :: u32

definition calc_icache :: "cache_sim \<Rightarrow> ExtraTBInfo \<Rightarrow> vstate \<Rightarrow> vstate" where
  "calc_icache d4ref tb st = (let r = icache_ref tb in
     if sim_on VPMU_ICACHE_SIM (vp st) then
       if previous_pc st = address r then
         st\<lparr>vp := (vp st)\<lparr>additional_icache_access := additional_icache_access (vp st) + word_of_int (rsize r)\<rparr>\<rparr>
       else st\<lparr>previous_pc := address r, levcache := cache_ref d4ref r (levcache st)\<rparr>
     else st)"

definition calc_ticks :: "ExtraTBInfo \<Rightarrow> VPMU \<Rightarrow> VPMU" where
  "calc_ticks tb v =
     (if sim_on VPMU_PIPELINE_SIM v then
        if cpu_model v = 0 then v\<lparr>ticks := ticks v + tb_ticks tb\<rparr>
        else v\<lparr>ticks := ticks v + tb_ticks tb - dual_issue_reduce_ticks tb,
          reduce_ticks := reduce_ticks v + dual_issue_reduce_ticks tb\<rparr>
      else v)"

definition ARM_CPU_MODE_USR :: int where "ARM_CPU_MODE_USR = 0x10"
definition ARM_CPU_MODE_IRQ :: int where "ARM_CPU_MODE_IRQ = 0x12"
definition ARM_CPU_MODE_SVC :: int where "ARM_CPU_MODE_SVC = 0x13"

definition calc_counts :: "int \<Rightarrow> ExtraTBInfo \<Rightarrow> VPMU \<Rightarrow> VPMU" where
  "calc_counts mode tb v =
     (if sim_on VPMU_INSN_COUNT_SIM v then
        let n = ucast (tb_insn_count tb); l = ucast (tb_load_count tb); s = ucast (tb_store_count tb);
            v = v\<lparr>branch_count := branch_count v + ucast (tb_branch_count tb),
              all_changes_to_PC_count := all_changes_to_PC_count v + ucast (tb_all_changes_to_PC_count tb)\<rparr> in
        if mode = ARM_CPU_MODE_USR then
          v\<lparr>USR_icount := USR_icount v + n, USR_load_count := USR_load_count v + l,
            USR_store_count := USR_store_count v + s, USR_ldst_count := USR_ldst_count v + (l + s)\<rparr>
        else if mode = ARM_CPU_MODE_SVC then
          if swi_fired v = 1 then
            v\<lparr>sys_call_icount := sys_call_icount v + n, sys_call_load_count := sys_call_load_count v + l,
              sys_call_store_count := sys_call_store_count v + s, sys_call_ldst_count := sys_call_ldst_count v + (l + s)\<rparr>
          else
            v\<lparr>SVC_icount := SVC_icount v + n, SVC_load_count := SVC_load_count v + l,
              SVC_store_count := SVC_store_count v + s, SVC_ldst_count := SVC_ldst_count v + (l + s)\<rparr>
        else if mode = ARM_CPU_MODE_IRQ then
          v\<lparr>IRQ_icount := IRQ_icount v + n, IRQ_load_count := IRQ_load_count v + l,
            IRQ_store_count := IRQ_store_count v + s, IRQ_ldst_count := IRQ_ldst_count v + (l + s)\<rparr>
        else
          v\<lparr>sys_rest_icount := sys_rest_icount v + n, sys_rest_load_count := sys_rest_load_count v + l,
            sys_rest_store_count := sys_rest_store_count v + s, sys_rest_ldst_count := sys_rest_ldst_count v + (l + s)\<rparr>
      else v)"

definition calc_block :: "cache_sim \<Rightarrow> int \<Rightarrow> ExtraTBInfo \<Rightarrow> vstate \<Rightarrow> vstate" where
  "calc_block d4ref mode tb st =
     (let st = calc_icache d4ref tb st in st\<lparr>vp := calc_counts mode tb (calc_ticks tb (vp st))\<rparr>)"

text \<open>\<open>running\<close> is \<open>env && VPMU_enabled\<close>; the local time slot is that of the own device.\<close>

definition vpmu_calculate :: "cache_sim \<Rightarrow> bool \<Rightarrow> int \<Rightarrow> ExtraTBInfo \<Rightarrow> proc \<Rightarrow> vstate \<times> shm \<Rightarrow> (vstate \<times> shm) res" where
  "vpmu_calculate d4ref running mode tb P sh = (let (st, h) = sh in
     if running then
       let st = calc_block d4ref mode tb st in
       if p_trigger P \<noteq> 0 then
         bind_res (vpmu_estimated_execution_time_ns (vp st) (levcache st) (p_dev P)) (\<lambda>t.
           Inr (st, set_localtime (own_time (p_env P) (p_dev P)) t h))
       else Inr (st, h)
     else Inr (st, h))"

text \<open>
  A reset before a measurement, up to the reading of the configuration file. The network times are
  cleared in the record of the process.
\<close>

definition VPMU_reset :: "vstate \<times> dev \<Rightarrow> vstate \<times> dev" where
  "VPMU_reset sd = (let (st, s) = sd; v = vp st in
     (st\<lparr>vp := v\<lparr>USR_icount := 0, IRQ_icount := 0, SVC_icount := 0, sys_call_icount := 0, sys_rest_icount := 0,
          USR_ldst_count := 0, SVC_ldst_count := 0, IRQ_ldst_count := 0, sys_call_ldst_count := 0, sys_rest_ldst_count := 0,
          USR_load_count := 0, SVC_load_count := 0, IRQ_load_count := 0, sys_call_load_count := 0, sys_rest_load_count := 0,
          USR_store_count := 0, SVC_store_count := 0, IRQ_store_count := 0, sys_call_store_count := 0, sys_rest_store_count := 0,
          ticks := 0, eet_ns := 0, last_ticks := 0, epc_mpu := 0, branch_count := 0, all_changes_to_PC_count := 0,
          additional_icache_access := 0, iomem_count := 0, iomem_qemu := 0, timing_register := 0, swi_fired := 0,
          ARM_count := \<lambda>i. if i < ARM_INSTRUCTIONS + 2 then 0 else ARM_count v i, reduce_ticks := 0\<rparr>,
        levcache := \<lambda>idu lev. if idu < 3 \<and> lev < 5 then ResetCache (levcache st idu lev) else levcache st idu lev\<rparr>,
      s\<lparr>netrecv_count := 0, netsend_count := 0, netrecv_qemu := 0, netsend_qemu := 0\<rparr>))"

section \<open>The clock in integers\<close>

definition sys_int :: "VPMU \<Rightarrow> caches \<Rightarrow> int" where
  "sys_int v C = (miss (C 2 0) D4XREAD + miss (C 2 0) D4XWRITE + miss (C 1 0) D4XINSTRN) * uint (l1_cache_miss_lat v) +
     (if cpu_model v = 1 then (miss (C 0 1) D4XREAD + miss (C 0 1) D4XWRITE) * uint (l2_cache_miss_lat v) else 0)"

definition io_int :: "VPMU \<Rightarrow> int" where
  "io_int v = uint (iomem_qemu v) * uint (l1_cache_miss_lat v)"

definition ns_int :: "VPMU \<Rightarrow> int \<Rightarrow> int" where
  "ns_int v c = c * 1000 div uint (target_cpu_frequency v)"

text \<open>The processor time of the model without wrapping, and the states in which nothing wraps.\<close>

definition cpu_int :: "VPMU \<Rightarrow> caches \<Rightarrow> int" where
  "cpu_int v C = ns_int v (uint (ticks v)) + ns_int v (io_int v) + ns_int v (sys_int v C)"

definition misses_ok :: "caches \<Rightarrow> bool" where
  "misses_ok C \<longleftrightarrow> (\<forall>i l k. 0 \<le> miss (C i l) k)"

definition clock_fits :: "VPMU \<Rightarrow> caches \<Rightarrow> dev \<Rightarrow> bool" where
  "clock_fits v C s \<longleftrightarrow> target_cpu_frequency v \<noteq> 0 \<and> (cpu_model v = 1 \<longrightarrow> 1 < d4_maxlevel v) \<and> io_int v < 2 ^ 64 \<and> sys_int v C < 2 ^ 64 \<and>
     cpu_int v C + uint (netsend_qemu s) + uint (netrecv_qemu s) < 2 ^ 64"

lemma ns_of_int:
  assumes "target_cpu_frequency v \<noteq> 0"
  shows "ns_of v c = Inr (word_of_int (ns_int v (uint c)))"
proof -
  have "0 < uint (target_cpu_frequency v)" using assms uint_ge_0 [of "target_cpu_frequency v"] by (metis order_le_less uint_0_iff)
  then have "\<lfloor>real_of_int (uint c) / (real_of_int (uint (target_cpu_frequency v)) / 1000)\<rfloor> = uint c * 1000 div uint (target_cpu_frequency v)"
    using floor_divide_of_int_eq [of "uint c * 1000" "uint (target_cpu_frequency v)", where 'a = real] by simp
  then show ?thesis using assms by (simp add: ns_of_def ns_int_def)
qed

lemma ns_int_mono: "a \<le> b \<Longrightarrow> ns_int v a \<le> ns_int v b"
  unfolding ns_int_def by (cases "uint (target_cpu_frequency v) = 0") (auto intro!: zdiv_mono1 simp: order_less_le uint_nonnegative)

lemma ns_int_nonneg: "0 \<le> a \<Longrightarrow> 0 \<le> ns_int v a"
  using ns_int_mono [of 0 a v] by (simp add: ns_int_def)

lemma io_cycles: "vpmu_io_memory_access_cycle_count v = word_of_int (io_int v)"
  by (simp add: vpmu_io_memory_access_cycle_count_def io_int_def)

lemma sys_cycles:
  "(cpu_model v = 1 \<longrightarrow> 1 < d4_maxlevel v) \<Longrightarrow> vpmu_sys_memory_access_cycle_count v C = Inr (word_of_int (sys_int v C))"
  by (simp add: vpmu_sys_memory_access_cycle_count_def sys_int_def vpmu_L1_dcache_miss_count_def
      vpmu_L1_icache_miss_count_def vpmu_L2_dcache_miss_count_def algebra_simps)

lemma uint_word_of_int_small: "0 \<le> a \<Longrightarrow> a < 2 ^ 64 \<Longrightarrow> uint (word_of_int a :: u64) = a"
  by (simp add: uint_word_of_int)

lemma io_int_nonneg: "0 \<le> io_int v"
  by (simp add: io_int_def)

lemma sys_int_nonneg: "misses_ok C \<Longrightarrow> 0 \<le> sys_int v C"
  by (simp add: sys_int_def misses_ok_def)

text \<open>The estimated time is the processor time plus the network times.\<close>

lemma estimated_time:
  assumes "clock_fits v C s" and "misses_ok C"
  shows "vpmu_estimated_execution_time_ns v C s = Inr (word_of_int (cpu_int v C) + (netsend_qemu s + netrecv_qemu s))"
    "uint (word_of_int (cpu_int v C) + (netsend_qemu s + netrecv_qemu s)) = cpu_int v C + uint (netsend_qemu s) + uint (netrecv_qemu s)"
proof -
  have f: "target_cpu_frequency v \<noteq> 0" using assms(1) by (simp add: clock_fits_def)
  have io: "uint (vpmu_io_memory_access_cycle_count v) = io_int v"
    unfolding io_cycles using assms(1) by (intro uint_word_of_int_small) (simp_all add: clock_fits_def io_int_nonneg)
  have sy: "vpmu_sys_memory_access_cycle_count v C = Inr (word_of_int (sys_int v C))" "uint (word_of_int (sys_int v C) :: u64) = sys_int v C"
    using assms by (simp_all add: sys_cycles uint_word_of_int_small clock_fits_def sys_int_nonneg)
  show "vpmu_estimated_execution_time_ns v C s = Inr (word_of_int (cpu_int v C) + (netsend_qemu s + netrecv_qemu s))"
    by (simp add: vpmu_estimated_execution_time_ns_def vpmu_estimated_pipeline_execution_time_ns_def
        vpmu_estimated_io_memory_access_time_ns_def vpmu_estimated_sys_memory_access_time_ns_def ns_of_int [OF f] io sy
        vpmu_pipeline_cycle_count_def cpu_int_def vpmu_estimated_network_execution_time_ns_def
        vpmu_estimated_netsend_execution_time_ns_def vpmu_estimated_netrecv_execution_time_ns_def algebra_simps)
  have n: "0 \<le> cpu_int v C"
    using assms(2) by (simp add: cpu_int_def ns_int_nonneg sys_int_nonneg io_int_def)
  have "word_of_int (cpu_int v C) + (netsend_qemu s + netrecv_qemu s) =
      (word_of_int (cpu_int v C + uint (netsend_qemu s) + uint (netrecv_qemu s)) :: u64)" by simp
  then show "uint (word_of_int (cpu_int v C) + (netsend_qemu s + netrecv_qemu s)) = cpu_int v C + uint (netsend_qemu s) + uint (netrecv_qemu s)"
    using assms(1) n uint_word_of_int_small by (simp add: clock_fits_def del: of_int_add wi_hom_add)
qed


section \<open>Executing a block\<close>

text \<open>What a cache simulator keeps: no reference lowers a miss counter.\<close>

definition counts_up :: "cache_sim \<Rightarrow> bool" where
  "counts_up d4ref \<longleftrightarrow> (\<forall>n r C i l k. miss (C i l) k \<le> miss (d4ref n r C i l) k)"

lemma calc_counts_clock:
  "ticks (calc_counts mode tb v) = ticks v" "iomem_qemu (calc_counts mode tb v) = iomem_qemu v"
  "target_cpu_frequency (calc_counts mode tb v) = target_cpu_frequency v" "cpu_model (calc_counts mode tb v) = cpu_model v"
  "l1_cache_miss_lat (calc_counts mode tb v) = l1_cache_miss_lat v" "l2_cache_miss_lat (calc_counts mode tb v) = l2_cache_miss_lat v"
  "d4_maxlevel (calc_counts mode tb v) = d4_maxlevel v"
  by (simp_all add: calc_counts_def Let_def)

lemma calc_ticks_clock:
  "iomem_qemu (calc_ticks tb v) = iomem_qemu v"
  "target_cpu_frequency (calc_ticks tb v) = target_cpu_frequency v" "cpu_model (calc_ticks tb v) = cpu_model v" "timing_register (calc_ticks tb v) = timing_register v"
  "l1_cache_miss_lat (calc_ticks tb v) = l1_cache_miss_lat v" "l2_cache_miss_lat (calc_ticks tb v) = l2_cache_miss_lat v"
  "d4_maxlevel (calc_ticks tb v) = d4_maxlevel v"
  by (simp_all add: calc_ticks_def)

lemma calc_icache_clock:
  "ticks (vp (calc_icache d tb st)) = ticks (vp st)" "iomem_qemu (vp (calc_icache d tb st)) = iomem_qemu (vp st)"
  "target_cpu_frequency (vp (calc_icache d tb st)) = target_cpu_frequency (vp st)" "cpu_model (vp (calc_icache d tb st)) = cpu_model (vp st)"
  "l1_cache_miss_lat (vp (calc_icache d tb st)) = l1_cache_miss_lat (vp st)" "l2_cache_miss_lat (vp (calc_icache d tb st)) = l2_cache_miss_lat (vp st)"
  "timing_register (vp (calc_icache d tb st)) = timing_register (vp st)" "d4_maxlevel (vp (calc_icache d tb st)) = d4_maxlevel (vp st)"
  by (simp_all add: calc_icache_def Let_def)

lemmas calc_clock = calc_counts_clock calc_ticks_clock calc_icache_clock

text \<open>The block's saved cycles are at most its cycles, and the sum fits.\<close>

definition block_fits :: "ExtraTBInfo \<Rightarrow> VPMU \<Rightarrow> bool" where
  "block_fits tb v \<longleftrightarrow> dual_issue_reduce_ticks tb \<le> tb_ticks tb \<and> uint (ticks v) + uint (tb_ticks tb) < 2 ^ 64"

lemma calc_ticks_exact:
  assumes "block_fits tb v" and "sim_on VPMU_PIPELINE_SIM v" and "cpu_model v \<noteq> 0"
  shows "uint (ticks (calc_ticks tb v)) = uint (ticks v) + uint (tb_ticks tb) - uint (dual_issue_reduce_ticks tb)"
proof -
  let ?a = "ticks v" and ?t = "tb_ticks tb" and ?r = "dual_issue_reduce_ticks tb"
  have r: "uint ?r \<le> uint ?t" "uint ?a + uint ?t < 2 ^ 64" using assms by (simp_all add: block_fits_def word_le_def)
  have s: "uint (?a + ?t) = uint ?a + uint ?t" using r(2) by (simp add: uint_word_ariths)
  have "uint ?r \<le> uint (?a + ?t)" using r s uint_ge_0 [of ?a] by linarith
  then have "uint (?a + ?t - ?r) = uint (?a + ?t) - uint ?r" by (simp only: uint_sub_lem)
  then show ?thesis using assms(2,3) s by (simp add: calc_ticks_def)
qed

lemma calc_ticks_up:
  assumes "block_fits tb v"
  shows "uint (ticks v) \<le> uint (ticks (calc_ticks tb v))"
proof (cases "sim_on VPMU_PIPELINE_SIM v \<and> cpu_model v \<noteq> 0")
  case True
  moreover have "uint (dual_issue_reduce_ticks tb) \<le> uint (tb_ticks tb)" using assms by (simp add: block_fits_def word_le_def)
  ultimately show ?thesis using calc_ticks_exact [OF assms] by simp
next
  case False
  have "uint (ticks v + tb_ticks tb) = uint (ticks v) + uint (tb_ticks tb)"
    using assms by (simp add: block_fits_def uint_word_ariths)
  then show ?thesis using False by (auto simp: calc_ticks_def)
qed

lemma calc_block_misses:
  assumes "counts_up d4ref"
  shows "miss (levcache st i l) k \<le> miss (levcache (calc_block d4ref mode tb st) i l) k"
  using assms by (simp add: calc_block_def calc_icache_def cache_ref_def counts_up_def Let_def)

lemma cpu_int_up:
  fixes mode :: int
  assumes "counts_up d4ref" and "block_fits tb (vp st)"
  defines "st' \<equiv> calc_block d4ref mode tb st"
  shows "cpu_int (vp st) (levcache st) \<le> cpu_int (vp st') (levcache st')"
proof -
  have same: "iomem_qemu (vp st') = iomem_qemu (vp st)" "target_cpu_frequency (vp st') = target_cpu_frequency (vp st)"
    "cpu_model (vp st') = cpu_model (vp st)" "l1_cache_miss_lat (vp st') = l1_cache_miss_lat (vp st)"
    "l2_cache_miss_lat (vp st') = l2_cache_miss_lat (vp st)"
    by (simp_all add: st'_def calc_block_def Let_def calc_clock)
  have ns: "ns_int (vp st') = ns_int (vp st)" by (rule ext) (simp add: ns_int_def same)
  note m = calc_block_misses [OF assms(1), of st _ _ _ mode tb, folded st'_def]
  have "sys_int (vp st) (levcache st) \<le> sys_int (vp st') (levcache st')"
    unfolding sys_int_def same using m by (auto intro!: add_mono mult_right_mono)
  moreover have "uint (ticks (vp st)) \<le> uint (ticks (vp st'))"
    using calc_ticks_up [of tb "vp (calc_icache d4ref tb st)"] assms(2)
    by (simp add: st'_def calc_block_def Let_def calc_clock block_fits_def)
  ultimately show ?thesis
    unfolding cpu_int_def ns io_int_def same by (intro add_mono ns_int_mono order_refl)
qed

lemma misses_ok_calc: "counts_up d4ref \<Longrightarrow> misses_ok (levcache st) \<Longrightarrow> misses_ok (levcache (calc_block d4ref mode tb st))"
  unfolding misses_ok_def using calc_block_misses by (meson order_trans)


lemmas total_defs = vpmu_total_load_count_def vpmu_total_store_count_def vpmu_total_ldst_count_def
  vpmu_branch_insn_count_def vpmu_total_insn_count_def

lemma clock_step:
  assumes d: "counts_up d4ref" "misses_ok (levcache st)" and b: "block_fits tb (vp st)"
    and f: "clock_fits (vp st) (levcache st) (p_dev P)"
      "clock_fits (vp (calc_block d4ref mode tb st)) (levcache (calc_block d4ref mode tb st)) (p_dev P)"
    and P: "p_trigger P \<noteq> 0"
  shows "\<exists>st' t t0. vpmu_calculate d4ref True mode tb P (st, h) = Inr (st', set_localtime (own_time (p_env P) (p_dev P)) t h) \<and>
     st' = calc_block d4ref mode tb st \<and>
     t = dev_time ((p_dev P)\<lparr>cpu_ns := word_of_int (cpu_int (vp st') (levcache st'))\<rparr>) \<and>
     uint t = cpu_int (vp st') (levcache st') + uint (netsend_qemu (p_dev P)) + uint (netrecv_qemu (p_dev P)) \<and>
     vpmu_estimated_execution_time_ns (vp st') (levcache st') (p_dev P) = Inr t \<and>
     vpmu_estimated_execution_time_ns (vp st) (levcache st) (p_dev P) = Inr t0 \<and> t0 \<le> t"
proof -
  let ?st = "calc_block d4ref mode tb st"
  note old = estimated_time [OF f(1) d(2)] and new = estimated_time [OF f(2) misses_ok_calc [OF d]]
  have "cpu_int (vp st) (levcache st) \<le> cpu_int (vp ?st) (levcache ?st)" by (rule cpu_int_up [OF d(1) b])
  then have le: "word_of_int (cpu_int (vp st) (levcache st)) + (netsend_qemu (p_dev P) + netrecv_qemu (p_dev P))
      \<le> (word_of_int (cpu_int (vp ?st) (levcache ?st)) + (netsend_qemu (p_dev P) + netrecv_qemu (p_dev P)) :: u64)"
    unfolding word_le_def old(2) new(2) by simp
  have dt: "dev_time ((p_dev P)\<lparr>cpu_ns := c\<rparr>) = c + (netsend_qemu (p_dev P) + netrecv_qemu (p_dev P))" for c
    by (simp add: dev_time_def get_vpmu_time_def)
  show ?thesis
    using new old(1) le P dt by - (intro exI conjI, auto simp: vpmu_calculate_def Let_def)
qed

section \<open>Properties of the clock\<close>

text \<open>
  Property C22. The published clock: once the network has started, executing a block stores the estimated time in
  the slot of the own device and nowhere else. It is exactly the sum of the pipeline, I/O and memory times of the counters after
  the block and of the times spent sending and receiving, which is the time that sending and receiving use (\<open>dev_time\<close>). It is not
  smaller than the time before the block. The cache simulator never lowers a miss counter, the sums fit into 64 bits, and the
  processor model 1 has a second level cache.
\<close>

theorem clock_published:
  assumes d: "counts_up d4ref" "misses_ok (levcache st)" and b: "block_fits tb (vp st)"
    and f: "clock_fits (vp st) (levcache st) (p_dev P)"
      "clock_fits (vp (calc_block d4ref mode tb st)) (levcache (calc_block d4ref mode tb st)) (p_dev P)"
    and P: "p_trigger P \<noteq> 0"
  shows "\<exists>st' t t0. vpmu_calculate d4ref True mode tb P (st, h) = Inr (st', set_localtime (own_time (p_env P) (p_dev P)) t h) \<and>
     st' = calc_block d4ref mode tb st \<and>
     t = dev_time ((p_dev P)\<lparr>cpu_ns := word_of_int (cpu_int (vp st') (levcache st'))\<rparr>) \<and>
     uint t = cpu_int (vp st') (levcache st') + uint (netsend_qemu (p_dev P)) + uint (netrecv_qemu (p_dev P)) \<and>
     vpmu_estimated_execution_time_ns (vp st') (levcache st') (p_dev P) = Inr t \<and>
     vpmu_estimated_execution_time_ns (vp st) (levcache st) (p_dev P) = Inr t0 \<and> t0 \<le> t"
  by (rule clock_step [OF assms])

definition vpmu1 :: VPMU where
  "vpmu1 = \<lparr>ARM_count = \<lambda>_. 0, target_cpu_frequency = 1000, cpu_model = 0, USR_icount = 0, IRQ_icount = 0, SVC_icount = 0,
     sys_call_icount = 0, sys_rest_icount = 0, USR_ldst_count = 0, SVC_ldst_count = 0, IRQ_ldst_count = 0,
     sys_call_ldst_count = 0, sys_rest_ldst_count = 0, USR_load_count = 0, SVC_load_count = 0, IRQ_load_count = 0,
     sys_call_load_count = 0, sys_rest_load_count = 0, USR_store_count = 0, SVC_store_count = 0, IRQ_store_count = 0,
     sys_call_store_count = 0, sys_rest_store_count = 0, ticks = 70, eet_ns = 0, last_ticks = 0, epc_mpu = 0,
     branch_count = 0, all_changes_to_PC_count = 0, additional_icache_access = 0, iomem_count = 0, iomem_qemu = 1,
     reduce_ticks = 0, d4_maxlevel = 1, l1_cache_miss_lat = 30, l2_cache_miss_lat = 0, branch_predict_correct = 0,
     branch_predict_wrong = 0, timing_register = 0x70000017, swi_fired = 0\<rparr>"

definition miss_sim :: cache_sim where
  "miss_sim n r C = (\<lambda>i l. if (i, l) = (n, 0) then (C i l)\<lparr>miss := (miss (C i l))(accesstype r := miss (C i l) (accesstype r) + 1)\<rparr> else C i l)"

definition vstate1 :: vstate where
  "vstate1 = \<lparr>vp = vpmu1, levcache = \<lambda>_ _. \<lparr>fetch = \<lambda>_. 0, miss = \<lambda>_. 0\<rparr>, previous_pc = 0\<rparr>"

definition block1 :: ExtraTBInfo where
  "block1 = \<lparr>tb_insn_count = 4, tb_load_count = 1, tb_store_count = 2, tb_ticks = 9,
     icache_ref = \<lparr>address = 0x8000, accesstype = 2, rsize = 16\<rparr>, tb_branch_count = 1, tb_all_changes_to_PC_count = 1,
     arm_count = \<lambda>_. 0, insn_buf = \<lambda>_. 0, insn_buf_index = 0, dual_issue_reduce_ticks = 0\<rparr>"

lemmas example1 = vstate1_def vpmu1_def block1_def vpmu_simulator_status_def timing_masks Let_def

lemma block1_state:
  "calc_block miss_sim 0x12 block1 vstate1 =
     vstate1\<lparr>vp := vpmu1\<lparr>ticks := 79, IRQ_icount := 4, IRQ_load_count := 1, IRQ_store_count := 2, IRQ_ldst_count := 3,
       branch_count := 1, all_changes_to_PC_count := 1\<rparr>,
       levcache := \<lambda>i l. if (i, l) = (1, 0) then \<lparr>fetch = \<lambda>_. 0, miss = (\<lambda>_. 0)(2 := 1)\<rparr> else \<lparr>fetch = \<lambda>_. 0, miss = \<lambda>_. 0\<rparr>,
       previous_pc := 0x8000\<rparr>"
  by (simp add: calc_block_def calc_icache_def calc_ticks_def calc_counts_def cache_ref_def miss_sim_def D4XINSTRN_def
      ARM_CPU_MODE_USR_def ARM_CPU_MODE_IRQ_def ARM_CPU_MODE_SVC_def example1 fun_eq_iff cong: if_cong)

theorem clock_published_witness:
  "\<exists>st' t. vpmu_calculate miss_sim True 0x12 block1 (proc0\<lparr>p_trigger := 1\<rparr>) (vstate1, shm0) =
     Inr (st', set_localtime (own_time (p_env proc0) (p_dev proc0)) t shm0) \<and>
     uint t = 139 + uint (netsend_qemu (p_dev proc0)) + uint (netrecv_qemu (p_dev proc0))"
proof -
  have "counts_up miss_sim" by (simp add: counts_up_def miss_sim_def)
  moreover have "misses_ok (levcache vstate1)" "block_fits block1 (vp vstate1)"
    by (simp_all add: misses_ok_def block_fits_def vstate1_def vpmu1_def block1_def)
  moreover have "clock_fits (vp vstate1) (levcache vstate1) (p_dev proc0)"
    by (simp add: clock_fits_def io_int_def sys_int_def cpu_int_def ns_int_def vstate1_def vpmu1_def proc0_def dev2_def)
  moreover have "clock_fits (vp (calc_block miss_sim 0x12 block1 vstate1)) (levcache (calc_block miss_sim 0x12 block1 vstate1)) (p_dev proc0)"
    unfolding block1_state by (simp add: clock_fits_def io_int_def sys_int_def cpu_int_def ns_int_def vstate1_def vpmu1_def proc0_def dev2_def d4x)
  moreover have "cpu_int (vp (calc_block miss_sim 0x12 block1 vstate1)) (levcache (calc_block miss_sim 0x12 block1 vstate1)) = 139"
    unfolding block1_state by (simp add: io_int_def sys_int_def cpu_int_def ns_int_def vstate1_def vpmu1_def d4x)
  ultimately show ?thesis
    using clock_published [of miss_sim vstate1 block1 "proc0\<lparr>p_trigger := 1\<rparr>" "0x12" shm0] by (simp del: of_int_uint) metis
qed

text \<open>
  The instruction counters: with the instruction simulation on, executing a block adds its loads, its
  stores and their sum to the totals in every processor mode, and its branches to the branch count. Its
  instructions are added to the total, except in interrupt mode: the total leaves \<open>IRQ_icount\<close> out.
\<close>

theorem block_totals:
  assumes "sim_on VPMU_INSN_COUNT_SIM (vp st)" and "vpmu_calculate d4ref True mode tb P (st, h) = Inr (st', h')"
  shows "vpmu_total_load_count (vp st') = vpmu_total_load_count (vp st) + ucast (tb_load_count tb) \<and>
     vpmu_total_store_count (vp st') = vpmu_total_store_count (vp st) + ucast (tb_store_count tb) \<and>
     vpmu_total_ldst_count (vp st') = vpmu_total_ldst_count (vp st) + (ucast (tb_load_count tb) + ucast (tb_store_count tb)) \<and>
     vpmu_branch_insn_count (vp st') = vpmu_branch_insn_count (vp st) + ucast (tb_branch_count tb) \<and>
     vpmu_total_insn_count (vp st') =
       vpmu_total_insn_count (vp st) + (if mode = ARM_CPU_MODE_IRQ then 0 else ucast (tb_insn_count tb))"
proof -
  have "st' = calc_block d4ref mode tb st" using assms(2) by (auto simp: vpmu_calculate_def Let_def split: if_splits)
  then have v: "vp st' = calc_counts mode tb (calc_ticks tb (vp (calc_icache d4ref tb st)))" by (simp add: calc_block_def Let_def)
  let ?v = "calc_ticks tb (vp (calc_icache d4ref tb st))"
  have on: "sim_on VPMU_INSN_COUNT_SIM ?v"
    using assms(1) unfolding vpmu_simulator_status_def calc_clock Let_def .
  have old: "vpmu_total_load_count ?v = vpmu_total_load_count (vp st)" "vpmu_total_store_count ?v = vpmu_total_store_count (vp st)"
    "vpmu_total_ldst_count ?v = vpmu_total_ldst_count (vp st)" "vpmu_branch_insn_count ?v = vpmu_branch_insn_count (vp st)"
    "vpmu_total_insn_count ?v = vpmu_total_insn_count (vp st)"
    by (simp_all add: total_defs calc_ticks_def calc_icache_def Let_def)
  show ?thesis
    unfolding v old [symmetric]
    using on by (auto simp: total_defs calc_counts_def ARM_CPU_MODE_IRQ_def ARM_CPU_MODE_SVC_def ARM_CPU_MODE_USR_def Let_def add.assoc add.left_commute)
qed

theorem block_totals_witness:
  "\<exists>st' h'. vpmu_calculate miss_sim True 0x12 block1 proc0 (vstate1, shm0) = Inr (st', h') \<and>
     vpmu_total_ldst_count (vp st') = 3 \<and> vpmu_total_insn_count (vp st') = 0"
proof -
  have on: "sim_on VPMU_INSN_COUNT_SIM (vp vstate1)" by (simp add: example1)
  obtain st' h' where r: "vpmu_calculate miss_sim True 0x12 block1 proc0 (vstate1, shm0) = Inr (st', h')"
    by (simp add: vpmu_calculate_def proc0_def Let_def)
  from block_totals [OF on r] r show ?thesis
    by (auto simp: total_defs ARM_CPU_MODE_IRQ_def vstate1_def vpmu1_def block1_def)
qed

text \<open>The old interface for the time in microseconds always gives the value that \<open>eet_ns\<close> was reset to.\<close>

lemma estimated_time_never_advances:
  "vpmu_estimated_execution_time w v C = Inr (t, v') \<Longrightarrow> eet_ns v' = eet_ns v \<and> t = ucast (eet_ns v div 1000)"
  by (auto simp: vpmu_estimated_execution_time_def vpmu_update_eet_epc_def add_energy_def Let_def split: if_splits)

lemma reset_clears:
  assumes "VPMU_reset (st, s) = (st', s')"
  shows "vpmu_total_insn_count (vp st') = 0" "vpmu_total_ldst_count (vp st') = 0" "ticks (vp st') = 0"
    "vpmu_L1_dcache_miss_count (levcache st') = 0" "vpmu_L1_icache_miss_count (levcache st') = 0"
    "vpmu_estimated_network_execution_time_ns s' = 0"
    "branch_predict_correct (vp st') = branch_predict_correct (vp st)"
  using assms by (auto simp: VPMU_reset_def Let_def total_defs vpmu_L1_dcache_miss_count_def vpmu_L1_icache_miss_count_def
      ResetCache_def d4x vpmu_estimated_network_execution_time_ns_def vpmu_estimated_netsend_execution_time_ns_def
      vpmu_estimated_netrecv_execution_time_ns_def)

end
