(* ===== verification/VPMU_Events.thy ===== *)
theory VPMU_Events
  imports VPMU_Branch VPMU_Clock
begin

unbundle bit_operations_syntax

text \<open>
  The power figures of the simulated peripherals and the hardware events (\<^verbatim>\<open>hw/vpmu-device.c\<close>, \<^verbatim>\<open>vpmu.h\<close>).
  \<open>vpmu_hardware_event_select\<close> is the one function through which the guest (coprocessor 14), the sampling
  thread and the profiler read the counters of the unit.

  \<^item> The build is without \<open>CONFIG_PACDSP\<close>, as the sources of that coprocessor are not in the tree.
  \<^item> The pointers of \<open>android_dev_stat\<close> are options: None is the null pointer they start with, which the
    emulated devices replace when they are set up; reading through it is undefined.
  \<^item> A double converted to \<open>uint32_t\<close> is cut off, and undefined outside the range of the type. The constants
    4.34, 2.4 and 287.3 are read as the decimals they are written as.
\<close>

section \<open>Peripherals\<close>

record android_dev_stat =
  cpu_util :: u32
  lcd_brightness :: "u32 option"
  audio_buf :: "int option"
  audio_on :: u32
  net_mode :: u8
  net_on :: u8
  net_packets :: "u32 option"
  gps_status :: "u32 option"
  battery_sim :: u8
  energy_left :: u32
  bat_ac_online :: "int option"
  bat_capacity :: "int option"

definition adev_stat_init :: android_dev_stat where
  "adev_stat_init = \<lparr>cpu_util = 0, lcd_brightness = None, audio_buf = None, audio_on = 0, net_mode = 1, net_on = 0,
     net_packets = None, gps_status = None, battery_sim = 1, energy_left = 0, bat_ac_online = None, bat_capacity = None\<rparr>"

text \<open>The state that the events read: the unit with its caches, the predictor, the network times and the peripherals.\<close>

record pmu =
  pm_st :: vstate
  pm_bp :: bp
  pm_dev :: dev
  adev_stat :: android_dev_stat
  VPMU_enabled :: bool
  mpu_power :: real

abbreviation pm_vp :: "pmu \<Rightarrow> VPMU" where "pm_vp p \<equiv> vp (pm_st p)"
abbreviation pm_caches :: "pmu \<Rightarrow> caches" where "pm_caches p \<equiv> levcache (pm_st p)"

definition set_vp :: "VPMU \<Rightarrow> pmu \<Rightarrow> pmu" where
  "set_vp v p = p\<lparr>pm_st := (pm_st p)\<lparr>vp := v\<rparr>\<rparr>"

definition deref :: "'a option \<Rightarrow> 'a res" where
  "deref x = (case x of None \<Rightarrow> Inl Undefined | Some y \<Rightarrow> Inr y)"

definition u32_of_real :: "real \<Rightarrow> u32 res" where
  "u32_of_real x = (if 0 \<le> x \<and> x < 4294967296 then Inr (word_of_int \<lfloor>x\<rfloor>) else Inl Undefined)"

lemma set_vp_set_vp [simp]: "set_vp v (set_vp w p) = set_vp v p"
  by (simp add: set_vp_def)

section \<open>Power\<close>

text \<open>With the unit on, the energy used since the last call is added up first.\<close>

definition vpmu_vpd_mpu_power :: "pmu \<Rightarrow> (u32 \<times> pmu) res" where
  "vpmu_vpd_mpu_power p =
     (if VPMU_enabled p then
        bind_res (vpmu_update_eet_epc (mpu_power p) (pm_vp p) (pm_caches p)) (\<lambda>v. Inr (ucast (epc_mpu v), set_vp v p))
      else bind_res (u32_of_real (4.34 * real_of_int (uint (cpu_util (adev_stat p))))) (\<lambda>x. Inr (x, p)))"

definition vpmu_vpd_dsp1_power :: "pmu \<Rightarrow> u32" where
  "vpmu_vpd_dsp1_power p = 0"

definition vpmu_vpd_dsp2_power :: "pmu \<Rightarrow> u32" where
  "vpmu_vpd_dsp2_power p = 0"

definition vpmu_vpd_lcd_power :: "pmu \<Rightarrow> u32 res" where
  "vpmu_vpd_lcd_power p = bind_res (deref (lcd_brightness (adev_stat p))) (\<lambda>b.
     u32_of_real (if b \<noteq> 0 then real_of_int (uint b) * 2.4 + 287.3 else 0))"

definition vpmu_vpd_audio_power :: "pmu \<Rightarrow> u32 res" where
  "vpmu_vpd_audio_power p = u32_of_real (if audio_on (adev_stat p) \<noteq> 0 then 384.62 else 0)"

definition vpmu_vpd_net_power :: "pmu \<Rightarrow> u32 res" where
  "vpmu_vpd_net_power p = (let a = adev_stat p in
     if net_mode a = 1 then u32_of_real (if net_on a \<noteq> 0 then 720 else 38)
     else if net_mode a = 2 then u32_of_real (if net_on a \<noteq> 0 then 401 else 0)
     else Inr 0)"

definition vpmu_vpd_gps_power :: "pmu \<Rightarrow> u32 res" where
  "vpmu_vpd_gps_power p = bind_res (deref (gps_status (adev_stat p))) (\<lambda>g.
     if g = 2 then u32_of_real 429.55 else if g = 1 then u32_of_real 173.55 else Inr 0)"

definition vpmu_vpd_total_power :: "pmu \<Rightarrow> (u32 \<times> pmu) res" where
  "vpmu_vpd_total_power p =
     bind_res (vpmu_vpd_mpu_power p) (\<lambda>(m, p).
     bind_res (vpmu_vpd_lcd_power p) (\<lambda>l.
     bind_res (vpmu_vpd_audio_power p) (\<lambda>a.
     bind_res (vpmu_vpd_net_power p) (\<lambda>n.
     bind_res (vpmu_vpd_gps_power p) (\<lambda>g. Inr (m + l + a + n + g, p))))))"

section \<open>Hardware events\<close>

definition branch_event :: "u32 \<Rightarrow> pmu \<Rightarrow> (u32 \<times> pmu) res" where
  "branch_event request p = bind_res (vpmu_branch_predict request (pm_bp p, pm_vp p)) (\<lambda>(n, b, v).
     Inr (n, (set_vp v p)\<lparr>pm_bp := b\<rparr>))"

definition value_event :: "u32 res \<Rightarrow> pmu \<Rightarrow> (u32 \<times> pmu) res" where
  "value_event r p = bind_res r (\<lambda>x. Inr (x, p))"

definition low32 :: "u64 \<Rightarrow> u32" where
  "low32 x = ucast x"

definition low32_res :: "u64 res \<Rightarrow> u32 res" where
  "low32_res r = bind_res r (\<lambda>x. Inr (low32 x))"

text \<open>
  Counters that are doubles of the simulator are converted directly. In event 51 the conversion applies to
  the first summand, and the sum of doubles is converted on return.
\<close>

definition vpmu_hardware_event_select :: "u32 \<Rightarrow> pmu \<Rightarrow> (u32 \<times> pmu) res" where
  "vpmu_hardware_event_select evtsel p = (let v = pm_vp p; C = pm_caches p; ok = (\<lambda>x. Inr (low32 x, p));
       d = (\<lambda>i. value_event (u32_of_real (real_of_int i)) p) in
     if evtsel = -1 \<or> evtsel = 0 then ok (vpmu_total_insn_count v)
     else if evtsel = 0x01 then ok (USR_icount v)
     else if evtsel = 0x02 then ok (SVC_icount v)
     else if evtsel = 0x03 then ok (IRQ_icount v)
     else if evtsel = 0x04 then ok (sys_rest_icount v)
     else if evtsel = 0x05 then ok (vpmu_total_ldst_count v)
     else if evtsel = 0x06 then ok (USR_ldst_count v)
     else if evtsel = 0x07 then ok (SVC_ldst_count v)
     else if evtsel = 0x08 then ok (IRQ_ldst_count v)
     else if evtsel = 0x09 then ok (sys_rest_ldst_count v)
     else if evtsel = 0x0a then ok (vpmu_total_load_count v)
     else if evtsel = 0x0b then ok (USR_load_count v)
     else if evtsel = 0x0c then ok (SVC_load_count v)
     else if evtsel = 0x0d then ok (IRQ_load_count v)
     else if evtsel = 0x0e then ok (sys_rest_load_count v)
     else if evtsel = 0x0f then ok (vpmu_total_store_count v)
     else if evtsel = 0x10 then ok (USR_store_count v)
     else if evtsel = 0x11 then ok (SVC_store_count v)
     else if evtsel = 0x12 then ok (IRQ_store_count v)
     else if evtsel = 0x13 then ok (sys_rest_store_count v)
     else if evtsel = 0x14 then ok (all_changes_to_PC_count v)
     else if evtsel = 0x20 then ok (vpmu_branch_insn_count v)
     else if evtsel = 0x21 then branch_event PREDICT_CORRECT p
     else if evtsel = 0x22 then branch_event PREDICT_WRONG p
     else if evtsel = 0x30 then ok (vpmu_L1_dcache_access_count C)
     else if evtsel = 0x31 then d (miss (C 2 0) D4XWRITE)
     else if evtsel = 0x32 then d (miss (C 2 0) D4XREAD)
     else if evtsel = 0x33 then bind_res (u32_of_real (real_of_int (miss (C 2 0) D4XREAD)))
       (\<lambda>r. d (uint r + miss (C 2 0) D4XWRITE))
     else if evtsel = 0x34 then ok (vpmu_L1_icache_access_count v C)
     else if evtsel = 0x35 then d (miss (C 1 0) D4XINSTRN)
     else if evtsel = 0x40 then ok (vpmu_L1_dcache_miss_count C + vpmu_L1_icache_miss_count C)
     else if evtsel = 0x41 then ok (iomem_count v)
     else if evtsel = 0x50 then ok (vpmu_cycle_count v C)
     else if evtsel = 0x51 then value_event (low32_res (vpmu_estimated_execution_time_ns v C (pm_dev p))) p
     else if evtsel = 0x52 then ok (vpmu_pipeline_cycle_count v)
     else if evtsel = 0x53 then value_event (low32_res (vpmu_estimated_pipeline_execution_time_ns v)) p
     else if evtsel = 0x54 then value_event (low32_res (vpmu_sys_memory_access_cycle_count v C)) p
     else if evtsel = 0x55 then value_event (low32_res (vpmu_estimated_sys_memory_access_time_ns v C)) p
     else if evtsel = 0x56 then ok (vpmu_io_memory_access_cycle_count v)
     else if evtsel = 0x57 then value_event (low32_res (vpmu_estimated_io_memory_access_time_ns v)) p
     else if evtsel = 0xf0 then vpmu_vpd_mpu_power p
     else if evtsel = 0xf1 then Inr (vpmu_vpd_dsp1_power p, p)
     else if evtsel = 0xf2 then Inr (vpmu_vpd_dsp2_power p, p)
     else if evtsel = 0xf3 then value_event (vpmu_vpd_lcd_power p) p
     else if evtsel = 0xf4 then value_event (vpmu_vpd_audio_power p) p
     else if evtsel = 0xf5 then value_event (vpmu_vpd_net_power p) p
     else if evtsel = 0xf6 then value_event (vpmu_vpd_gps_power p) p
     else if evtsel = 0xff then vpmu_vpd_total_power p
     else Inr (0, p))"


section \<open>Reading an event disturbs no other\<close>

text \<open>What a reading may change: the energy account and the copies of the predictor's counters.\<close>

definition account :: "u64 \<Rightarrow> u64 \<Rightarrow> u32 \<Rightarrow> u32 \<Rightarrow> VPMU \<Rightarrow> VPMU" where
  "account l e c w v = v\<lparr>last_ticks := l, epc_mpu := e, branch_predict_correct := c, branch_predict_wrong := w\<rparr>"

lemma account_id: "\<exists>l e c w. v = account l e c w v"
  by (rule exI [of _ "last_ticks v"], rule exI [of _ "epc_mpu v"], rule exI [of _ "branch_predict_correct v"],
      rule exI [of _ "branch_predict_wrong v"]) (simp add: account_def)

lemma update_accounts:
  assumes "vpmu_update_eet_epc mp v C = Inr v'"
  shows "\<exists>l e c w. v' = account l e c w v"
proof -
  have "v' = account (last_ticks v') (epc_mpu v') (branch_predict_correct v) (branch_predict_wrong v) v"
    using assms by (auto simp: vpmu_update_eet_epc_def add_energy_def account_def Let_def guard_res_def split: if_splits)
  then show ?thesis by blast
qed

definition only_accounts :: "pmu \<Rightarrow> pmu \<Rightarrow> bool" where
  "only_accounts p p' \<longleftrightarrow> (\<exists>l e c w. p' = set_vp (account l e c w (pm_vp p)) p)"

lemma only_accounts_refl [simp]: "only_accounts p p"
  unfolding only_accounts_def using account_id [of "pm_vp p"] by (metis set_vp_def pmu.surjective pmu.update_convs(1)
    vstate.surjective vstate.update_convs(1))

lemma only_accounts_set_vp: "only_accounts p (set_vp (account l e c w (pm_vp p)) p)"
  unfolding only_accounts_def by blast

lemma value_event_accounts: "value_event r p = Inr (x, p') \<Longrightarrow> only_accounts p p'"
  by (auto simp: value_event_def)

lemma mpu_power_accounts: "vpmu_vpd_mpu_power p = Inr (x, p') \<Longrightarrow> only_accounts p p'"
  unfolding vpmu_vpd_mpu_power_def
  by (cases "VPMU_enabled p") (auto dest!: update_accounts simp: only_accounts_set_vp)

lemma total_power_accounts: "vpmu_vpd_total_power p = Inr (x, p') \<Longrightarrow> only_accounts p p'"
  by (auto simp: vpmu_vpd_total_power_def dest: mpu_power_accounts)

definition synced :: "bp \<Rightarrow> VPMU \<Rightarrow> VPMU" where
  "synced b v = v\<lparr>branch_predict_correct := predict_correct b, branch_predict_wrong := predict_wrong b\<rparr>"

lemma synced_idem [simp]: "synced b (synced b v) = synced b v"
  by (simp add: synced_def)

lemma branch_event_synced:
  "branch_event r p = Inr (if r = PREDICT_CORRECT then predict_correct (pm_bp p)
     else if r = PREDICT_WRONG then predict_wrong (pm_bp p) else 0, set_vp (synced (pm_bp p) (pm_vp p)) p)"
  by (simp add: branch_event_def vpmu_branch_predict_def branch_update_def synced_def set_vp_def)

lemma branch_event_accounts: "branch_event r p = Inr (x, p') \<Longrightarrow> only_accounts p p'"
  using only_accounts_set_vp [of p "last_ticks (pm_vp p)" "epc_mpu (pm_vp p)" "predict_correct (pm_bp p)" "predict_wrong (pm_bp p)"]
  by (auto simp: branch_event_synced synced_def account_def)

lemmas event_accounts = value_event_accounts mpu_power_accounts total_power_accounts branch_event_accounts

lemma event_select_accounts:
  assumes "vpmu_hardware_event_select e p = Inr (x, p')"
  shows "only_accounts p p'"
  using assms unfolding vpmu_hardware_event_select_def Let_def
  by (auto dest: event_accounts split: if_splits)

lemmas counter_defs = vpmu_total_insn_count_def vpmu_total_ldst_count_def vpmu_total_load_count_def
  vpmu_total_store_count_def vpmu_branch_insn_count_def vpmu_cycle_count_def vpmu_pipeline_cycle_count_def
  vpmu_sys_memory_access_cycle_count_def vpmu_io_memory_access_cycle_count_def vpmu_L1_icache_access_count_def

lemmas time_defs = vpmu_estimated_execution_time_ns_def vpmu_estimated_pipeline_execution_time_ns_def
  vpmu_estimated_sys_memory_access_time_ns_def vpmu_estimated_io_memory_access_time_ns_def ns_of_def

definition reading :: "u32 \<Rightarrow> pmu \<Rightarrow> u32 res" where
  "reading e p = bind_res (vpmu_hardware_event_select e p) (\<lambda>(x, _). Inr x)"

lemma account_counters [simp]:
  "vpmu_total_insn_count (account l e c w v) = vpmu_total_insn_count v"
  "vpmu_total_ldst_count (account l e c w v) = vpmu_total_ldst_count v"
  "vpmu_total_load_count (account l e c w v) = vpmu_total_load_count v"
  "vpmu_total_store_count (account l e c w v) = vpmu_total_store_count v"
  "vpmu_branch_insn_count (account l e c w v) = vpmu_branch_insn_count v"
  "vpmu_cycle_count (account l e c w v) C = vpmu_cycle_count v C"
  "vpmu_pipeline_cycle_count (account l e c w v) = vpmu_pipeline_cycle_count v"
  "vpmu_sys_memory_access_cycle_count (account l e c w v) C = vpmu_sys_memory_access_cycle_count v C"
  "vpmu_io_memory_access_cycle_count (account l e c w v) = vpmu_io_memory_access_cycle_count v"
  "vpmu_L1_icache_access_count (account l e c w v) C = vpmu_L1_icache_access_count v C"
  by (simp_all add: counter_defs account_def)

lemma account_ns [simp]: "ns_of (account l e c w v) = ns_of v"
  by (rule ext) (simp add: ns_of_def account_def)

lemma account_times [simp]:
  "vpmu_estimated_execution_time_ns (account l e c w v) C s = vpmu_estimated_execution_time_ns v C s"
  "vpmu_estimated_pipeline_execution_time_ns (account l e c w v) = vpmu_estimated_pipeline_execution_time_ns v"
  "vpmu_estimated_sys_memory_access_time_ns (account l e c w v) C = vpmu_estimated_sys_memory_access_time_ns v C"
  "vpmu_estimated_io_memory_access_time_ns (account l e c w v) = vpmu_estimated_io_memory_access_time_ns v"
  by (simp_all add: vpmu_estimated_execution_time_ns_def vpmu_estimated_pipeline_execution_time_ns_def
      vpmu_estimated_sys_memory_access_time_ns_def vpmu_estimated_io_memory_access_time_ns_def)

lemma account_fields [simp]:
  "USR_icount (account l e c w v) = USR_icount v" "SVC_icount (account l e c w v) = SVC_icount v"
  "IRQ_icount (account l e c w v) = IRQ_icount v" "sys_rest_icount (account l e c w v) = sys_rest_icount v"
  "USR_ldst_count (account l e c w v) = USR_ldst_count v" "SVC_ldst_count (account l e c w v) = SVC_ldst_count v"
  "IRQ_ldst_count (account l e c w v) = IRQ_ldst_count v" "sys_rest_ldst_count (account l e c w v) = sys_rest_ldst_count v"
  "USR_load_count (account l e c w v) = USR_load_count v" "SVC_load_count (account l e c w v) = SVC_load_count v"
  "IRQ_load_count (account l e c w v) = IRQ_load_count v" "sys_rest_load_count (account l e c w v) = sys_rest_load_count v"
  "USR_store_count (account l e c w v) = USR_store_count v" "SVC_store_count (account l e c w v) = SVC_store_count v"
  "IRQ_store_count (account l e c w v) = IRQ_store_count v" "sys_rest_store_count (account l e c w v) = sys_rest_store_count v"
  "all_changes_to_PC_count (account l e c w v) = all_changes_to_PC_count v" "iomem_count (account l e c w v) = iomem_count v"
  by (simp_all add: account_def)

lemma set_vp_fields [simp]:
  "pm_vp (set_vp v p) = v" "pm_caches (set_vp v p) = pm_caches p" "pm_bp (set_vp v p) = pm_bp p"
  "pm_dev (set_vp v p) = pm_dev p" "adev_stat (set_vp v p) = adev_stat p" "VPMU_enabled (set_vp v p) = VPMU_enabled p"
  by (simp_all add: set_vp_def)

lemma value_event_reading: "bind_res (value_event r p) (\<lambda>(x, _). Inr x) = r"
  by (cases r) (simp_all add: value_event_def)

lemma branch_event_reading:
  "bind_res (branch_event r p) (\<lambda>(x, _). Inr x) = Inr (if r = PREDICT_CORRECT then predict_correct (pm_bp p)
     else if r = PREDICT_WRONG then predict_wrong (pm_bp p) else 0)"
  by (simp add: branch_event_synced)

lemma peripheral_power [simp]:
  "vpmu_vpd_lcd_power (set_vp v p) = vpmu_vpd_lcd_power p" "vpmu_vpd_audio_power (set_vp v p) = vpmu_vpd_audio_power p"
  "vpmu_vpd_net_power (set_vp v p) = vpmu_vpd_net_power p" "vpmu_vpd_gps_power (set_vp v p) = vpmu_vpd_gps_power p"
  "vpmu_vpd_dsp1_power (set_vp v p) = vpmu_vpd_dsp1_power p" "vpmu_vpd_dsp2_power (set_vp v p) = vpmu_vpd_dsp2_power p"
  by (simp_all add: vpmu_vpd_lcd_power_def vpmu_vpd_audio_power_def vpmu_vpd_net_power_def vpmu_vpd_gps_power_def
      vpmu_vpd_dsp1_power_def vpmu_vpd_dsp2_power_def)

lemma reading_if: "bind_res (if b then r else s) f = (if b then bind_res r f else bind_res s f)"
  by simp

lemma bind_bind: "bind_res (bind_res r f) g = bind_res r (\<lambda>x. bind_res (f x) g)"
  by (cases r) simp_all

lemma reading_account:
  assumes "e \<noteq> 0xf0" and "e \<noteq> 0xff"
  shows "reading e (set_vp (account l k c w (pm_vp p)) p) = reading e p"
  using assms unfolding reading_def vpmu_hardware_event_select_def Let_def reading_if
  by (simp only: simp_thms if_False bind_bind value_event_reading branch_event_reading bind_res_simps prod.case
      set_vp_fields account_counters account_times account_fields peripheral_power)

text \<open>
  Property C23. Reading one hardware event changes the value of no other: whatever event e the guest, the
  profiler or the sampling thread reads, every event but the two energy figures reads the same
  afterwards as before, and a reading fails afterwards only where it failed before.
\<close>

theorem event_readings_independent:
  assumes "vpmu_hardware_event_select e p = Inr (x, p')" and "e' \<noteq> 0xf0" and "e' \<noteq> 0xff"
  shows "reading e' p' = reading e' p"
proof -
  obtain l k c w where "p' = set_vp (account l k c w (pm_vp p)) p"
    using event_select_accounts [OF assms(1)] unfolding only_accounts_def by blast
  then show ?thesis using reading_account [OF assms(2,3)] by blast
qed

definition pmu1 :: pmu where
  "pmu1 = \<lparr>pm_st = vstate1, pm_bp = bp0, pm_dev = dev2,
     adev_stat = adev_stat_init\<lparr>cpu_util := 50, lcd_brightness := Some 100, audio_buf := Some 0, net_packets := Some 7,
       gps_status := Some 2, bat_ac_online := Some 0, bat_capacity := Some 50\<rparr>,
     VPMU_enabled = False, mpu_power = 160\<rparr>"

lemmas event_examples = pmu1_def example1 adev_stat_init_def vpmu_vpd_total_power_def vpmu_vpd_mpu_power_def
  vpmu_vpd_lcd_power_def vpmu_vpd_audio_power_def vpmu_vpd_net_power_def vpmu_vpd_gps_power_def deref_def
  u32_of_real_def set_vp_def

theorem event_readings_independent_witness:
  "\<exists>p'. vpmu_hardware_event_select 0xff (pmu1\<lparr>VPMU_enabled := True\<rparr>) = Inr (994, p') \<and>
     reading 0x52 p' = reading 0x52 (pmu1\<lparr>VPMU_enabled := True\<rparr>)"
proof -
  obtain p' where r: "vpmu_hardware_event_select 0xff (pmu1\<lparr>VPMU_enabled := True\<rparr>) = Inr (994, p')"
    by (simp add: event_examples vpmu_hardware_event_select_def vpmu_update_eet_epc_def vpmu_cycle_count_def add_energy_def
        vpmu_L1_dcache_miss_count_def vpmu_L1_icache_miss_count_def guard_res_def)
  from event_readings_independent [OF r, of "0x52"] r show ?thesis by simp
qed

section \<open>Power of the peripherals\<close>

lemma uint_word_of_int_small32: "0 \<le> i \<Longrightarrow> i < 4294967296 \<Longrightarrow> uint (word_of_int i :: u32) = i"
  by (simp add: uint_word_of_int)

lemma u32_of_real_le:
  assumes "0 \<le> x" and "x < real_of_int b + 1" and "b < 4294967296"
  shows "\<exists>w. u32_of_real x = Inr w \<and> uint w \<le> b"
proof -
  have f: "0 \<le> \<lfloor>x\<rfloor>" "\<lfloor>x\<rfloor> \<le> b" using assms by (simp_all add: floor_le_iff)
  have "real_of_int b + 1 \<le> 4294967296" using assms(3) by linarith
  then have "x < 4294967296" using assms(2) by linarith
  moreover have "uint (word_of_int \<lfloor>x\<rfloor> :: u32) = \<lfloor>x\<rfloor>"
    using f assms(3) by (intro uint_word_of_int_small32) linarith+
  ultimately show ?thesis using assms(1) f unfolding u32_of_real_def by auto
qed

lemma mpu_figure: "0 \<le> i \<Longrightarrow> i \<le> 100 \<Longrightarrow> \<exists>w. u32_of_real (4.34 * real_of_int i) = Inr w \<and> uint w \<le> 434"
  by (rule u32_of_real_le) simp_all

lemma lcd_figure: "0 \<le> i \<Longrightarrow> i \<le> 255 \<Longrightarrow> \<exists>w. u32_of_real (real_of_int i * 2.4 + 287.3) = Inr w \<and> uint w \<le> 899"
  by (rule u32_of_real_le) simp_all


text \<open>
  With the unit off, a processor load of at most 100 percent, a brightness of at most 255
  and the peripherals set up, the total power is computed without failure and without wrap-around: it is
  the sum of the five figures and at most 2866 mW.
\<close>

lemma total_power_bounds:
  assumes "\<not> VPMU_enabled p" and "cpu_util (adev_stat p) \<le> 100"
    and "lcd_brightness (adev_stat p) = Some b" and "b \<le> 255" and "gps_status (adev_stat p) = Some g"
  shows "\<exists>m l a n s t. vpmu_vpd_mpu_power p = Inr (m, p) \<and> vpmu_vpd_lcd_power p = Inr l \<and> vpmu_vpd_audio_power p = Inr a
    \<and> vpmu_vpd_net_power p = Inr n \<and> vpmu_vpd_gps_power p = Inr s \<and> vpmu_vpd_total_power p = Inr (t, p)
    \<and> uint t = uint m + uint l + uint a + uint n + uint s \<and> uint t \<le> 2866"
proof -
  have "uint (cpu_util (adev_stat p)) \<le> 100" using assms(2) by (simp add: word_le_def)
  then obtain m where m: "vpmu_vpd_mpu_power p = Inr (m, p)" "uint m \<le> 434"
    using mpu_figure [of "uint (cpu_util (adev_stat p))"] assms(1)
    by (auto simp: vpmu_vpd_mpu_power_def simp del: of_int_uint)
  have "uint b \<le> 255" using assms(4) by (simp add: word_le_def)
  then obtain l where l: "vpmu_vpd_lcd_power p = Inr l" "uint l \<le> 899"
    using lcd_figure [of "uint b"] assms(3)
    by (cases "b = 0") (auto simp: vpmu_vpd_lcd_power_def deref_def u32_of_real_def [of 0] simp del: of_int_uint)
  have "\<exists>a. vpmu_vpd_audio_power p = Inr a \<and> uint a \<le> 384"
    by (simp add: vpmu_vpd_audio_power_def u32_of_real_def)
  then obtain a where a: "vpmu_vpd_audio_power p = Inr a" "uint a \<le> 384" by blast
  have "\<exists>n. vpmu_vpd_net_power p = Inr n \<and> uint n \<le> 720"
    by (simp add: vpmu_vpd_net_power_def Let_def u32_of_real_def)
  then obtain n where n: "vpmu_vpd_net_power p = Inr n" "uint n \<le> 720" by blast
  have "\<exists>s. vpmu_vpd_gps_power p = Inr s \<and> uint s \<le> 429"
    by (simp add: vpmu_vpd_gps_power_def u32_of_real_def deref_def assms(5))
  then obtain s where s: "vpmu_vpd_gps_power p = Inr s" "uint s \<le> 429" by blast
  define t where "t = m + l + a + n + s"
  have "uint t = uint m + uint l + uint a + uint n + uint s"
    unfolding t_def using m(2) l(2) a(2) n(2) s(2) by (simp add: uint_word_ariths)
  moreover have "vpmu_vpd_total_power p = Inr (t, p)"
    using m(1) l(1) a(1) n(1) s(1) by (simp add: vpmu_vpd_total_power_def t_def)
  moreover have "uint m + uint l + uint a + uint n + uint s \<le> 2866" using m(2) l(2) a(2) n(2) s(2) by simp
  ultimately show ?thesis using m(1) l(1) a(1) n(1) s(1) by auto
qed

end
