(* ===== verification/VPMU_Cp14.thy ===== *)
theory VPMU_Cp14
  imports VPMU_Events
begin

unbundle bit_operations_syntax

text \<open>
  The performance monitoring registers that the guest sees as coprocessor 14 (\<^verbatim>\<open>hw/vpmu-device.c\<close>): the
  control, flag, event and counter registers, the detection of counter overflow for the profiler and the
  interrupt line of the unit.

  \<^item> \<open>oprofile\<close> is the build option \<open>CONFIG_VPMU_OPROFILE\<close>; without it the overflow test is never called.
  \<^item> \<open>vm_clock\<close> is the value of \<open>qemu_get_clock(vm_clock)\<close>, an argument of the reads.
  \<^item> The interrupt line is a field of the state: \<open>qemu_irq_raise\<close> sets it and \<open>qemu_irq_lower\<close> clears it.
  \<^item> The registers of the power and clock manager that only disabled code touches are left out.
\<close>

section \<open>Registers\<close>

record cp14_pmu_state =
  clkcfg :: u32
  pmnc :: u32
  evtsel :: u32
  pmn :: "nat \<Rightarrow> u32"
  flag :: u32
  inten :: u32
  pmn_reset_value :: "nat \<Rightarrow> u32"
  irq :: bool

text \<open>The state is allocated with zeros when the first coprocessor instruction is translated.\<close>

definition cp14_init :: cp14_pmu_state where
  "cp14_init = \<lparr>clkcfg = 0, pmnc = 0, evtsel = 0, pmn = \<lambda>_. 0, flag = 0, inten = 0, pmn_reset_value = \<lambda>_. 0, irq = False\<rparr>"

definition CPPMNC :: int where "CPPMNC = 0"
definition CPCCNT :: int where "CPCCNT = 1"
definition CPINTEN :: int where "CPINTEN = 4"
definition CPFLAG :: int where "CPFLAG = 5"
definition CPEVTSEL :: int where "CPEVTSEL = 8"
definition CPPMN0 :: int where "CPPMN0 = 0"
definition CPPMN1 :: int where "CPPMN1 = 1"
definition CPPMN2 :: int where "CPPMN2 = 2"
definition CPPMN3 :: int where "CPPMN3 = 3"

lemmas cp14_regs = CPPMNC_def CPCCNT_def CPINTEN_def CPFLAG_def CPEVTSEL_def CPPMN0_def CPPMN1_def CPPMN2_def CPPMN3_def

definition PMNC_Ebit_MASK :: u32 where "PMNC_Ebit_MASK = 1"
definition PMN0_MASK :: u32 where "PMN0_MASK = 2"
definition FLAG_MASK :: u32 where "FLAG_MASK = 0x1F"

lemmas cp14_masks = PMNC_Ebit_MASK_def PMN0_MASK_def FLAG_MASK_def

definition pxa2xx_clkpwr_read :: "int \<Rightarrow> cp14_pmu_state \<Rightarrow> u32" where
  "pxa2xx_clkpwr_read reg s = (if reg = 6 then clkcfg s else if reg = 7 then 0 else 0)"

text \<open>The body is disabled: a write has no effect.\<close>

definition pxa2xx_clkpwr_write :: "int \<Rightarrow> u32 \<Rightarrow> cp14_pmu_state \<Rightarrow> cp14_pmu_state" where
  "pxa2xx_clkpwr_write reg v s = s"

definition pxa2xx_perf_read :: "u64 \<Rightarrow> int \<Rightarrow> cp14_pmu_state \<Rightarrow> u32" where
  "pxa2xx_perf_read vm_clock reg s =
     (if reg = CPPMNC then pmnc s
      else if reg = CPCCNT then ucast vm_clock
      else if reg = CPFLAG then flag s
      else if reg = CPEVTSEL then evtsel s
      else if reg = CPINTEN then inten s
      else 0)"

definition vpmu_perf_counter_overflow_handled :: "cp14_pmu_state \<Rightarrow> cp14_pmu_state" where
  "vpmu_perf_counter_overflow_handled s =
     (if inten s AND PMN0_MASK \<noteq> 0 \<and> flag s AND PMN0_MASK = 0 then s\<lparr>irq := False\<rparr> else s)"

definition pxa2xx_perf_write :: "int \<Rightarrow> u32 \<Rightarrow> cp14_pmu_state \<Rightarrow> cp14_pmu_state" where
  "pxa2xx_perf_write reg v s =
     (if reg = CPPMNC then s\<lparr>pmnc := v\<rparr>
      else if reg = CPCCNT then s
      else if reg = CPINTEN then s\<lparr>inten := v\<rparr>
      else if reg = CPFLAG then vpmu_perf_counter_overflow_handled (s\<lparr>flag := NOT (v AND FLAG_MASK) AND flag s\<rparr>)
      else if reg = CPEVTSEL then s\<lparr>evtsel := v\<rparr>
      else s)"

definition pas_cp14_read :: "bool \<Rightarrow> u64 \<Rightarrow> int \<Rightarrow> int \<Rightarrow> cp14_pmu_state \<Rightarrow> pmu \<Rightarrow> (u32 \<times> pmu) res" where
  "pas_cp14_read oprofile vm_clock reg crm s p =
     (if crm = 0 then Inr (pxa2xx_clkpwr_read reg s, p)
      else if crm = 1 then Inr (pxa2xx_perf_read vm_clock reg s, p)
      else if crm = 2 then
        if reg = CPPMN0 then
          if oprofile then bind_res (vpmu_hardware_event_select (evtsel s) p) (\<lambda>(x, p).
            Inr (x - pmn_reset_value s 0 + pmn s 0, p))
          else vpmu_hardware_event_select (evtsel s) p
        else if reg = CPPMN1 \<or> reg = CPPMN2 \<or> reg = CPPMN3 then
          bind_res (vpmu_estimated_execution_time_ns (pm_vp p) (pm_caches p) (pm_dev p)) (\<lambda>t.
            Inr (ucast (t div 1000000000), p))
        else Inr (0, p)
      else Inr (0, p))"

definition pas_cp14_write :: "bool \<Rightarrow> int \<Rightarrow> int \<Rightarrow> u32 \<Rightarrow> cp14_pmu_state \<Rightarrow> pmu \<Rightarrow> (cp14_pmu_state \<times> pmu) res" where
  "pas_cp14_write oprofile reg crm value s p =
     (if crm = 0 then Inr (pxa2xx_clkpwr_write reg value s, p)
      else if crm = 1 then Inr (pxa2xx_perf_write reg value s, p)
      else if crm = 2 then
        if reg = CPPMN0 then
          let s = s\<lparr>pmn := (pmn s)(0 := value)\<rparr> in
          if oprofile then bind_res (vpmu_hardware_event_select (evtsel s) p) (\<lambda>(x, p).
            Inr (s\<lparr>pmn_reset_value := (pmn_reset_value s)(0 := x)\<rparr>, p))
          else Inr (s, p)
        else if reg = CPPMN1 then Inr (s\<lparr>pmn := (pmn s)(1 := value)\<rparr>, p)
        else if reg = CPPMN2 then Inr (s\<lparr>pmn := (pmn s)(2 := value)\<rparr>, p)
        else if reg = CPPMN3 then Inr (s\<lparr>pmn := (pmn s)(3 := value)\<rparr>, p)
        else Inr (s, p)
      else Inr (s, p))"

section \<open>Counter overflow\<close>

text \<open>The part of the overflow test after the event has been read as \<open>cur\<close>.\<close>

definition overflow_test :: "u32 \<Rightarrow> cp14_pmu_state \<Rightarrow> cp14_pmu_state" where
  "overflow_test cur s = (let cnt = pmn s 0; reset_v = pmn_reset_value s 0 in
     if cur - reset_v > 0xFFFFFFFF - cnt then
       let s = (if inten s AND PMN0_MASK \<noteq> 0 \<and> pmnc s AND PMNC_Ebit_MASK \<noteq> 0
                then s\<lparr>flag := flag s OR PMN0_MASK, irq := True\<rparr> else s) in
       s\<lparr>pmn_reset_value := (pmn_reset_value s)(0 := cur)\<rparr>
     else s)"

definition vpmu_perf_counter_overflow_testing :: "cp14_pmu_state \<Rightarrow> pmu \<Rightarrow> (cp14_pmu_state \<times> pmu) res" where
  "vpmu_perf_counter_overflow_testing s p =
     bind_res (vpmu_hardware_event_select (evtsel s) p) (\<lambda>(cur, p). Inr (overflow_test cur s, p))"

section \<open>Registers read back\<close>

text \<open>A write of the guest followed by a read of the same register.\<close>

definition write_read :: "bool \<Rightarrow> u64 \<Rightarrow> int \<Rightarrow> int \<Rightarrow> u32 \<Rightarrow> cp14_pmu_state \<Rightarrow> pmu \<Rightarrow> u32 res" where
  "write_read oprofile t reg crm v s p = bind_res (pas_cp14_write oprofile reg crm v s p) (\<lambda>(s, p).
     bind_res (pas_cp14_read oprofile t reg crm s p) (\<lambda>(x, _). Inr x))"

lemma overflow_handled_flag [simp]: "flag (vpmu_perf_counter_overflow_handled s) = flag s"
  by (simp add: vpmu_perf_counter_overflow_handled_def)

lemma event_select_again:
  assumes "vpmu_hardware_event_select e p = Inr (x, p')" and "e \<noteq> 0xf0" and "e \<noteq> 0xff"
  shows "\<exists>q. vpmu_hardware_event_select e p' = Inr (x, q)"
proof -
  obtain l k c w where "p' = set_vp (account l k c w (pm_vp p)) p"
    using event_select_accounts [OF assms(1)] unfolding only_accounts_def by blast
  then have "reading e p' = Inr x" using reading_account [OF assms(2,3)] assms(1) by (simp add: reading_def)
  then show ?thesis by (auto simp: reading_def)
qed

text \<open>
  The registers round trip: PMNC, INTEN and EVTSEL read back the value written to them; writing
  FLAG clears exactly the bits among the five low ones that are written as 1 and keeps all others; with
  the profiler, PMN0 reads back the value written, provided the selected event can be read and is not an
  energy figure.
\<close>

theorem cp14_registers_read_back:
  assumes "vpmu_hardware_event_select (evtsel s) p = Inr (x, p')" and "evtsel s \<notin> {0xf0, 0xff}"
  shows "write_read op t CPPMNC 1 v s p = Inr v \<and> write_read op t CPINTEN 1 v s p = Inr v \<and>
    write_read op t CPEVTSEL 1 v s p = Inr v \<and> write_read op t CPFLAG 1 v s p = Inr (flag s AND NOT (v AND 0x1F)) \<and>
    write_read True t CPPMN0 2 v s p = Inr v"
proof -
  have flags: "write_read op t CPFLAG 1 v s p = Inr (flag s AND NOT (v AND 0x1F))"
    by (simp add: write_read_def pas_cp14_write_def pas_cp14_read_def pxa2xx_perf_write_def pxa2xx_perf_read_def cp14_regs
        cp14_masks and.commute)
  obtain q where q: "vpmu_hardware_event_select (evtsel s) p' = Inr (x, q)"
    using event_select_again [OF assms(1)] assms(2) by blast
  have "write_read True t CPPMN0 2 v s p = Inr v"
    using assms(1) q by (simp add: write_read_def pas_cp14_write_def pas_cp14_read_def cp14_regs Let_def)
  then show ?thesis using flags
    by (simp add: write_read_def pas_cp14_write_def pas_cp14_read_def pxa2xx_perf_write_def pxa2xx_perf_read_def cp14_regs)
qed

theorem cp14_registers_read_back_witness:
  "write_read True 0 CPPMN0 2 0xFFFFFC18 cp14_init pmu1 = Inr 0xFFFFFC18 \<and> write_read True 0 CPFLAG 1 2 (cp14_init\<lparr>flag := 6\<rparr>) pmu1 = Inr 4"
proof -
  have e: "vpmu_hardware_event_select (evtsel (cp14_init\<lparr>flag := f\<rparr>)) pmu1 = Inr (low32 (vpmu_total_insn_count (pm_vp pmu1)), pmu1)" for f
    by (simp add: cp14_init_def vpmu_hardware_event_select_def Let_def)
  have i: "cp14_init\<lparr>flag := 0\<rparr> = cp14_init" by (simp add: cp14_init_def)
  show ?thesis
    using cp14_registers_read_back [OF e, of 6 True 0 2] cp14_registers_read_back [OF e, of 0 True 0 "0xFFFFFC18"]
    unfolding i by (simp add: cp14_init_def)
qed

section \<open>The virtual counter\<close>

lemma overflow_condition:
  fixes cnt d :: u32
  shows "d > 0xFFFFFFFF - cnt \<longleftrightarrow> 2 ^ 32 \<le> uint cnt + uint d"
proof -
  have "uint (0xFFFFFFFF - cnt) = 0xFFFFFFFF - uint cnt"
    using uint_lt2p [of cnt] uint_sub_lem [of cnt "0xFFFFFFFF"] by simp
  then show ?thesis unfolding word_less_def by simp linarith
qed

lemma u32_bound: "unat v < 2 ^ 32" for v :: u32
  using uint_lt2p [of v] unfolding uint_nat by (simp del: of_nat_unat)

definition pmn0_on :: "cp14_pmu_state \<Rightarrow> bool" where
  "pmn0_on s \<longleftrightarrow> inten s AND PMN0_MASK \<noteq> 0 \<and> pmnc s AND PMNC_Ebit_MASK \<noteq> 0"

text \<open>
  The profiler's counter: after the guest has written v to PMN0 and d more events have been
  counted, PMN0 reads v + d modulo 2^32, and the overflow test acts exactly when v + d has left 32 bits. It
  then raises the interrupt and sets the flag of PMN0 if the counter and its interrupt are enabled, and
  starts the next period with the value v in the counter.
\<close>

lemma virtual_counter:
  assumes "pas_cp14_write True CPPMN0 2 v s p = Inr (s1, p1)" and "vpmu_hardware_event_select (evtsel s) p = Inr (c0, p1)"
    and "vpmu_hardware_event_select (evtsel s) p2 = Inr (c0 + d, p3)"
  shows "pas_cp14_read True t CPPMN0 2 s1 p2 = Inr (v + d, p3) \<and>
    (\<exists>s2. vpmu_perf_counter_overflow_testing s1 p2 = Inr (s2, p3) \<and>
      (if 2 ^ 32 \<le> uint v + uint d
       then (pmn0_on s \<longrightarrow> irq s2 \<and> flag s2 = flag s OR PMN0_MASK) \<and> (\<not> pmn0_on s \<longrightarrow> irq s2 = irq s \<and> flag s2 = flag s) \<and>
         pmn_reset_value s2 0 = c0 + d \<and> pmn s2 0 = v
       else s2 = s1))"
proof -
  have s1: "s1 = s\<lparr>pmn := (pmn s)(0 := v), pmn_reset_value := (pmn_reset_value s)(0 := c0)\<rparr>"
    using assms(1,2) by (simp add: pas_cp14_write_def cp14_regs Let_def)
  have "vpmu_perf_counter_overflow_testing s1 p2 = Inr (overflow_test (c0 + d) s1, p3)"
    using assms(3) by (simp add: vpmu_perf_counter_overflow_testing_def s1)
  moreover have "pas_cp14_read True t CPPMN0 2 s1 p2 = Inr (v + d, p3)"
    using assms(3) by (simp add: pas_cp14_read_def cp14_regs s1)
  ultimately show ?thesis
    using overflow_condition [of v d] by (auto simp: overflow_test_def s1 pmn0_on_def Let_def)
qed


section \<open>Sampling\<close>

text \<open>
  What the profiler expects of PMN0: every time the events since the last sample reach the period, there is
  one sample, and counting starts again from 0.
\<close>

fun sampler :: "nat \<Rightarrow> nat \<Rightarrow> nat list \<Rightarrow> bool list" where
  "sampler period acc [] = []"
| "sampler period acc (d # ds) =
     (if period \<le> acc + d then True # sampler period 0 ds else False # sampler period (acc + d) ds)"

text \<open>One test after a block and the service routine: it clears the flag of PMN0 when the line is up.\<close>

definition poll :: "pmu \<Rightarrow> cp14_pmu_state \<Rightarrow> (bool \<times> cp14_pmu_state) res" where
  "poll p s = bind_res (vpmu_perf_counter_overflow_testing s p) (\<lambda>(s, _).
     Inr (irq s, if irq s then pxa2xx_perf_write CPFLAG PMN0_MASK s else s))"

fun polls :: "pmu list \<Rightarrow> cp14_pmu_state \<Rightarrow> bool list res" where
  "polls [] s = Inr []"
| "polls (p # ps) s = bind_res (poll p s) (\<lambda>(b, s). bind_res (polls ps s) (\<lambda>bs. Inr (b # bs)))"

text \<open>The states \<open>ps\<close> of the unit show the event \<open>e\<close> advanced from \<open>c\<close> by the steps \<open>ds\<close>.\<close>

fun event_trace :: "u32 \<Rightarrow> u32 \<Rightarrow> pmu list \<Rightarrow> nat list \<Rightarrow> bool" where
  "event_trace e c [] [] = True"
| "event_trace e c (p # ps) (d # ds) = (reading e p = Inr (c + of_nat d) \<and> event_trace e (c + of_nat d) ps ds)"
| "event_trace e c _ _ = False"

definition armed :: "u32 \<Rightarrow> u32 \<Rightarrow> u32 \<Rightarrow> cp14_pmu_state \<Rightarrow> bool" where
  "armed e v base s \<longleftrightarrow> evtsel s = e \<and> pmn s 0 = v \<and> pmn_reset_value s 0 = base \<and> pmn0_on s \<and> \<not> irq s"

lemma clear_pmn0:
  "(NOT (PMN0_MASK AND FLAG_MASK) AND (f OR PMN0_MASK)) AND PMN0_MASK = 0"
  by (rule bit_eqI) (auto simp: bit_simps cp14_masks)

lemma poll_step:
  assumes "armed e v base s" and "reading e p = Inr (base + of_nat n)" and "n < 2 ^ 32"
  shows "\<exists>s'. poll p s = Inr (2 ^ 32 - unat v \<le> n, s') \<and>
    armed e v (if 2 ^ 32 - unat v \<le> n then base + of_nat n else base) s'"
proof -
  obtain q where q: "vpmu_hardware_event_select e p = Inr (base + of_nat n, q)"
    using assms(2) by (auto simp: reading_def)
  have u: "uint (of_nat n :: u32) = int n" using assms(3) by (simp add: uint_nat unat_of_nat)
  have "of_nat n > 0xFFFFFFFF - v \<longleftrightarrow> (2 ^ 32 :: int) \<le> int (unat v) + int n"
    unfolding overflow_condition u uint_nat [of v] ..
  also have "\<dots> \<longleftrightarrow> 2 ^ 32 - unat v \<le> n" by (simp del: of_nat_unat) linarith
  finally have "of_nat n > 0xFFFFFFFF - v \<longleftrightarrow> 2 ^ 32 - unat v \<le> n" .
  then have test: "vpmu_perf_counter_overflow_testing s p = Inr (if 2 ^ 32 - unat v \<le> n
      then s\<lparr>flag := flag s OR PMN0_MASK, irq := True, pmn_reset_value := (pmn_reset_value s)(0 := base + of_nat n)\<rparr> else s, q)"
    using assms(1) q
    by (simp add: vpmu_perf_counter_overflow_testing_def overflow_test_def armed_def pmn0_on_def Let_def)
  show ?thesis
  proof (cases "2 ^ 32 - unat v \<le> n")
    case True
    then show ?thesis
      using assms(1) test clear_pmn0 [of "flag s"]
      by (simp add: poll_def armed_def pmn0_on_def pxa2xx_perf_write_def vpmu_perf_counter_overflow_handled_def cp14_regs)
  next
    case False
    then show ?thesis using assms(1) test by (simp add: poll_def armed_def)
  qed
qed

lemma polls_sample:
  assumes "armed e v base s" and "event_trace e (base + of_nat acc) ps ds" and "acc < 2 ^ 32 - unat v"
    and "\<forall>d \<in> set ds. d \<le> unat v"
  shows "polls ps s = Inr (sampler (2 ^ 32 - unat v) acc ds)"
  using assms
proof (induction ps arbitrary: ds s base acc)
  case Nil
  then show ?case by (cases ds) simp_all
next
  case (Cons p ps)
  obtain d ds' where ds: "ds = d # ds'" using Cons.prems(2) by (cases ds) auto
  let ?n = "acc + d"
  have n: "?n < 2 ^ 32" using Cons.prems(3,4) ds u32_bound [of v] by auto
  have r: "reading e p = Inr (base + of_nat ?n)" using Cons.prems(2) ds by (simp add: add.assoc)
  obtain s' where s': "poll p s = Inr (2 ^ 32 - unat v \<le> ?n, s')"
    "armed e v (if 2 ^ 32 - unat v \<le> ?n then base + of_nat ?n else base) s'"
    using poll_step [OF Cons.prems(1) r n] by blast
  have t: "event_trace e (base + of_nat ?n) ps ds'" using Cons.prems(2) ds by (simp add: add.assoc)
  have "polls ps s' = Inr (sampler (2 ^ 32 - unat v) (if 2 ^ 32 - unat v \<le> ?n then 0 else ?n) ds')"
  proof (cases "2 ^ 32 - unat v \<le> ?n")
    case True
    then show ?thesis
      using Cons.IH [of "base + of_nat ?n" s' 0 ds'] s'(2) t Cons.prems(4) ds u32_bound [of v] by simp
  next
    case False
    then show ?thesis using Cons.IH [of base s' ?n ds'] s'(2) t Cons.prems(4) ds by simp
  qed
  then show ?case using s'(1) ds by auto
qed

text \<open>
  Property C24. The profiler samples at its period: with PMN0 set to v and enabled, and fewer than v events between two
  tests, the tests after the executed blocks raise the interrupt exactly where a sampler of period
  2^32 - v does, whatever the value from which the 32 bit event counter started, provided the service routine clears the flag.
\<close>

theorem overflow_test_samples:
  assumes "armed e v base s" and "event_trace e base ps ds" and "\<forall>d \<in> set ds. d \<le> unat v"
  shows "polls ps s = Inr (sampler (2 ^ 32 - unat v) 0 ds)"
  using polls_sample [of e v base s 0 ps ds] assms u32_bound [of v] by simp


theorem overflow_test_samples_witness:
  "polls [pmu1, pmu1] (cp14_init\<lparr>evtsel := 0x52, pmn := (\<lambda>_. 0)(0 := 0xFFFFFFC4), pmnc := 1, inten := 2\<rparr>) = Inr [True, False]"
proof -
  have "armed 0x52 0xFFFFFFC4 0 (cp14_init\<lparr>evtsel := 0x52, pmn := (\<lambda>_. 0)(0 := 0xFFFFFFC4), pmnc := 1, inten := 2\<rparr>)"
    by (simp add: armed_def pmn0_on_def cp14_init_def cp14_masks)
  moreover have "event_trace 0x52 0 [pmu1, pmu1] [70, 0]"
    by (simp add: reading_def vpmu_hardware_event_select_def Let_def low32_def vpmu_pipeline_cycle_count_def event_examples)
  ultimately show ?thesis
    using overflow_test_samples [of "0x52" "0xFFFFFFC4" 0 _ "[pmu1, pmu1]" "[70, 0]"] by simp
qed

section \<open>The interrupt line\<close>

text \<open>
  The guest writes registers and the emulator tests for overflow. Excluded is one kind of write: a guest
  that masks the interrupt of PMN0 while its flag is pending.
\<close>

inductive cp14_step :: "bool \<Rightarrow> cp14_pmu_state \<Rightarrow> cp14_pmu_state \<Rightarrow> bool" for oprofile where
  guest_write: "pas_cp14_write oprofile reg crm v s p = Inr (s', p') \<Longrightarrow>
    \<not> (crm = 1 \<and> reg = CPINTEN \<and> v AND PMN0_MASK = 0 \<and> flag s AND PMN0_MASK \<noteq> 0) \<Longrightarrow> cp14_step oprofile s s'"
| block_done: "vpmu_perf_counter_overflow_testing s p = Inr (s', p') \<Longrightarrow> cp14_step oprofile s s'"

definition line_ok :: "cp14_pmu_state \<Rightarrow> bool" where
  "line_ok s \<longleftrightarrow> (irq s \<longleftrightarrow> flag s AND PMN0_MASK \<noteq> 0) \<and> (flag s AND PMN0_MASK \<noteq> 0 \<longrightarrow> inten s AND PMN0_MASK \<noteq> 0)
     \<and> flag s AND NOT PMN0_MASK = 0"

lemma masked_or: "(f OR PMN0_MASK) AND PMN0_MASK \<noteq> 0" "(f OR PMN0_MASK) AND NOT PMN0_MASK = f AND NOT PMN0_MASK"
proof -
  have "bit ((f OR PMN0_MASK) AND PMN0_MASK) 1" by (simp add: bit_simps cp14_masks)
  then show "(f OR PMN0_MASK) AND PMN0_MASK \<noteq> 0" by auto
  show "(f OR PMN0_MASK) AND NOT PMN0_MASK = f AND NOT PMN0_MASK" by (rule bit_eqI) (auto simp: bit_simps)
qed

lemma line_ok_overflow_test: "line_ok s \<Longrightarrow> line_ok (overflow_test c s)"
  by (auto simp: line_ok_def overflow_test_def Let_def masked_or)

lemma masked_and: "f AND NOT PMN0_MASK = 0 \<Longrightarrow> (NOT m AND f) AND NOT PMN0_MASK = 0"
  by (metis and.assoc and_zero_eq)

lemma line_ok_flag_write:
  assumes "line_ok s"
  shows "line_ok (vpmu_perf_counter_overflow_handled (s\<lparr>flag := NOT m AND flag s\<rparr>))"
proof (cases "(NOT m AND flag s) AND PMN0_MASK = 0")
  case True
  then show ?thesis using assms masked_and [of "flag s" m] by (auto simp: line_ok_def vpmu_perf_counter_overflow_handled_def)
next
  case False
  then have "flag s AND PMN0_MASK \<noteq> 0" by (metis and.assoc and_zero_eq)
  then show ?thesis using False assms masked_and [of "flag s" m] by (auto simp: line_ok_def vpmu_perf_counter_overflow_handled_def)
qed

lemma line_ok_same: "irq s' = irq s \<Longrightarrow> flag s' = flag s \<Longrightarrow> inten s' = inten s \<Longrightarrow> line_ok s' = line_ok s"
  by (simp add: line_ok_def)

lemma cp14_write_line:
  assumes "pas_cp14_write op reg crm v s p = Inr (s', p')"
  shows "crm = 1 \<and> s' = pxa2xx_perf_write reg v s \<or> irq s' = irq s \<and> flag s' = flag s \<and> inten s' = inten s"
proof (cases "crm = 1")
  case True
  then show ?thesis using assms by (simp add: pas_cp14_write_def)
next
  case False
  then show ?thesis
    using assms by (auto simp: pas_cp14_write_def pxa2xx_clkpwr_write_def Let_def split: if_split_asm)
qed

lemma line_ok_perf_write:
  assumes "line_ok s" and "\<not> (reg = CPINTEN \<and> v AND PMN0_MASK = 0 \<and> flag s AND PMN0_MASK \<noteq> 0)"
  shows "line_ok (pxa2xx_perf_write reg v s)"
proof (cases "reg = CPINTEN")
  case True
  then have "pxa2xx_perf_write reg v s = s\<lparr>inten := v\<rparr>" by (simp add: pxa2xx_perf_write_def cp14_regs)
  then show ?thesis using assms True by (auto simp: line_ok_def)
next
  case False
  then show ?thesis
    using line_ok_flag_write [OF assms(1), of "v AND FLAG_MASK"] assms(1)
    by (simp add: pxa2xx_perf_write_def line_ok_same [of "s\<lparr>pmnc := v\<rparr>" s] line_ok_same [of "s\<lparr>evtsel := v\<rparr>" s])
qed

lemma line_ok_step:
  assumes "cp14_step op s s'" and "line_ok s"
  shows "line_ok s'"
  using assms(1)
proof (cases rule: cp14_step.cases)
  case (guest_write reg crm v p p')
  from cp14_write_line [OF guest_write(1)] show ?thesis
    using line_ok_perf_write [OF assms(2), of reg v] guest_write(2) line_ok_same [of s' s] assms(2) by blast
next
  case (block_done p p')
  then show ?thesis using line_ok_overflow_test [OF assms(2)] by (auto simp: vpmu_perf_counter_overflow_testing_def)
qed

text \<open>
  Property C25. The interrupt line follows the flag: in every state that the guest's register accesses and
  the overflow tests can reach from the reset state, the line is up exactly when the overflow flag
  of PMN0 is pending, and no other flag is ever set, as long as the guest does not mask the interrupt while it is pending.
\<close>

theorem irq_follows_flag:
  assumes "(cp14_step op)\<^sup>*\<^sup>* cp14_init s"
  shows "(irq s \<longleftrightarrow> flag s AND PMN0_MASK \<noteq> 0) \<and> flag s AND NOT PMN0_MASK = 0"
proof -
  have "line_ok s" using assms
  proof (induction rule: rtranclp_induct)
    case base
    show ?case by (simp add: line_ok_def cp14_init_def)
  next
    case (step s s')
    then show ?case using line_ok_step by blast
  qed
  then show ?thesis by (simp add: line_ok_def)
qed

theorem irq_follows_flag_witness:
  "\<exists>s. (cp14_step True)\<^sup>*\<^sup>* cp14_init s \<and> irq s \<and> flag s AND PMN0_MASK \<noteq> 0"
proof -
  let ?a = "cp14_init\<lparr>inten := 2\<rparr>" and ?b = "cp14_init\<lparr>inten := 2, pmnc := 1\<rparr>"
  let ?c = "?b\<lparr>evtsel := 0x52\<rparr>"
  let ?d = "?c\<lparr>pmn := (\<lambda>_. 0)(0 := 0xFFFFFFFF), pmn_reset_value := (\<lambda>_. 0)(0 := 1)\<rparr>"
  have w: "cp14_step True s (pxa2xx_perf_write reg v s)" if "reg \<noteq> CPINTEN \<or> v AND PMN0_MASK \<noteq> 0" for s reg v
    using that guest_write [of True reg 1 v s pmu1 "pxa2xx_perf_write reg v s" pmu1] by (auto simp: pas_cp14_write_def)
  have a: "cp14_step True cp14_init ?a"
    using w [of CPINTEN 2 cp14_init] by (simp add: pxa2xx_perf_write_def cp14_regs cp14_masks)
  have b: "cp14_step True ?a ?b" using w [of CPPMNC 1 ?a] by (simp add: pxa2xx_perf_write_def cp14_regs)
  have c: "cp14_step True ?b ?c" using w [of CPEVTSEL "0x52" ?b] by (simp add: pxa2xx_perf_write_def cp14_regs)
  have e: "vpmu_hardware_event_select 0x52 pmu1 = Inr (70, pmu1)"
    by (simp add: vpmu_hardware_event_select_def Let_def low32_def vpmu_pipeline_cycle_count_def event_examples)
  obtain s where d: "pas_cp14_write True CPPMN0 2 0xFFFFFFFF ?c pmu1 = Inr (s, pmu1)"
    "s = ?c\<lparr>pmn := (\<lambda>_. 0)(0 := 0xFFFFFFFF), pmn_reset_value := (\<lambda>_. 0)(0 := 70)\<rparr>"
    using e by (simp add: pas_cp14_write_def cp14_regs cp14_init_def)
  have d': "cp14_step True ?c s" using d(1) by (rule guest_write) (simp add: CPPMN0_def)
  have e': "vpmu_hardware_event_select 0x52 (set_vp (vpmu1\<lparr>ticks := 71\<rparr>) pmu1) = Inr (71, set_vp (vpmu1\<lparr>ticks := 71\<rparr>) pmu1)"
    by (simp add: vpmu_hardware_event_select_def Let_def low32_def vpmu_pipeline_cycle_count_def event_examples)
  obtain s' where t: "vpmu_perf_counter_overflow_testing s (set_vp (vpmu1\<lparr>ticks := 71\<rparr>) pmu1) = Inr (s', set_vp (vpmu1\<lparr>ticks := 71\<rparr>) pmu1)" "irq s'"
    using e' d(2) by (simp add: vpmu_perf_counter_overflow_testing_def overflow_test_def cp14_masks cp14_init_def)
  have "cp14_step True s s'" using t(1) by (rule block_done)
  with a b c d' have r: "(cp14_step True)\<^sup>*\<^sup>* cp14_init s'" by (meson converse_rtranclp_into_rtranclp rtranclp.rtrancl_refl)
  from irq_follows_flag [OF r] r t(2) show ?thesis by blast
qed

text \<open>Masking first is the exception: the flag is then cleared, but the line stays up.\<close>

lemma irq_stuck_after_mask:
  assumes "irq s"
  shows "irq (pxa2xx_perf_write CPFLAG 2 (pxa2xx_perf_write CPINTEN 0 s))"
    "flag (pxa2xx_perf_write CPFLAG 2 (pxa2xx_perf_write CPINTEN 0 s)) AND PMN0_MASK = 0"
proof -
  show "irq (pxa2xx_perf_write CPFLAG 2 (pxa2xx_perf_write CPINTEN 0 s))"
    using assms by (simp add: pxa2xx_perf_write_def vpmu_perf_counter_overflow_handled_def cp14_regs)
  show "flag (pxa2xx_perf_write CPFLAG 2 (pxa2xx_perf_write CPINTEN 0 s)) AND PMN0_MASK = 0"
    by (rule bit_eqI) (auto simp: pxa2xx_perf_write_def cp14_regs cp14_masks bit_simps)
qed

end
