(* ===== verification/VPMU_Report.thy ===== *)
theory VPMU_Report
  imports VPMU_Events "HOL-Library.Multiset"
begin

unbundle bit_operations_syntax

text \<open>
  The reports of the unit (\<^verbatim>\<open>hw/vpmu-device.c\<close>): numbers with separators, the readable summary of all
  counters, and the table of the most frequent instructions with its exchange sort.

  \<^item> \<open>comma\<close> is the separator that the locale of the process gives, a comma if it gives none.
  \<^item> Lines are returned as strings; writing them to the file and the standard error is left out.
\<close>

section \<open>Numbers\<close>

text \<open>The buffer of \<open>commaprint\<close> has 30 bytes, the last one holds the terminator; \<open>acc\<close> is what is behind \<open>p\<close>.\<close>

definition store :: "char \<Rightarrow> string \<Rightarrow> string res" where
  "store c acc = (if length acc < 29 then Inr (c # acc) else Inl Out_of_bounds)"

definition dec_digit :: "nat \<Rightarrow> char" where
  "dec_digit d = char_of (48 + d)"

function commaloop :: "char \<Rightarrow> nat \<Rightarrow> nat \<Rightarrow> string \<Rightarrow> string res" where
  "commaloop comma i n acc =
     bind_res (if i mod 3 = 0 \<and> i \<noteq> 0 then store comma acc else Inr acc) (\<lambda>acc.
     bind_res (store (dec_digit (n mod 10)) acc) (\<lambda>acc.
       if n div 10 \<noteq> 0 then commaloop comma (i + 1) (n div 10) acc else Inr acc))"
  by pat_completeness auto

termination commaloop
  by (relation "measure (\<lambda>(_, _, n, _). n)") (simp_all add: div_less_dividend)

declare commaloop.simps [simp del]

definition commaprint :: "char \<Rightarrow> u64 \<Rightarrow> string res" where
  "commaprint comma n = commaloop comma 0 (unat n) []"


text \<open>The reference: the digits, last first, and a separator before every third but the first.\<close>

fun digits_of :: "nat \<Rightarrow> nat list" where
  "digits_of n = (n mod 10) # (if n div 10 = 0 then [] else digits_of (n div 10))"

declare digits_of.simps [simp del]

fun grouped :: "char \<Rightarrow> nat \<Rightarrow> nat list \<Rightarrow> string" where
  "grouped comma i [] = []"
| "grouped comma i (d # ds) = (if i mod 3 = 0 \<and> i \<noteq> 0 then [comma] else []) @ dec_digit d # grouped comma (i + 1) ds"

fun number_of :: "nat list \<Rightarrow> nat" where
  "number_of [] = 0"
| "number_of (d # ds) = d + 10 * number_of ds"

lemma digits_of_ne [simp]: "digits_of n \<noteq> []"
  by (subst digits_of.simps) simp

lemma number_of_digits: "number_of (digits_of n) = n"
  by (induction n rule: digits_of.induct) (subst digits_of.simps, auto)

lemma digits_small: "d \<in> set (digits_of n) \<Longrightarrow> d < 10"
proof (induction n rule: digits_of.induct)
  case (1 n)
  then show ?case by (subst (asm) (2) digits_of.simps) (auto split: if_splits)
qed

lemma digits_of_length: "n < 10 ^ k \<Longrightarrow> 0 < k \<Longrightarrow> length (digits_of n) \<le> k"
proof (induction k arbitrary: n)
  case (Suc k)
  show ?case
  proof (cases "n div 10 = 0")
    case True
    then show ?thesis by (subst digits_of.simps) simp
  next
    case False
    then have "k \<noteq> 0" using Suc.prems(1) by (intro notI) simp
    moreover have "n div 10 < 10 ^ k" using Suc.prems(1) by (simp add: less_mult_imp_div_less mult.commute)
    ultimately show ?thesis using Suc.IH [of "n div 10"] False by (subst digits_of.simps) simp
  qed
qed simp

lemma grouped_length:
  "ds \<noteq> [] \<Longrightarrow> length (grouped comma i ds) + (i - 1) div 3 = length ds + (i + length ds - 1) div 3"
proof (induction ds arbitrary: i)
  case (Cons d ds)
  have step: "(if i mod 3 = 0 \<and> i \<noteq> 0 then 1 else 0) + (i - 1) div 3 = i div 3" for i :: nat
    by (cases i) (auto simp: div_Suc mod_Suc)
  show ?case
  proof (cases "ds = []")
    case True
    then show ?thesis using step [of i] by (cases "i mod 3 = 0 \<and> i \<noteq> 0") auto
  next
    case False
    then show ?thesis using Cons.IH [of "i + 1"] step [of i] by (cases "i mod 3 = 0 \<and> i \<noteq> 0") auto
  qed
qed simp

lemma commaloop_grouped:
  "length (grouped comma i (digits_of n)) + length acc \<le> 29 \<Longrightarrow>
     commaloop comma i n acc = Inr (rev (grouped comma i (digits_of n)) @ acc)"
proof (induction comma i n acc rule: commaloop.induct)
  case (1 comma i n acc)
  show ?case
  proof (cases "n div 10 = 0")
    case True
    then show ?thesis
      using 1(2) by (subst commaloop.simps, subst digits_of.simps, subst (asm) digits_of.simps) (auto simp: store_def split: if_splits)
  next
    case False
    have d: "digits_of n = n mod 10 # digits_of (n div 10)" using False by (subst digits_of.simps) simp
    show ?thesis
      using 1 False unfolding d by (subst commaloop.simps) (auto simp: store_def split: if_splits)
  qed
qed

lemma digit_ne: "d < 10 \<Longrightarrow> comma \<notin> dec_digit ` {0..<10} \<Longrightarrow> dec_digit d \<noteq> comma"
  by auto

lemma filter_grouped:
  "(\<forall>d \<in> set ds. d < 10) \<Longrightarrow> comma \<notin> dec_digit ` {0..<10} \<Longrightarrow> filter (\<lambda>c. c \<noteq> comma) (grouped comma i ds) = map dec_digit ds"
  by (induction ds arbitrary: i) (auto simp: digit_ne)

lemma of_char_digit: "d < 10 \<Longrightarrow> of_char (dec_digit d) - 48 = d"
  by (simp add: dec_digit_def of_char_of)

lemma commaprint_total: "\<exists>s. commaprint comma n = Inr s"
proof -
  have "unat n < 10 ^ 20" using uint_lt2p [of n] unfolding uint_nat by (simp del: of_nat_unat)
  then have "length (digits_of (unat n)) \<le> 20" by (intro digits_of_length) simp_all
  then show ?thesis
    using grouped_length [of "digits_of (unat n)" comma 0] commaloop_grouped [of comma 0 "unat n" "[]"]
    by (auto simp: commaprint_def)
qed

text \<open>
  The printed numbers: for every 64 bit value \<open>commaprint\<close> stays within its 30 byte buffer, produces at most 26 characters, and
  what it prints reads back: without the separators, the characters are the decimal digits of the value.
\<close>

theorem commaprint_reads_back:
  assumes "comma \<notin> dec_digit ` {0..<10}"
  shows "\<exists>s. commaprint comma n = Inr s \<and> length s \<le> 26 \<and>
    number_of (map (\<lambda>c. of_char c - 48) (rev (filter (\<lambda>c. c \<noteq> comma) s))) = unat n"
proof -
  let ?g = "grouped comma 0 (digits_of (unat n))"
  have "unat n < 10 ^ 20" using uint_lt2p [of n] unfolding uint_nat by (simp del: of_nat_unat)
  then have "length (digits_of (unat n)) \<le> 20" by (intro digits_of_length) simp_all
  moreover have "length ?g = length (digits_of (unat n)) + (length (digits_of (unat n)) - 1) div 3"
    using grouped_length [of "digits_of (unat n)" comma 0] by simp
  moreover have "(m - 1) div 3 \<le> 6" if "m \<le> 20" for m :: nat using that by (simp add: div_le_mono [of _ 19 3, simplified])
  ultimately have len: "length ?g \<le> 26" by fastforce
  then have r: "commaprint comma n = Inr (rev ?g)"
    unfolding commaprint_def by (subst commaloop_grouped) simp_all
  have "filter (\<lambda>c. c \<noteq> comma) ?g = map dec_digit (digits_of (unat n))"
    using digits_small filter_grouped [OF _ assms] by blast
  moreover have "map ((\<lambda>c. of_char c - 48) \<circ> dec_digit) (digits_of (unat n)) = map (\<lambda>d. d) (digits_of (unat n))"
    by (rule map_cong) (auto simp: of_char_digit digits_small)
  ultimately show ?thesis using r len number_of_digits [of "unat n"] by (simp add: rev_filter [symmetric])
qed


theorem commaprint_reads_back_witness:
  "\<exists>s. commaprint (CHR '','') 1234567 = Inr s \<and> number_of (map (\<lambda>c. of_char c - 48) (rev (filter (\<lambda>c. c \<noteq> CHR '','') s))) = 1234567"
proof -
  have "CHR '','' \<notin> dec_digit ` {0..<10}" by (simp add: dec_digit_def atLeastLessThan_nat_numeral image_def) (auto simp: char_of_def)
  from commaprint_reads_back [OF this, of 1234567] show ?thesis by auto
qed

section \<open>The table of instructions\<close>

text \<open>
  \<open>tmp_count\<close> and \<open>tmp_count_key\<close> are exchanged together: a list of pairs. One comparison, one pass up to
  \<open>i\<close>, and all passes.
\<close>

definition exchange :: "nat \<Rightarrow> (u64 \<times> nat) list \<Rightarrow> (u64 \<times> nat) list" where
  "exchange j xs = (if fst (xs ! j) < fst (xs ! (j + 1)) then xs[j := xs ! (j + 1), j + 1 := xs ! j] else xs)"

definition sort_pass :: "nat \<Rightarrow> (u64 \<times> nat) list \<Rightarrow> (u64 \<times> nat) list" where
  "sort_pass i = fold exchange [0..<i]"

definition sort_passes :: "nat \<Rightarrow> nat \<Rightarrow> (u64 \<times> nat) list \<Rightarrow> (u64 \<times> nat) list" where
  "sort_passes m n = fold sort_pass (rev [m..<n])"

definition sort_counts :: "(u64 \<times> nat) list \<Rightarrow> (u64 \<times> nat) list" where
  "sort_counts xs = sort_passes 1 (length xs) xs"

lemma exchange_length [simp]: "length (exchange j xs) = length xs"
  by (simp add: exchange_def)

lemma two_at:
  assumes "j + 1 < length xs"
  obtains as x y bs where "xs = as @ x # y # bs" and "length as = j"
proof
  show "xs = take j xs @ xs ! j # xs ! (j + 1) # drop (j + 2) xs"
    using assms by (metis Cons_nth_drop_Suc Suc_eq_plus1 Suc_lessD add_2_eq_Suc' id_take_nth_drop)
  show "length (take j xs) = j" using assms by simp
qed

lemma exchange_at:
  "length as = j \<Longrightarrow> exchange j (as @ x # y # bs) = as @ (if fst x < fst y then y # x # bs else x # y # bs)"
  by (auto simp: exchange_def nth_append list_update_append)

lemma exchange_mset [simp]: "j + 1 < length xs \<Longrightarrow> mset (exchange j xs) = mset xs"
  by (erule two_at) (auto simp: exchange_at)

lemma exchange_stable: "j + 1 < length xs \<Longrightarrow> filter (\<lambda>x. fst x = c) (exchange j xs) = filter (\<lambda>x. fst x = c) xs"
  by (erule two_at) (auto simp: exchange_at)

lemma sort_pass_Suc: "sort_pass (Suc i) xs = exchange i (sort_pass i xs)"
  by (simp add: sort_pass_def)

lemma sort_pass_keeps:
  assumes "i < length xs"
  shows "length (sort_pass i xs) = length xs" and "mset (sort_pass i xs) = mset xs"
    and "filter (\<lambda>x. fst x = c) (sort_pass i xs) = filter (\<lambda>x. fst x = c) xs"
  using assms by (induction i) (simp_all add: sort_pass_Suc exchange_stable, simp_all add: sort_pass_def)

text \<open>A pass carries the smallest count of the first \<open>i + 1\<close> entries to position \<open>i\<close> and touches nothing behind it.\<close>

lemma sort_pass_min:
  assumes "i < length xs"
  shows "(\<forall>k \<le> i. fst (sort_pass i xs ! i) \<le> fst (sort_pass i xs ! k)) \<and> drop (i + 1) (sort_pass i xs) = drop (i + 1) xs"
  using assms
proof (induction i)
  case 0
  then show ?case by (simp add: sort_pass_def)
next
  case (Suc i)
  let ?ys = "sort_pass i xs"
  have len: "length ?ys = length xs" using Suc.prems sort_pass_keeps(1) [of i xs] by simp
  have IH: "\<forall>k \<le> i. fst (?ys ! i) \<le> fst (?ys ! k)" "drop (i + 1) ?ys = drop (i + 1) xs" using Suc by simp_all
  have "drop (Suc i + 1) (exchange i ?ys) = drop (Suc i + 1) ?ys" by (simp add: exchange_def)
  also have "\<dots> = drop (Suc i + 1) xs" using IH(2) by (metis drop_drop Suc_eq_plus1 plus_1_eq_Suc)
  finally have "drop (Suc i + 1) (sort_pass (Suc i) xs) = drop (Suc i + 1) xs" by (simp add: sort_pass_Suc)
  moreover have "fst (exchange i ?ys ! Suc i) \<le> fst (exchange i ?ys ! k)" if "k \<le> Suc i" for k
    using that IH(1) Suc.prems len by (auto simp: exchange_def nth_list_update le_Suc_eq intro: order_trans)
  ultimately show ?case by (simp add: sort_pass_Suc)
qed

definition descending :: "(u64 \<times> nat) list \<Rightarrow> bool" where
  "descending = sorted_wrt (\<lambda>x y. fst y \<le> fst x)"

definition tail_sorted :: "nat \<Rightarrow> (u64 \<times> nat) list \<Rightarrow> bool" where
  "tail_sorted m xs \<longleftrightarrow> descending (drop m xs) \<and> (\<forall>x \<in> set (take m xs). \<forall>y \<in> set (drop m xs). fst y \<le> fst x)"

lemma sort_pass_tail:
  assumes "tail_sorted (Suc m) xs" and "m < length xs"
  shows "tail_sorted m (sort_pass m xs)"
proof -
  let ?ys = "sort_pass m xs"
  have len: "length ?ys = length xs" and ms: "mset ?ys = mset xs" using sort_pass_keeps(1,2) [OF assms(2)] by simp_all
  have p: "\<forall>k \<le> m. fst (?ys ! m) \<le> fst (?ys ! k)" "drop (Suc m) ?ys = drop (Suc m) xs"
    using sort_pass_min [OF assms(2)] by simp_all
  have "mset (take (Suc m) ?ys) + mset (drop (Suc m) ?ys) = mset (take (Suc m) xs) + mset (drop (Suc m) xs)"
    using ms by (metis append_take_drop_id mset_append)
  then have front: "set (take (Suc m) ?ys) = set (take (Suc m) xs)" using p(2) by (metis add_right_cancel mset_eq_setD)
  have d: "drop m ?ys = ?ys ! m # drop (Suc m) xs" using assms(2) len p(2) by (metis Cons_nth_drop_Suc)
  have t: "take (Suc m) ?ys = take m ?ys @ [?ys ! m]" using assms(2) len by (simp add: take_Suc_conv_app_nth)
  have low: "fst y \<le> fst x" if "x \<in> set (take (Suc m) ?ys)" "y \<in> set (drop (Suc m) xs)" for x y
    using that front assms(1) by (simp add: tail_sorted_def)
  have "fst (?ys ! m) \<le> fst x" if "x \<in> set (take m ?ys)" for x
    using that p(1) assms(2) len by (fastforce simp: in_set_conv_nth)
  moreover have "descending (drop m ?ys)"
    using assms(1) low t unfolding d by (auto simp: descending_def tail_sorted_def)
  ultimately show ?thesis unfolding tail_sorted_def d using low t by auto
qed

lemma sort_passes_step: "m < n \<Longrightarrow> sort_passes m n xs = sort_pass m (sort_passes (Suc m) n xs)"
  by (simp add: sort_passes_def upt_conv_Cons)

lemma sort_passes_keep:
  assumes "m \<le> n" and "n \<le> length xs"
  shows "length (sort_passes m n xs) = length xs \<and> mset (sort_passes m n xs) = mset xs \<and>
    filter (\<lambda>x. fst x = c) (sort_passes m n xs) = filter (\<lambda>x. fst x = c) xs"
  using assms
proof (induction m rule: inc_induct)
  case base
  show ?case by (simp add: sort_passes_def)
next
  case (step m)
  then show ?case using sort_pass_keeps [of m "sort_passes (Suc m) n xs"] by (simp add: sort_passes_step)
qed

lemma sort_passes_tail: "m \<le> length xs \<Longrightarrow> tail_sorted m (sort_passes m (length xs) xs)"
proof (induction m rule: inc_induct)
  case base
  show ?case by (simp add: sort_passes_def tail_sorted_def descending_def)
next
  case (step m)
  then show ?case using sort_passes_keep [of "Suc m" "length xs" xs] by (simp add: sort_passes_step sort_pass_tail)
qed

lemma sort_counts_descending: "descending (sort_counts xs)"
proof (cases xs)
  case Nil
  then show ?thesis by (simp add: sort_counts_def sort_passes_def descending_def)
next
  case (Cons x ys)
  let ?zs = "sort_counts xs"
  have "tail_sorted 1 ?zs" unfolding sort_counts_def using Cons by (intro sort_passes_tail) simp
  moreover have "length ?zs = length xs" using sort_passes_keep [of 1 "length xs" xs] Cons by (simp add: sort_counts_def)
  then obtain z zs where "?zs = z # zs" using Cons by (cases ?zs) auto
  ultimately show ?thesis by (auto simp: tail_sorted_def descending_def)
qed

lemma sort_counts_keep:
  "mset (sort_counts xs) = mset xs" "filter (\<lambda>x. fst x = c) (sort_counts xs) = filter (\<lambda>x. fst x = c) xs"
  using sort_passes_keep [of 1 "length xs" xs] by (cases xs; simp add: sort_counts_def sort_passes_def)+

lemmas sort_counts_mset = sort_counts_keep(1)

lemma sort_counts_sort_key: "sort_counts xs = sort_key (\<lambda>x. - uint (fst x)) xs"
proof -
  have "sorted (map (\<lambda>x. - uint (fst x)) (sort_counts xs))"
    using sort_counts_descending [of xs] by (simp add: descending_def sorted_map word_le_def)
  moreover have "filter (\<lambda>x. - uint (fst k) = - uint (fst x)) ys = filter (\<lambda>x. fst x = fst k) ys"
    for k :: "u64 \<times> nat" and ys :: "(u64 \<times> nat) list"
    by (rule filter_cong) (auto simp: word_uint_eq_iff)
  ultimately show ?thesis using sort_counts_keep by (intro properties_for_sort_key [symmetric]) simp_all
qed

text \<open>
  Property C26. The exchange sort of the instruction table is correct and stable: for every table it yields
  what a stable sort by decreasing count yields.
\<close>

theorem sort_counts_is_stable_sort:
  "sort_counts xs = sort_key (\<lambda>x. - uint (fst x)) xs"
  by (rule sort_counts_sort_key)

text \<open>
  A line of the table: instruction, count, cycles per instruction and cycles spent. The first step corrects the
  count of the coprocessor instructions by that of the floating point ones, in the unit itself.
\<close>

record arm_report =
  rows :: "(string \<times> u64 \<times> int \<times> u64) list"
  counted :: u64
  total_counted :: u64

definition cycles_of :: "arm_time \<Rightarrow> u64 \<Rightarrow> nat \<Rightarrow> u64" where
  "cycles_of arm_instr_time c k = c * word_of_int (arm_instr_time k)"

definition report_row :: "arm_time \<Rightarrow> (nat \<Rightarrow> u64) \<Rightarrow> nat \<times> nat \<Rightarrow> arm_report \<Rightarrow> arm_report" where
  "report_row time c it r = (let (i, t1) = it in
     if c t1 > 0 then
       let r = (if i < 10 then r\<lparr>rows := rows r @ [(arm_instr_names ! t1, c t1, time t1, cycles_of time (c t1) t1)]\<rparr> else r) in
       if t1 < ARM_INSTRUCTIONS - 2 then
         r\<lparr>counted := counted r + c t1, total_counted := total_counted r + cycles_of time (c t1) t1\<rparr>
       else r
     else r)"

definition fix_coprocessor :: "VPMU \<Rightarrow> VPMU" where
  "fix_coprocessor v = v\<lparr>ARM_count := (ARM_count v)(ARM_INSTRUCTION_COPROCESSOR :=
     ARM_count v ARM_INSTRUCTION_COPROCESSOR - ARM_count v (ARM_INSTRUCTIONS + 1))\<rparr>"

definition count_table :: "(nat \<Rightarrow> u64) \<Rightarrow> (u64 \<times> nat) list" where
  "count_table c = map (\<lambda>i. (c i, i)) [0..<ARM_INSTRUCTIONS]"

text \<open>The result is the table with the two sums as they are printed; the correction is made in any case.\<close>

definition print_arm_count :: "arm_time \<Rightarrow> int \<Rightarrow> VPMU \<Rightarrow> arm_report option \<times> VPMU" where
  "print_arm_count time print v = (let v = fix_coprocessor v; c = ARM_count v in
     if print = 1 then
       let keys = map snd (sort_counts (count_table c));
           r = fold (report_row time c) (List.enumerate 0 keys) \<lparr>rows = [], counted = 0, total_counted = 0\<rparr>;
           vfp = c (ARM_INSTRUCTIONS + 1) in
       (Some (r\<lparr>counted := counted r + vfp, total_counted := total_counted r + vfp - reduce_ticks v\<rparr>), v)
     else (None, v))"

lemma fold_rows:
  "counted (fold (report_row time c) its r) = counted r + (\<Sum>k\<leftarrow>map snd its. if k < 170 then c k else 0)"
  "total_counted (fold (report_row time c) its r) = total_counted r + (\<Sum>k\<leftarrow>map snd its. if k < 170 then cycles_of time (c k) k else 0)"
proof (induction its arbitrary: r)
  case (Cons it its)
  have row: "counted (report_row time c it r) = counted r + (if snd it < 170 then c (snd it) else 0)"
    "total_counted (report_row time c it r) = total_counted r + (if snd it < 170 then cycles_of time (c (snd it)) (snd it) else 0)" for r
    by (auto simp: report_row_def Let_def cycles_of_def word_gt_0 split: prod.splits)
  { case 1 show ?case using Cons.IH(1) by (simp add: row(1) add.assoc) }
  { case 2 show ?case using Cons.IH(2) by (simp add: row(2) add.assoc) }
qed simp_all

lemma keys_mset: "mset (map snd (sort_counts (count_table c))) = mset [0..<ARM_INSTRUCTIONS]"
proof -
  have "mset (sort_counts (count_table c)) = mset (count_table c)" by (simp add: sort_counts_mset)
  then have "mset (map snd (sort_counts (count_table c))) = mset (map snd (count_table c))" by (metis mset_map)
  then show ?thesis by (simp add: count_table_def comp_def)
qed


lemma sum_keys:
  fixes f :: "nat \<Rightarrow> u64"
  shows "(\<Sum>k\<leftarrow>map snd (sort_counts (count_table c)). if k < 170 then f k else 0) = (\<Sum>k<170. f k)"
proof -
  have "(\<Sum>k\<leftarrow>map snd (sort_counts (count_table c)). if k < 170 then f k else 0) = (\<Sum>k\<leftarrow>[0..<172]. if k < 170 then f k else 0)"
    unfolding sum_mset_sum_list [symmetric] using keys_mset [of c] unfolding mset_map by simp
  also have "\<dots> = (\<Sum>k\<in>{0..<172}. if k < 170 then f k else 0)" by (simp only: interv_sum_list_conv_sum_set_nat set_upt)
  also have "\<dots> = (\<Sum>k\<in>{k \<in> {0..<172}. k < 170}. f k)" by (simp only: sum.inter_filter finite_atLeastLessThan)
  also have "{k \<in> {0..<172}. k < 170} = {..<170::nat}" by auto
  finally show ?thesis .
qed

lemma rows_of_fold:
  "rows (fold (report_row time c) its r) = rows r @
     map (\<lambda>(i, k). (arm_instr_names ! k, c k, time k, cycles_of time (c k) k)) (filter (\<lambda>(i, k). i < 10 \<and> 0 < c k) its)"
proof (induction its arbitrary: r)
  case (Cons it its)
  then show ?case by (cases it) (simp add: report_row_def Let_def)
qed simp

text \<open>
  The instruction report: its rows are the first ten entries of the stable sort of the
  counts that are not 0. The number of counted instructions it prints is the sum of the counts
  before the correction over all entries but the two last, modulo 2^64, and the number of cycles weighs
  the corrected counts with the configured times.
\<close>

theorem arm_report_correct:
  assumes "print_arm_count time 1 v = (Some r, v')"
  shows "rows r = map (\<lambda>(i, k). (arm_instr_names ! k, ARM_count v' k, time k, cycles_of time (ARM_count v' k) k))
      (filter (\<lambda>(i, k). i < 10 \<and> 0 < ARM_count v' k)
        (List.enumerate 0 (map snd (sort_key (\<lambda>x. - uint (fst x)) (map (\<lambda>k. (ARM_count v' k, k)) [0..<172])))))
    \<and> counted r = (\<Sum>k<170. ARM_count v k)
    \<and> total_counted r = (\<Sum>k<170. cycles_of time (ARM_count v' k) k) + ARM_count v 173 - reduce_ticks v"
proof -
  let ?c = "ARM_count v'"
  let ?f = "fold (report_row time ?c) (List.enumerate 0 (map snd (sort_counts (count_table ?c))))
    \<lparr>rows = [], counted = 0, total_counted = 0\<rparr>"
  have v': "v' = fix_coprocessor v" using assms by (simp add: print_arm_count_def Let_def)
  have R: "r = ?f\<lparr>counted := counted ?f + ?c 173, total_counted := total_counted ?f + ?c 173 - reduce_ticks v'\<rparr>"
    using assms unfolding print_arm_count_def Let_def v' by simp
  have f: "counted ?f = (\<Sum>k<170. ?c k)" "total_counted ?f = (\<Sum>k<170. cycles_of time (?c k) k)"
    unfolding fold_rows map_snd_enumerate sum_keys by simp_all
  have r: "counted r = (\<Sum>k<170. ?c k) + ?c 173"
    "total_counted r = (\<Sum>k<170. cycles_of time (?c k) k) + ?c 173 - reduce_ticks v'"
    using f by (subst R, simp)+
  have "(\<Sum>k<170. ?c k) = ?c 160 + (\<Sum>k\<in>{..<170} - {160}. ?c k)" by (rule sum.remove) simp_all
  also have "(\<Sum>k\<in>{..<170} - {160}. ?c k) = (\<Sum>k\<in>{..<170} - {160}. ARM_count v k)"
    by (rule sum.cong) (auto simp: v' fix_coprocessor_def)
  also have "?c 160 + \<dots> = ARM_count v 160 + (\<Sum>k\<in>{..<170} - {160}. ARM_count v k) - ARM_count v 173"
    by (simp add: v' fix_coprocessor_def)
  also have "\<dots> = (\<Sum>k<170. ARM_count v k) - ARM_count v 173"
    using sum.remove [of "{..<170}" "160::nat" "ARM_count v"] by simp
  finally have "counted r = (\<Sum>k<170. ARM_count v k)" using r(1) by (simp add: v' fix_coprocessor_def)
  moreover have "rows r = map (\<lambda>(i, k). (arm_instr_names ! k, ?c k, time k, cycles_of time (?c k) k))
      (filter (\<lambda>(i, k). i < 10 \<and> 0 < ?c k) (List.enumerate 0 (map snd (sort_counts (count_table ?c)))))"
    by (subst R) (simp add: rows_of_fold)
  moreover have "?c 173 = ARM_count v 173" "reduce_ticks v' = reduce_ticks v" by (simp_all add: v' fix_coprocessor_def)
  ultimately show ?thesis using r(2) unfolding sort_counts_sort_key count_table_def by simp
qed

theorem arm_report_correct_witness:
  "\<exists>r v'. print_arm_count (\<lambda>_. 2) 1 (vpmu1\<lparr>ARM_count := (\<lambda>_. 0)(6 := 5)\<rparr>) = (Some r, v') \<and> counted r = 5"
proof -
  obtain r v' where r: "print_arm_count (\<lambda>_. 2) 1 (vpmu1\<lparr>ARM_count := (\<lambda>_. 0)(6 := 5)\<rparr>) = (Some r, v')"
    by (simp add: print_arm_count_def Let_def)
  from arm_report_correct [OF r] r show ?thesis by (simp add: fun_upd_def)
qed

text \<open>The correction is made on every report, so a second one takes the floating point count off once more.\<close>

lemma second_report_subtracts_again:
  "ARM_count (snd (print_arm_count time q (snd (print_arm_count time p v)))) ARM_INSTRUCTION_COPROCESSOR =
     ARM_count v ARM_INSTRUCTION_COPROCESSOR - 2 * ARM_count v (ARM_INSTRUCTIONS + 1)"
  by (simp add: print_arm_count_def fix_coprocessor_def Let_def)

section \<open>The summary\<close>

text \<open>A line of the summary: what stands before the number, the number if there is one, and what stands behind it.\<close>

type_synonym summary_line = "string \<times> u64 option \<times> string"

definition num_line :: "string \<Rightarrow> u64 \<Rightarrow> summary_line" where "num_line s n = (s, Some n, [])"
definition nsec :: "string \<Rightarrow> u64 \<Rightarrow> summary_line" where "nsec s n = (s, Some n, '' nsec'')"
definition title :: "string \<Rightarrow> summary_line" where "title s = (s, None, [])"

definition instruction_lines :: "VPMU \<Rightarrow> summary_line list" where
  "instruction_lines v =
     [title ''Instructions:'',
      num_line '' Total instruction count       : '' (vpmu_total_insn_count v),
      num_line ''  ->User mode insn count       : '' (USR_icount v),
      num_line ''  ->Supervisor mode insn count : '' (SVC_icount v),
      num_line ''  ->IRQ mode insn count        : '' (IRQ_icount v),
      num_line ''  ->Other mode insn count      : '' (sys_rest_icount v),
      num_line '' Total load/store instruction count : '' (vpmu_total_ldst_count v),
      num_line ''  ->User mode ld/st count      : '' (USR_ldst_count v),
      num_line ''  ->Supervisor mode ld/st count: '' (SVC_ldst_count v),
      num_line ''  ->IRQ mode ld/st count       : '' (IRQ_ldst_count v),
      num_line ''  ->Other mode ld/st count     : '' (sys_rest_ldst_count v),
      num_line '' Total load instruction count  : '' (vpmu_total_load_count v),
      num_line ''  ->User mode load count       : '' (USR_load_count v),
      num_line ''  ->Supervisor mode load count : '' (SVC_load_count v),
      num_line ''  ->IRQ mode load count        : '' (IRQ_load_count v),
      num_line ''  ->Other mode load count      : '' (sys_rest_load_count v),
      num_line '' Total store instruction count : '' (vpmu_total_store_count v),
      num_line ''  ->User mode store count      : '' (USR_store_count v),
      num_line ''  ->Supervisor mode store count: '' (SVC_store_count v),
      num_line ''  ->IRQ mode store count       : '' (IRQ_store_count v),
      num_line ''  ->Other mode store count     : '' (sys_rest_store_count v),
      num_line '' Branch instruction count      : '' (vpmu_branch_insn_count v)]"

definition cache_lines :: "VPMU \<Rightarrow> caches \<Rightarrow> summary_line list" where
  "cache_lines v C =
     [title ''Cache:'',
      num_line '' L1 D-cache access count : '' (word_of_int (fetch (C 2 0) D4XREAD + fetch (C 2 0) D4XWRITE)),
      num_line ''  ->Read miss count   : '' (word_of_int (miss (C 2 0) D4XREAD)),
      num_line ''  ->Write miss count  : '' (word_of_int (miss (C 2 0) D4XWRITE)),
      num_line '' L1 I-cache access count : '' (word_of_int (fetch (C 1 0) D4XINSTRN + uint (additional_icache_access v))),
      num_line ''  ->Read miss count   : '' (word_of_int (miss (C 1 0) D4XINSTRN))] @
     (if d4_maxlevel v = 2 then
       [num_line '' L2 U-cache access count : '' (word_of_int (fetch (C 0 1) D4XREAD + fetch (C 0 1) D4XWRITE)),
        num_line ''  ->Read miss count   : '' (word_of_int (miss (C 0 1) D4XREAD)),
        num_line ''  ->Write miss count  : '' (word_of_int (miss (C 0 1) D4XWRITE))]
      else [])"

definition memory_lines :: "VPMU \<Rightarrow> caches \<Rightarrow> dev \<Rightarrow> summary_line list res" where
  "memory_lines v C s = bind_res (vpmu_sys_memory_access_cycle_count v C) (\<lambda>m. Inr
     [title ''Memory:'',
      num_line ''  ->System memory access  : '' (vpmu_L1_dcache_miss_count C + vpmu_L1_icache_miss_count C),
      num_line ''  ->System memory cycles  : '' m,
      num_line ''  ->I/O memory access     : '' (iomem_qemu v),
      num_line ''  ->I/O memory cycles     : '' (vpmu_io_memory_access_cycle_count v),
      num_line ''Total Cycle count         : '' (vpmu_cycle_count v C),
      title ''Network:'',
      (''  ->recv count            : '', Some (vpmu_estimated_netrecv_count s), '' ''),
      (''  ->send count            : '', Some (vpmu_estimated_netsend_count s), '' ''),
      nsec ''  ->recv time             : '' (vpmu_estimated_netrecv_execution_time_ns s),
      nsec ''  ->send time             : '' (vpmu_estimated_netsend_execution_time_ns s)])"

definition timing_lines :: "VPMU \<Rightarrow> caches \<Rightarrow> dev \<Rightarrow> summary_line list res" where
  "timing_lines v C s =
     bind_res (vpmu_estimated_pipeline_execution_time_ns v) (\<lambda>p.
     bind_res (vpmu_estimated_sys_memory_access_time_ns v C) (\<lambda>m.
     bind_res (vpmu_estimated_io_memory_access_time_ns v) (\<lambda>i.
     bind_res (vpmu_estimated_execution_time_ns v C s) (\<lambda>t. Inr
       [title ''Timing Information:'',
        nsec ''  ->Pipeline              : '' p,
        nsec ''  ->System memory         : '' m,
        nsec ''  ->I/O memory            : '' i,
        nsec ''  ->Network               : '' (vpmu_estimated_network_execution_time_ns s),
        nsec ''Estimated execution time  : '' t]))))"

text \<open>Each branch counter is read through \<open>vpmu_branch_predict\<close>, which refreshes the copies in the unit.\<close>

definition summary_lines :: "pmu \<Rightarrow> (summary_line list \<times> pmu) res" where
  "summary_lines p =
     bind_res (branch_event PREDICT_CORRECT p) (\<lambda>(c, q).
     bind_res (branch_event PREDICT_WRONG q) (\<lambda>(w, q).
     bind_res (memory_lines (pm_vp q) (pm_caches q) (pm_dev q)) (\<lambda>ms.
     bind_res (timing_lines (pm_vp q) (pm_caches q) (pm_dev q)) (\<lambda>ts. Inr
       (instruction_lines (pm_vp p) @
        [num_line ''  ->Branch predict correct     : '' (ucast c), num_line ''  ->Branch predict wrong       : '' (ucast w),
         title ''MISC:'', num_line ''  ->All changed to the PC      : '' (all_changes_to_PC_count (pm_vp q))] @
        cache_lines (pm_vp q) (pm_caches q) @ ms @ ts, q)))))"

definition print_summary_line :: "char \<Rightarrow> summary_line \<Rightarrow> string res" where
  "print_summary_line comma l = (case l of (s, None, e) \<Rightarrow> Inr (s @ e)
     | (s, Some n, e) \<Rightarrow> bind_res (commaprint comma n) (\<lambda>t. Inr (s @ t @ e)))"

fun print_lines :: "char \<Rightarrow> summary_line list \<Rightarrow> string list res" where
  "print_lines comma [] = Inr []"
| "print_lines comma (l # ls) = bind_res (print_summary_line comma l) (\<lambda>t. bind_res (print_lines comma ls) (\<lambda>ts. Inr (t # ts)))"

definition VPMU_DUMP_READABLE_MSG :: "char \<Rightarrow> pmu \<Rightarrow> (string list \<times> pmu) res" where
  "VPMU_DUMP_READABLE_MSG comma p = bind_res (summary_lines p) (\<lambda>(ls, p). bind_res (print_lines comma ls) (\<lambda>ts. Inr (ts, p)))"

lemma print_summary_line_total: "\<exists>t. print_summary_line comma l = Inr t"
proof (cases l)
  case (fields s n e)
  then show ?thesis using commaprint_total [of comma] by (cases n) (auto simp: print_summary_line_def)
qed

lemma print_lines_total: "\<exists>ts. print_lines comma ls = Inr ts \<and> length ts = length ls"
proof (induction ls)
  case (Cons l ls)
  obtain t where "print_summary_line comma l = Inr t" using print_summary_line_total by blast
  then show ?case using Cons by auto
qed simp

text \<open>
  The summary is always printed: with a frequency set and, for processor model 1, a second level cache, no line fails, nothing but the energy
  account and the copied branch counters changes in the unit, and the last line adds up: the estimated execution time
  printed is the sum of the four parts printed above it, modulo 2^64.
\<close>

theorem summary_adds_up:
  assumes "target_cpu_frequency (pm_vp p) \<noteq> 0" and "cpu_model (pm_vp p) = 1 \<longrightarrow> 1 < d4_maxlevel (pm_vp p)"
  shows "\<exists>ls ts p' a m i n. summary_lines p = Inr (ls, p') \<and> VPMU_DUMP_READABLE_MSG comma p = Inr (ts, p') \<and>
    length ts = length ls \<and> only_accounts p p' \<and>
    map (fst \<circ> snd) (drop (length ls - 5) ls) = [Some a, Some m, Some i, Some n, Some (a + i + n + m)]"
proof -
  obtain c q where q: "branch_event PREDICT_CORRECT p = Inr (c, q)" "q = set_vp (synced (pm_bp p) (pm_vp p)) p"
    by (simp add: branch_event_synced)
  obtain w where w: "branch_event PREDICT_WRONG q = Inr (w, q)" by (simp add: branch_event_synced q(2) synced_idem)
  have f: "target_cpu_frequency (pm_vp q) \<noteq> 0" "cpu_model (pm_vp q) = 1 \<longrightarrow> 1 < d4_maxlevel (pm_vp q)"
    using assms q(2) by (simp_all add: synced_def)
  obtain ms where ms: "memory_lines (pm_vp q) (pm_caches q) (pm_dev q) = Inr ms" using sys_cycles [OF f(2)] by (simp add: memory_lines_def)
  obtain a m i n where t: "timing_lines (pm_vp q) (pm_caches q) (pm_dev q) = Inr
       [title ''Timing Information:'', nsec ''  ->Pipeline              : '' a, nsec ''  ->System memory         : '' m,
        nsec ''  ->I/O memory            : '' i, nsec ''  ->Network               : '' n,
        nsec ''Estimated execution time  : '' (a + i + n + m)]"
    using f(1) sys_cycles [OF f(2)] by (simp add: timing_lines_def time_defs)
  define ts where "ts = [title ''Timing Information:'', nsec ''  ->Pipeline              : '' a,
      nsec ''  ->System memory         : '' m, nsec ''  ->I/O memory            : '' i, nsec ''  ->Network               : '' n,
      nsec ''Estimated execution time  : '' (a + i + n + m)]"
  obtain front where s: "summary_lines p = Inr (front @ ts, q)"
    using q(1) w ms t [folded ts_def] unfolding summary_lines_def append_assoc [symmetric] by auto
  then obtain ls where ls: "summary_lines p = Inr (ls, q)"
    "map (fst \<circ> snd) (drop (length ls - 5) ls) = [Some a, Some m, Some i, Some n, Some (a + i + n + m)]"
    by (simp add: nsec_def ts_def)
  obtain us where "print_lines comma ls = Inr us" "length us = length ls" using print_lines_total by blast
  then show ?thesis using ls branch_event_accounts [OF q(1)] by (auto simp: VPMU_DUMP_READABLE_MSG_def)
qed

theorem summary_adds_up_witness:
  "\<exists>ls ts p'. summary_lines pmu1 = Inr (ls, p') \<and> VPMU_DUMP_READABLE_MSG (CHR '','') pmu1 = Inr (ts, p') \<and> length ts = length ls"
  using summary_adds_up [of pmu1 "CHR '',''"] by (auto simp: pmu1_def vstate1_def vpmu1_def)

end
