(* ===== verification/VPMU_Config.thy ===== *)
theory VPMU_Config
  imports VPMU_Events
begin

unbundle bit_operations_syntax

text \<open>
  The configuration of the unit (\<^verbatim>\<open>hw/vpmu-device.c\<close>): the file of \<^verbatim>\<open>vpmu_config/\<close> is read item by item, the
  position of an item says what it sets, and the caches are built from the result.

  \<^item> The file system is a parameter: the text of the file for a processor model, None if it cannot be opened. The
    text has no NUL byte.
  \<^item> A C \<open>long\<close> has 32 bits, as in the 32 bit build. \<open>strtol\<close> and \<open>atof\<close> are modelled for decimal notation; hexadecimal, infinite and NaN inputs of \<open>atof\<close> read as
    the number of their decimal prefix.
  \<^item> \<open>lev\<close> and \<open>idu\<close> are the two globals that carry the position from one item to the next.
  \<^item> The cache simulator is a library: a cache is a node that names the node below it and its parameters.
\<close>

section \<open>Numbers in the file\<close>

definition isspace :: "char \<Rightarrow> bool" where
  "isspace c \<longleftrightarrow> of_char c \<in> {32, 9, 10, 11, 12, 13 :: nat}"

definition isdigit :: "char \<Rightarrow> bool" where
  "isdigit c \<longleftrightarrow> (48 :: nat) \<le> of_char c \<and> of_char c \<le> (57 :: nat)"

definition digits_value :: "string \<Rightarrow> int" where
  "digits_value s = foldl (\<lambda>n c. 10 * n + (of_char c - 48)) 0 s"

text \<open>The sign in front of a number and what follows it.\<close>

definition signed :: "string \<Rightarrow> int \<times> string" where
  "signed s = (case s of CHR ''-'' # t \<Rightarrow> (-1, t) | CHR ''+'' # t \<Rightarrow> (1, t) | t \<Rightarrow> (1, t))"

definition clamp_long :: "int \<Rightarrow> int" where
  "clamp_long n = max (- (2 ^ 31)) (min (2 ^ 31 - 1) n)"

definition strtol :: "string \<Rightarrow> int" where
  "strtol s = (let (sg, t) = signed (dropWhile isspace s) in clamp_long (sg * digits_value (takeWhile isdigit t)))"

definition atof_fraction :: "string \<Rightarrow> string" where
  "atof_fraction t = (case t of CHR ''.'' # u \<Rightarrow> takeWhile isdigit u | _ \<Rightarrow> [])"

definition atof_rest :: "string \<Rightarrow> string" where
  "atof_rest t = (case t of CHR ''.'' # u \<Rightarrow> dropWhile isdigit u | _ \<Rightarrow> t)"

definition atof_exponent :: "string \<Rightarrow> int" where
  "atof_exponent t = (case t of c # u \<Rightarrow>
     if c = CHR ''e'' \<or> c = CHR ''E'' then let (sg, w) = signed u in sg * digits_value (takeWhile isdigit w) else 0
   | [] \<Rightarrow> 0)"

definition scale10 :: "real \<Rightarrow> int \<Rightarrow> real" where
  "scale10 x e = (if 0 \<le> e then x * 10 ^ nat e else x / 10 ^ nat (- e))"

definition atof :: "string \<Rightarrow> real" where
  "atof s = (let (sg, t) = signed (dropWhile isspace s);
       whole = takeWhile isdigit t; r = dropWhile isdigit t; frac = atof_fraction r in
     if whole = [] \<and> frac = [] then 0
     else real_of_int sg * scale10 (scale10 (real_of_int (digits_value (whole @ frac))) (- int (length frac)))
       (atof_exponent (atof_rest r)))"

section \<open>Items\<close>

record d4level =
  l_size :: u32
  l_blocksize :: u32
  l_subblocksize :: u32
  l_assoc :: u32
  l_doccc :: int
  l_replacement :: int
  l_walloc :: int
  l_wback :: int
  l_fetch :: int
  l_prefetch_abortpercent :: int
  l_prefetch_distance :: int

record vconfig =
  cf_vp :: VPMU
  d4_level :: "nat \<Rightarrow> nat \<Rightarrow> d4level"
  arm_instr_time :: arm_time
  g_lev :: nat
  g_idu :: nat

definition u64_of_real :: "real \<Rightarrow> u64 res" where
  "u64_of_real x = (if 0 \<le> x \<and> x < 18446744073709551616 then Inr (word_of_int \<lfloor>x\<rfloor>) else Inl Undefined)"

definition to_u32 :: "int \<Rightarrow> u32" where "to_u32 n = word_of_int n"
definition to_int :: "int \<Rightarrow> int" where "to_int n = sint (word_of_int n :: u32)"

text \<open>The first byte of the value, a signed char; a token is never empty.\<close>

definition first_byte :: "string \<Rightarrow> int" where
  "first_byte s = (case s of [] \<Rightarrow> 0 | c # _ \<Rightarrow> sint (of_char c :: 8 word))"

definition miss_latency :: "string \<Rightarrow> VPMU \<Rightarrow> u64 res" where
  "miss_latency value v = u64_of_real (atof value * real_of_int (uint (target_cpu_frequency v)) / 1000)"

text \<open>An assignment to the arrays of three kinds and five levels.\<close>

definition set_level :: "(d4level \<Rightarrow> d4level) \<Rightarrow> vconfig \<Rightarrow> vconfig res" where
  "set_level f c = (if g_idu c < 3 \<and> g_lev c < 5 then
     Inr (c\<lparr>d4_level := (d4_level c)(g_idu c := (d4_level c (g_idu c))(g_lev c := f (d4_level c (g_idu c) (g_lev c))))\<rparr>)
     else Inl Out_of_bounds)"

definition VPMU_set_config :: "nat \<Rightarrow> string \<Rightarrow> vconfig \<Rightarrow> vconfig res" where
  "VPMU_set_config config_id value c = (let v = cf_vp c in
     if config_id = 0 then Inr (c\<lparr>cf_vp := v\<lparr>target_cpu_frequency := word_of_int (strtol value)\<rparr>\<rparr>)
     else if config_id = 1 then bind_res (miss_latency value v) (\<lambda>x. Inr (c\<lparr>cf_vp := v\<lparr>l1_cache_miss_lat := x\<rparr>\<rparr>))
     else if config_id = 2 then bind_res (miss_latency value v) (\<lambda>x. Inr (c\<lparr>cf_vp := v\<lparr>l2_cache_miss_lat := x\<rparr>\<rparr>))
     else if config_id \<in> {24, 3} then
       Inr (c\<lparr>g_lev := 0, cf_vp := v\<lparr>d4_maxlevel := to_int (strtol value)\<rparr>, g_idu := (if config_id \<ge> 22 then 2 else 1)\<rparr>)
     else if config_id \<in> {35, 25, 14, 4} then set_level (l_size_update (\<lambda>_. to_u32 (strtol value))) c
     else if config_id \<in> {36, 26, 15, 5} then set_level (l_blocksize_update (\<lambda>_. to_u32 (strtol value))) c
     else if config_id \<in> {37, 27, 16, 6} then set_level (l_subblocksize_update (\<lambda>_. to_u32 (strtol value))) c
     else if config_id \<in> {38, 28, 17, 7} then set_level (l_assoc_update (\<lambda>_. to_u32 (strtol value))) c
     else if config_id \<in> {39, 29, 18, 8} then set_level (l_replacement_update (\<lambda>_. first_byte value)) c
     else if config_id \<in> {40, 30, 19, 9} then set_level (l_walloc_update (\<lambda>_. first_byte value)) c
     else if config_id \<in> {41, 31, 20, 10} then set_level (l_wback_update (\<lambda>_. first_byte value)) c
     else if config_id \<in> {42, 32, 21, 11} then set_level (l_fetch_update (\<lambda>_. first_byte value)) c
     else if config_id \<in> {43, 33, 22, 12} then set_level (l_prefetch_abortpercent_update (\<lambda>_. to_int (strtol value))) c
     else if config_id \<in> {44, 34, 23, 13} then
       bind_res (set_level (l_prefetch_distance_update (\<lambda>_. to_int (strtol value))) c) (\<lambda>c.
         let c = c\<lparr>g_lev := g_lev c + 1\<rparr> in Inr (if g_lev c = 1 then c\<lparr>g_idu := 0\<rparr> else c))
     else if config_id - 45 < ARM_INSTRUCTIONS then
       Inr (c\<lparr>arm_instr_time := (arm_instr_time c)(config_id - 45 := uint (to_u32 (strtol value)))\<rparr>)
     else Inl Out_of_bounds)"

section \<open>The file\<close>

text \<open>
  \<open>fgets(tmp, 255)\<close>: up to the end of the line, at most 254 characters. \<open>strtok\<close> gives the non-empty
  parts between separators.
\<close>

fun fgets :: "nat \<Rightarrow> string \<Rightarrow> string \<times> string" where
  "fgets 0 s = ([], s)"
| "fgets (Suc n) [] = ([], [])"
| "fgets (Suc n) (c # s) = (if c = CHR 0x0A then ([c], s) else let (l, r) = fgets n s in (c # l, r))"

lemma fgets_append: "fst (fgets n s) @ snd (fgets n s) = s"
  by (induction n s rule: fgets.induct) (auto simp: Let_def split: prod.splits)

lemma fgets_length: "length (fst (fgets n s)) \<le> n"
  by (induction n s rule: fgets.induct) (auto simp: Let_def split: prod.splits)

lemma fgets_progress: "length (snd (fgets (Suc n) (c # s))) < Suc (length s)"
proof -
  have "length (snd (fgets n s)) \<le> length s" using fgets_append [of n s] by (metis length_append le_add2)
  then show ?thesis by (auto simp: Let_def split: prod.splits)
qed

function file_lines :: "string \<Rightarrow> string list" where
  "file_lines [] = []"
| "file_lines (c # s) = (let (l, r) = fgets 254 (c # s) in l # file_lines r)"
  by pat_completeness auto

termination file_lines
proof (relation "measure length")
  fix c s x l r assume "x = fgets 254 (c # s)" "(l, r) = x"
  then show "(r, c # s) \<in> measure length"
    using fgets_progress [of 253 c s] by (metis in_measure length_Cons numeral_eq_Suc pred_numeral_simps(2,3) semiring_norm(26,27,28) snd_conv eval_nat_numeral(3))
qed simp

fun split_at :: "char \<Rightarrow> string \<Rightarrow> string list" where
  "split_at d [] = [[]]"
| "split_at d (c # s) = (if c = d then [] # split_at d s else (case split_at d s of [] \<Rightarrow> [[c]] | t # ts \<Rightarrow> (c # t) # ts))"

definition strtok_all :: "char \<Rightarrow> string \<Rightarrow> string list" where
  "strtok_all d s = filter (\<lambda>t. t \<noteq> []) (split_at d s)"

text \<open>The second part of a line, if the line is not a comment and has one.\<close>

definition line_item :: "string \<Rightarrow> string option" where
  "line_item l = (if l \<noteq> [] \<and> hd l = CHR ''#'' then None
     else (case strtok_all (CHR '','') l of _ # t # _ \<Rightarrow> Some t | _ \<Rightarrow> None))"

definition config_items :: "string \<Rightarrow> string list" where
  "config_items text = List.map_filter line_item (file_lines text)"

definition set_items :: "nat \<Rightarrow> string list \<Rightarrow> vconfig \<Rightarrow> vconfig res" where
  "set_items i vs = fold_res (\<lambda>(k, value). VPMU_set_config k value) (List.enumerate i vs)"

definition VPMU_set_config_from_file :: "(int \<Rightarrow> string option) \<Rightarrow> vconfig \<Rightarrow> vconfig res" where
  "VPMU_set_config_from_file fs c =
     (if cpu_model (cf_vp c) = 0 \<or> cpu_model (cf_vp c) = 1 then
        (case fs (cpu_model (cf_vp c)) of None \<Rightarrow> Inl Exit_process | Some text \<Rightarrow> set_items 0 (config_items text) c)
      else Inl Undefined)"

section \<open>What the position of an item means\<close>

text \<open>The ten items of a level in the order of the file; the field \<open>doccc\<close> is not configured.\<close>

definition level_of :: "string list \<Rightarrow> d4level \<Rightarrow> d4level" where
  "level_of vs d = d\<lparr>l_size := to_u32 (strtol (vs ! 0)), l_blocksize := to_u32 (strtol (vs ! 1)),
     l_subblocksize := to_u32 (strtol (vs ! 2)), l_assoc := to_u32 (strtol (vs ! 3)),
     l_replacement := first_byte (vs ! 4), l_walloc := first_byte (vs ! 5), l_wback := first_byte (vs ! 6),
     l_fetch := first_byte (vs ! 7), l_prefetch_abortpercent := to_int (strtol (vs ! 8)),
     l_prefetch_distance := to_int (strtol (vs ! 9))\<rparr>"

lemma level_of_level_of: "level_of vs (level_of us d) = level_of vs d"
  by (simp add: level_of_def)

definition put_level :: "nat \<Rightarrow> nat \<Rightarrow> d4level \<Rightarrow> (nat \<Rightarrow> nat \<Rightarrow> d4level) \<Rightarrow> nat \<Rightarrow> nat \<Rightarrow> d4level" where
  "put_level i l d L = L(i := (L i)(l := d))"

lemma put_level_apply [simp]: "put_level i l d L i' l' = (if i' = i \<and> l' = l then d else L i' l')"
  by (simp add: put_level_def)

lemma put_level_twice [simp]: "put_level i l d (put_level i l e L) = put_level i l d L"
  by (simp add: put_level_def)

lemma set_level_put: "g_idu c < 3 \<Longrightarrow> g_lev c < 5 \<Longrightarrow>
  set_level f c = Inr (c\<lparr>d4_level := put_level (g_idu c) (g_lev c) (f (d4_level c (g_idu c) (g_lev c))) (d4_level c)\<rparr>)"
  by (simp add: set_level_def put_level_def)

lemma set_items_Nil [simp]: "set_items i [] c = Inr c"
  by (simp add: set_items_def)

lemma set_items_Cons: "set_items i (v # vs) c = bind_res (VPMU_set_config i v c) (set_items (Suc i) vs)"
  by (simp add: set_items_def)

lemma set_items_append: "set_items i (us @ vs) c = bind_res (set_items i us c) (set_items (i + length us) vs)"
proof (induction us arbitrary: i c)
  case (Cons u us)
  then show ?case by (cases "VPMU_set_config i u c") (simp_all add: set_items_Cons)
qed simp

lemma ten_items:
  assumes "length vs = 10"
  obtains a b c d e f g h i j where "vs = [a, b, c, d, e, f, g, h, i, j]"
  using assms by (auto simp: length_Suc_conv numeral_eq_Suc)

text \<open>A section of ten items fills one level and advances the position.\<close>

lemma set_section:
  assumes "b \<in> {4, 14, 25, 35}" and "length vs = 10" and "g_idu c < 3" and "g_lev c < 5"
  shows "set_items b vs c = Inr (c\<lparr>d4_level := put_level (g_idu c) (g_lev c) (level_of vs (d4_level c (g_idu c) (g_lev c))) (d4_level c),
    g_lev := g_lev c + 1, g_idu := (if g_lev c = 0 then 0 else g_idu c)\<rparr>)"
proof -
  obtain x0 x1 x2 x3 x4 x5 x6 x7 x8 x9 where vs: "vs = [x0, x1, x2, x3, x4, x5, x6, x7, x8, x9]"
    using ten_items [OF assms(2)] .
  show ?thesis
    using assms(1) by (elim insertE emptyE)
      (simp_all add: vs set_items_Cons VPMU_set_config_def set_level_put assms(3,4) Let_def level_of_def)
qed

lemma set_times:
  "j + length ts \<le> ARM_INSTRUCTIONS \<Longrightarrow>
     set_items (45 + j) ts c = Inr (c\<lparr>arm_instr_time := (\<lambda>k. if j \<le> k \<and> k < j + length ts
       then uint (to_u32 (strtol (ts ! (k - j)))) else arm_instr_time c k)\<rparr>)"
proof (induction ts arbitrary: j c)
  case (Cons t ts)
  let ?c = "c\<lparr>arm_instr_time := (arm_instr_time c)(j := uint (to_u32 (strtol t)))\<rparr>"
  have "VPMU_set_config (45 + j) t c = Inr ?c" using Cons.prems by (simp add: VPMU_set_config_def)
  moreover have "set_items (45 + Suc j) ts ?c = Inr (?c\<lparr>arm_instr_time := (\<lambda>k. if Suc j \<le> k \<and> k < Suc j + length ts
       then uint (to_u32 (strtol (ts ! (k - Suc j)))) else arm_instr_time ?c k)\<rparr>)"
    using Cons.prems by (intro Cons.IH) simp
  moreover have "(\<lambda>k. if Suc j \<le> k \<and> k < Suc j + length ts then uint (to_u32 (strtol (ts ! (k - Suc j)))) else arm_instr_time ?c k) =
      (\<lambda>k. if j \<le> k \<and> k < j + length (t # ts) then uint (to_u32 (strtol ((t # ts) ! (k - j)))) else arm_instr_time c k)"
    by (rule ext) (auto simp: nth_Cons')
  ultimately show ?case by (simp add: set_items_Cons)
next
  case Nil
  have "(\<lambda>k. if j \<le> k \<and> k < j then uint (to_u32 (strtol ([] ! (k - j)))) else arm_instr_time c k) = arm_instr_time c"
    by auto
  then show ?case by simp
qed

lemma set_times_overrun:
  "j \<le> ARM_INSTRUCTIONS \<Longrightarrow> ARM_INSTRUCTIONS < j + length ts \<Longrightarrow> set_items (45 + j) ts c = Inl Out_of_bounds"
proof (induction ts arbitrary: j c)
  case (Cons t ts)
  show ?case
  proof (cases "j < ARM_INSTRUCTIONS")
    case True
    then have "VPMU_set_config (45 + j) t c = Inr (c\<lparr>arm_instr_time := (arm_instr_time c)(j := uint (to_u32 (strtol t)))\<rparr>)"
      by (simp add: VPMU_set_config_def)
    then show ?thesis using Cons.IH [of "Suc j"] Cons.prems True by (simp add: set_items_Cons)
  next
    case False
    then show ?thesis using Cons.prems by (simp add: set_items_Cons VPMU_set_config_def)
  qed
qed simp

text \<open>The head of a file: frequency, the two latencies, and the sections of the caches.\<close>

definition file_head :: "string \<Rightarrow> string \<Rightarrow> string \<Rightarrow> string \<Rightarrow> string list \<Rightarrow> string list \<Rightarrow> string \<Rightarrow> string list \<Rightarrow> string list \<Rightarrow> string list" where
  "file_head freq lat1 lat2 ilevels i1 i2 dlevels d1 d2 = [freq, lat1, lat2, ilevels] @ i1 @ i2 @ [dlevels] @ d1 @ d2"

definition head_config :: "string \<Rightarrow> u64 \<Rightarrow> u64 \<Rightarrow> string list \<Rightarrow> string \<Rightarrow> string list \<Rightarrow> string list \<Rightarrow> vconfig \<Rightarrow> vconfig" where
  "head_config freq m1 m2 i1 dlevels d1 d2 c = c\<lparr>
     cf_vp := (cf_vp c)\<lparr>target_cpu_frequency := word_of_int (strtol freq), l1_cache_miss_lat := m1, l2_cache_miss_lat := m2,
       d4_maxlevel := to_int (strtol dlevels)\<rparr>,
     d4_level := put_level 0 1 (level_of d2 (d4_level c 0 1)) (put_level 2 0 (level_of d1 (d4_level c 2 0))
       (put_level 1 0 (level_of i1 (d4_level c 1 0)) (d4_level c))),
     g_lev := 2, g_idu := 0\<rparr>"

lemma head_config_times: "arm_instr_time (head_config freq m1 m2 i1 dlevels d1 d2 c) = arm_instr_time c"
  by (simp add: head_config_def)

definition head_ok :: "string \<Rightarrow> string \<Rightarrow> string \<Rightarrow> u64 \<Rightarrow> u64 \<Rightarrow> bool" where
  "head_ok freq lat1 lat2 m1 m2 \<longleftrightarrow> (let f = real_of_int (uint (word_of_int (strtol freq) :: u64)) in
     u64_of_real (atof lat1 * f / 1000) = Inr m1 \<and> u64_of_real (atof lat2 * f / 1000) = Inr m2)"

lemma four: "Suc (Suc (Suc (Suc 0))) = 4"
  by simp

lemma set_head:
  assumes "length i1 = 10" and "length i2 = 10" and "length d1 = 10" and "length d2 = 10" and "head_ok freq lat1 lat2 m1 m2"
  shows "set_items 0 (file_head freq lat1 lat2 ilevels i1 i2 dlevels d1 d2) c = Inr (head_config freq m1 m2 i1 dlevels d1 d2 c)"
proof -
  define v where "v = (cf_vp c)\<lparr>target_cpu_frequency := word_of_int (strtol freq), l1_cache_miss_lat := m1, l2_cache_miss_lat := m2\<rparr>"
  define ca where "ca = c\<lparr>g_lev := 0, cf_vp := v\<lparr>d4_maxlevel := to_int (strtol ilevels)\<rparr>, g_idu := 1\<rparr>"
  define cb where "cb = ca\<lparr>d4_level := put_level 1 0 (level_of i1 (d4_level c 1 0)) (d4_level c), g_lev := 1, g_idu := 0\<rparr>"
  define cc where "cc = cb\<lparr>d4_level := put_level 0 1 (level_of i2 (d4_level c 0 1)) (d4_level cb), g_lev := 2, g_idu := 0\<rparr>"
  define cd where "cd = cc\<lparr>g_lev := 0, cf_vp := v\<lparr>d4_maxlevel := to_int (strtol dlevels)\<rparr>, g_idu := 2\<rparr>"
  define ce where "ce = cd\<lparr>d4_level := put_level 2 0 (level_of d1 (d4_level c 2 0)) (d4_level cc), g_lev := 1, g_idu := 0\<rparr>"
  have A: "set_items 0 [freq, lat1, lat2, ilevels] c = Inr ca"
    using assms(5) by (simp add: set_items_Cons VPMU_set_config_def miss_latency_def head_ok_def Let_def ca_def v_def)
  have B: "set_items 4 i1 ca = Inr cb" using set_section [of 4 i1 ca] assms(1) by (simp add: ca_def cb_def)
  have C: "set_items 14 i2 cb = Inr cc" using set_section [of 14 i2 cb] assms(2) by (simp add: ca_def cb_def cc_def)
  have D: "set_items 24 [dlevels] cc = Inr cd"
    by (simp add: set_items_Cons VPMU_set_config_def Let_def cc_def cb_def ca_def cd_def)
  have E: "set_items 25 d1 cd = Inr ce" using set_section [of 25 d1 cd] assms(3) by (simp add: ca_def cb_def cc_def cd_def ce_def)
  have F: "set_items 35 d2 ce = Inr (head_config freq m1 m2 i1 dlevels d1 d2 c)"
    using set_section [of 35 d2 ce] assms(4)
    by (simp add: ca_def cb_def cc_def cd_def ce_def head_config_def v_def level_of_level_of put_level_def fun_eq_iff)
  show ?thesis
    unfolding file_head_def set_items_append using A B C D E F assms(1-4) by (simp add: four)
qed

text \<open>
  The items set the unit by position. Of a file with 45 items for the
  caches and at most 172 instruction times, the first level caches are set from their sections, the
  shared second level from the last section (the data section overrides the instruction section), the number of levels from the data
  section, and each instruction time from its item; nothing else changes.
\<close>

lemma set_file:
  assumes "length i1 = 10" and "length i2 = 10" and "length d1 = 10" and "length d2 = 10" and "head_ok freq lat1 lat2 m1 m2"
    and "length ts \<le> ARM_INSTRUCTIONS"
  shows "set_items 0 (file_head freq lat1 lat2 ilevels i1 i2 dlevels d1 d2 @ ts) c =
    Inr ((head_config freq m1 m2 i1 dlevels d1 d2 c)\<lparr>arm_instr_time := (\<lambda>k. if k < length ts
       then uint (to_u32 (strtol (ts ! k))) else arm_instr_time c k)\<rparr>)"
proof -
  have n: "length (file_head freq lat1 lat2 ilevels i1 i2 dlevels d1 d2) = 45" using assms(1-4) by (simp add: file_head_def)
  show ?thesis
    using set_times [of 0 ts] assms(6)
    by (simp add: set_items_append n set_head [OF assms(1-5)] head_config_times cong: if_cong)
qed

lemma set_file_overrun:
  assumes "length i1 = 10" and "length i2 = 10" and "length d1 = 10" and "length d2 = 10" and "head_ok freq lat1 lat2 m1 m2"
    and "ARM_INSTRUCTIONS < length ts"
  shows "set_items 0 (file_head freq lat1 lat2 ilevels i1 i2 dlevels d1 d2 @ ts) c = Inl Out_of_bounds"
proof -
  have n: "length (file_head freq lat1 lat2 ilevels i1 i2 dlevels d1 d2) = 45" using assms(1-4) by (simp add: file_head_def)
  show ?thesis
    using set_times_overrun [of 0 ts] assms(6) by (simp add: set_items_append n set_head [OF assms(1-5)])
qed

text \<open>
  Property C27. A configuration file with more than 172 instruction times makes the reader write
  beyond the end of \<open>arm_instr_time\<close>, whatever its other items are. The files in \<^verbatim>\<open>vpmu_config/\<close> have 173.
\<close>

theorem config_overruns_times:
  assumes "length i1 = 10" and "length i2 = 10" and "length d1 = 10" and "length d2 = 10" and "head_ok freq lat1 lat2 m1 m2"
    and "ARM_INSTRUCTIONS < length ts"
  shows "set_items 0 (file_head freq lat1 lat2 ilevels i1 i2 dlevels d1 d2 @ ts) c = Inl Out_of_bounds"
  by (rule set_file_overrun [OF assms])

definition config1 :: vconfig where
  "config1 = \<lparr>cf_vp = vpmu1, d4_level = \<lambda>_ _. \<lparr>l_size = 0, l_blocksize = 0, l_subblocksize = 0, l_assoc = 0, l_doccc = 0,
     l_replacement = 0, l_walloc = 0, l_wback = 0, l_fetch = 0, l_prefetch_abortpercent = 0, l_prefetch_distance = 0\<rparr>,
     arm_instr_time = \<lambda>_. 0, g_lev = 0, g_idu = 0\<rparr>"

definition section1 :: "string list" where
  "section1 = [''16384'', ''32'', ''32'', ''4'', ''r'', ''n'', ''a'', ''d'', ''0'', ''1'']"

lemma head_ok1: "head_ok ''264'' ''102.9'' ''0'' 27 0"
  by (simp add: head_ok_def strtol_def atof_def signed_def isspace_def isdigit_def digits_value_def clamp_long_def
      atof_fraction_def atof_rest_def atof_exponent_def scale10_def u64_of_real_def Let_def)

theorem config_overruns_times_witness:
  "set_items 0 (file_head ''264'' ''102.9'' ''0'' ''1'' section1 section1 ''1'' section1 section1 @ replicate 173 ''1'') config1 = Inl Out_of_bounds"
  using config_overruns_times [of section1 section1 section1 section1 "''264''" "''102.9''" "''0''" 27 0 "replicate 173 ''1''"] head_ok1
  by (simp add: section1_def)

section \<open>Files read back\<close>

text \<open>The lines of a configuration file: remarks, and entries with a name and a value.\<close>

datatype cfg_line = Remark string | Entry string string

fun print_cfg :: "cfg_line \<Rightarrow> string" where
  "print_cfg (Remark s) = CHR ''#'' # s"
| "print_cfg (Entry n v) = n @ CHR '','' # v @ [CHR '','']"

definition print_file :: "cfg_line list \<Rightarrow> string" where
  "print_file ls = concat (map (\<lambda>l. print_cfg l @ [CHR 0x0A]) ls)"

fun cfg_ok :: "cfg_line \<Rightarrow> bool" where
  "cfg_ok (Remark s) \<longleftrightarrow> CHR 0x0A \<notin> set s \<and> length s < 253"
| "cfg_ok (Entry n v) \<longleftrightarrow> n \<noteq> [] \<and> v \<noteq> [] \<and> hd n \<noteq> CHR ''#'' \<and> CHR '','' \<notin> set (n @ v) \<and> CHR 0x0A \<notin> set (n @ v) \<and>
     length n + length v < 252"

fun cfg_value :: "cfg_line \<Rightarrow> string option" where
  "cfg_value (Remark s) = None"
| "cfg_value (Entry n v) = Some v"

lemma fgets_line: "CHR 0x0A \<notin> set l \<Longrightarrow> length l < n \<Longrightarrow> fgets n (l @ CHR 0x0A # r) = (l @ [CHR 0x0A], r)"
proof (induction l arbitrary: n)
  case Nil
  then show ?case by (cases n) simp_all
next
  case (Cons c l)
  then show ?case by (cases n) auto
qed

lemma file_lines_line:
  assumes "CHR 0x0A \<notin> set l" and "length l < 254"
  shows "file_lines (l @ CHR 0x0A # r) = (l @ [CHR 0x0A]) # file_lines r"
proof (cases l)
  case Nil
  then show ?thesis using fgets_line [of l 254 r] assms by (simp add: Let_def)
next
  case (Cons c k)
  have "fgets 254 (c # (k @ CHR 0x0A # r)) = (l @ [CHR 0x0A], r)" using fgets_line [OF assms] Cons by simp
  then show ?thesis unfolding Cons append_Cons by (subst file_lines.simps) (simp only: Let_def prod.case append_Cons)
qed

lemma split_at_part: "d \<notin> set a \<Longrightarrow> split_at d (a @ d # b) = a # split_at d b"
  by (induction a) auto

lemma line_item_entry:
  "cfg_ok (Entry n v) \<Longrightarrow> line_item (print_cfg (Entry n v) @ [CHR 0x0A]) = Some v"
proof -
  assume ok: "cfg_ok (Entry n v)"
  have "split_at (CHR '','') (n @ CHR '','' # (v @ CHR '','' # [CHR 0x0A])) = [n, v, [CHR 0x0A]]"
    using ok by (subst split_at_part; simp)+
  then show ?thesis using ok by (cases n) (auto simp: line_item_def strtok_all_def)
qed

lemma print_cfg_line:
  assumes "cfg_ok l"
  shows "CHR 0x0A \<notin> set (print_cfg l)" and "length (print_cfg l) < 254" and "line_item (print_cfg l @ [CHR 0x0A]) = cfg_value l"
proof -
  show "CHR 0x0A \<notin> set (print_cfg l)" "length (print_cfg l) < 254" using assms by (cases l; auto)+
  show "line_item (print_cfg l @ [CHR 0x0A]) = cfg_value l"
  proof (cases l)
    case (Remark s)
    then show ?thesis by (simp add: line_item_def)
  next
    case (Entry n v)
    then show ?thesis using assms line_item_entry [of n v] by simp
  qed
qed

lemma config_items_print:
  assumes "list_all cfg_ok ls"
  shows "config_items (print_file ls) = List.map_filter cfg_value ls"
  using assms
proof (induction ls)
  case Nil
  show ?case by (simp add: config_items_def print_file_def)
next
  case (Cons l ls)
  have "print_file (l # ls) = print_cfg l @ CHR 0x0A # print_file ls" by (simp add: print_file_def)
  then have "file_lines (print_file (l # ls)) = (print_cfg l @ [CHR 0x0A]) # file_lines (print_file ls)"
    using Cons.prems print_cfg_line(1,2) [of l] by (simp add: file_lines_line)
  then show ?case
    using Cons print_cfg_line(3) [of l] by (auto simp: config_items_def map_filter_simps split: option.splits)
qed

text \<open>
  The reader inverts the format of the configuration files: of a file whose lines
  are remarks and entries \<open>name,value,\<close> it finds exactly the values, in order, and skips the remarks.
\<close>

theorem config_file_reads_back:
  assumes "list_all cfg_ok ls"
  shows "config_items (print_file ls) = List.map_filter cfg_value ls"
  using assms by (rule config_items_print)

theorem config_file_reads_back_witness:
  "config_items (print_file [Remark ''# CPU'', Entry ''cpu_frequency'' ''264'', Entry ''b'' ''3'']) = [''264'', ''3'']"
  using config_file_reads_back [of "[Remark ''# CPU'', Entry ''cpu_frequency'' ''264'', Entry ''b'' ''3'']"]
  by (simp add: map_filter_simps)

section \<open>Building the caches\<close>

text \<open>The largest exponent: the position of the highest bit, -1 for 0.\<close>

fun clog2_nat :: "nat \<Rightarrow> int" where
  "clog2_nat x = (if x = 0 then -1 else clog2_nat (x div 2) + 1)"

declare clog2_nat.simps [simp del]

definition clog2 :: "u32 \<Rightarrow> int" where
  "clog2 x = clog2_nat (unat x)"

lemma clog2_nat_bounds: "0 < x \<Longrightarrow> 0 \<le> clog2_nat x \<and> 2 ^ nat (clog2_nat x) \<le> x \<and> x < 2 ^ (nat (clog2_nat x) + 1)"
proof (induction x rule: clog2_nat.induct)
  case (1 x)
  show ?case
  proof (cases "x = 1")
    case True
    then show ?thesis by (subst (1 2 3) clog2_nat.simps) (simp add: clog2_nat.simps [of 0])
  next
    case False
    then have x: "0 < x div 2" using 1(2) by auto
    then have IH: "0 \<le> clog2_nat (x div 2)" "2 ^ nat (clog2_nat (x div 2)) \<le> x div 2" "x div 2 < 2 ^ (nat (clog2_nat (x div 2)) + 1)"
      using 1(1) 1(2) by simp_all
    have "clog2_nat x = clog2_nat (x div 2) + 1" using 1(2) by (subst clog2_nat.simps) simp
    moreover have "nat (clog2_nat (x div 2) + 1) = nat (clog2_nat (x div 2)) + 1" using IH(1) by simp
    ultimately show ?thesis using IH by simp linarith
  qed
qed

text \<open>What \<open>d4_cache_init\<close> sets in a cache; the policies are those of the simulator.\<close>

datatype replacement = LRU | FIFO | Random
datatype prefetch = Demand_only | Prefetch_always | Prefetch_miss | Prefetch_tagged | Load_forward | Prefetch_subblock
datatype write_policy = Impossible | Always | Never | Nofetch

record cache_node =
  below :: "nat option"
  n_ccc :: bool
  n_ro :: bool
  lg2blocksize :: int
  lg2subblocksize :: int
  lg2size :: int
  n_assoc :: int
  replacementf :: replacement
  prefetchf :: prefetch
  wallocf :: write_policy
  wbackf :: write_policy
  n_prefetch_distance :: int
  n_prefetch_abortpercent :: int

text \<open>A letter that is none of the choices is reported and then treated as the first choice.\<close>

definition replacement_of :: "int \<Rightarrow> replacement" where
  "replacement_of c = (if c = 102 then FIFO else if c = 114 then Random else LRU)"

definition prefetch_of :: "int \<Rightarrow> prefetch" where
  "prefetch_of c = (if c = 97 then Prefetch_always else if c = 109 then Prefetch_miss else if c = 116 then Prefetch_tagged
     else if c = 108 then Load_forward else if c = 115 then Prefetch_subblock else Demand_only)"

definition write_policy_of :: "int \<Rightarrow> write_policy" where
  "write_policy_of c = (if c = 97 then Always else if c = 110 then Never else if c = 102 then Nofetch else Impossible)"

definition d4_cache_init :: "d4level \<Rightarrow> nat \<Rightarrow> nat option \<Rightarrow> cache_node" where
  "d4_cache_init d idu parent = \<lparr>below = parent, n_ccc = (l_doccc d \<noteq> 0), n_ro = (idu = 1),
     lg2blocksize = clog2 (l_blocksize d), lg2subblocksize = clog2 (l_subblocksize d), lg2size = clog2 (l_size d),
     n_assoc = to_int (uint (l_assoc d)), replacementf = replacement_of (l_replacement d), prefetchf = prefetch_of (l_fetch d),
     wallocf = write_policy_of (l_walloc d), wbackf = write_policy_of (l_wback d),
     n_prefetch_distance = to_int (uint (to_u32 (l_prefetch_distance d) * l_subblocksize d)),
     n_prefetch_abortpercent = l_prefetch_abortpercent d\<rparr>"

text \<open>
  The caches made so far: \<open>nodes\<close> in the order of their creation, where node 0 is the memory; \<open>cd\<close> and \<open>ci\<close>
  are the ends of the two chains, \<open>levnode\<close> the array \<open>d4_levcache\<close>.
\<close>

record cache_build =
  nodes :: "cache_node list"
  b_cd :: nat
  b_ci :: nat
  levnode :: "nat \<Rightarrow> nat \<Rightarrow> nat option"

definition make_cache :: "(nat \<Rightarrow> nat \<Rightarrow> d4level) \<Rightarrow> nat \<Rightarrow> nat \<Rightarrow> cache_build \<Rightarrow> cache_build" where
  "make_cache L lev idu b = (if l_size (L idu lev) \<noteq> 0 then
     let parent = (if idu = 2 then b_cd b else b_ci b); c = length (nodes b) in
     b\<lparr>nodes := nodes b @ [d4_cache_init (L idu lev) idu (Some parent)],
       b_cd := (if idu = 1 then b_cd b else c), b_ci := (if idu = 2 then b_ci b else c),
       levnode := (levnode b)(idu := (levnode b idu)(lev := Some c))\<rparr>
     else b)"

definition make_level :: "(nat \<Rightarrow> nat \<Rightarrow> d4level) \<Rightarrow> nat \<Rightarrow> cache_build \<Rightarrow> cache_build" where
  "make_level L lev b = fold (make_cache L lev) [0..<3] b"

definition memory_node :: cache_node where
  "memory_node = \<lparr>below = None, n_ccc = False, n_ro = False, lg2blocksize = 0, lg2subblocksize = 0, lg2size = 0, n_assoc = 0,
     replacementf = LRU, prefetchf = Demand_only, wallocf = Impossible, wbackf = Impossible, n_prefetch_distance = 0,
     n_prefetch_abortpercent = 0\<rparr>"

definition VPMU_cache_init :: "vconfig \<Rightarrow> cache_build res" where
  "VPMU_cache_init c = (let n = d4_maxlevel (cf_vp c) in
     if n \<le> 5 then Inr (fold (make_level (d4_level c)) (rev [0..<nat n])
       \<lparr>nodes = [memory_node], b_cd = 0, b_ci = 0, levnode = \<lambda>_ _. None\<rparr>)
     else Inl Out_of_bounds)"

text \<open>Every node but the memory rests on an older one, so that each chain ends at the memory.\<close>

definition build_ok :: "cache_build \<Rightarrow> bool" where
  "build_ok b \<longleftrightarrow> nodes b \<noteq> [] \<and> b_cd b < length (nodes b) \<and> b_ci b < length (nodes b) \<and> below (nodes b ! 0) = None \<and>
     (\<forall>k. 0 < k \<and> k < length (nodes b) \<longrightarrow> (\<exists>q < k. below (nodes b ! k) = Some q))"

lemma below_cache_init [simp]: "below (d4_cache_init d i q) = q"
  by (simp add: d4_cache_init_def)

lemma make_cache_ok: "build_ok b \<Longrightarrow> build_ok (make_cache L lev idu b)"
  unfolding build_ok_def make_cache_def Let_def by (auto simp: nth_append less_Suc_eq)

lemma fold_ok: "(\<And>x b. build_ok b \<Longrightarrow> build_ok (f x b)) \<Longrightarrow> build_ok b \<Longrightarrow> build_ok (fold f xs b)"
  by (induction xs arbitrary: b) simp_all

lemma make_level_ok: "build_ok b \<Longrightarrow> build_ok (make_level L lev b)"
  unfolding make_level_def by (rule fold_ok) (rule make_cache_ok)

lemma build_start: "build_ok \<lparr>nodes = [memory_node], b_cd = 0, b_ci = 0, levnode = \<lambda>_ _. None\<rparr>"
  by (auto simp: build_ok_def memory_node_def)

text \<open>How many steps down it is to the memory.\<close>

fun path_down :: "nat \<Rightarrow> cache_build \<Rightarrow> nat \<Rightarrow> nat list option" where
  "path_down 0 b k = None"
| "path_down (Suc n) b k = (case below (nodes b ! k) of None \<Rightarrow> Some [k]
     | Some q \<Rightarrow> map_option (\<lambda>p. k # p) (path_down n b q))"

lemma path_down_ends: "build_ok b \<Longrightarrow> k < length (nodes b) \<Longrightarrow> k < n \<Longrightarrow> \<exists>p. path_down n b k = Some p \<and> p \<noteq> [] \<and> hd p = k \<and> last p = 0"
proof (induction n arbitrary: k)
  case (Suc n)
  show ?case
  proof (cases "k = 0")
    case True
    then show ?thesis using Suc.prems by (simp add: build_ok_def)
  next
    case False
    then obtain q where q: "q < k" "below (nodes b ! k) = Some q" using Suc.prems by (auto simp: build_ok_def)
    obtain p where "path_down n b q = Some p" "p \<noteq> []" "last p = 0" using Suc.IH [of q] Suc.prems q(1) by auto
    then show ?thesis using q(2) by simp
  qed
qed simp

text \<open>
  The order of the caches: the uppermost cache that data (kind 2) or instructions (kind 1) reach in some levels is the cache of their
  kind in the first level that has one, or the unified cache of that level, and the memory if there is none. Below a cache lies
  the unified cache of its level, if there is one, and else the uppermost cache of the levels below.
\<close>

fun top_cache :: "(nat \<Rightarrow> nat \<Rightarrow> nat option) \<Rightarrow> nat \<Rightarrow> nat list \<Rightarrow> nat" where
  "top_cache lv kind [] = 0"
| "top_cache lv kind (l # ls) = (case lv kind l of Some k \<Rightarrow> k
     | None \<Rightarrow> (case lv 0 l of Some k \<Rightarrow> k | None \<Rightarrow> top_cache lv kind ls))"

definition lower_cache :: "(nat \<Rightarrow> nat \<Rightarrow> nat option) \<Rightarrow> nat \<Rightarrow> nat \<Rightarrow> nat list \<Rightarrow> nat" where
  "lower_cache lv idu l ls = (if idu = 0 then top_cache lv 1 ls
     else (case lv 0 l of Some k \<Rightarrow> k | None \<Rightarrow> top_cache lv idu ls))"

fun stacked :: "(nat \<Rightarrow> nat \<Rightarrow> d4level) \<Rightarrow> cache_build \<Rightarrow> nat list \<Rightarrow> bool" where
  "stacked L b [] \<longleftrightarrow> True"
| "stacked L b (l # ls) \<longleftrightarrow> (\<forall>i < 3. case levnode b i l of None \<Rightarrow> l_size (L i l) = 0
     | Some k \<Rightarrow> l_size (L i l) \<noteq> 0 \<and> k < length (nodes b) \<and>
         nodes b ! k = d4_cache_init (L i l) i (Some (lower_cache (levnode b) i l ls))) \<and> stacked L b ls"

lemma top_cache_cong: "(\<And>i l. l \<in> set ls \<Longrightarrow> lv i l = lw i l) \<Longrightarrow> top_cache lv kind ls = top_cache lw kind ls"
  by (induction ls) (simp_all cong: option.case_cong)

lemma stacked_frame:
  assumes "\<And>i l. l \<in> set ls \<Longrightarrow> levnode b' i l = levnode b i l" and "length (nodes b) \<le> length (nodes b')"
    and "\<And>k. k < length (nodes b) \<Longrightarrow> nodes b' ! k = nodes b ! k" and "stacked L b ls"
  shows "stacked L b' ls"
  using assms
proof (induction ls)
  case (Cons l ls)
  have top: "top_cache (levnode b') kind ls = top_cache (levnode b) kind ls" for kind
    using Cons.prems(1) by (intro top_cache_cong) simp
  have "lower_cache (levnode b') i l ls = lower_cache (levnode b) i l ls" for i
    using Cons.prems(1) by (simp add: lower_cache_def top cong: option.case_cong)
  then show ?case using Cons by (auto split: option.splits)
qed simp

text \<open>What holds of the caches after some levels were made, the last of them first in the list.\<close>

definition placed :: "nat set \<Rightarrow> cache_build \<Rightarrow> bool" where
  "placed S b \<longleftrightarrow> (\<forall>i l k. levnode b i l = Some k \<longrightarrow> i < 3 \<and> l \<in> S \<and> k < length (nodes b)) \<and>
     (\<forall>i l j m k. levnode b i l = Some k \<and> levnode b j m = Some k \<longrightarrow> i = j \<and> l = m)"

definition built :: "(nat \<Rightarrow> nat \<Rightarrow> d4level) \<Rightarrow> nat list \<Rightarrow> cache_build \<Rightarrow> bool" where
  "built L ls b \<longleftrightarrow> build_ok b \<and> stacked L b ls \<and> b_ci b = top_cache (levnode b) 1 ls \<and> b_cd b = top_cache (levnode b) 2 ls \<and>
     placed (set ls) b"

lemma below_three: "(\<forall>i < 3. P i) \<longleftrightarrow> P 0 \<and> P 1 \<and> P (2 :: nat)"
  by (auto simp: numeral_3_eq_3 numeral_2_eq_2 less_Suc_eq)

lemma make_level_unfold: "make_level L l b = make_cache L l 2 (make_cache L l 1 (make_cache L l 0 b))"
  by (simp add: make_level_def numeral_3_eq_3 numeral_2_eq_2)

text \<open>A cache that is made is new; what was there before stays.\<close>

lemma make_cache_frame:
  "length (nodes b) \<le> length (nodes (make_cache L l i b))" "k < length (nodes b) \<Longrightarrow> nodes (make_cache L l i b) ! k = nodes b ! k"
  "levnode (make_cache L l i b) j m = (if j = i \<and> m = l \<and> l_size (L i l) \<noteq> 0 then Some (length (nodes b)) else levnode b j m)"
  by (simp_all add: make_cache_def Let_def nth_append)

lemma make_cache_placed:
  assumes "placed S b" and "i < 3" and "l \<in> S"
  shows "placed S (make_cache L l i b)"
proof (cases "l_size (L i l) = 0")
  case True
  then show ?thesis using assms(1) by (simp add: make_cache_def)
next
  case False
  then have lv: "levnode (make_cache L l i b) j m = (if j = i \<and> m = l then Some (length (nodes b)) else levnode b j m)" for j m
    by (simp add: make_cache_frame)
  have n: "length (nodes (make_cache L l i b)) = length (nodes b) + 1" using False by (simp add: make_cache_def Let_def)
  have old: "levnode b j m = Some k \<Longrightarrow> j < 3 \<and> m \<in> S \<and> k < length (nodes b)"
    "levnode b j m = Some k \<Longrightarrow> levnode b j' m' = Some k \<Longrightarrow> j = j' \<and> m = m'" for j m j' m' k
    using assms(1) unfolding placed_def by blast+
  show ?thesis unfolding placed_def lv n
  proof (intro conjI allI impI, goal_cases)
    case (3 j m k)
    then show ?case using old(1) [of j m k] by (auto split: if_splits)
  next
    case (4 j m j' m' k)
    then show ?case using old(1) [of _ _ k] old(2) [of j m k j' m'] by (auto split: if_splits)
  next
    case (5 j m j' m' k)
    then show ?case using old(1) [of _ _ k] old(2) [of j m k j' m'] by (auto split: if_splits)
  qed (use assms old(1) in \<open>auto split: if_splits\<close>)
qed

lemma make_level_placed: "placed S b \<Longrightarrow> placed (insert l S) (make_level L l b)"
proof -
  assume "placed S b"
  then have "placed (insert l S) b" by (auto simp: placed_def)
  then show ?thesis by (simp add: make_level_unfold make_cache_placed)
qed

lemma make_level_built:
  assumes b: "built L ls b" and l: "l \<notin> set ls"
  shows "built L (l # ls) (make_level L l b)"
proof -
  let ?b = "make_level L l b"
  have old: "levnode b i l = None" for i using b l by (cases "levnode b i l") (auto simp: built_def placed_def)
  have lv: "levnode ?b j m = levnode b j m" if "m \<noteq> l" for j m using that by (simp add: make_level_unfold make_cache_frame)
  have low: "levnode ?b j m = levnode b j m" if "m \<in> set ls" for j m using that l by (intro lv) auto
  have top: "top_cache (levnode ?b) kind ls = top_cache (levnode b) kind ls" for kind
    by (rule top_cache_cong [OF low])
  have n: "length (nodes b) \<le> length (nodes ?b)" "k < length (nodes b) \<Longrightarrow> nodes ?b ! k = nodes b ! k" for k
    by (simp_all add: make_level_unfold make_cache_def Let_def nth_append)
  have "stacked L ?b ls" using b by (intro stacked_frame [OF low n]) (simp_all add: built_def)
  moreover have "build_ok ?b" using b make_level_ok by (simp add: built_def)
  moreover have "b_ci ?b = top_cache (levnode ?b) 1 (l # ls) \<and> b_cd ?b = top_cache (levnode ?b) 2 (l # ls)"
    using b old unfolding top_cache.simps top by (simp add: built_def make_level_unfold make_cache_def Let_def)
  moreover have "\<forall>i < 3. case levnode ?b i l of None \<Rightarrow> l_size (L i l) = 0
     | Some k \<Rightarrow> l_size (L i l) \<noteq> 0 \<and> k < length (nodes ?b) \<and>
         nodes ?b ! k = d4_cache_init (L i l) i (Some (lower_cache (levnode ?b) i l ls))"
    using b old unfolding lower_cache_def top below_three
    by (simp add: built_def make_level_unfold make_cache_def Let_def nth_append)
  moreover have "placed (set (l # ls)) ?b" using b make_level_placed by (simp add: built_def)
  ultimately show ?thesis by (simp add: built_def)
qed

lemma levels_built: "distinct ls \<Longrightarrow> built L ls (fold (make_level L) (rev ls) \<lparr>nodes = [memory_node], b_cd = 0, b_ci = 0, levnode = \<lambda>_ _. None\<rparr>)"
proof (induction ls)
  case Nil
  show ?case using build_start by (simp add: built_def placed_def)
next
  case (Cons l ls)
  then show ?case using make_level_built by simp
qed

text \<open>
  Property C28. The caches that are built are those of the configuration, in their order: for every configuration with at most five
  levels, there is a cache for exactly the kinds and levels with a size other than 0, each its own, with the configured parameters, and on
  the next cache below it (the unified cache of its level, or the uppermost one of its kind in the levels below, or the memory). The
  instruction and the data cache are the uppermost ones of their kind, and walking down from both reaches the memory.
\<close>

theorem cache_hierarchy:
  assumes "d4_maxlevel (cf_vp c) \<le> 5"
  shows "\<exists>b pi pd. let levels = [0..<nat (d4_maxlevel (cf_vp c))] in
    VPMU_cache_init c = Inr b \<and> stacked (d4_level c) b levels \<and>
    (\<forall>i l j m k. levnode b i l = Some k \<and> levnode b j m = Some k \<longrightarrow> i = j \<and> l = m) \<and>
    b_ci b = top_cache (levnode b) 1 levels \<and> b_cd b = top_cache (levnode b) 2 levels \<and>
    path_down (length (nodes b)) b (b_ci b) = Some pi \<and> hd pi = b_ci b \<and> last pi = 0 \<and>
    path_down (length (nodes b)) b (b_cd b) = Some pd \<and> hd pd = b_cd b \<and> last pd = 0"
proof -
  let ?ls = "[0..<nat (d4_maxlevel (cf_vp c))]"
  obtain b where b: "VPMU_cache_init c = Inr b" "built (d4_level c) ?ls b"
    using assms levels_built [of ?ls "d4_level c"] by (simp add: VPMU_cache_init_def Let_def)
  then have ok: "build_ok b" "b_ci b < length (nodes b)" "b_cd b < length (nodes b)" by (simp_all add: built_def build_ok_def)
  then obtain pi pd where "path_down (length (nodes b)) b (b_ci b) = Some pi" "hd pi = b_ci b" "last pi = 0"
    "path_down (length (nodes b)) b (b_cd b) = Some pd" "hd pd = b_cd b" "last pd = 0"
    using path_down_ends [OF ok(1)] by meson
  then show ?thesis using b unfolding built_def placed_def Let_def by blast
qed

text \<open>
  Split first level caches over a shared second level or the memory: for the configurations in \<^verbatim>\<open>vpmu_config/\<close>, the instruction cache
  and the data cache are the level 0 entries of \<open>d4_levcache\<close>, with the sizes of the configuration file. With two levels
  both rest on the shared cache, which rests on the memory; with one level they rest on the memory.
\<close>

lemma split_caches:
  assumes "d4_maxlevel (cf_vp c) \<in> {1, 2}" and "l_size (d4_level c 1 0) \<noteq> 0" and "l_size (d4_level c 2 0) \<noteq> 0"
    and "d4_maxlevel (cf_vp c) = 2 \<Longrightarrow> l_size (d4_level c 0 1) \<noteq> 0" and "\<forall>(i, l) \<in> {(0, 0), (1, 1), (2, 1)}. l_size (d4_level c i l) = 0"
  shows "\<exists>b u. VPMU_cache_init c = Inr b \<and> levnode b 1 0 = Some (b_ci b) \<and> levnode b 2 0 = Some (b_cd b) \<and> b_ci b \<noteq> b_cd b \<and>
    below (nodes b ! b_ci b) = Some u \<and> below (nodes b ! b_cd b) = Some u \<and>
    (if d4_maxlevel (cf_vp c) = 1 then u = 0
     else levnode b 0 1 = Some u \<and> below (nodes b ! u) = Some 0 \<and> lg2size (nodes b ! u) = clog2 (l_size (d4_level c 0 1))) \<and>
    lg2size (nodes b ! b_ci b) = clog2 (l_size (d4_level c 1 0)) \<and> lg2size (nodes b ! b_cd b) = clog2 (l_size (d4_level c 2 0))"
  using assms
  by (auto simp: VPMU_cache_init_def make_level_def make_cache_def Let_def numeral_2_eq_2 numeral_3_eq_3 d4_cache_init_def)

text \<open>The two levels of the Cortex-A9: split first level caches on a unified second level.\<close>

definition config_a9 :: vconfig where
  "config_a9 = config1\<lparr>cf_vp := vpmu1\<lparr>d4_maxlevel := 2\<rparr>, d4_level := put_level 0 1 (level_of [''524288'', ''32'', ''32'', ''8'', ''r'', ''n'', ''a'', ''d'', ''0'', ''1''] (d4_level config1 0 1))
     (put_level 1 0 (level_of section1 (d4_level config1 1 0)) (put_level 2 0 (level_of section1 (d4_level config1 2 0)) (d4_level config1)))\<rparr>"

theorem cache_hierarchy_witness:
  "\<exists>b k. VPMU_cache_init config_a9 = Inr b \<and> levnode b 1 0 = Some k \<and> nodes b ! k = d4_cache_init (d4_level config_a9 1 0) 1 (levnode b 0 1)"
proof -
  have z: "l_size (d4_level config_a9 1 0) = 16384" "l_size (d4_level config_a9 0 1) = 524288" "l_size (d4_level config_a9 0 0) = 0"
    "l_size (d4_level config_a9 1 1) = 0"
    by (simp_all add: config_a9_def config1_def level_of_def section1_def to_u32_def strtol_def signed_def isspace_def isdigit_def digits_value_def clamp_long_def)
  have n: "d4_maxlevel (cf_vp config_a9) = 2" by (simp add: config_a9_def)
  then have "\<exists>b. VPMU_cache_init config_a9 = Inr b \<and> stacked (d4_level config_a9) b [0..<2]"
    using cache_hierarchy [of config_a9] by (auto simp: Let_def)
  then obtain b where b: "VPMU_cache_init config_a9 = Inr b" "stacked (d4_level config_a9) b [0, 1]" by (auto simp: numeral_2_eq_2)
  then show ?thesis using z by (auto simp: below_three lower_cache_def split: option.splits)
qed

text \<open>
  The logarithm that sizes the caches: for a size other than 0 it is the exact base 2 logarithm
  rounded down, so that a size that is a power of two is reproduced exactly; for 0 it is -1.
\<close>

lemma clog2_is_log2:
  "clog2 0 = -1 \<and> (x \<noteq> 0 \<longrightarrow> 0 \<le> clog2 x \<and> 2 ^ nat (clog2 x) \<le> unat x \<and> unat x < 2 ^ (nat (clog2 x) + 1)) \<and>
    (n < 32 \<longrightarrow> clog2 (2 ^ n) = int n)"
proof -
  have pos: "0 \<le> clog2 x \<and> 2 ^ nat (clog2 x) \<le> unat x \<and> unat x < 2 ^ (nat (clog2 x) + 1)" if "x \<noteq> 0" for x
    unfolding clog2_def using that by (intro clog2_nat_bounds) (simp add: unat_gt_0)
  have "clog2 (2 ^ n) = int n" if n: "n < 32"
  proof -
    have "(2::nat) ^ n < 2 ^ 32" using n by (intro power_strict_increasing) simp_all
    then have u: "unat (2 ^ n :: u32) = 2 ^ n" using unat_of_nat [of "2 ^ n", where ?'a = 32] by simp
    then have "(2 ^ n :: u32) \<noteq> 0" by (metis power_not_zero unat_0 zero_neq_numeral)
    from pos [OF this] u have b: "0 \<le> clog2 (2 ^ n)" "(2::nat) ^ nat (clog2 (2 ^ n)) \<le> 2 ^ n" "(2::nat) ^ n < 2 ^ (nat (clog2 (2 ^ n)) + 1)"
      by simp_all
    then have "nat (clog2 (2 ^ n)) \<le> n" "n < nat (clog2 (2 ^ n)) + 1" by (metis power_le_imp_le_exp one_less_numeral_iff semiring_norm(76), metis power_strict_increasing_iff one_less_numeral_iff semiring_norm(76))
    then show ?thesis using b(1) by simp
  qed
  then show ?thesis using pos by (simp add: clog2_def clog2_nat.simps [of 0])
qed

end
