(* ===== verification/VPMU_Monitor.thy ===== *)
theory VPMU_Monitor
  imports VPMU_Config VPMU_Report
begin

unbundle bit_operations_syntax

text \<open>
  The device registers of the unit and its start (\<^verbatim>\<open>hw/vpmu-device.c\<close>, \<^verbatim>\<open>target-arm/op_vpmu.c\<close>): the guest
  switches measurements on and off, selects a timing model and passes the processor load, from which the
  battery of the emulated phone is drained; at start the simulators are attached and the caches are built.

  \<^item> The build is without \<open>CONFIG_PACDSP\<close>. Files other than the configuration are not modelled, and of the printed
    reports only the summary is returned. The simulators work at once, as in the build without worker threads;
    the theories \<open>VPMU_Branch\<close> and \<open>VPMU_Trace\<close> model their rings.
  \<^item> \<open>count\<close>, \<open>timer\<close>, \<open>last_packets\<close>, \<open>last_audio\<close> and \<open>find_entry\<close> are the static variables of \<open>special_write\<close>; the sample
    counter is taken to stay in the range of int.
  \<^item> The battery pointers refer to the state of the emulated battery: \<open>goldfish_battery_set_prop\<close> writes
    through \<open>bat_capacity\<close>; its interrupt is left out.
\<close>

section \<open>State\<close>

record monitor =
  m_pmu :: pmu
  m_cfg :: vconfig
  ISR_addr :: "nat \<Rightarrow> u32"
  find_entry :: nat
  s_count :: nat
  s_timer :: nat
  last_packets :: u32
  last_audio :: int
  slowdown_ratio :: real
  slowdown_count :: nat
  mpu_freq :: u64
  iomem_test :: int

definition NUM_FIND_SYMBOLS :: nat where "NUM_FIND_SYMBOLS = 1"

definition VPMU_MMAP_ENABLE :: int where "VPMU_MMAP_ENABLE = 0x0000"
definition VPMU_MMAP_BYPASS_ISR_ADDR :: int where "VPMU_MMAP_BYPASS_ISR_ADDR = 0x0008"
definition VPMU_MMAP_POWER_ENABLE :: int where "VPMU_MMAP_POWER_ENABLE = 0x0100"
definition VPMU_MMAP_BYPASS_CPU_UTIL :: int where "VPMU_MMAP_BYPASS_CPU_UTIL = 0x0104"
definition VPMU_MMAP_SELECT_NET_MODE :: int where "VPMU_MMAP_SELECT_NET_MODE = 0x0108"
definition VPMU_MMAP_BATTERY_ENABLE :: int where "VPMU_MMAP_BATTERY_ENABLE = 0x010c"

lemmas mmap_defs = VPMU_MMAP_ENABLE_def VPMU_MMAP_BYPASS_ISR_ADDR_def VPMU_MMAP_POWER_ENABLE_def
  VPMU_MMAP_BYPASS_CPU_UTIL_def VPMU_MMAP_SELECT_NET_MODE_def VPMU_MMAP_BATTERY_ENABLE_def

abbreviation m_adev :: "monitor \<Rightarrow> android_dev_stat" where "m_adev m \<equiv> adev_stat (m_pmu m)"

definition set_adev :: "(android_dev_stat \<Rightarrow> android_dev_stat) \<Rightarrow> monitor \<Rightarrow> monitor" where
  "set_adev f m = m\<lparr>m_pmu := (m_pmu m)\<lparr>adev_stat := f (m_adev m)\<rparr>\<rparr>"

section \<open>Settings\<close>

definition VPMU_select_cpu_model :: "int \<Rightarrow> monitor \<Rightarrow> monitor" where
  "VPMU_select_cpu_model model m = m\<lparr>m_pmu := set_vp ((pm_vp (m_pmu m))\<lparr>cpu_model := model\<rparr>) (m_pmu m)\<rparr>"

text \<open>Only the first call has an effect.\<close>

definition VPMU_update_slowdown_ratio :: "int \<Rightarrow> monitor \<Rightarrow> monitor" where
  "VPMU_update_slowdown_ratio value m =
     (if slowdown_count m = 0 then m\<lparr>slowdown_ratio := real_of_int value, slowdown_count := 1\<rparr> else m)"

text \<open>The configuration is read into the unit; the tables of the caches and times are kept beside it.\<close>

definition read_config :: "(int \<Rightarrow> string option) \<Rightarrow> monitor \<Rightarrow> monitor res" where
  "read_config fs m = bind_res (VPMU_set_config_from_file fs ((m_cfg m)\<lparr>cf_vp := pm_vp (m_pmu m)\<rparr>)) (\<lambda>c.
     Inr (m\<lparr>m_cfg := c, m_pmu := set_vp (cf_vp c) (m_pmu m)\<rparr>))"

definition reset_unit :: "(int \<Rightarrow> string option) \<Rightarrow> monitor \<Rightarrow> monitor res" where
  "reset_unit fs m = (let p = m_pmu m; (st, d) = VPMU_reset (pm_st p, pm_dev p) in
     read_config fs (m\<lparr>m_pmu := p\<lparr>pm_st := st, pm_dev := d\<rparr>, iomem_test := 0\<rparr>))"

section \<open>The enable register\<close>

definition set_model :: "u32 \<Rightarrow> monitor \<Rightarrow> monitor" where
  "set_model model m = m\<lparr>m_pmu := set_vp (vpmu_model_setup model (pm_vp (m_pmu m))) (m_pmu m)\<rparr>"

definition select_model :: "u32 \<Rightarrow> monitor \<Rightarrow> monitor" where
  "select_model value m =
     (if value = 2 then set_model TIMING_MODEL_A m
      else if value = 3 then set_model TIMING_MODEL_B m
      else if value = 4 then set_model TIMING_MODEL_C m
      else if value = 5 then set_model TIMING_MODEL_D m
      else if value = 6 then set_model TIMING_MODEL_E m
      else if value = 7 then m
      else set_model TIMING_MODEL_C m)"

definition set_pmu :: "pmu \<Rightarrow> monitor \<Rightarrow> monitor" where
  "set_pmu p m = m\<lparr>m_pmu := p\<rparr>"

text \<open>The final report: the summary, then the time and the power, which bring the energy account up to date.\<close>

definition stop_report :: "char \<Rightarrow> monitor \<Rightarrow> (string list \<times> monitor) res" where
  "stop_report comma m = (let m = set_pmu ((m_pmu m)\<lparr>VPMU_enabled := False\<rparr>) m in
     bind_res (VPMU_DUMP_READABLE_MSG comma (m_pmu m)) (\<lambda>(out, p).
     bind_res (vpmu_estimated_execution_time (mpu_power p) (pm_vp p) (pm_caches p)) (\<lambda>(_, v).
     bind_res (vpmu_vpd_mpu_power (set_vp v p)) (\<lambda>(_, p). Inr (out, set_pmu p m)))))"

definition power_report :: "monitor \<Rightarrow> monitor res" where
  "power_report m = bind_res (vpmu_vpd_total_power (m_pmu m)) (\<lambda>(_, p).
     bind_res (vpmu_vpd_mpu_power p) (\<lambda>(_, p). Inr (set_pmu p m)))"

definition write_enable :: "(int \<Rightarrow> string option) \<Rightarrow> char \<Rightarrow> u32 \<Rightarrow> monitor \<Rightarrow> (string list \<times> monitor) res" where
  "write_enable fs comma value m =
     (if value = 0 \<or> (value \<le> 10 \<and> value \<ge> 2) then
        bind_res (reset_unit fs m) (\<lambda>m. Inr ([], select_model value (set_pmu ((m_pmu m)\<lparr>VPMU_enabled := True\<rparr>) m)))
      else if value = 1 then stop_report comma m
      else if value = 11 then
        bind_res (VPMU_DUMP_READABLE_MSG comma (m_pmu m)) (\<lambda>(out, p). Inr (out, set_pmu p m))
      else if value = 16 then bind_res (power_report m) (\<lambda>m. Inr ([], m))
      else Inr ([], m))"

section \<open>Processor load, network and battery\<close>

definition full_energy :: real where
  "full_energy = 1150 * 3.7 * 3600"

text \<open>The radio: by the packets since the last sample for Wifi, and with a delay of six samples for 3G.\<close>

definition net_sample :: "u32 \<Rightarrow> monitor \<Rightarrow> monitor" where
  "net_sample packets m =
     (if net_mode (m_adev m) = 1 then
        set_adev (net_on_update (\<lambda>_. if packets - last_packets m > 8 then 1 else 0)) m
      else if net_mode (m_adev m) = 2 then
        if packets > last_packets m then set_adev (net_on_update (\<lambda>_. 1)) (m\<lparr>s_timer := 0\<rparr>)
        else let m = m\<lparr>s_timer := s_timer m + 1\<rparr> in
          if s_timer m \<ge> 6 then set_adev (net_on_update (\<lambda>_. 0)) m else m
      else m)"

definition load_sample :: "u32 \<Rightarrow> int \<Rightarrow> u32 \<Rightarrow> monitor \<Rightarrow> monitor" where
  "load_sample load audio packets m =
     (net_sample packets (set_adev (\<lambda>d. d\<lparr>cpu_util := load, audio_on := word_of_int (last_audio m + audio)\<rparr>) m))\<lparr>last_packets := packets\<rparr>"

text \<open>The power is computed twice, once for the comparison and once for the subtraction.\<close>

definition drain_battery :: "monitor \<Rightarrow> monitor res" where
  "drain_battery m = bind_res (vpmu_vpd_total_power (m_pmu m)) (\<lambda>(t, p). let m = set_pmu p m in
     bind_res (if energy_left (m_adev m) > t then
         bind_res (vpmu_vpd_total_power (m_pmu m)) (\<lambda>(t, p). let m = set_pmu p m in
           Inr (set_adev (energy_left_update (\<lambda>e. e - t)) m))
       else Inr (set_adev (energy_left_update (\<lambda>_. 0)) m)) (\<lambda>m.
     bind_res (deref (bat_capacity (m_adev m))) (\<lambda>_.
       Inr (set_adev (bat_capacity_update (\<lambda>_. Some \<lfloor>real_of_int (uint (energy_left (m_adev m))) * 100 / full_energy\<rfloor>)) m))))"

definition write_cpu_util :: "u32 \<Rightarrow> monitor \<Rightarrow> monitor res" where
  "write_cpu_util value m =
     bind_res
       (if s_count m = 0 then
          bind_res (deref (bat_capacity (m_adev m))) (\<lambda>cap.
          bind_res (u32_of_real (full_energy * (real_of_int cap / 100))) (\<lambda>e.
          bind_res (deref (net_packets (m_adev m))) (\<lambda>n.
            Inr ((set_adev (energy_left_update (\<lambda>_. e)) m)\<lparr>last_packets := n\<rparr>))))
        else if s_count m mod 2 = 0 then
          bind_res (deref (audio_buf (m_adev m))) (\<lambda>a.
          bind_res (deref (net_packets (m_adev m))) (\<lambda>n.
            let m = load_sample value a n m in
            bind_res (deref (bat_ac_online (m_adev m))) (\<lambda>ac.
              if ac = 0 \<and> battery_sim (m_adev m) = 1 then drain_battery m else Inr m)))
        else bind_res (deref (audio_buf (m_adev m))) (\<lambda>a. Inr (m\<lparr>last_audio := a\<rparr>)))
       (\<lambda>m. Inr (m\<lparr>s_count := s_count m + 1\<rparr>))"

section \<open>The register handlers\<close>

text \<open>No readable register exists in this build.\<close>

definition vpmu_special_read :: "int \<Rightarrow> monitor \<Rightarrow> u32" where
  "vpmu_special_read addr m = 0"

definition vpmu_special_write :: "(int \<Rightarrow> string option) \<Rightarrow> char \<Rightarrow> int \<Rightarrow> u32 \<Rightarrow> monitor \<Rightarrow> (string list \<times> monitor) res" where
  "vpmu_special_write fs comma addr value m =
     (if addr = VPMU_MMAP_ENABLE then write_enable fs comma value m
      else if addr = VPMU_MMAP_BYPASS_ISR_ADDR then
        Inr ([], if find_entry m < NUM_FIND_SYMBOLS
          then m\<lparr>ISR_addr := (ISR_addr m)(find_entry m := value), find_entry := find_entry m + 1\<rparr> else m)
      else if addr \<in> {0x11, 0x12, 0x13, 0x14} then Inr ([], m)
      else if addr = 0x15 then
        bind_res (vpmu_estimated_execution_time (mpu_power (m_pmu m)) (pm_vp (m_pmu m)) (pm_caches (m_pmu m))) (\<lambda>(_, v).
          Inr ([], set_pmu (set_vp v (m_pmu m)) m))
      else if addr = VPMU_MMAP_POWER_ENABLE then Inr ([], m)
      else if addr = VPMU_MMAP_BYPASS_CPU_UTIL then bind_res (write_cpu_util value m) (\<lambda>m. Inr ([], m))
      else if addr = VPMU_MMAP_SELECT_NET_MODE then
        Inr ([], if value \<ge> 0 \<or> value \<le> 2 then set_adev (net_mode_update (\<lambda>_. ucast value)) m else m)
      else if addr = VPMU_MMAP_BATTERY_ENABLE then
        Inr ([], if value = 0 \<or> value = 1 then set_adev (battery_sim_update (\<lambda>_. ucast value)) m else m)
      else Inr ([], m))"

section \<open>Attached simulators\<close>

text \<open>A callback is named; None is the null pointer. The table has ten rows of seven.\<close>

type_synonym sim_table = "nat \<Rightarrow> nat \<Rightarrow> string option"

record sims =
  sim :: sim_table
  next_id :: nat

definition VPMU_ASSIGN_FUNC :: "nat \<Rightarrow> string list \<Rightarrow> nat \<Rightarrow> string option \<Rightarrow> string option \<Rightarrow> sim_table \<Rightarrow> sim_table res" where
  "VPMU_ASSIGN_FUNC ID cb n init_f reset_f T =
     (if ID < 10 \<and> n \<le> length cb \<and> n \<le> 5 then
        Inr (T(ID := (\<lambda>i. if i < n then Some (cb ! i) else if i < 5 then Some ''null_func''
          else if i = 5 then init_f else if i = 6 then reset_f else T ID i)))
      else Inl Out_of_bounds)"

definition vpmu_attach_simulator :: "string \<Rightarrow> string list \<Rightarrow> nat \<Rightarrow> string option \<Rightarrow> string option \<Rightarrow> sims \<Rightarrow> (nat \<times> sims) res" where
  "vpmu_attach_simulator description cb n init_f reset_f s =
     (let assign = (\<lambda>ID. VPMU_ASSIGN_FUNC ID cb n init_f reset_f (sim s)) in
      if description = ''dcache'' then bind_res (assign 0) (\<lambda>T. Inr (0, s\<lparr>sim := T\<rparr>))
      else if description = ''icache'' then bind_res (assign 1) (\<lambda>T. Inr (1, s\<lparr>sim := T\<rparr>))
      else if description = ''Branch Predictor'' then bind_res (assign 2) (\<lambda>T. Inr (2, s\<lparr>sim := T\<rparr>))
      else bind_res (assign (next_id s)) (\<lambda>T. Inr (next_id s, s\<lparr>sim := T, next_id := next_id s + 1\<rparr>)))"

text \<open>The callbacks called, in order.\<close>

definition vpmu_initiate_attached_simulators :: "sims \<Rightarrow> string list" where
  "vpmu_initiate_attached_simulators s = List.map_filter (\<lambda>i. sim s i 5) [0..<10]"

definition vpmu_terminate_attached_simulators :: "sims \<Rightarrow> string list" where
  "vpmu_terminate_attached_simulators s = List.map_filter (\<lambda>i. sim s i 6) [0..<10]"

definition sims0 :: sims where
  "sims0 = \<lparr>sim = \<lambda>_ _. None, next_id = 3\<rparr>"

text \<open>The start of the device; \<open>dinero_init\<close> builds the caches when the attached simulators are initiated.\<close>

definition vpmu_init_core :: "(int \<Rightarrow> string option) \<Rightarrow> monitor \<Rightarrow> sims \<Rightarrow> (monitor \<times> sims \<times> cache_build option) res" where
  "vpmu_init_core fs m s =
     (let m = m\<lparr>mpu_freq := target_cpu_frequency (pm_vp (m_pmu m)),
           m_pmu := (m_pmu m)\<lparr>mpu_power := (0x10 - 0x0b) * 4.21806 + 156.97284\<rparr>\<rparr>;
          m = VPMU_update_slowdown_ratio 1 m in
      bind_res (vpmu_attach_simulator ''dcache'' [''cb_dcache_access_count'', ''vpmu_L1_dcache_miss_count'',
        ''vpmu_L1_dcache_read_miss_count'', ''vpmu_L1_dcache_write_miss_count''] 4 (Some ''dinero_init'') None s) (\<lambda>(_, s).
      bind_res (vpmu_attach_simulator ''icache'' [''cb_icache_access_count'', ''vpmu_L1_icache_miss_count''] 2 None None s) (\<lambda>(_, s).
      bind_res (vpmu_attach_simulator ''Branch Predictor'' [''branch_predict_correct'', ''branch_predict_wrong''] 2 None None s) (\<lambda>(_, s).
      bind_res (read_config fs m) (\<lambda>m.
        if ''dinero_init'' \<in> set (vpmu_initiate_attached_simulators s)
        then bind_res (VPMU_cache_init (m_cfg m)) (\<lambda>b. Inr (m, s, Some b))
        else Inr (m, s, None))))))"

section \<open>Data accesses\<close>

text \<open>
  The helper of the translated loads and stores. \<open>phys\<close> is \<open>cpu_get_phys_page_debug\<close>, \<open>regs\<close> the registers of the
  processor; a preload passes its registers and offset in \<open>addr\<close>.
\<close>

definition dinero_access :: "cache_sim \<Rightarrow> (u32 \<Rightarrow> u32) \<Rightarrow> (u32 \<Rightarrow> u32) \<Rightarrow> u32 \<Rightarrow> u32 \<Rightarrow> u32 \<Rightarrow> monitor \<Rightarrow> monitor" where
  "dinero_access d4ref phys regs addr rw sz m = (let p = m_pmu m in
     if VPMU_enabled p \<and> sim_on VPMU_DCACHE_SIM (pm_vp p) then
       let (addr, rw) = (if rw = 0xff then (regs (drop_bit 16 addr AND 0xf) + (addr AND 0xfff), 0) else (addr, rw));
           addr = (if cpu_model (pm_vp p) = 1 then phys addr else addr) in
       if iomem_test m = 1 then
         m\<lparr>iomem_test := 0, m_pmu := set_vp ((pm_vp p)\<lparr>iomem_qemu := iomem_qemu (pm_vp p) + 1\<rparr>) p\<rparr>
       else m\<lparr>m_pmu := p\<lparr>pm_st := (pm_st p)\<lparr>levcache :=
         cache_ref d4ref \<lparr>address = addr, accesstype = sint rw, rsize = sint sz\<rparr> (levcache (pm_st p))\<rparr>\<rparr>\<rparr>
     else m)"

section \<open>A measurement starts from zero\<close>

definition model_register :: "u32 \<Rightarrow> u32" where
  "model_register value = (if value = 2 then 0x10000001 else if value = 3 then 0x20000010 else if value = 5 then 0x40000016
     else if value = 6 then 0x5000001f else if value = 7 then 0 else 0x30000012)"

text \<open>What a reset leaves and reading the configuration keeps.\<close>

definition cleared :: "VPMU \<Rightarrow> bool" where
  "cleared v \<longleftrightarrow> USR_icount v = 0 \<and> IRQ_icount v = 0 \<and> SVC_icount v = 0 \<and> sys_call_icount v = 0 \<and> sys_rest_icount v = 0 \<and>
     USR_ldst_count v = 0 \<and> SVC_ldst_count v = 0 \<and> IRQ_ldst_count v = 0 \<and> sys_call_ldst_count v = 0 \<and> sys_rest_ldst_count v = 0 \<and>
     USR_load_count v = 0 \<and> SVC_load_count v = 0 \<and> IRQ_load_count v = 0 \<and> sys_call_load_count v = 0 \<and> sys_rest_load_count v = 0 \<and>
     USR_store_count v = 0 \<and> SVC_store_count v = 0 \<and> IRQ_store_count v = 0 \<and> sys_call_store_count v = 0 \<and> sys_rest_store_count v = 0 \<and>
     branch_count v = 0 \<and> all_changes_to_PC_count v = 0 \<and> additional_icache_access v = 0 \<and> iomem_count v = 0 \<and> iomem_qemu v = 0 \<and>
     ticks v = 0 \<and> last_ticks v = 0 \<and> reduce_ticks v = 0 \<and> eet_ns v = 0 \<and> epc_mpu v = 0 \<and> swi_fired v = 0 \<and>
     (\<forall>i < ARM_INSTRUCTIONS + 2. ARM_count v i = 0)"

definition same_counts :: "VPMU \<Rightarrow> VPMU \<Rightarrow> bool" where
  "same_counts v w \<longleftrightarrow> w = v\<lparr>target_cpu_frequency := target_cpu_frequency w, l1_cache_miss_lat := l1_cache_miss_lat w,
     l2_cache_miss_lat := l2_cache_miss_lat w, d4_maxlevel := d4_maxlevel w\<rparr>"

lemma same_counts_refl: "same_counts v v"
  by (simp add: same_counts_def)

lemma same_counts_trans:
  assumes "same_counts u v" and "same_counts v w"
  shows "same_counts u w"
proof -
  obtain a b c d where v: "v = u\<lparr>target_cpu_frequency := a, l1_cache_miss_lat := b, l2_cache_miss_lat := c, d4_maxlevel := d\<rparr>"
    using assms(1) unfolding same_counts_def by blast
  show ?thesis using assms(2) unfolding same_counts_def v by simp
qed

lemma same_counts_cleared:
  assumes "same_counts v w" and "cleared v"
  shows "cleared w"
proof -
  obtain a b c d where w: "w = v\<lparr>target_cpu_frequency := a, l1_cache_miss_lat := b, l2_cache_miss_lat := c, d4_maxlevel := d\<rparr>"
    using assms(1) unfolding same_counts_def by blast
  show ?thesis using assms(2) unfolding w by (simp add: cleared_def)
qed

lemma same_counts_register:
  assumes "same_counts v w"
  shows "timing_register w = timing_register v" "branch_predict_correct w = branch_predict_correct v" "branch_predict_wrong w = branch_predict_wrong v"
proof -
  obtain a b c d where w: "w = v\<lparr>target_cpu_frequency := a, l1_cache_miss_lat := b, l2_cache_miss_lat := c, d4_maxlevel := d\<rparr>"
    using assms unfolding same_counts_def by blast
  show "timing_register w = timing_register v" "branch_predict_correct w = branch_predict_correct v" "branch_predict_wrong w = branch_predict_wrong v"
    unfolding w by simp_all
qed

lemma same_counts_updates:
  "same_counts v (v\<lparr>target_cpu_frequency := f\<rparr>)" "same_counts v (v\<lparr>l1_cache_miss_lat := x\<rparr>)"
  "same_counts v (v\<lparr>l2_cache_miss_lat := x\<rparr>)" "same_counts v (v\<lparr>d4_maxlevel := n\<rparr>)"
  by (simp_all add: same_counts_def)

definition keeps_counts :: "vconfig \<Rightarrow> vconfig res \<Rightarrow> bool" where
  "keeps_counts c r \<longleftrightarrow> (\<forall>c'. r = Inr c' \<longrightarrow> same_counts (cf_vp c) (cf_vp c'))"

lemma keeps_if: "keeps_counts c r \<Longrightarrow> keeps_counts c s \<Longrightarrow> keeps_counts c (if b then r else s)"
  by simp

lemma keeps_Inr: "same_counts (cf_vp c) (cf_vp d) \<Longrightarrow> keeps_counts c (Inr d)"
  by (simp add: keeps_counts_def)

lemma keeps_Inl: "keeps_counts c (Inl e)"
  by (simp add: keeps_counts_def)

lemma keeps_level: "keeps_counts c (set_level f c)"
  by (simp add: keeps_counts_def set_level_def same_counts_refl)

lemma keeps_bind: "(\<And>x. r = Inr x \<Longrightarrow> keeps_counts c (f x)) \<Longrightarrow> keeps_counts c (bind_res r f)"
  by (cases r) (simp_all add: keeps_Inl)

lemma keeps_bind_level:
  "keeps_counts c (bind_res (set_level f c) (\<lambda>c. let c = c\<lparr>g_lev := g_lev c + 1\<rparr> in Inr (if g_lev c = 1 then c\<lparr>g_idu := 0\<rparr> else c)))"
  using keeps_level [of c f] by (cases "set_level f c") (auto simp: keeps_counts_def Let_def)

lemma set_config_keeps: "keeps_counts c (VPMU_set_config k x c)"
  unfolding VPMU_set_config_def Let_def [of "cf_vp c"]
  by (intro keeps_if keeps_level keeps_Inl keeps_bind_level; (rule keeps_bind)?; rule keeps_Inr; simp add: same_counts_updates same_counts_refl)

lemma set_config_same: "VPMU_set_config k x c = Inr c' \<Longrightarrow> same_counts (cf_vp c) (cf_vp c')"
  using set_config_keeps [of c k x] by (simp add: keeps_counts_def)

lemma set_items_same: "set_items i xs c = Inr c' \<Longrightarrow> same_counts (cf_vp c) (cf_vp c')"
proof (induction xs arbitrary: i c)
  case Nil
  then show ?case by (simp add: same_counts_refl)
next
  case (Cons x xs)
  then obtain d where "VPMU_set_config i x c = Inr d" "set_items (Suc i) xs d = Inr c'" by (auto simp: set_items_Cons)
  then show ?case using set_config_same Cons.IH same_counts_trans by blast
qed

lemma read_config_same:
  assumes "read_config fs m = Inr m'"
  shows "\<exists>c v. m' = m\<lparr>m_cfg := c, m_pmu := set_vp v (m_pmu m)\<rparr> \<and> same_counts (pm_vp (m_pmu m)) v"
  using assms set_items_same
  by (fastforce simp: read_config_def VPMU_set_config_from_file_def split: if_splits option.splits)

definition no_references :: "caches \<Rightarrow> bool" where
  "no_references C \<longleftrightarrow> (\<forall>i < 3. \<forall>l < 5. \<forall>k \<in> {D4XREAD, D4XWRITE, D4XINSTRN}. fetch (C i l) k = 0 \<and> miss (C i l) k = 0)"

lemma reset_cleared: "cleared (vp (fst (VPMU_reset (st, d)))) \<and> timing_register (vp (fst (VPMU_reset (st, d)))) = 0"
  by (simp add: VPMU_reset_def cleared_def Let_def)

lemma reset_references: "no_references (levcache (fst (VPMU_reset (st, d))))"
  by (simp add: no_references_def VPMU_reset_def ResetCache_def Let_def d4x)

lemma reset_predictor:
  "branch_predict_correct (vp (fst (VPMU_reset (st, d)))) = branch_predict_correct (vp st)"
  "branch_predict_wrong (vp (fst (VPMU_reset (st, d)))) = branch_predict_wrong (vp st)"
  by (simp_all add: VPMU_reset_def Let_def)

definition no_traffic :: "dev \<Rightarrow> bool" where
  "no_traffic s \<longleftrightarrow> netsend_count s = 0 \<and> netrecv_count s = 0 \<and> netsend_qemu s = 0 \<and> netrecv_qemu s = 0"

lemma reset_net: "no_traffic (snd (VPMU_reset (st, d)))"
  by (simp add: VPMU_reset_def Let_def no_traffic_def)

lemma cleared_counts:
  assumes "cleared v"
  shows "vpmu_pipeline_cycle_count v = 0" and "vpmu_io_memory_access_cycle_count v = 0"
  using assms by (simp_all add: cleared_def counter_defs)

lemma cleared_cycles:
  assumes "cleared v" and "no_references C"
  shows "vpmu_cycle_count v C = 0" and "(cpu_model v = 1 \<longrightarrow> 1 < d4_maxlevel v) \<Longrightarrow> vpmu_sys_memory_access_cycle_count v C = Inr 0"
proof -
  have c: "ticks v = 0" "iomem_qemu v = 0" using assms(1) by (simp_all add: cleared_def)
  have m: "vpmu_L1_dcache_miss_count C = 0" "vpmu_L1_icache_miss_count C = 0" "vpmu_L2_dcache_miss_count C = 0"
    using assms(2) by (simp_all add: no_references_def vpmu_L1_dcache_miss_count_def vpmu_L1_icache_miss_count_def vpmu_L2_dcache_miss_count_def)
  show "vpmu_cycle_count v C = 0" unfolding vpmu_cycle_count_def Let_def c m by simp
  show "vpmu_sys_memory_access_cycle_count v C = Inr 0" if "cpu_model v = 1 \<longrightarrow> 1 < d4_maxlevel v"
    using that unfolding vpmu_sys_memory_access_cycle_count_def m by simp
qed

lemma cleared_time:
  assumes "cleared v" and "no_references C" and "no_traffic s" and "target_cpu_frequency v \<noteq> 0" and "cpu_model v = 1 \<longrightarrow> 1 < d4_maxlevel v"
  shows "vpmu_estimated_execution_time_ns v C s = Inr 0"
  unfolding vpmu_estimated_execution_time_ns_def vpmu_estimated_pipeline_execution_time_ns_def
    vpmu_estimated_sys_memory_access_time_ns_def vpmu_estimated_io_memory_access_time_ns_def
    cleared_counts [OF assms(1)] cleared_cycles(2) [OF assms(1,2,5)] ns_of_def
  using assms(3,4) by (simp add: no_traffic_def vpmu_estimated_network_execution_time_ns_def vpmu_estimated_netsend_execution_time_ns_def
      vpmu_estimated_netrecv_execution_time_ns_def)

lemma select_model_cases: "select_model value m = m \<or> (\<exists>x. select_model value m = set_model x m)"
  by (auto simp: select_model_def)

lemma model_setup_only: "vpmu_model_setup x v = v\<lparr>timing_register := timing_register (vpmu_model_setup x v)\<rparr>"
  by (simp add: vpmu_model_setup_def vpmu_simulator_turn_on_def Let_def)

lemma set_model_pmu: "\<exists>t. m_pmu (set_model x m) = set_vp ((pm_vp (m_pmu m))\<lparr>timing_register := t\<rparr>) (m_pmu m)"
proof
  show "m_pmu (set_model x m) = set_vp ((pm_vp (m_pmu m))\<lparr>timing_register := timing_register (vpmu_model_setup x (pm_vp (m_pmu m)))\<rparr>) (m_pmu m)"
    by (simp add: set_model_def model_setup_only [symmetric])
qed

lemma select_model_pmu:
  "\<exists>t. m_pmu (select_model value m) = set_vp ((pm_vp (m_pmu m))\<lparr>timing_register := t\<rparr>) (m_pmu m)"
proof -
  have "m_pmu m = set_vp ((pm_vp (m_pmu m))\<lparr>timing_register := timing_register (pm_vp (m_pmu m))\<rparr>) (m_pmu m)"
    by (simp add: set_vp_def)
  then show ?thesis using select_model_cases [of "value" m] set_model_pmu [of _ m] by metis
qed

lemma set_model_register:
  "timing_register (pm_vp (m_pmu (set_model x m))) = timing_register (vpmu_model_setup x (pm_vp (m_pmu m)))"
  by (simp add: set_model_def)

lemma model_setup_register:
  "timing_register (vpmu_model_setup TIMING_MODEL_A v) = 0x10000001" "timing_register (vpmu_model_setup TIMING_MODEL_B v) = 0x20000010"
  "timing_register (vpmu_model_setup TIMING_MODEL_C v) = 0x30000012" "timing_register (vpmu_model_setup TIMING_MODEL_D v) = 0x40000016"
  "timing_register (vpmu_model_setup TIMING_MODEL_E v) = 0x5000001f"
  by (simp_all add: vpmu_model_setup_def vpmu_simulator_turn_on_def timing_masks Let_def)

lemma select_model_register:
  assumes "timing_register (pm_vp (m_pmu m)) = 0"
  shows "timing_register (pm_vp (m_pmu (select_model value m))) = model_register value"
  using assms by (simp add: select_model_def set_model_register model_setup_register model_register_def)

text \<open>
  Property C29. Switching the unit on starts a measurement from zero: after a write of 0 or 2 to 10 to the enable
  register the unit is on and the selected timing model is in the register (value 7 selects none); the instruction, load, store,
  branch and program counter counts of all modes, the cycles, the energy and time accounts and the table of instruction counts are 0, and so
  are the statistics of all caches and of the network. The cycle count is 0, and so is the estimated execution time when the configuration
  gives a frequency and processor model 1 has a second level. The counts of the branch predictor keep their values.
\<close>

theorem enable_starts_from_zero:
  assumes "vpmu_special_write fs comma VPMU_MMAP_ENABLE value m = Inr (out, m')" and "value = 0 \<or> (value \<le> 10 \<and> value \<ge> 2)"
  shows "VPMU_enabled (m_pmu m') \<and> timing_register (pm_vp (m_pmu m')) = model_register value \<and>
    cleared (pm_vp (m_pmu m')) \<and> no_references (pm_caches (m_pmu m')) \<and> no_traffic (pm_dev (m_pmu m')) \<and>
    vpmu_cycle_count (pm_vp (m_pmu m')) (pm_caches (m_pmu m')) = 0 \<and>
    (target_cpu_frequency (pm_vp (m_pmu m')) \<noteq> 0 \<and> (cpu_model (pm_vp (m_pmu m')) = 1 \<longrightarrow> 1 < d4_maxlevel (pm_vp (m_pmu m'))) \<longrightarrow>
      vpmu_estimated_execution_time_ns (pm_vp (m_pmu m')) (pm_caches (m_pmu m')) (pm_dev (m_pmu m')) = Inr 0) \<and>
    branch_predict_correct (pm_vp (m_pmu m')) = branch_predict_correct (pm_vp (m_pmu m)) \<and>
    branch_predict_wrong (pm_vp (m_pmu m')) = branch_predict_wrong (pm_vp (m_pmu m))"
proof -
  let ?p = "m_pmu m"
  let ?r = "VPMU_reset (pm_st ?p, pm_dev ?p)"
  obtain m1 where m1: "reset_unit fs m = Inr m1" "m' = select_model value (set_pmu ((m_pmu m1)\<lparr>VPMU_enabled := True\<rparr>) m1)"
    using assms by (auto simp: vpmu_special_write_def write_enable_def)
  obtain v where v: "m_pmu m1 = set_vp v (?p\<lparr>pm_st := fst ?r, pm_dev := snd ?r\<rparr>)" "same_counts (vp (fst ?r)) v"
    using m1(1) read_config_same [of fs "m\<lparr>m_pmu := ?p\<lparr>pm_st := fst ?r, pm_dev := snd ?r\<rparr>, iomem_test := 0\<rparr>" m1]
    by (auto simp: reset_unit_def Let_def split: prod.splits)
  have cl: "cleared v" "timing_register v = 0"
    using same_counts_cleared [OF v(2)] same_counts_register(1) [OF v(2)] reset_cleared by simp_all
  obtain t where t: "m_pmu m' = set_vp (v\<lparr>timing_register := t\<rparr>) (?p\<lparr>pm_st := fst ?r, pm_dev := snd ?r, VPMU_enabled := True\<rparr>)"
    using select_model_pmu [of "value" "set_pmu ((m_pmu m1)\<lparr>VPMU_enabled := True\<rparr>) m1"] m1(2) v(1)
    by (auto simp: set_pmu_def set_vp_def)
  have reg: "timing_register (pm_vp (m_pmu m')) = model_register value"
    using select_model_register [of "set_pmu ((m_pmu m1)\<lparr>VPMU_enabled := True\<rparr>) m1" "value"] m1(2) v(1) cl(2)
    by (simp add: set_pmu_def set_vp_def)
  have cl': "cleared (pm_vp (m_pmu m'))" using cl(1) by (simp add: t set_vp_def cleared_def)
  have nm: "no_references (pm_caches (m_pmu m'))" using reset_references [of "pm_st ?p" "pm_dev ?p"] by (simp add: t set_vp_def)
  have nn: "no_traffic (pm_dev (m_pmu m'))" using reset_net [of "pm_st ?p" "pm_dev ?p"] by (simp add: t set_vp_def)
  have "branch_predict_correct v = branch_predict_correct (pm_vp ?p)" "branch_predict_wrong v = branch_predict_wrong (pm_vp ?p)"
    using same_counts_register(2,3) [OF v(2)] reset_predictor [of "pm_st ?p" "pm_dev ?p"] by simp_all
  then have "branch_predict_correct (pm_vp (m_pmu m')) = branch_predict_correct (pm_vp ?p)"
    "branch_predict_wrong (pm_vp (m_pmu m')) = branch_predict_wrong (pm_vp ?p)" by (simp_all add: t set_vp_def)
  moreover have "VPMU_enabled (m_pmu m')" by (simp add: t set_vp_def)
  ultimately show ?thesis using reg cl' nm nn cleared_cycles(1) [OF cl' nm] cleared_time [OF cl' nm nn] by blast
qed

section \<open>The battery\<close>

lemma u64_word_floor: "word_of_int \<lfloor>real_of_int (uint w)\<rfloor> = w" for w :: u64
  by (simp only: floor_of_int word_of_int_uint)

lemma add_energy_zero: "add_energy mp 0 v = v"
  unfolding add_energy_def using u64_word_floor [of "epc_mpu v"] by (simp del: of_int_uint)

text \<open>A second update at the same time adds nothing.\<close>

lemma update_again:
  assumes "vpmu_update_eet_epc mp v C = Inr w"
  shows "vpmu_update_eet_epc mp w C = Inr w"
proof -
  have a: "vpmu_total_insn_count (add_energy x y z) = vpmu_total_insn_count z" "vpmu_cycle_count (add_energy x y z) C = vpmu_cycle_count z C"
    "last_ticks (add_energy x y z) = last_ticks z" "timing_register (add_energy x y z) = timing_register z"
    "target_cpu_frequency (add_energy x y z) = target_cpu_frequency z" for x y z
    by (simp_all add: add_energy_def counter_defs)
  have b: "vpmu_total_insn_count (v\<lparr>last_ticks := n\<rparr>) = vpmu_total_insn_count v" "vpmu_cycle_count (v\<lparr>last_ticks := n\<rparr>) C = vpmu_cycle_count v C" for n
    by (simp_all add: counter_defs)
  have c: "(add_energy x y z)\<lparr>last_ticks := last_ticks z\<rparr> = add_energy x y z" for x y z by (simp add: add_energy_def)
  show ?thesis
    using assms unfolding vpmu_update_eet_epc_def Let_def
    by (auto simp: a b c add_energy_zero guard_res_def split: if_split_asm)
qed

lemma set_vp_same: "set_vp (pm_vp p) p = p"
  by (simp add: set_vp_def)

lemma mpu_power_set_vp [simp]: "mpu_power (set_vp v p) = mpu_power p"
  by (simp add: set_vp_def)

lemma mpu_power_again:
  assumes "vpmu_vpd_mpu_power p = Inr (t, q)"
  shows "vpmu_vpd_mpu_power q = Inr (t, q) \<and> (\<exists>v. q = set_vp v p)"
proof (cases "VPMU_enabled p")
  case True
  then obtain w where "vpmu_update_eet_epc (mpu_power p) (pm_vp p) (pm_caches p) = Inr w" "t = ucast (epc_mpu w)" "q = set_vp w p"
    using assms by (auto simp: vpmu_vpd_mpu_power_def)
  then show ?thesis using True update_again by (auto simp: vpmu_vpd_mpu_power_def)
next
  case False
  then have "q = p" using assms by (auto simp: vpmu_vpd_mpu_power_def)
  then show ?thesis using assms set_vp_same [of p] by metis
qed

lemma total_power_again:
  assumes "vpmu_vpd_total_power p = Inr (t, q)"
  shows "vpmu_vpd_total_power q = Inr (t, q) \<and> (\<exists>v. q = set_vp v p)"
proof -
  obtain m l a n g where r: "vpmu_vpd_mpu_power p = Inr (m, q)" "vpmu_vpd_lcd_power q = Inr l" "vpmu_vpd_audio_power q = Inr a"
    "vpmu_vpd_net_power q = Inr n" "vpmu_vpd_gps_power q = Inr g" "t = m + l + a + n + g"
    using assms by (auto simp: vpmu_vpd_total_power_def)
  then show ?thesis using mpu_power_again [OF r(1)] by (auto simp: vpmu_vpd_total_power_def)
qed

lemma set_adev_fields [simp]:
  "m_adev (set_adev f m) = f (m_adev m)" "s_count (set_adev f m) = s_count m" "last_packets (set_adev f m) = last_packets m"
  by (simp_all add: set_adev_def)

lemma set_pmu_fields [simp]: "m_pmu (set_pmu p m) = p" "s_count (set_pmu p m) = s_count m"
  by (simp_all add: set_pmu_def)

definition drained :: "u32 \<Rightarrow> u32 \<Rightarrow> u32" where
  "drained e t = (if e > t then e - t else 0)"

lemma drained_exact: "uint (drained e t) = max 0 (uint e - uint t)"
  by (auto simp: drained_def word_less_def uint_sub_lem [symmetric] dest!: uint_sub_lem [THEN iffD1, rotated])

lemma drain_battery_drains:
  assumes "drain_battery m = Inr m'"
  shows "\<exists>t q. vpmu_vpd_total_power (m_pmu m) = Inr (t, q) \<and> energy_left (m_adev m') = drained (energy_left (m_adev m)) t \<and>
    bat_capacity (m_adev m') = Some \<lfloor>real_of_int (uint (energy_left (m_adev m'))) * 100 / full_energy\<rfloor>"
proof -
  obtain t q where t: "vpmu_vpd_total_power (m_pmu m) = Inr (t, q)"
    using assms by (auto simp: drain_battery_def Let_def)
  obtain v where q: "vpmu_vpd_total_power q = Inr (t, q)" "q = set_vp v (m_pmu m)" using total_power_again [OF t] by blast
  have "energy_left (m_adev m') = drained (energy_left (m_adev m)) t \<and>
      bat_capacity (m_adev m') = Some \<lfloor>real_of_int (uint (energy_left (m_adev m'))) * 100 / full_energy\<rfloor>"
    using assms t q by (auto simp: drain_battery_def Let_def drained_def simp del: of_int_uint split: if_splits)
  then show ?thesis using t by blast
qed

lemma capacity_percent:
  assumes "0 \<le> e" and "e \<le> 15318000"
  shows "0 \<le> \<lfloor>real_of_int e * 100 / full_energy\<rfloor> \<and> \<lfloor>real_of_int e * 100 / full_energy\<rfloor> \<le> 100"
proof -
  have "real_of_int e * 100 / full_energy \<le> 100" "0 \<le> real_of_int e * 100 / full_energy"
    using assms by (simp_all add: full_energy_def)
  then show ?thesis by (simp add: floor_le_iff)
qed

lemma load_sample_fields:
  "bat_ac_online (m_adev (load_sample x a n m)) = bat_ac_online (m_adev m)" "battery_sim (m_adev (load_sample x a n m)) = battery_sim (m_adev m)"
  "energy_left (m_adev (load_sample x a n m)) = energy_left (m_adev m)" "cpu_util (m_adev (load_sample x a n m)) = x"
  "pm_st (m_pmu (load_sample x a n m)) = pm_st (m_pmu m)"
  by (simp_all add: load_sample_def net_sample_def set_adev_def Let_def)

text \<open>
  The state of the phone that a load sample leaves: the load, the audio buffer of two samples, and the radio. The Wifi radio is on if
  more than 8 packets were seen since the last sample, the 3G radio if any were, and it goes off in the sixth sample without.
\<close>

definition sampled :: "u32 \<Rightarrow> int \<Rightarrow> u32 \<Rightarrow> monitor \<Rightarrow> android_dev_stat" where
  "sampled load audio packets m = (m_adev m)\<lparr>cpu_util := load, audio_on := word_of_int (last_audio m + audio),
     net_on := (if net_mode (m_adev m) = 1 then if packets - last_packets m > 8 then 1 else 0
       else if net_mode (m_adev m) = 2 then
         if packets > last_packets m then 1 else if s_timer m \<ge> 5 then 0 else net_on (m_adev m)
       else net_on (m_adev m))\<rparr>"

lemma load_sample_pmu: "m_pmu (load_sample x a n m) = (m_pmu m)\<lparr>adev_stat := sampled x a n m\<rparr>"
  by (auto simp: load_sample_def net_sample_def sampled_def set_adev_def Let_def)

text \<open>
  Property C30. The battery never runs below zero: on a load sample with the charger off and the battery simulated, the
  energy left drops by the total power of the phone with the sampled load, audio and radio, and to 0 when there is less; the reported
  capacity is that share of the full battery (15318000), rounded down, and stays between 0 and 100 percent while the energy does not exceed that of a full battery.
\<close>

theorem battery_drains:
  assumes "vpmu_special_write fs comma VPMU_MMAP_BYPASS_CPU_UTIL value m = Inr (out, m')" and "s_count m \<noteq> 0" and "even (s_count m)"
    and "bat_ac_online (m_adev m) = Some 0" and "battery_sim (m_adev m) = 1"
  shows "\<exists>a n t q c. audio_buf (m_adev m) = Some a \<and> net_packets (m_adev m) = Some n \<and>
    vpmu_vpd_total_power ((m_pmu m)\<lparr>adev_stat := sampled value a n m\<rparr>) = Inr (t, q) \<and>
    uint (energy_left (m_adev m')) = max 0 (uint (energy_left (m_adev m)) - uint t) \<and>
    bat_capacity (m_adev m') = Some c \<and> c = \<lfloor>real_of_int (uint (energy_left (m_adev m'))) * 100 / 15318000\<rfloor> \<and>
    (uint (energy_left (m_adev m)) \<le> 15318000 \<longrightarrow> 0 \<le> c \<and> c \<le> 100)"
proof -
  obtain a n where an: "audio_buf (m_adev m) = Some a" "net_packets (m_adev m) = Some n"
    using assms(1-3) by (auto simp: vpmu_special_write_def mmap_defs write_cpu_util_def deref_def Let_def even_iff_mod_2_eq_zero split: option.splits)
  define m2 where "m2 = load_sample value a n m"
  have keep: "bat_ac_online (m_adev m2) = Some 0" "battery_sim (m_adev m2) = 1" "energy_left (m_adev m2) = energy_left (m_adev m)"
    "cpu_util (m_adev m2) = value" "pm_st (m_pmu m2) = pm_st (m_pmu m)"
    using assms(4,5) by (simp_all add: m2_def load_sample_fields)
  obtain m3 where m3: "drain_battery m2 = Inr m3" "m' = m3\<lparr>s_count := s_count m3 + 1\<rparr>"
    using assms(1-3) an keep(1,2)
    by (auto simp: vpmu_special_write_def mmap_defs write_cpu_util_def deref_def m2_def [symmetric] even_iff_mod_2_eq_zero)
  obtain t q where t: "vpmu_vpd_total_power (m_pmu m2) = Inr (t, q)" "energy_left (m_adev m3) = drained (energy_left (m_adev m2)) t"
    "bat_capacity (m_adev m3) = Some \<lfloor>real_of_int (uint (energy_left (m_adev m3))) * 100 / full_energy\<rfloor>"
    using drain_battery_drains [OF m3(1)] by blast
  have e: "uint (energy_left (m_adev m3)) = max 0 (uint (energy_left (m_adev m)) - uint t)"
    using t(2) keep(3) by (simp add: drained_exact)
  have "0 \<le> \<lfloor>real_of_int (uint (energy_left (m_adev m3))) * 100 / full_energy\<rfloor> \<and>
      \<lfloor>real_of_int (uint (energy_left (m_adev m3))) * 100 / full_energy\<rfloor> \<le> 100"
    if "uint (energy_left (m_adev m)) \<le> 15318000"
    using that uint_ge_0 [of t] e by (intro capacity_percent) linarith+
  moreover have "vpmu_vpd_total_power ((m_pmu m)\<lparr>adev_stat := sampled value a n m\<rparr>) = Inr (t, q)"
    using t(1) by (simp only: m2_def load_sample_pmu)
  moreover have "energy_left (m_adev m') = energy_left (m_adev m3)" "bat_capacity (m_adev m') = bat_capacity (m_adev m3)" "full_energy = 15318000"
    using m3(2) by (simp_all add: full_energy_def)
  ultimately show ?thesis using t(3) e an by metis
qed

definition set_adev_of :: "(android_dev_stat \<Rightarrow> android_dev_stat) \<Rightarrow> pmu \<Rightarrow> pmu" where
  "set_adev_of f p = p\<lparr>adev_stat := f (adev_stat p)\<rparr>"

definition monitor1 :: monitor where
  "monitor1 = \<lparr>m_pmu = set_adev_of (\<lambda>d. d\<lparr>energy_left := 1000\<rparr>) pmu1, m_cfg = config1, ISR_addr = \<lambda>_. 0, find_entry = 0, s_count = 2,
     s_timer = 0, last_packets = 7, last_audio = 0, slowdown_ratio = 0, slowdown_count = 0, mpu_freq = 0, iomem_test = 0\<rparr>"

theorem battery_drains_witness:
  "\<exists>m'. vpmu_special_write (\<lambda>_. None) (CHR '','') VPMU_MMAP_BYPASS_CPU_UTIL 50 monitor1 = Inr ([], m') \<and>
     uint (energy_left (m_adev m')) \<le> 1000 \<and> bat_capacity (m_adev m') = Some 0"
proof -
  have "\<exists>m'. vpmu_special_write (\<lambda>_. None) (CHR '','') VPMU_MMAP_BYPASS_CPU_UTIL 50 monitor1 = Inr ([], m')"
    by (simp add: vpmu_special_write_def mmap_defs write_cpu_util_def monitor1_def set_adev_of_def load_sample_def net_sample_def set_adev_def
        drain_battery_def set_pmu_def event_examples full_energy_def)
  then obtain m' where r: "vpmu_special_write (\<lambda>_. None) (CHR '','') VPMU_MMAP_BYPASS_CPU_UTIL 50 monitor1 = Inr ([], m')" by blast
  have c: "s_count monitor1 \<noteq> 0" "even (s_count monitor1)" "bat_ac_online (m_adev monitor1) = Some 0" "battery_sim (m_adev monitor1) = 1"
    "uint (energy_left (m_adev monitor1)) = 1000"
    by (simp_all add: monitor1_def set_adev_of_def event_examples)
  from battery_drains [OF r c(1-4)] obtain t :: u32 where t: "uint (energy_left (m_adev m')) = max 0 (uint (energy_left (m_adev monitor1)) - uint t)"
    "bat_capacity (m_adev m') = Some \<lfloor>real_of_int (uint (energy_left (m_adev m'))) * 100 / 15318000\<rfloor>" by metis
  have e: "0 \<le> uint (energy_left (m_adev m'))" "uint (energy_left (m_adev m')) \<le> 1000" using t(1) c(5) uint_ge_0 [of t] by linarith+
  have "0 \<le> real_of_int (uint (energy_left (m_adev m')))" "real_of_int (uint (energy_left (m_adev m'))) \<le> 1000"
    using e by (simp_all only: of_int_0_le_iff of_int_le_numeral_iff)
  then have "\<lfloor>real_of_int (uint (energy_left (m_adev m'))) * 100 / 15318000\<rfloor> = 0" by (intro floor_unique) simp_all
  then show ?thesis using r t(2) e(2) by auto
qed

section \<open>The radio\<close>

lemma net_sample_3g_idle:
  assumes "net_mode (m_adev m) = 2" and "n \<le> last_packets m"
  shows "s_timer (net_sample n m) = s_timer m + 1 \<and> net_mode (m_adev (net_sample n m)) = 2 \<and> last_packets (net_sample n m) = last_packets m \<and>
    net_on (m_adev (net_sample n m)) = (if s_timer m + 1 \<ge> 6 then 0 else net_on (m_adev m))"
  using assms by (auto simp: net_sample_def set_adev_def Let_def)

lemma idle_samples:
  assumes "net_mode (m_adev m) = 2" and "last_packets m = n"
  shows "let m' = ((net_sample n) ^^ k) m in s_timer m' = s_timer m + k \<and> net_mode (m_adev m') = 2 \<and> last_packets m' = n \<and>
    (0 < k \<longrightarrow> net_on (m_adev m') = (if s_timer m + k \<ge> 6 then 0 else net_on (m_adev m)))"
proof (induction k)
  case 0
  then show ?case using assms by simp
next
  case (Suc k)
  let ?m = "((net_sample n) ^^ k) m"
  have "s_timer ?m = s_timer m + k" "net_mode (m_adev ?m) = 2" "last_packets ?m = n"
    "0 < k \<longrightarrow> net_on (m_adev ?m) = (if s_timer m + k \<ge> 6 then 0 else net_on (m_adev m))"
    using Suc by (simp_all add: Let_def)
  then show ?case using net_sample_3g_idle [of ?m n] by (cases "k = 0") (auto simp: Let_def)
qed

text \<open>
  The 3G radio stays on for five idle samples: after a sample that saw packets, the
  radio is on, it remains on over up to five samples without packets, and from the sixth on it is off.
\<close>

lemma radio_tail:
  assumes "net_mode (m_adev m) = 2" and "last_packets m < n"
  shows "net_on (m_adev ((net_sample n ^^ k) ((net_sample n m)\<lparr>last_packets := n\<rparr>))) = (if k \<le> 5 then 1 else 0)"
proof -
  let ?m = "(net_sample n m)\<lparr>last_packets := n\<rparr>"
  have "net_mode (m_adev ?m) = 2" "s_timer ?m = 0" "net_on (m_adev ?m) = 1"
    using assms by (simp_all add: net_sample_def set_adev_def)
  then show ?thesis using idle_samples [of ?m n k] by (cases "k = 0") (auto simp: Let_def)
qed

text \<open>The guard of the network mode register is always true: any byte is accepted as the mode.\<close>

lemma net_mode_unchecked:
  "vpmu_special_write fs comma VPMU_MMAP_SELECT_NET_MODE x m = Inr ([], set_adev (net_mode_update (\<lambda>_. ucast x)) m)"
  by (simp add: vpmu_special_write_def mmap_defs)

section \<open>Attaching simulators\<close>

text \<open>
  There is room for seven simulators beside the three built in: attaching further ones gives them the
  numbers 3, 4 and so on, each with its callbacks and the null function in the unused places, and the
  attempt to attach an eighth writes beyond the table.
\<close>

lemma attach_numbers:
  assumes "d \<notin> {''dcache'', ''icache'', ''Branch Predictor''}" and "n \<le> length cb" and "n \<le> 5"
  shows "if next_id s < 10
    then \<exists>s'. vpmu_attach_simulator d cb n i r s = Inr (next_id s, s') \<and> next_id s' = next_id s + 1 \<and>
      (\<forall>k < 5. sim s' (next_id s) k = Some (if k < n then cb ! k else ''null_func'')) \<and>
      sim s' (next_id s) 5 = i \<and> sim s' (next_id s) 6 = r \<and> (\<forall>j. j \<noteq> next_id s \<longrightarrow> sim s' j = sim s j)
    else vpmu_attach_simulator d cb n i r s = Inl Out_of_bounds"
  using assms by (auto simp: vpmu_attach_simulator_def VPMU_ASSIGN_FUNC_def Let_def)

section \<open>Start of the device\<close>

lemma read_config_file:
  assumes "cpu_model (pm_vp (m_pmu m)) = k" and "k = 0 \<or> k = 1" and "fs k = Some (print_file ls)" and "list_all cfg_ok ls"
    and "List.map_filter cfg_value ls = file_head freq lat1 lat2 ilevels i1 i2 dlevels d1 d2 @ ts"
    and "length i1 = 10" and "length i2 = 10" and "length d1 = 10" and "length d2 = 10" and "head_ok freq lat1 lat2 m1 m2"
    and "length ts \<le> ARM_INSTRUCTIONS"
  shows "\<exists>c. c = (head_config freq m1 m2 i1 dlevels d1 d2 ((m_cfg m)\<lparr>cf_vp := pm_vp (m_pmu m)\<rparr>))\<lparr>arm_instr_time := (\<lambda>k. if k < length ts
       then uint (to_u32 (strtol (ts ! k))) else arm_instr_time (m_cfg m) k)\<rparr> \<and>
     read_config fs m = Inr (m\<lparr>m_cfg := c, m_pmu := set_vp (cf_vp c) (m_pmu m)\<rparr>)"
  using assms(1-5) set_file [OF assms(6-11), of ilevels dlevels "(m_cfg m)\<lparr>cf_vp := pm_vp (m_pmu m)\<rparr>"]
  by (auto simp: read_config_def VPMU_set_config_from_file_def config_items_print cong: if_cong)

lemma read_config_overrun:
  assumes "cpu_model (pm_vp (m_pmu m)) = k" and "k = 0 \<or> k = 1" and "fs k = Some (print_file ls)" and "list_all cfg_ok ls"
    and "List.map_filter cfg_value ls = file_head freq lat1 lat2 ilevels i1 i2 dlevels d1 d2 @ ts"
    and "length i1 = 10" and "length i2 = 10" and "length d1 = 10" and "length d2 = 10" and "head_ok freq lat1 lat2 m1 m2"
    and "ARM_INSTRUCTIONS < length ts"
  shows "read_config fs m = Inl Out_of_bounds"
  using assms(1-5) set_file_overrun [OF assms(6-11), of ilevels dlevels "(m_cfg m)\<lparr>cf_vp := pm_vp (m_pmu m)\<rparr>"]
  by (auto simp: read_config_def VPMU_set_config_from_file_def config_items_print)

lemma assign_inits:
  assumes "ID < 10" and "n \<le> length cb" and "n \<le> 5"
  shows "\<exists>T'. VPMU_ASSIGN_FUNC ID cb n i r T = Inr T' \<and> (\<forall>j. T' j 5 = (if j = ID then i else T j 5)) \<and>
    (\<forall>j. T' j 6 = (if j = ID then r else T j 6))"
  using assms by (auto simp: VPMU_ASSIGN_FUNC_def)

lemma attach_three:
  "\<exists>s'. bind_res (vpmu_attach_simulator ''dcache'' [''cb_dcache_access_count'', ''vpmu_L1_dcache_miss_count'',
        ''vpmu_L1_dcache_read_miss_count'', ''vpmu_L1_dcache_write_miss_count''] 4 (Some ''dinero_init'') None sims0) (\<lambda>(_, s).
      bind_res (vpmu_attach_simulator ''icache'' [''cb_icache_access_count'', ''vpmu_L1_icache_miss_count''] 2 None None s) (\<lambda>(_, s).
      bind_res (vpmu_attach_simulator ''Branch Predictor'' [''branch_predict_correct'', ''branch_predict_wrong''] 2 None None s) f)) = f (2, s') \<and>
    vpmu_initiate_attached_simulators s' = [''dinero_init''] \<and> vpmu_terminate_attached_simulators s' = []"
proof -
  obtain T0 where T0: "VPMU_ASSIGN_FUNC 0 [''cb_dcache_access_count'', ''vpmu_L1_dcache_miss_count'',
        ''vpmu_L1_dcache_read_miss_count'', ''vpmu_L1_dcache_write_miss_count''] 4 (Some ''dinero_init'') None (sim sims0) = Inr T0"
    "\<forall>j. T0 j 5 = (if j = 0 then Some ''dinero_init'' else None)" "\<forall>j. T0 j 6 = None"
    using assign_inits [of 0 4 "[''cb_dcache_access_count'', ''vpmu_L1_dcache_miss_count'', ''vpmu_L1_dcache_read_miss_count'',
      ''vpmu_L1_dcache_write_miss_count'']" "Some ''dinero_init''" None "sim sims0"] by (auto simp: sims0_def)
  obtain T1 where T1: "VPMU_ASSIGN_FUNC 1 [''cb_icache_access_count'', ''vpmu_L1_icache_miss_count''] 2 None None T0 = Inr T1"
    "\<forall>j. T1 j 5 = (if j = 0 then Some ''dinero_init'' else None)" "\<forall>j. T1 j 6 = None"
    using assign_inits [of 1 2 "[''cb_icache_access_count'', ''vpmu_L1_icache_miss_count'']" None None T0] T0(2,3) by auto
  obtain T2 where T2: "VPMU_ASSIGN_FUNC 2 [''branch_predict_correct'', ''branch_predict_wrong''] 2 None None T1 = Inr T2"
    "\<forall>j. T2 j 5 = (if j = 0 then Some ''dinero_init'' else None)" "\<forall>j. T2 j 6 = None"
    using assign_inits [of 2 2 "[''branch_predict_correct'', ''branch_predict_wrong'']" None None T1] T1(2,3) by auto
  show ?thesis
    using T0(1) T1(1) T2
    by (intro exI [of _ "sims0\<lparr>sim := T2\<rparr>"])
      (simp add: vpmu_attach_simulator_def vpmu_initiate_attached_simulators_def vpmu_terminate_attached_simulators_def upt_conv_Cons map_filter_simps)
qed

lemma init_core_eq:
  "\<exists>n s'. pm_vp (m_pmu n) = pm_vp (m_pmu m) \<and> m_cfg n = m_cfg m \<and> vpmu_initiate_attached_simulators s' = [''dinero_init''] \<and>
    vpmu_init_core fs m sims0 = bind_res (read_config fs n) (\<lambda>m. bind_res (VPMU_cache_init (m_cfg m)) (\<lambda>b. Inr (m, s', Some b)))"
proof -
  define n where "n = VPMU_update_slowdown_ratio 1 (m\<lparr>mpu_freq := target_cpu_frequency (pm_vp (m_pmu m)),
    m_pmu := (m_pmu m)\<lparr>mpu_power := (0x10 - 0x0b) * 4.21806 + 156.97284\<rparr>\<rparr>)"
  have n: "pm_vp (m_pmu n) = pm_vp (m_pmu m)" "m_cfg n = m_cfg m" by (simp_all add: n_def VPMU_update_slowdown_ratio_def)
  let ?f = "\<lambda>(x, s). bind_res (read_config fs n) (\<lambda>m.
        if ''dinero_init'' \<in> set (vpmu_initiate_attached_simulators s)
        then bind_res (VPMU_cache_init (m_cfg m)) (\<lambda>b. Inr (m, s, Some b)) else Inr (m, s, None))"
  obtain s' where "vpmu_init_core fs m sims0 = ?f (2, s')" "vpmu_initiate_attached_simulators s' = [''dinero_init'']"
    using attach_three [of ?f] unfolding vpmu_init_core_def Let_def n_def [symmetric] by (auto split: prod.splits)
  then show ?thesis using n by (intro exI [of _ n] exI [of _ s']) simp
qed

text \<open>
  Property C31. The start of the device, from a configuration file in the format of \<^verbatim>\<open>vpmu_config/\<close> with one or two cache levels,
  while the other rows of the cache table are still zero.
  With more than 172 instruction times, as in the files there, which have 173, the start writes beyond the end of
  \<open>arm_instr_time\<close>. Otherwise it succeeds: the frequency, the latencies and every instruction time are those of the file, the
  data cache simulator is the only one with an initialisation, and the caches built are an instruction and a data cache of the
  configured sizes, which are the ones the counters of the unit read, on a shared second level or, with one level, on the memory.
\<close>

theorem startup_builds_caches:
  assumes "cpu_model (pm_vp (m_pmu m)) = k" and "k = 0 \<or> k = 1" and "fs k = Some (print_file ls)" and "list_all cfg_ok ls"
    and "List.map_filter cfg_value ls = file_head freq lat1 lat2 ilevels i1 i2 dlevels d1 d2 @ ts"
    and "length i1 = 10" and "length i2 = 10" and "length d1 = 10" and "length d2 = 10" and "head_ok freq lat1 lat2 m1 m2"
    and "to_int (strtol dlevels) \<in> {1, 2}" and "to_u32 (strtol (i1 ! 0)) \<noteq> 0" and "to_u32 (strtol (d1 ! 0)) \<noteq> 0"
    and "to_int (strtol dlevels) = 2 \<Longrightarrow> to_u32 (strtol (d2 ! 0)) \<noteq> 0"
    and "\<forall>(i, l) \<in> {(0, 0), (1, 1), (2, 1)}. l_size (d4_level (m_cfg m) i l) = 0"
  shows "if ARM_INSTRUCTIONS < length ts then vpmu_init_core fs m sims0 = Inl Out_of_bounds
    else \<exists>m' s' b u. vpmu_init_core fs m sims0 = Inr (m', s', Some b) \<and>
      target_cpu_frequency (pm_vp (m_pmu m')) = word_of_int (strtol freq) \<and>
      l1_cache_miss_lat (pm_vp (m_pmu m')) = m1 \<and> l2_cache_miss_lat (pm_vp (m_pmu m')) = m2 \<and>
      (\<forall>j < length ts. arm_instr_time (m_cfg m') j = uint (to_u32 (strtol (ts ! j)))) \<and>
      vpmu_initiate_attached_simulators s' = [''dinero_init''] \<and>
      levnode b 1 0 = Some (b_ci b) \<and> levnode b 2 0 = Some (b_cd b) \<and> b_ci b \<noteq> b_cd b \<and>
      below (nodes b ! b_ci b) = Some u \<and> below (nodes b ! b_cd b) = Some u \<and>
      (if to_int (strtol dlevels) = 1 then u = 0
       else levnode b 0 1 = Some u \<and> below (nodes b ! u) = Some 0 \<and> lg2size (nodes b ! u) = clog2 (to_u32 (strtol (d2 ! 0)))) \<and>
      lg2size (nodes b ! b_ci b) = clog2 (to_u32 (strtol (i1 ! 0))) \<and> lg2size (nodes b ! b_cd b) = clog2 (to_u32 (strtol (d1 ! 0)))"
proof -
  obtain n s' where n: "pm_vp (m_pmu n) = pm_vp (m_pmu m)" "m_cfg n = m_cfg m" "vpmu_initiate_attached_simulators s' = [''dinero_init'']"
    "vpmu_init_core fs m sims0 = bind_res (read_config fs n) (\<lambda>m. bind_res (VPMU_cache_init (m_cfg m)) (\<lambda>b. Inr (m, s', Some b)))"
    using init_core_eq [of m fs] by blast
  have k: "cpu_model (pm_vp (m_pmu n)) = k" using assms(1) n(1) by simp
  show ?thesis
  proof (cases "ARM_INSTRUCTIONS < length ts")
    case True
    then show ?thesis using read_config_overrun [where fs = fs, OF k assms(2-10)] n(4) by simp
  next
    case False
    define c where "c = (head_config freq m1 m2 i1 dlevels d1 d2 ((m_cfg m)\<lparr>cf_vp := pm_vp (m_pmu m)\<rparr>))\<lparr>arm_instr_time := (\<lambda>k. if k < length ts
       then uint (to_u32 (strtol (ts ! k))) else arm_instr_time (m_cfg m) k)\<rparr>"
    let ?m = "n\<lparr>m_cfg := c, m_pmu := set_vp (cf_vp c) (m_pmu n)\<rparr>"
    have r: "read_config fs n = Inr ?m"
      using read_config_file [where fs = fs, OF k assms(2-10)] False n(1,2) by (simp add: c_def cong: if_cong)
    have L: "l_size (d4_level c 1 0) = to_u32 (strtol (i1 ! 0))" "l_size (d4_level c 2 0) = to_u32 (strtol (d1 ! 0))"
      "l_size (d4_level c 0 1) = to_u32 (strtol (d2 ! 0))" "d4_maxlevel (cf_vp c) = to_int (strtol dlevels)"
      by (simp_all add: c_def head_config_def level_of_def)
    have z: "\<forall>(i, l) \<in> {(0, 0), (1, 1), (2, 1)}. l_size (d4_level c i l) = 0" using assms(15) by (simp add: c_def head_config_def)
    obtain b u where b: "VPMU_cache_init c = Inr b" "levnode b 1 0 = Some (b_ci b)" "levnode b 2 0 = Some (b_cd b)" "b_ci b \<noteq> b_cd b"
      "below (nodes b ! b_ci b) = Some u" "below (nodes b ! b_cd b) = Some u"
      "if to_int (strtol dlevels) = 1 then u = 0
       else levnode b 0 1 = Some u \<and> below (nodes b ! u) = Some 0 \<and> lg2size (nodes b ! u) = clog2 (to_u32 (strtol (d2 ! 0)))"
      "lg2size (nodes b ! b_ci b) = clog2 (to_u32 (strtol (i1 ! 0)))" "lg2size (nodes b ! b_cd b) = clog2 (to_u32 (strtol (d1 ! 0)))"
      using split_caches [of c, unfolded L] assms(11-14) z by blast
    have "vpmu_init_core fs m sims0 = Inr (?m, s', Some b)" using n(4) r b(1) by simp
    moreover have "target_cpu_frequency (pm_vp (m_pmu ?m)) = word_of_int (strtol freq)" "l1_cache_miss_lat (pm_vp (m_pmu ?m)) = m1"
      "l2_cache_miss_lat (pm_vp (m_pmu ?m)) = m2" "\<forall>j < length ts. arm_instr_time (m_cfg ?m) j = uint (to_u32 (strtol (ts ! j)))"
      by (simp_all add: c_def head_config_def)
    ultimately show ?thesis using False n(3) b(2-9) by (simp only: if_False) blast
  qed
qed

text \<open>A two level configuration with one instruction time and a remark.\<close>

definition lines1 :: "cfg_line list" where
  "lines1 = Remark ''# CPU'' # map (Entry ''x'') (file_head ''264'' ''102.9'' ''0'' ''2'' section1 section1 ''2'' section1 section1 @ [''3''])"

lemma lines1_ok: "list_all cfg_ok lines1"
  by (simp add: lines1_def file_head_def section1_def)

lemma lines1_values:
  "List.map_filter cfg_value lines1 = file_head ''264'' ''102.9'' ''0'' ''2'' section1 section1 ''2'' section1 section1 @ [''3'']"
proof -
  have "List.map_filter cfg_value (map (Entry n) vs) = vs" for n vs by (induction vs) (simp_all add: map_filter_simps)
  then show ?thesis by (simp add: lines1_def map_filter_simps del: map_append)
qed

lemma strtol1: "strtol ''2'' = 2" "strtol ''16384'' = 16384" "strtol ''264'' = 264"
  by (simp_all add: strtol_def signed_def isspace_def isdigit_def digits_value_def clamp_long_def)

lemma section1_length: "length section1 = 10"
  by (simp add: section1_def)

lemma reset_unit_eq: "reset_unit fs m = read_config fs (m\<lparr>m_pmu := (m_pmu m)\<lparr>pm_st := fst (VPMU_reset (pm_st (m_pmu m), pm_dev (m_pmu m))),
    pm_dev := snd (VPMU_reset (pm_st (m_pmu m), pm_dev (m_pmu m)))\<rparr>, iomem_test := 0\<rparr>)"
  by (simp add: reset_unit_def Let_def split_beta)

text \<open>The items of \<^verbatim>\<open>vpmu_config/def-config-arm926\<close> before the times: one level.\<close>

definition section2 :: "string list" where
  "section2 = replicate 10 ''0''"

definition lines_arm926 :: "string list \<Rightarrow> cfg_line list" where
  "lines_arm926 ts = map (Entry ''x'') (file_head ''264'' ''102.9'' ''0'' ''1'' section1 section2 ''1'' section1 section2 @ ts)"

lemma lines_arm926_values:
  "List.map_filter cfg_value (lines_arm926 ts) = file_head ''264'' ''102.9'' ''0'' ''1'' section1 section2 ''1'' section1 section2 @ ts"
proof -
  have "List.map_filter cfg_value (map (Entry n) vs) = vs" for n vs by (induction vs) (simp_all add: map_filter_simps)
  then show ?thesis by (simp add: lines_arm926_def del: map_append)
qed

lemma lines_arm926_ok: "set ts \<subseteq> {''1'', ''3''} \<Longrightarrow> list_all cfg_ok (lines_arm926 ts)"
  by (auto simp: lines_arm926_def file_head_def section1_def section2_def list_all_iff)

theorem startup_builds_caches_witness:
  "(\<exists>m' s' b. vpmu_init_core (\<lambda>_. Some (print_file (lines_arm926 [''3'', ''1'']))) monitor1 sims0 = Inr (m', s', Some b) \<and>
     target_cpu_frequency (pm_vp (m_pmu m')) = 264 \<and> arm_instr_time (m_cfg m') 0 = 3 \<and> below (nodes b ! b_ci b) = Some 0) \<and>
   vpmu_init_core (\<lambda>_. Some (print_file (lines_arm926 (replicate 173 ''1'')))) monitor1 sims0 = Inl Out_of_bounds"
proof -
  have s: "section1 ! 0 = ''16384''" "length section1 = 10" "length section2 = 10" by (simp_all add: section1_def section2_def)
  have n: "strtol ''1'' = 1" "strtol ''3'' = 3" by (simp_all add: strtol_def signed_def isspace_def isdigit_def digits_value_def clamp_long_def)
  have m: "cpu_model (pm_vp (m_pmu monitor1)) = 0" "l_size (d4_level (m_cfg monitor1) i l) = 0" for i l
    by (simp_all add: monitor1_def set_adev_of_def config1_def event_examples)
  let ?P = "\<lambda>ts. if ARM_INSTRUCTIONS < length ts then vpmu_init_core (\<lambda>_. Some (print_file (lines_arm926 ts))) monitor1 sims0 = Inl Out_of_bounds
    else \<exists>m' s' b. vpmu_init_core (\<lambda>_. Some (print_file (lines_arm926 ts))) monitor1 sims0 = Inr (m', s', Some b) \<and>
      target_cpu_frequency (pm_vp (m_pmu m')) = word_of_int (strtol ''264'') \<and>
      (\<forall>j < length ts. arm_instr_time (m_cfg m') j = uint (to_u32 (strtol (ts ! j)))) \<and> below (nodes b ! b_ci b) = Some 0"
  have lv: "to_int (strtol ''1'') = 1" by (simp add: n to_int_def)
  have pre: "to_int (strtol ''1'') \<in> {1, 2}" "to_u32 (strtol (section1 ! 0)) \<noteq> 0" "\<forall>(i, l) \<in> {(0, 0), (1, 1), (2, 1)}. l_size (d4_level (m_cfg monitor1) i l) = 0"
    using m(2) by (simp_all add: lv s(1) strtol1 to_u32_def)
  have two: "to_u32 (strtol (section2 ! 0)) \<noteq> 0" if "to_int (strtol ''1'') = 2" using that lv by simp
  have P: "?P ts" if "set ts \<subseteq> {''1'', ''3''}" for ts
  proof -
    note th = startup_builds_caches [where fs = "\<lambda>_. Some (print_file (lines_arm926 ts))" and ts = ts,
        OF m(1) disjI1 [OF refl] refl lines_arm926_ok [OF that] lines_arm926_values s(2) s(3) s(2) s(3) head_ok1 pre(1,2,2) two pre(3)]
    show "?P ts"
    proof (cases "ARM_INSTRUCTIONS < length ts")
      case True
      then show ?thesis using th by (simp only: if_True)
    next
      case False
      then show ?thesis using th unfolding if_not_P [OF False] if_P [OF lv] by blast
    qed
  qed
  have "length (replicate 173 ''1'') = 173" "set (replicate 173 ''1'') \<subseteq> {''1'', ''3''}" by (simp_all only: length_replicate, auto)
  then have over: "vpmu_init_core (\<lambda>_. Some (print_file (lines_arm926 (replicate 173 ''1'')))) monitor1 sims0 = Inl Out_of_bounds"
    using P [of "replicate 173 ''1''"] by (simp only: if_P)
  have "set [''3'', ''1''] \<subseteq> {''1'', ''3''}" "\<not> ARM_INSTRUCTIONS < length [''3'', ''1'']" "0 < length [''3'', ''1'']" by simp_all
  then obtain m' s' b where r: "vpmu_init_core (\<lambda>_. Some (print_file (lines_arm926 [''3'', ''1'']))) monitor1 sims0 = Inr (m', s', Some b)"
    "target_cpu_frequency (pm_vp (m_pmu m')) = word_of_int (strtol ''264'')"
    "arm_instr_time (m_cfg m') 0 = uint (to_u32 (strtol ([''3'', ''1''] ! 0)))" "below (nodes b ! b_ci b) = Some 0"
    using P [of "[''3'', ''1'']"] by (simp only: if_False) blast
  have "target_cpu_frequency (pm_vp (m_pmu m')) = 264" "arm_instr_time (m_cfg m') 0 = 3" using r(2,3) by (simp_all add: strtol1 n(2) to_u32_def)
  then show ?thesis using r(1,4) over by blast
qed

theorem enable_starts_from_zero_witness:
  "\<exists>m'. vpmu_special_write (\<lambda>_. Some (print_file lines1)) (CHR '','') VPMU_MMAP_ENABLE 4 monitor1 = Inr ([], m') \<and>
     timing_register (pm_vp (m_pmu m')) = 0x30000012 \<and> cleared (pm_vp (m_pmu m'))"
proof -
  let ?fs = "\<lambda>_ :: int. Some (print_file lines1)"
  let ?r = "VPMU_reset (pm_st (m_pmu monitor1), pm_dev (m_pmu monitor1))"
  let ?m = "monitor1\<lparr>m_pmu := (m_pmu monitor1)\<lparr>pm_st := fst ?r, pm_dev := snd ?r\<rparr>, iomem_test := 0\<rparr>"
  have "cpu_model (pm_vp (m_pmu ?m)) = 0" by (simp add: VPMU_reset_def Let_def monitor1_def set_adev_of_def event_examples)
  then have "\<exists>m1. read_config ?fs ?m = Inr m1"
    using read_config_file [of ?m 0 ?fs lines1 "''264''" "''102.9''" "''0''" "''2''" section1 section1 "''2''" section1 section1 "[''3'']" 27 0]
      lines1_ok lines1_values head_ok1 section1_length by fastforce
  then obtain m1 where "reset_unit ?fs monitor1 = Inr m1" unfolding reset_unit_eq by blast
  then obtain m' where r: "vpmu_special_write ?fs (CHR '','') VPMU_MMAP_ENABLE 4 monitor1 = Inr ([], m')"
    by (simp add: vpmu_special_write_def write_enable_def)
  from enable_starts_from_zero [OF r] r show ?thesis by (simp add: model_register_def)
qed

section \<open>Data accesses\<close>

text \<open>
  Every data access is counted once: while the data cache is simulated, an access of the translated code
  is either an I/O access, which raises the I/O count by one and leaves the caches alone, or one
  reference to the caches, which leaves the unit alone; while it is not simulated, it has no effect at all. A preload is a
  read of the address that its register and offset give.
\<close>

lemma data_access_counted_once:
  "let m' = dinero_access d4ref phys regs addr rw sz m; p = m_pmu m; p' = m_pmu m';
       on = (VPMU_enabled p \<and> sim_on VPMU_DCACHE_SIM (pm_vp p));
       a = (if rw = 0xff then regs (drop_bit 16 addr AND 0xf) + (addr AND 0xfff) else addr) in
   if \<not> on then m' = m
   else if iomem_test m = 1 then iomem_test m' = 0 \<and> pm_caches p' = pm_caches p \<and>
     pm_vp p' = (pm_vp p)\<lparr>iomem_qemu := iomem_qemu (pm_vp p) + 1\<rparr>
   else pm_vp p' = pm_vp p \<and> iomem_test m' = iomem_test m \<and>
     pm_caches p' = cache_ref d4ref \<lparr>address = if cpu_model (pm_vp p) = 1 then phys a else a,
       accesstype = if rw = 0xff then D4XREAD else sint rw, rsize = sint sz\<rparr> (pm_caches p)"
proof (cases "VPMU_enabled (m_pmu m) \<and> sim_on VPMU_DCACHE_SIM (pm_vp (m_pmu m))")
  case True
  then show ?thesis by (auto simp: dinero_access_def Let_def D4XREAD_def set_vp_def)
next
  case False
  then have "dinero_access d4ref phys regs addr rw sz m = m" unfolding dinero_access_def Let_def by (rule if_not_P)
  then show ?thesis unfolding Let_def by (simp only: False if_True not_False_eq_True)
qed

end
