(* ===== verification/VPMU_Trace.thy ===== *)
theory VPMU_Trace
  imports VPMU_Branch VPMU_Clock
begin

text \<open>
  The cache references of a threaded build (\<open>CONFIG_VPMU_THREAD\<close> in \<^verbatim>\<open>hw/vpmu-device.c\<close>): the emulator writes
  references into a ring of sets and hands over whole sets; a worker thread feeds them to the
  cache simulator. A spinning wait is the value None; a step between two updates of the
  shared counter is atomic, as the counter is changed under a mutex.
\<close>

section \<open>The ring of sets\<close>

definition TRACE_QUEUE_SIZE :: nat where "TRACE_QUEUE_SIZE = 100"
definition TRACE_SET :: nat where "TRACE_SET = 500"

lemmas trace_sizes = TRACE_QUEUE_SIZE_def TRACE_SET_def

record trace_ring =
  TraceBuffer :: "nat \<Rightarrow> nat \<Rightarrow> d4memref"
  set_used :: nat
  put_set :: nat
  put_index :: nat
  get_set :: nat

definition put_ref :: "d4memref \<Rightarrow> trace_ring \<Rightarrow> trace_ring option" where
  "put_ref r q = (if set_used q = TRACE_SET then None else
     let q = q\<lparr>TraceBuffer := (TraceBuffer q)(put_set q := (TraceBuffer q (put_set q))(put_index q := r)), put_index := put_index q + 1\<rparr> in
     if put_index q = TRACE_QUEUE_SIZE then
       Some (q\<lparr>set_used := set_used q + 1, put_index := 0, put_set := (if put_set q + 1 = TRACE_SET then 0 else put_set q + 1)\<rparr>)
     else Some q)"

text \<open>The worker reads one set completely before it gives it back.\<close>

definition get_refs :: "trace_ring \<Rightarrow> (d4memref list \<times> trace_ring) option" where
  "get_refs q = (if set_used q = 0 then None else
     Some (map (TraceBuffer q (get_set q)) [0..<TRACE_QUEUE_SIZE],
       q\<lparr>set_used := set_used q - 1, get_set := (if get_set q + 1 = TRACE_SET then 0 else get_set q + 1)\<rparr>))"

definition dinero_thread_step :: "cache_sim \<Rightarrow> trace_ring \<times> caches \<Rightarrow> (trace_ring \<times> caches) option" where
  "dinero_thread_step d4ref qc = map_option (\<lambda>(rs, q). (q, fold (cache_ref d4ref) rs (snd qc))) (get_refs (fst qc))"

text \<open>The synchronisation before a counter is read waits for the number of full sets only.\<close>

definition wait_cache_thread_buf :: "trace_ring \<Rightarrow> bool" where
  "wait_cache_thread_buf q \<longleftrightarrow> set_used q = 0"

section \<open>Queues that are emptied in batches\<close>

datatype 'm batch_op = Put 'm | Get_batch

fun batch_run :: "('m \<Rightarrow> 'q \<Rightarrow> 'q option) \<Rightarrow> ('q \<Rightarrow> ('m list \<times> 'q) option) \<Rightarrow> 'm batch_op list \<Rightarrow> 'q \<Rightarrow> 'q \<times> 'm list \<times> 'm list" where
  "batch_run put get [] q = (q, [], [])"
| "batch_run put get (Put m # ops) q = (case put m q of None \<Rightarrow> batch_run put get ops q
     | Some q' \<Rightarrow> let (q'', sent, got) = batch_run put get ops q' in (q'', m # sent, got))"
| "batch_run put get (Get_batch # ops) q = (case get q of None \<Rightarrow> batch_run put get ops q
     | Some (ms, q') \<Rightarrow> let (q'', sent, got) = batch_run put get ops q' in (q'', sent, ms @ got))"

locale batch_queue =
  fixes ok :: "'q \<Rightarrow> bool"
    and contents :: "'q \<Rightarrow> 'm list"
    and put :: "'m \<Rightarrow> 'q \<Rightarrow> 'q option"
    and get :: "'q \<Rightarrow> ('m list \<times> 'q) option"
    and rest :: nat
  assumes put_appends: "ok q \<Longrightarrow> put m q = Some q' \<Longrightarrow> ok q' \<and> contents q' = contents q @ [m]"
    and get_takes: "ok q \<Longrightarrow> get q = Some (ms, q') \<Longrightarrow> ok q' \<and> contents q = ms @ contents q'"
    and get_rest: "ok q \<Longrightarrow> get q = None \<Longrightarrow> length (contents q) < rest"
begin

lemma run_in_order: "ok q \<Longrightarrow> batch_run put get ops q = (q', sent, got) \<Longrightarrow> ok q' \<and> contents q @ sent = got @ contents q'"
proof (induction ops arbitrary: q sent got)
  case (Cons x ops)
  show ?case
  proof (cases x)
    case (Put m)
    show ?thesis
    proof (cases "put m q")
      case None
      then show ?thesis using Cons Put by simp
    next
      case (Some q1)
      obtain s g where r: "batch_run put get ops q1 = (q', s, g)" "sent = m # s" "got = g"
        using Cons.prems(2) Put Some by (auto simp: Let_def split: prod.splits)
      then show ?thesis using Cons.IH [OF _ r(1)] put_appends [OF Cons.prems(1) Some] by auto
    qed
  next
    case Get_batch
    show ?thesis
    proof (cases "get q")
      case None
      then show ?thesis using Cons Get_batch by simp
    next
      case (Some a)
      obtain ms q1 where a: "a = (ms, q1)" by (cases a)
      obtain s g where r: "batch_run put get ops q1 = (q', s, g)" "sent = s" "got = ms @ g"
        using Cons.prems(2) Get_batch Some a by (auto simp: Let_def split: prod.splits)
      then show ?thesis using Cons.IH [OF _ r(1)] get_takes [OF Cons.prems(1) Some [unfolded a]] by auto
    qed
  qed
qed simp

lemma drained_rest: "ok q \<Longrightarrow> batch_run put get ops q = (q', sent, got) \<Longrightarrow> get q' = None \<Longrightarrow>
  \<exists>ms. contents q @ sent = got @ ms \<and> length ms < rest"
  using run_in_order get_rest by blast

end

section \<open>The ring keeps the order\<close>

definition trace_ok :: "trace_ring \<Rightarrow> bool" where
  "trace_ok q \<longleftrightarrow> put_index q < TRACE_QUEUE_SIZE \<and> get_set q < TRACE_SET \<and> set_used q \<le> TRACE_SET \<and>
     put_set q = (get_set q + set_used q) mod TRACE_SET"

definition set_contents :: "trace_ring \<Rightarrow> nat \<Rightarrow> d4memref list" where
  "set_contents q k = map (TraceBuffer q ((get_set q + k) mod TRACE_SET)) [0..<TRACE_QUEUE_SIZE]"

definition trace_contents :: "trace_ring \<Rightarrow> d4memref list" where
  "trace_contents q = concat (map (set_contents q) [0..<set_used q]) @ map (TraceBuffer q (put_set q)) [0..<put_index q]"

lemma other_set:
  assumes "k < u" and "u < TRACE_SET" and "g < TRACE_SET"
  shows "(g + k) mod TRACE_SET \<noteq> (g + u) mod TRACE_SET"
  using assms mod_once [of "g + k" TRACE_SET] mod_once [of "g + u" TRACE_SET] by (auto simp: TRACE_SET_def split: if_splits)

lemma put_ref_appends:
  assumes "trace_ok q" and "put_ref r q = Some q'"
  shows "trace_ok q' \<and> trace_contents q' = trace_contents q @ [r]"
proof -
  let ?B = "(TraceBuffer q)(put_set q := (TraceBuffer q (put_set q))(put_index q := r))"
  have room: "set_used q < TRACE_SET" using assms by (auto simp: put_ref_def trace_ok_def split: if_splits)
  have f: "TraceBuffer q' = ?B" "get_set q' = get_set q"
    using assms(2) by (auto simp: put_ref_def Let_def split: if_splits)
  have old: "map (set_contents q') [0..<set_used q] = map (set_contents q) [0..<set_used q]"
    using other_set [OF _ room, of _ "get_set q"] assms(1) by (auto simp: set_contents_def trace_ok_def f)
  have new: "map (?B (put_set q)) [0..<Suc (put_index q)] = map (TraceBuffer q (put_set q)) [0..<put_index q] @ [r]" by simp
  show ?thesis
  proof (cases "put_index q + 1 = TRACE_QUEUE_SIZE")
    case True
    have g: "set_used q' = Suc (set_used q)" "put_index q' = 0" "put_set q' = (if put_set q + 1 = TRACE_SET then 0 else put_set q + 1)"
      using assms(2) room True by (auto simp: put_ref_def Let_def)
    have "set_contents q' (set_used q) = map (TraceBuffer q (put_set q)) [0..<put_index q] @ [r]"
      using new True assms(1) by (simp add: set_contents_def f trace_ok_def del: upt_Suc)
    then have "trace_contents q' = trace_contents q @ [r]" unfolding trace_contents_def g by (simp add: old)
    moreover have "put_set q' = (get_set q + Suc (set_used q)) mod TRACE_SET"
      using assms(1) unfolding g(3) trace_ok_def by (auto simp: mod_Suc)
    ultimately show ?thesis using assms(1) room f g(1,2) by (auto simp: trace_ok_def trace_sizes)
  next
    case False
    have g: "set_used q' = set_used q" "put_index q' = Suc (put_index q)" "put_set q' = put_set q"
      using assms(2) room False by (auto simp: put_ref_def Let_def)
    have "trace_contents q' = trace_contents q @ [r]" unfolding trace_contents_def g f by (simp add: old)
    moreover have "Suc (put_index q) < TRACE_QUEUE_SIZE" using False assms(1) by (auto simp: trace_ok_def)
    ultimately show ?thesis using assms(1) f g by (simp add: trace_ok_def)
  qed
qed

lemma get_refs_takes:
  assumes "trace_ok q" and "get_refs q = Some (rs, q')"
  shows "trace_ok q' \<and> trace_contents q = rs @ trace_contents q'"
proof -
  obtain u where u: "set_used q = Suc u" using assms(2) by (cases "set_used q") (auto simp: get_refs_def)
  have f: "TraceBuffer q' = TraceBuffer q" "put_set q' = put_set q" "put_index q' = put_index q" "set_used q' = u"
    "get_set q' = (get_set q + 1) mod TRACE_SET" "rs = set_contents q 0"
    using assms u by (auto simp: get_refs_def trace_ok_def set_contents_def)
  have "set_contents q' k = set_contents q (Suc k)" for k
    by (simp add: set_contents_def f mod_simps)
  then have "map (set_contents q) [0..<Suc u] = rs # map (set_contents q') [0..<u]"
    by (simp add: f(6) upt_conv_Cons map_Suc_upt [symmetric] comp_def del: upt_Suc)
  then have "trace_contents q = rs @ trace_contents q'" by (simp add: trace_contents_def u f(1-4) del: upt_Suc)
  moreover have "put_set q = (get_set q' + u) mod TRACE_SET"
    using assms(1) unfolding f(5) trace_ok_def u by (simp add: mod_simps)
  moreover have "get_set q' < TRACE_SET" unfolding f(5) by (simp add: TRACE_SET_def)
  ultimately show ?thesis using assms(1) u f by (simp add: trace_ok_def)
qed

interpretation trace: batch_queue trace_ok trace_contents put_ref get_refs TRACE_QUEUE_SIZE
proof (unfold_locales, goal_cases)
  case (1 q m q')
  then show ?case by (rule put_ref_appends)
next
  case (2 q ms q')
  then show ?case by (rule get_refs_takes)
next
  case (3 q)
  then show ?case by (auto simp: get_refs_def trace_contents_def trace_ok_def split: if_splits)
qed

text \<open>
  Property C32. The worker thread simulates the references in the order in which the emulator made them and
  loses none: for every interleaving of references and worker steps, the references handed to the
  simulator followed by those still in the ring are those made, and when the synchronisation lets a counter be read, fewer than
  100 of them, but possibly some, are not yet simulated.
\<close>

theorem trace_in_order:
  assumes "trace_ok q" and "batch_run put_ref get_refs ops q = (q', sent, got)"
  shows "trace_contents q @ sent = got @ trace_contents q' \<and>
    (wait_cache_thread_buf q' \<longrightarrow> length (trace_contents q') = put_index q' \<and> put_index q' < 100)"
  using trace.run_in_order [OF assms]
  by (auto simp: wait_cache_thread_buf_def trace_contents_def trace_ok_def TRACE_QUEUE_SIZE_def)

definition trace0 :: trace_ring where
  "trace0 = \<lparr>TraceBuffer = \<lambda>_ _. \<lparr>address = 0, accesstype = 0, rsize = 0\<rparr>, set_used = 0, put_set = 0, put_index = 0, get_set = 0\<rparr>"

theorem trace_in_order_witness:
  "\<exists>q'. batch_run put_ref get_refs [Put \<lparr>address = 8, accesstype = 0, rsize = 4\<rparr>, Get_batch] trace0 =
     (q', [\<lparr>address = 8, accesstype = 0, rsize = 4\<rparr>], []) \<and> wait_cache_thread_buf q' \<and> length (trace_contents q') = 1"
proof -
  have ok: "trace_ok trace0" by (simp add: trace_ok_def trace0_def trace_sizes)
  obtain q' where r: "batch_run put_ref get_refs [Put \<lparr>address = 8, accesstype = 0, rsize = 4\<rparr>, Get_batch] trace0 =
     (q', [\<lparr>address = 8, accesstype = 0, rsize = 4\<rparr>], [])" "wait_cache_thread_buf q'" "put_index q' = 1"
    by (simp add: put_ref_def get_refs_def trace0_def trace_sizes wait_cache_thread_buf_def Let_def)
  from trace_in_order [OF ok r(1)] r show ?thesis by auto
qed

end
