(* ===== verification/SET_Hash.thy ===== *)
theory SET_Hash
  imports VPMU_Config
begin

unbundle bit_operations_syntax

text \<open>
  The hash tables of the event tracer (\<^verbatim>\<open>SET/SET_event.c\<close>, \<^verbatim>\<open>SET/SET_object.c\<close>, \<^verbatim>\<open>SET/SET_kernel.c\<close>): the running
  processes by identifier, the functions of an object file by address, and the kernel functions that
  the tracer observes. All of them probe linearly, with a loop that ends at the wanted or at a free entry, and therefore
  not at all when the table is full and the key is missing.

  \<^item> The probing loop is a partial function: None is a loop that does not end, and \<open>No_return\<close> in the operations.
  \<^item> Allocation succeeds. An object file is the list of its symbols; the reader of the ELF format is a parameter.
\<close>

section \<open>Linear probing\<close>

partial_function (option) probe :: "(nat \<Rightarrow> bool) \<Rightarrow> nat \<Rightarrow> nat \<Rightarrow> nat option" where
  "probe stop n i = (if stop i then Some i else probe stop n ((i + 1) mod n))"

definition stop_at :: "('e \<Rightarrow> 'k) \<Rightarrow> (nat \<Rightarrow> 'e option) \<Rightarrow> 'k \<Rightarrow> nat \<Rightarrow> bool" where
  "stop_at key V k i = (case V i of None \<Rightarrow> True | Some e \<Rightarrow> key e = k)"

lemma probe_hit:
  assumes "i < n" and "\<And>d. d < k \<Longrightarrow> \<not> stop ((i + d) mod n)" and "stop ((i + k) mod n)"
  shows "probe stop n i = Some ((i + k) mod n)"
  using assms
proof (induction k arbitrary: i)
  case 0
  then show ?case by (simp add: probe.simps [of stop n i])
next
  case (Suc k)
  have e: "((i + 1) mod n + d) mod n = (i + Suc d) mod n" for d :: nat by (simp add: mod_add_left_eq)
  have "probe stop n ((i + 1) mod n) = Some (((i + 1) mod n + k) mod n)"
  proof (rule Suc.IH)
    show "(i + 1) mod n < n" using Suc.prems(1) by simp
    show "\<not> stop (((i + 1) mod n + d) mod n)" if "d < k" for d using Suc.prems(2) [of "Suc d"] that by (simp only: e) simp
    show "stop (((i + 1) mod n + k) mod n)" using Suc.prems(3) by (simp only: e)
  qed
  moreover have "\<not> stop i" using Suc.prems(2) [of 0] Suc.prems(1) by simp
  ultimately show ?case by (simp only: e probe.simps [of stop n i]) simp
qed

lemma probe_path:
  assumes "probe stop n i = Some j"
  shows "i < n \<longrightarrow> (\<exists>k. j = (i + k) mod n \<and> stop j \<and> (\<forall>d < k. \<not> stop ((i + d) mod n)))"
proof (rule probe.raw_induct [where P = "\<lambda>s n i j. i < n \<longrightarrow> (\<exists>k. j = (i + k) mod n \<and> s j \<and> (\<forall>d < k. \<not> s ((i + d) mod n)))", OF _ assms])
  fix f :: "(nat \<Rightarrow> bool) \<Rightarrow> nat \<Rightarrow> nat \<Rightarrow> nat option" and s and n i j :: nat
  assume IH: "\<And>s n i j. f s n i = Some j \<Longrightarrow> i < n \<longrightarrow> (\<exists>k. j = (i + k) mod n \<and> s j \<and> (\<forall>d < k. \<not> s ((i + d) mod n)))"
    and eq: "(if s i then Some i else f s n ((i + 1) mod n)) = Some j"
  show "i < n \<longrightarrow> (\<exists>k. j = (i + k) mod n \<and> s j \<and> (\<forall>d < k. \<not> s ((i + d) mod n)))"
  proof
    assume n: "i < n"
    have e: "((i + 1) mod n + d) mod n = (i + Suc d) mod n" for d :: nat by (simp add: mod_add_left_eq)
    show "\<exists>k. j = (i + k) mod n \<and> s j \<and> (\<forall>d < k. \<not> s ((i + d) mod n))"
    proof (cases "s i")
      case True
      then show ?thesis using eq n by (intro exI [of _ 0]) simp
    next
      case False
      then obtain k where k: "j = (i + Suc k) mod n" "s j" "\<forall>d < k. \<not> s ((i + Suc d) mod n)"
        using IH [of s n "(i + 1) mod n" j] eq n unfolding e by auto
      have "\<not> s ((i + d) mod n)" if "d < Suc k" for d using that False n k(3) by (cases d) auto
      then show ?thesis using k by blast
    qed
  qed
qed

lemma probe_iff:
  assumes "i < n"
  shows "probe stop n i = Some j \<longleftrightarrow> (\<exists>k. j = (i + k) mod n \<and> stop j \<and> (\<forall>d < k. \<not> stop ((i + d) mod n)))"
  using probe_path [of stop n i j] probe_hit [of i n _ stop] assms by blast

lemma probe_stops: "probe stop n i = Some j \<Longrightarrow> i < n \<Longrightarrow> j < n \<and> stop j"
  using probe_path [of stop n i j] by auto

text \<open>The loop ends exactly when some entry stops it.\<close>

lemma probe_ends:
  assumes "i < n" and "j < n" and "stop j"
  shows "\<exists>m. probe stop n i = Some m"
proof -
  have "(i + (n + j - i)) mod n = j" using assms by simp
  then have "stop ((i + (n + j - i)) mod n)" using assms by simp
  then obtain k where "stop ((i + k) mod n)" "\<forall>d < k. \<not> stop ((i + d) mod n)"
    using exists_least_iff [of "\<lambda>k. stop ((i + k) mod n)"] by blast
  then show ?thesis using probe_hit [of i n k stop] assms by blast
qed

lemma probe_diverges: "i < n \<Longrightarrow> (\<And>j. j < n \<Longrightarrow> \<not> stop j) \<Longrightarrow> probe stop n i = None"
  using probe_stops [of stop n i] by (cases "probe stop n i") auto

lemma probe_cong:
  assumes "i < n" and "probe stop n i = Some j" and "stop' j" and "\<And>m. m < n \<Longrightarrow> m \<noteq> j \<Longrightarrow> \<not> stop m \<Longrightarrow> \<not> stop' m"
  shows "probe stop' n i = Some j"
proof -
  obtain k where k: "j = (i + k) mod n" "stop j" "\<forall>d < k. \<not> stop ((i + d) mod n)"
    using assms(1,2) probe_iff by blast
  have "\<not> stop' ((i + d) mod n)" if "d < k" for d
    using assms(1) k that by (intro assms(4)) auto
  then show ?thesis using assms(1,3) k(1) probe_iff by blast
qed

section \<open>Tables that are found by their key\<close>

text \<open>A loop that does not end, as an error.\<close>

definition returned :: "'a option \<Rightarrow> 'a res" where
  "returned r = (case r of None \<Rightarrow> Inl No_return | Some x \<Rightarrow> Inr x)"

text \<open>In a table in order every entry is found where it is, and a free entry ends every search.\<close>

definition tab_ok :: "('e \<Rightarrow> 'k) \<Rightarrow> ('k \<Rightarrow> nat) \<Rightarrow> nat \<Rightarrow> (nat \<Rightarrow> 'e option) \<Rightarrow> bool" where
  "tab_ok key hash n V \<longleftrightarrow> (\<forall>i < n. \<forall>e. V i = Some e \<longrightarrow> hash (key e) < n \<and> probe (stop_at key V (key e)) n (hash (key e)) = Some i)"

definition tab_free :: "nat \<Rightarrow> (nat \<Rightarrow> 'e option) \<Rightarrow> nat" where
  "tab_free n V = card {i. i < n \<and> V i = None}"

lemma tab_free_pos: "0 < tab_free n V \<longleftrightarrow> (\<exists>i < n. V i = None)"
  unfolding tab_free_def by (subst card_gt_0_iff) auto

lemma tab_free_upd: "j < n \<Longrightarrow> V j = None \<Longrightarrow> tab_free n (V(j \<mapsto> e)) = tab_free n V - 1"
proof -
  assume "j < n" "V j = None"
  then have "{i. i < n \<and> (V(j \<mapsto> e)) i = None} = {i. i < n \<and> V i = None} - {j}" by auto
  then show ?thesis using \<open>j < n\<close> \<open>V j = None\<close> by (simp add: tab_free_def)
qed

lemma probe_total:
  assumes "0 < tab_free n V" and "hash k < n"
  shows "\<exists>j. probe (stop_at key V k) n (hash k) = Some j \<and> j < n \<and> stop_at key V k j"
proof -
  obtain i where "i < n" "V i = None" using assms(1) tab_free_pos by blast
  then have "stop_at key V k i" by (simp add: stop_at_def)
  then obtain m where m: "probe (stop_at key V k) n (hash k) = Some m"
    using probe_ends [of "hash k" n i "stop_at key V k"] assms(2) \<open>i < n\<close> by blast
  then show ?thesis using probe_stops [OF m assms(2)] by simp
qed

lemma tab_ok_stored:
  assumes "tab_ok key hash n V" and "i < n" and "V i = Some e"
  shows "probe (stop_at key V (key e)) n (hash (key e)) = Some i"
  using assms by (auto simp: tab_ok_def)

text \<open>The insertion of an entry at the free place where the search ends.\<close>

lemma tab_ok_insert:
  assumes ok: "tab_ok key hash n V" and h: "hash (key e) < n" and j: "probe (stop_at key V (key e)) n (hash (key e)) = Some j" "V j = None"
  shows "tab_ok key hash n (V(j \<mapsto> e))"
  unfolding tab_ok_def
proof (intro allI impI conjI)
  let ?W = "V(j \<mapsto> e)"
  fix i f assume i: "i < n" "?W i = Some f"
  show "hash (key f) < n" using i ok h by (auto simp: tab_ok_def split: if_splits)
  show "probe (stop_at key ?W (key f)) n (hash (key f)) = Some i"
  proof (cases "i = j")
    case True
    then have f: "f = e" using i by simp
    show ?thesis unfolding f True
      by (rule probe_cong [OF h j(1)]) (auto simp: stop_at_def split: option.splits)
  next
    case False
    then have s: "V i = Some f" using i by simp
    show ?thesis
    proof (rule probe_cong [OF _ tab_ok_stored [OF ok i(1) s]])
      show "hash (key f) < n" using ok i(1) s by (auto simp: tab_ok_def)
      show "stop_at key ?W (key f) i" using False s by (simp add: stop_at_def)
      show "\<not> stop_at key ?W (key f) m" if "m < n" "m \<noteq> i" "\<not> stop_at key V (key f) m" for m
        using that j(2) by (cases "m = j") (auto simp: stop_at_def)
    qed
  qed
qed

text \<open>What a search finds is independent of the place: the entry with the key, if there is one.\<close>

definition tab_find :: "('e \<Rightarrow> 'k) \<Rightarrow> ('k \<Rightarrow> nat) \<Rightarrow> nat \<Rightarrow> (nat \<Rightarrow> 'e option) \<Rightarrow> 'k \<Rightarrow> 'e option res" where
  "tab_find key hash n V k = bind_res (returned (probe (stop_at key V k) n (hash k))) (\<lambda>i. Inr (V i))"

definition tab_insert :: "('e \<Rightarrow> 'k) \<Rightarrow> ('k \<Rightarrow> nat) \<Rightarrow> nat \<Rightarrow> 'e \<Rightarrow> (nat \<Rightarrow> 'e option) \<Rightarrow> (nat \<Rightarrow> 'e option) res" where
  "tab_insert key hash n e V = bind_res (returned (probe (stop_at key V (key e)) n (hash (key e)))) (\<lambda>i.
     Inr (if V i = None then V(i \<mapsto> e) else V))"

text \<open>The contents of a table: the entry for a key, if there is one.\<close>

definition tab_has :: "('e \<Rightarrow> 'k) \<Rightarrow> nat \<Rightarrow> (nat \<Rightarrow> 'e option) \<Rightarrow> 'k \<Rightarrow> 'e option \<Rightarrow> bool" where
  "tab_has key n V k r = (case r of None \<Rightarrow> (\<forall>i < n. \<forall>e. V i = Some e \<longrightarrow> key e \<noteq> k)
     | Some e \<Rightarrow> key e = k \<and> (\<exists>i < n. V i = Some e))"

lemma tab_has_unique:
  assumes "tab_ok key hash n V" and "tab_has key n V k r" and "tab_has key n V k s"
  shows "r = s"
proof (cases "r = None \<or> s = None")
  case True
  then show ?thesis using assms(2,3) by (auto simp: tab_has_def split: option.splits)
next
  case False
  then obtain e f i j where e: "r = Some e" "s = Some f" "key e = k" "key f = k" "i < n" "j < n" "V i = Some e" "V j = Some f"
    using assms(2,3) by (auto simp: tab_has_def)
  have "i = j" using tab_ok_stored [OF assms(1) e(5,7)] tab_ok_stored [OF assms(1) e(6,8)] e(3,4) by simp
  then show ?thesis using e by simp
qed

lemma tab_find_has:
  assumes "tab_ok key hash n V" and "0 < tab_free n V" and "hash k < n"
  shows "\<exists>r. tab_find key hash n V k = Inr r \<and> tab_has key n V k r"
proof -
  obtain j where j: "probe (stop_at key V k) n (hash k) = Some j" "j < n" "stop_at key V k j"
    using probe_total [of n V hash k key] assms(2,3) by blast
  have "key e \<noteq> k" if "V j = None" "i < n" "V i = Some e" for i e
    using tab_ok_stored [OF assms(1) that(2,3)] j(1) that(1,3) by auto
  then have "tab_has key n V k (V j)" using j by (auto simp: tab_has_def stop_at_def split: option.splits)
  then show ?thesis using j by (simp add: tab_find_def returned_def)
qed

lemma tab_find_iff:
  assumes "tab_ok key hash n V" and "0 < tab_free n V" and "hash k < n"
  shows "tab_find key hash n V k = Inr r \<longleftrightarrow> tab_has key n V k r"
proof -
  obtain s where "tab_find key hash n V k = Inr s" "tab_has key n V k s"
    using tab_find_has [of key hash n V k] assms by blast
  then show ?thesis using tab_has_unique [OF assms(1)] by auto
qed

lemma tab_insert_eq:
  assumes ok: "tab_ok key hash n V" and fr: "0 < tab_free n V" and h: "hash (key e) < n"
  shows "\<exists>W. tab_insert key hash n e V = Inr W \<and> tab_ok key hash n W \<and> tab_free n V \<le> tab_free n W + 1 \<and>
    (W = V \<and> (\<exists>f. tab_has key n V (key e) (Some f)) \<or>
     tab_has key n V (key e) None \<and> (\<exists>j < n. V j = None \<and> W = V(j \<mapsto> e)))"
proof -
  obtain j where j: "probe (stop_at key V (key e)) n (hash (key e)) = Some j" "j < n"
    using probe_total [of n V hash "key e" key] fr h by blast
  have has: "tab_has key n V (key e) (V j)"
    using tab_find_iff [OF ok fr, of "key e" "V j"] h j(1) by (simp add: tab_find_def returned_def)
  show ?thesis
  proof (cases "V j")
    case None
    then show ?thesis
      using j has tab_ok_insert [OF ok h j(1) None] tab_free_upd [of j n V e]
      by (auto simp: tab_insert_def returned_def simp del: fun_upd_apply)
  next
    case (Some f)
    then show ?thesis using j ok has by (auto simp: tab_insert_def returned_def)
  qed
qed

lemma tab_has_upd:
  assumes "tab_has key n V (key e) None" and "tab_has key n V k r" and "j < n" and "V j = None"
  shows "tab_has key n (V(j \<mapsto> e)) k (if k = key e then Some e else r)"
proof (cases "r = None \<or> k = key e")
  case True
  then show ?thesis using assms by (auto simp: tab_has_def)
next
  case False
  then obtain f i where f: "r = Some f" "key f = k" "i < n" "V i = Some f" using assms(2) by (auto simp: tab_has_def)
  then have "(V(j \<mapsto> e)) i = Some f" using assms(4) by auto
  then show ?thesis using f False by (auto simp: tab_has_def simp del: fun_upd_apply)
qed

lemma tab_find_insert:
  assumes ok: "tab_ok key hash n V" and fr: "1 < tab_free n V" and h: "hash (key e) < n"
  shows "\<exists>W. tab_insert key hash n e V = Inr W \<and> tab_ok key hash n W \<and> tab_free n V \<le> tab_free n W + 1 \<and>
    (\<forall>k. hash k < n \<longrightarrow> tab_find key hash n W k =
      (if k = key e \<and> tab_find key hash n V k = Inr None then Inr (Some e) else tab_find key hash n V k))"
proof -
  have fr0: "0 < tab_free n V" using fr by simp
  obtain W where W: "tab_insert key hash n e V = Inr W" "tab_ok key hash n W" "tab_free n V \<le> tab_free n W + 1"
      "W = V \<and> (\<exists>f. tab_has key n V (key e) (Some f)) \<or> tab_has key n V (key e) None \<and> (\<exists>j < n. V j = None \<and> W = V(j \<mapsto> e))"
    using tab_insert_eq [OF ok fr0, of e] h by blast
  have frW: "0 < tab_free n W" using fr W(3) by simp
  have "tab_find key hash n W k = (if k = key e \<and> tab_find key hash n V k = Inr None then Inr (Some e) else tab_find key hash n V k)"
    if k: "hash k < n" for k
  proof -
    obtain r where r: "tab_find key hash n V k = Inr r" "tab_has key n V k r" using tab_find_has [of key hash n V k] ok fr0 k by blast
    from W(4) show ?thesis
    proof
      assume old: "W = V \<and> (\<exists>f. tab_has key n V (key e) (Some f))"
      then obtain f where "tab_has key n V (key e) (Some f)" by blast
      then have "k = key e \<Longrightarrow> r = Some f" using tab_has_unique [OF ok r(2)] by blast
      then show ?thesis using old r(1) by auto
    next
      assume new: "tab_has key n V (key e) None \<and> (\<exists>j < n. V j = None \<and> W = V(j \<mapsto> e))"
      then have "tab_has key n W k (if k = key e then Some e else r)" using tab_has_upd [of key n V e k r] r(2) by blast
      then have "tab_find key hash n W k = Inr (if k = key e then Some e else r)" using tab_find_iff [OF W(2) frW, of k] k by blast
      moreover have "k = key e \<Longrightarrow> r = None" using tab_has_unique [OF ok r(2)] new by blast
      ultimately show ?thesis using r(1) by auto
    qed
  qed
  then show ?thesis using W by blast
qed

text \<open>
  What the tracer relies on: searches end, and an entry is found after its insertion under a key that was free, while
  all other searches give what they gave before.
\<close>

locale key_table =
  fixes ok :: "'t \<Rightarrow> bool" and free :: "'t \<Rightarrow> nat" and valid :: "'k \<Rightarrow> bool" and key :: "'e \<Rightarrow> 'k"
    and look :: "'k \<Rightarrow> 't \<Rightarrow> 'e option res" and put :: "'e \<Rightarrow> 't \<Rightarrow> 't res"
  assumes look_ends: "ok t \<Longrightarrow> 0 < free t \<Longrightarrow> valid k \<Longrightarrow> \<exists>r. look k t = Inr r"
    and put_look: "ok t \<Longrightarrow> 1 < free t \<Longrightarrow> valid (key e) \<Longrightarrow> \<exists>t'. put e t = Inr t' \<and> ok t' \<and> free t \<le> free t' + 1 \<and>
      (\<forall>k. valid k \<longrightarrow> look k t' = (if k = key e \<and> look k t = Inr None then Inr (Some e) else look k t))"
begin

text \<open>Of several entries with one key the first one stays.\<close>

lemma put_entries:
  assumes "ok t" and "length es < free t" and "\<forall>e \<in> set es. valid (key e)"
  shows "\<exists>t'. fold_res put es t = Inr t' \<and> ok t' \<and> free t \<le> free t' + length es \<and>
    (\<forall>k. valid k \<longrightarrow> look k t' = bind_res (look k t) (\<lambda>r. Inr (case r of None \<Rightarrow> find (\<lambda>e. key e = k) es | Some e \<Rightarrow> Some e)))"
  using assms
proof (induction es arbitrary: t)
  case Nil
  have "look k t = bind_res (look k t) (\<lambda>r. Inr (case r of None \<Rightarrow> find (\<lambda>e. key e = k) [] | Some e \<Rightarrow> Some e))" for k
    by (cases "look k t") (auto split: option.splits)
  then show ?case using Nil.prems by (auto simp del: find.simps)
next
  case (Cons e es)
  obtain t1 where t1: "put e t = Inr t1" "ok t1" "free t \<le> free t1 + 1"
      "\<And>k. valid k \<Longrightarrow> look k t1 = (if k = key e \<and> look k t = Inr None then Inr (Some e) else look k t)"
    using put_look [of t e] Cons.prems by auto
  obtain t2 where t2: "fold_res put es t1 = Inr t2" "ok t2" "free t1 \<le> free t2 + length es"
      "\<And>k. valid k \<Longrightarrow> look k t2 = bind_res (look k t1) (\<lambda>r. Inr (case r of None \<Rightarrow> find (\<lambda>e. key e = k) es | Some e \<Rightarrow> Some e))"
    using Cons.IH [OF t1(2)] Cons.prems t1(3) by auto
  have "look k t2 = bind_res (look k t) (\<lambda>r. Inr (case r of None \<Rightarrow> find (\<lambda>e. key e = k) (e # es) | Some e \<Rightarrow> Some e))"
    if k: "valid k" for k
  proof -
    obtain r where "look k t = Inr r" using look_ends [of t k] Cons.prems(1,2) k by auto
    then show ?thesis using t2(4) [OF k] t1(4) [OF k] by (cases r) auto
  qed
  then show ?case using t1 t2 by auto
qed

end

section \<open>Running processes\<close>

text \<open>
  A process is its identifier in the guest and a number that stands for the address of its record. \<open>hash_pos\<close> remembers
  for each record the place in the table.
\<close>

definition PROC_HASH_TABLE_SIZE :: nat where "PROC_HASH_TABLE_SIZE = 32749"

record tproc =
  pid :: int
  proc_ref :: nat

record ptable =
  procHashTable :: "nat \<Rightarrow> tproc option"
  hash_pos :: "nat \<Rightarrow> nat option"

definition pid_hash :: "int \<Rightarrow> nat" where
  "pid_hash p = nat (p mod int PROC_HASH_TABLE_SIZE)"

text \<open>A negative identifier has a negative remainder in C, which is no index of the table.\<close>

definition proc_slot :: "int \<Rightarrow> ptable \<Rightarrow> nat res" where
  "proc_slot p t = (if p < 0 then Inl Out_of_bounds
     else returned (probe (stop_at pid (procHashTable t) p) PROC_HASH_TABLE_SIZE (pid_hash p)))"

definition proc_insert :: "tproc \<Rightarrow> ptable \<Rightarrow> ptable res" where
  "proc_insert process t = bind_res (proc_slot (pid process) t) (\<lambda>i.
     Inr (if procHashTable t i = None
       then t\<lparr>procHashTable := (procHashTable t)(i \<mapsto> process), hash_pos := (hash_pos t)(proc_ref process \<mapsto> i)\<rparr>
       else t))"

definition proc_find :: "int \<Rightarrow> ptable \<Rightarrow> tproc option res" where
  "proc_find p t = bind_res (proc_slot p t) (\<lambda>i. Inr (procHashTable t i))"

text \<open>The entry of an exiting process is freed in place.\<close>

definition proc_clear :: "nat \<Rightarrow> ptable \<Rightarrow> ptable res" where
  "proc_clear r t = (case hash_pos t r of None \<Rightarrow> Inl Undefined
     | Some i \<Rightarrow> Inr (t\<lparr>procHashTable := (procHashTable t)(i := None)\<rparr>))"

definition ptable0 :: ptable where
  "ptable0 = \<lparr>procHashTable = \<lambda>_. None, hash_pos = \<lambda>_. None\<rparr>"

abbreviation proc_ok :: "ptable \<Rightarrow> bool" where
  "proc_ok t \<equiv> tab_ok pid pid_hash PROC_HASH_TABLE_SIZE (procHashTable t)"

abbreviation proc_free :: "ptable \<Rightarrow> nat" where
  "proc_free t \<equiv> tab_free PROC_HASH_TABLE_SIZE (procHashTable t)"

lemma pid_hash_less: "pid_hash p < PROC_HASH_TABLE_SIZE"
  by (simp add: pid_hash_def PROC_HASH_TABLE_SIZE_def nat_less_iff)

lemma proc_find_tab: "0 \<le> p \<Longrightarrow> proc_find p t = tab_find pid pid_hash PROC_HASH_TABLE_SIZE (procHashTable t) p"
  by (simp add: proc_find_def proc_slot_def tab_find_def)

lemma proc_insert_tab:
  assumes "0 \<le> pid e" and "tab_insert pid pid_hash PROC_HASH_TABLE_SIZE e (procHashTable t) = Inr W"
  shows "\<exists>t'. proc_insert e t = Inr t' \<and> procHashTable t' = W"
proof -
  obtain i where "proc_slot (pid e) t = Inr i" "W = (if procHashTable t i = None then (procHashTable t)(i \<mapsto> e) else procHashTable t)"
    using assms by (auto simp: proc_slot_def tab_insert_def)
  then show ?thesis by (simp add: proc_insert_def)
qed

interpretation procs: key_table proc_ok proc_free "\<lambda>p. 0 \<le> p" pid proc_find proc_insert
proof unfold_locales
  fix t :: ptable and k :: int
  assume "proc_ok t" "0 < proc_free t" "0 \<le> k"
  then show "\<exists>r. proc_find k t = Inr r"
    using tab_find_has [of pid pid_hash PROC_HASH_TABLE_SIZE "procHashTable t" k] pid_hash_less by (auto simp: proc_find_tab)
next
  fix t :: ptable and e :: tproc
  assume a: "proc_ok t" "1 < proc_free t" "0 \<le> pid e"
  then obtain W where W: "tab_insert pid pid_hash PROC_HASH_TABLE_SIZE e (procHashTable t) = Inr W"
      "tab_ok pid pid_hash PROC_HASH_TABLE_SIZE W" "proc_free t \<le> tab_free PROC_HASH_TABLE_SIZE W + 1"
      "\<forall>k. tab_find pid pid_hash PROC_HASH_TABLE_SIZE W k = (if k = pid e \<and> tab_find pid pid_hash PROC_HASH_TABLE_SIZE (procHashTable t) k = Inr None
        then Inr (Some e) else tab_find pid pid_hash PROC_HASH_TABLE_SIZE (procHashTable t) k)"
    using tab_find_insert [of pid pid_hash PROC_HASH_TABLE_SIZE "procHashTable t" e] pid_hash_less by auto
  obtain t' where t': "proc_insert e t = Inr t'" "procHashTable t' = W" using proc_insert_tab [OF a(3) W(1)] by blast
  show "\<exists>t'. proc_insert e t = Inr t' \<and> proc_ok t' \<and> proc_free t \<le> proc_free t' + 1 \<and>
      (\<forall>k. 0 \<le> k \<longrightarrow> proc_find k t' = (if k = pid e \<and> proc_find k t = Inr None then Inr (Some e) else proc_find k t))"
    using t' W by (auto simp: proc_find_tab)
qed

lemma ptable0_ok: "proc_ok ptable0" "proc_free ptable0 = PROC_HASH_TABLE_SIZE" "0 \<le> p \<Longrightarrow> proc_find p ptable0 = Inr None"
  by (simp_all add: ptable0_def tab_ok_def tab_free_def proc_find_def proc_slot_def probe.simps stop_at_def returned_def)

text \<open>
  Property C33. The table of running processes finds them: after the processes \<open>ps\<close>, fewer than the table has entries, have been
  inserted, a search ends for every identifier and gives the first process inserted under it, or none.
\<close>

theorem proc_table_finds:
  assumes "length ps < PROC_HASH_TABLE_SIZE" and "\<forall>p \<in> set ps. 0 \<le> pid p" and "0 \<le> k"
  shows "\<exists>t. fold_res proc_insert ps ptable0 = Inr t \<and> proc_find k t = Inr (find (\<lambda>p. pid p = k) ps)"
  using procs.put_entries [OF ptable0_ok(1), of ps] assms ptable0_ok(2,3) by auto

theorem proc_table_finds_witness:
  "\<exists>t. fold_res proc_insert [\<lparr>pid = 5, proc_ref = 0\<rparr>, \<lparr>pid = 32754, proc_ref = 1\<rparr>] ptable0 = Inr t \<and>
    proc_find 32754 t = Inr (Some \<lparr>pid = 32754, proc_ref = 1\<rparr>)"
  using proc_table_finds [of "[\<lparr>pid = 5, proc_ref = 0\<rparr>, \<lparr>pid = 32754, proc_ref = 1\<rparr>]" 32754] by (simp add: PROC_HASH_TABLE_SIZE_def)

text \<open>
  The exit of a process breaks the searches that passed its entry: of two processes with the same
  remainder, the second is not found any more after the first has ended.
\<close>

lemma exit_loses_process:
  assumes "0 \<le> pid a" and "0 \<le> pid b" and "pid a \<noteq> pid b" and "pid_hash (pid a) = pid_hash (pid b)" and "proc_ref a \<noteq> proc_ref b"
  shows "bind_res (fold_res proc_insert [a, b] ptable0) (\<lambda>t. bind_res (proc_find (pid b) t) (\<lambda>x.
    bind_res (proc_clear (proc_ref a) t) (\<lambda>t. bind_res (proc_find (pid b) t) (\<lambda>y. Inr (x, y))))) = Inr (Some b, None)"
proof -
  let ?h = "pid_hash (pid a)" let ?N = PROC_HASH_TABLE_SIZE
  let ?V = "[?h \<mapsto> a]" let ?j = "Suc ?h mod ?N"
  let ?W = "?V(?j \<mapsto> b)"
  have h: "?h < ?N" by (rule pid_hash_less)
  have ne: "?j \<noteq> ?h" "?h \<noteq> ?j" using h by (auto simp: PROC_HASH_TABLE_SIZE_def mod_Suc)
  have 1: "proc_insert a ptable0 = Inr \<lparr>procHashTable = ?V, hash_pos = [proc_ref a \<mapsto> ?h]\<rparr>"
    using assms(1) by (simp add: proc_insert_def proc_slot_def ptable0_def probe.simps stop_at_def returned_def)
  have p: "probe (stop_at pid ?V (pid b)) ?N ?h = Some ?j" "probe (stop_at pid ?W (pid b)) ?N ?h = Some ?j"
    using assms(3) ne by (simp_all add: probe.simps [of _ _ ?h] probe.simps [of _ _ ?j] stop_at_def)
  have 2: "proc_insert b \<lparr>procHashTable = ?V, hash_pos = [proc_ref a \<mapsto> ?h]\<rparr> =
      Inr \<lparr>procHashTable = ?W, hash_pos = [proc_ref a \<mapsto> ?h, proc_ref b \<mapsto> ?j]\<rparr>"
    using assms(2,4) ne p(1) by (simp add: proc_insert_def proc_slot_def returned_def)
  have 3: "proc_find (pid b) \<lparr>procHashTable = ?W, hash_pos = H\<rparr> = Inr (Some b)" for H
    using assms(2,4) p(2) by (simp add: proc_find_def proc_slot_def returned_def)
  have "probe (stop_at pid (?W(?h := None)) (pid b)) ?N ?h = Some ?h" by (simp add: probe.simps [of _ _ ?h] stop_at_def)
  then have 4: "proc_find (pid b) \<lparr>procHashTable = ?W(?h := None), hash_pos = H\<rparr> = Inr None" for H
    using assms(2) by (simp add: proc_find_def proc_slot_def returned_def assms(4) [symmetric])
  show ?thesis using 3 4 assms(5) by (simp add: 1 2 proc_clear_def)
qed

section \<open>Functions of an object file\<close>

definition STT_FUNC :: u8 where "STT_FUNC = 2"
definition STV_DEFAULT :: u8 where "STV_DEFAULT = 0"
definition THUMB_INSN_MASK :: u32 where "THUMB_INSN_MASK = 0xfffffffe"
definition TARGET_PAGE_BITS :: nat where "TARGET_PAGE_BITS = 10"

record sym =
  st_name :: string
  st_value :: u32
  st_size :: u32
  st_info :: u8
  st_other :: u8
  st_shndx :: "16 word"

record elf =
  elf_dyn :: bool
  symtab :: "sym list"

definition IS_FUNC :: "sym \<Rightarrow> bool" where
  "IS_FUNC s \<longleftrightarrow> st_info s AND 0xf = STT_FUNC \<and> st_other s AND 3 = STV_DEFAULT \<and> st_shndx s \<noteq> 0"

record Func =
  addr :: u32
  symtabFuncIdx :: u32

record ftable =
  funcTable :: "nat \<Rightarrow> Func"
  funcTableSize :: nat

record ObjFile = ftable +
  obj_id :: "16 word"
  obj_path :: string
  text_start :: u32
  text_end :: u32
  obj_count :: int

definition HashTableSize :: "nat list" where
  "HashTableSize = [1, 13, 61, 127, 509, 1021, 2039, 4093, 8191, 16381, 32749, 65521, 131071, 262139, 524287, 1048573] @ replicate 16 0"

definition HASH :: "u32 \<Rightarrow> nat \<Rightarrow> nat" where
  "HASH a n = unat (drop_bit 2 a) mod n"

text \<open>The search loop of the insertion and of the branch events: up to the address or an entry with address 0.\<close>

definition func_slot :: "u32 \<Rightarrow> 'a ftable_scheme \<Rightarrow> nat res" where
  "func_slot a f = (if funcTableSize f = 0 then Inl Undefined
     else returned (probe (\<lambda>i. addr (funcTable f i) = 0 \<or> addr (funcTable f i) = a) (funcTableSize f) (HASH a (funcTableSize f))))"

definition func_find :: "u32 \<Rightarrow> 'a ftable_scheme \<Rightarrow> Func option res" where
  "func_find a f = bind_res (func_slot a f) (\<lambda>i. Inr (if addr (funcTable f i) = 0 then None else Some (funcTable f i)))"

definition func_insert :: "Func \<Rightarrow> ftable \<Rightarrow> ftable res" where
  "func_insert e f = bind_res (func_slot (addr e) f) (\<lambda>i.
     Inr (if addr (funcTable f i) \<noteq> addr e then f\<lparr>funcTable := (funcTable f)(i := e)\<rparr> else f))"

text \<open>The second pass over the symbols: the table, the next index and the bounds of the text section.\<close>

record obj_build =
  b_table :: ftable
  b_idx :: u32
  b_min :: u32
  b_max :: u32

definition add_func :: "u32 \<Rightarrow> sym \<Rightarrow> obj_build \<Rightarrow> obj_build res" where
  "add_func vaddr_off s b = (if IS_FUNC s then
       let vaddr = (st_value s AND THUMB_INSN_MASK) + vaddr_off in
       bind_res (func_slot vaddr (b_table b)) (\<lambda>i.
         if addr (funcTable (b_table b) i) \<noteq> vaddr then
           Inr \<lparr>b_table = (b_table b)\<lparr>funcTable := (funcTable (b_table b))(i := \<lparr>addr = vaddr, symtabFuncIdx = b_idx b\<rparr>)\<rparr>,
             b_idx = b_idx b + 1, b_min = (if vaddr < b_min b then vaddr else b_min b),
             b_max = (if vaddr + st_size s > b_max b then vaddr + st_size s else b_max b)\<rparr>
         else Inr b)
     else Inr b)"

definition SET_create_obj :: "(string \<Rightarrow> elf option) \<Rightarrow> string \<Rightarrow> u32 \<Rightarrow> u32 \<Rightarrow> u32 \<Rightarrow> 16 word \<Rightarrow> (ObjFile option \<times> 16 word) res" where
  "SET_create_obj efd_open_elf path start stop pgoff current_id =
     (case efd_open_elf path of None \<Rightarrow> Inr (None, current_id)
      | Some efd \<Rightarrow>
        let funcs = length (filter IS_FUNC (symtab efd)) in
        if funcs = 0 then Inr (None, current_id)
        else let n = HashTableSize ! nat (clog2_nat funcs);
            vaddr_off = (if elf_dyn efd then start - push_bit TARGET_PAGE_BITS pgoff else 0) in
          bind_res (fold_res (add_func vaddr_off) (symtab efd)
            \<lparr>b_table = \<lparr>funcTable = \<lambda>_. \<lparr>addr = 0, symtabFuncIdx = 0\<rparr>, funcTableSize = n\<rparr>, b_idx = 0, b_min = 0xc0000000, b_max = 0\<rparr>) (\<lambda>b.
          Inr (Some \<lparr>funcTable = funcTable (b_table b), funcTableSize = n, obj_id = current_id, obj_path = path,
            text_start = b_min b, text_end = b_max b, obj_count = 0\<rparr>, current_id + 1)))"

text \<open>An entry with address 0 is free.\<close>

definition fview :: "'a ftable_scheme \<Rightarrow> nat \<Rightarrow> Func option" where
  "fview f i = (if addr (funcTable f i) = 0 then None else Some (funcTable f i))"

definition func_ok :: "'a ftable_scheme \<Rightarrow> bool" where
  "func_ok f \<longleftrightarrow> 0 < funcTableSize f \<and> tab_ok addr (\<lambda>a. HASH a (funcTableSize f)) (funcTableSize f) (fview f)"

abbreviation func_free :: "'a ftable_scheme \<Rightarrow> nat" where
  "func_free f \<equiv> tab_free (funcTableSize f) (fview f)"

lemma HASH_less: "0 < n \<Longrightarrow> HASH a n < n"
  by (simp add: HASH_def)

lemma func_slot_probe:
  "0 < funcTableSize f \<Longrightarrow> func_slot a f = returned (probe (stop_at addr (fview f) a) (funcTableSize f) (HASH a (funcTableSize f)))"
proof -
  have "(\<lambda>i. addr (funcTable f i) = 0 \<or> addr (funcTable f i) = a) = stop_at addr (fview f) a"
    by (auto simp: stop_at_def fview_def fun_eq_iff)
  then show "0 < funcTableSize f \<Longrightarrow> ?thesis" by (simp add: func_slot_def)
qed

lemma func_find_tab:
  "0 < funcTableSize f \<Longrightarrow> func_find a f = tab_find addr (\<lambda>a. HASH a (funcTableSize f)) (funcTableSize f) (fview f) a"
  by (simp add: func_find_def func_slot_probe tab_find_def fview_def)

lemma func_slot_stops:
  assumes "0 < funcTableSize f" and "func_slot a f = Inr i"
  shows "addr (funcTable f i) = 0 \<or> addr (funcTable f i) = a"
proof -
  have "probe (stop_at addr (fview f) a) (funcTableSize f) (HASH a (funcTableSize f)) = Some i"
    using assms by (simp add: func_slot_probe returned_def split: option.splits)
  then have "stop_at addr (fview f) a i" using probe_stops HASH_less assms(1) by blast
  then show ?thesis by (auto simp: stop_at_def fview_def split: if_splits)
qed

lemma func_insert_tab:
  assumes "0 < funcTableSize f" and "addr e \<noteq> 0"
    and "tab_insert addr (\<lambda>a. HASH a (funcTableSize f)) (funcTableSize f) e (fview f) = Inr W"
  shows "\<exists>f'. func_insert e f = Inr f' \<and> funcTableSize f' = funcTableSize f \<and> fview f' = W"
proof -
  obtain i where i: "func_slot (addr e) f = Inr i" "W = (if fview f i = None then (fview f)(i \<mapsto> e) else fview f)"
    using assms by (auto simp: func_slot_probe tab_insert_def)
  have s: "addr (funcTable f i) \<noteq> addr e \<longleftrightarrow> fview f i = None"
    using func_slot_stops [OF assms(1) i(1)] assms(2) by (auto simp: fview_def)
  show ?thesis
  proof (cases "fview f i = None")
    case True
    then show ?thesis using i s assms(2) by (auto simp: func_insert_def fview_def fun_eq_iff)
  next
    case False
    then show ?thesis using i s by (auto simp: func_insert_def)
  qed
qed

interpretation funcs: key_table func_ok func_free "\<lambda>a. a \<noteq> 0" addr func_find func_insert
proof unfold_locales
  fix t :: ftable and k :: u32
  assume "func_ok t" "0 < func_free t" "k \<noteq> 0"
  then show "\<exists>r. func_find k t = Inr r"
    using tab_find_has [of addr "\<lambda>a. HASH a (funcTableSize t)" "funcTableSize t" "fview t" k] HASH_less
    by (auto simp: func_ok_def func_find_tab)
next
  fix t :: ftable and e :: Func
  assume a: "func_ok t" "1 < func_free t" "addr e \<noteq> 0"
  let ?h = "\<lambda>a. HASH a (funcTableSize t)"
  have n: "0 < funcTableSize t" using a(1) by (simp add: func_ok_def)
  obtain W where W: "tab_insert addr ?h (funcTableSize t) e (fview t) = Inr W" "tab_ok addr ?h (funcTableSize t) W"
      "func_free t \<le> tab_free (funcTableSize t) W + 1"
      "\<forall>k. ?h k < funcTableSize t \<longrightarrow> tab_find addr ?h (funcTableSize t) W k =
        (if k = addr e \<and> tab_find addr ?h (funcTableSize t) (fview t) k = Inr None then Inr (Some e) else tab_find addr ?h (funcTableSize t) (fview t) k)"
    using tab_find_insert [of addr ?h "funcTableSize t" "fview t" e] a HASH_less [OF n] by (auto simp: func_ok_def)
  obtain t' where t': "func_insert e t = Inr t'" "funcTableSize t' = funcTableSize t" "fview t' = W"
    using func_insert_tab [OF n a(3) W(1)] by blast
  show "\<exists>t'. func_insert e t = Inr t' \<and> func_ok t' \<and> func_free t \<le> func_free t' + 1 \<and>
      (\<forall>k. k \<noteq> 0 \<longrightarrow> func_find k t' = (if k = addr e \<and> func_find k t = Inr None then Inr (Some e) else func_find k t))"
    using t' W n HASH_less [OF n] by (auto simp: func_ok_def func_find_tab)
qed

text \<open>
  The specification: a function is found under its address, with the number of different addresses that
  come before it in the symbol table.
\<close>

definition func_of :: "u32 list \<Rightarrow> u32 \<Rightarrow> Func option" where
  "func_of xs a = (if a \<in> set xs then Some \<lparr>addr = a, symtabFuncIdx = of_nat (card (set (takeWhile (\<lambda>x. x \<noteq> a) xs)))\<rparr> else None)"

definition func_addrs :: "u32 \<Rightarrow> sym list \<Rightarrow> u32 list" where
  "func_addrs off ss = filter (\<lambda>a. a \<noteq> 0) (map (\<lambda>s. (st_value s AND THUMB_INSN_MASK) + off) (filter IS_FUNC ss))"

lemma func_of_snoc:
  "func_of (xs @ [a]) k = (if k = a \<and> k \<notin> set xs then Some \<lparr>addr = a, symtabFuncIdx = of_nat (card (set xs))\<rparr> else func_of xs k)"
proof (cases "k \<in> set xs")
  case False
  then have "takeWhile (\<lambda>x. x \<noteq> k) xs = xs" by (auto simp: takeWhile_eq_all_conv)
  then show ?thesis using False by (auto simp: func_of_def)
qed (simp add: func_of_def)

definition build_inv :: "nat \<Rightarrow> u32 list \<Rightarrow> obj_build \<Rightarrow> bool" where
  "build_inv n xs b \<longleftrightarrow> func_ok (b_table b) \<and> funcTableSize (b_table b) = n \<and> n \<le> func_free (b_table b) + card (set xs) \<and>
     b_idx b = of_nat (card (set xs)) \<and> (\<forall>a. a \<noteq> 0 \<longrightarrow> func_find a (b_table b) = Inr (func_of xs a))"

lemma add_func_inv:
  assumes inv: "build_inv n xs b" and room: "card (set xs) + 1 < n"
  shows "\<exists>b'. add_func off s b = Inr b' \<and> build_inv n (xs @ func_addrs off [s]) b'"
proof (cases "IS_FUNC s")
  case False
  then show ?thesis using inv by (simp add: add_func_def func_addrs_def)
next
  case F: True
  define a where "a = (st_value s AND THUMB_INSN_MASK) + off"
  let ?t = "b_table b"
  have t: "func_ok ?t" "1 < func_free ?t" "0 < funcTableSize ?t" using inv room by (auto simp: build_inv_def func_ok_def)
  obtain i where i: "func_slot a ?t = Inr i"
    using probe_total [of "funcTableSize ?t" "fview ?t" "\<lambda>a. HASH a (funcTableSize ?t)" a addr] t HASH_less [OF t(3)]
    by (auto simp: func_slot_probe returned_def)
  note stops = func_slot_stops [OF t(3) i]
  show ?thesis
  proof (cases "a = 0 \<or> a \<in> set xs")
    case True
    have "addr (funcTable ?t i) = a"
      using True stops inv i by (auto simp: build_inv_def func_find_def func_of_def split: if_splits)
    moreover have "build_inv n (xs @ func_addrs off [s]) b"
      using True inv by (auto simp: func_addrs_def a_def [symmetric] F build_inv_def func_of_snoc insert_absorb)
    ultimately show ?thesis using F i by (simp add: add_func_def a_def [symmetric] Let_def)
  next
    case False
    let ?e = "\<lparr>addr = a, symtabFuncIdx = b_idx b\<rparr>"
    obtain t' where t': "func_insert ?e ?t = Inr t'" "func_ok t'" "func_free ?t \<le> func_free t' + 1"
        "\<And>k. k \<noteq> 0 \<Longrightarrow> func_find k t' = (if k = a \<and> func_find k ?t = Inr None then Inr (Some ?e) else func_find k ?t)"
      using funcs.put_look [OF t(1,2), of ?e] False by auto
    have new: "addr (funcTable ?t i) \<noteq> a" using False inv i by (auto simp: build_inv_def func_find_def func_of_def split: if_splits)
    then have t'_eq: "t' = ?t\<lparr>funcTable := (funcTable ?t)(i := ?e)\<rparr>" using t'(1) i by (simp add: func_insert_def)
    obtain b' where b': "add_func off s b = Inr b'" "b_table b' = t'" "b_idx b' = b_idx b + 1"
      using F i new by (simp add: add_func_def a_def [symmetric] Let_def t'_eq)
    have none: "func_of xs a = None" using False by (simp add: func_of_def)
    have look: "func_find k t' = Inr (func_of (xs @ [a]) k)" if "k \<noteq> 0" for k
      using inv that t'(4) [OF that] none False by (auto simp: build_inv_def func_of_snoc)
    have "funcTableSize t' = n" using inv by (simp add: t'_eq build_inv_def)
    then have "build_inv n (xs @ [a]) b'"
      using inv t'(2,3) b'(2,3) False look by (auto simp: build_inv_def)
    then show ?thesis using b'(1) False F by (simp add: func_addrs_def a_def [symmetric])
  qed
qed

lemma add_funcs_inv:
  "build_inv n xs b \<Longrightarrow> card (set xs) + length (filter IS_FUNC ss) < n \<Longrightarrow>
    \<exists>b'. fold_res (add_func off) ss b = Inr b' \<and> build_inv n (xs @ func_addrs off ss) b'"
proof (induction ss arbitrary: xs b)
  case Nil
  then show ?case by (simp add: func_addrs_def)
next
  case (Cons s ss)
  show ?case
  proof (cases "IS_FUNC s")
    case False
    then show ?thesis using Cons.IH [OF Cons.prems(1)] Cons.prems(2) by (simp add: add_func_def func_addrs_def)
  next
    case True
    then obtain b1 where b1: "add_func off s b = Inr b1" "build_inv n (xs @ func_addrs off [s]) b1"
      using add_func_inv [OF Cons.prems(1), of off s] Cons.prems(2) by auto
    have "card (set (xs @ func_addrs off [s])) \<le> card (set xs) + 1"
      by (cases "(st_value s AND THUMB_INSN_MASK) + off = 0") (auto simp: func_addrs_def card_insert_if)
    then have "card (set (xs @ func_addrs off [s])) + length (filter IS_FUNC ss) < n" using Cons.prems(2) True by simp
    then show ?thesis using Cons.IH [OF b1(2)] b1(1) by (auto simp: func_addrs_def)
  qed
qed

lemma table_larger:
  assumes "2 \<le> m" and "m < 65536"
  shows "m < HashTableSize ! nat (clog2_nat m)"
proof -
  define k where "k = nat (clog2_nat m)"
  have b: "2 ^ k \<le> m" "m < 2 ^ (k + 1)" using clog2_nat_bounds [of m] assms(1) by (simp_all add: k_def)
  have "k < 16" using b(1) assms(2) power_less_imp_less_exp [of "2::nat" k 16] by simp
  moreover have "k \<noteq> 0" using b(2) assms(1) by (intro notI) simp
  ultimately have "k \<in> set [1..<16]" by simp
  moreover have "\<forall>k \<in> set [1..<16]. 2 ^ (k + 1) \<le> HashTableSize ! k" by (simp add: HashTableSize_def upt_rec)
  ultimately have "2 ^ (k + 1) \<le> HashTableSize ! k" by blast
  then show ?thesis using b(2) by (simp add: k_def)
qed

lemma build_empty:
  assumes "0 < n"
  shows "build_inv n [] \<lparr>b_table = \<lparr>funcTable = \<lambda>_. \<lparr>addr = 0, symtabFuncIdx = 0\<rparr>, funcTableSize = n\<rparr>, b_idx = 0, b_min = mn, b_max = mx\<rparr>"
  using assms by (simp add: build_inv_def func_ok_def tab_ok_def tab_free_def fview_def func_find_def func_slot_def probe.simps returned_def func_of_def)

lemma func_find_same:
  "funcTable f = funcTable g \<Longrightarrow> funcTableSize f = funcTableSize g \<Longrightarrow> func_find a f = func_find a g"
  by (simp add: func_find_def func_slot_def cong: if_cong)

definition load_offset :: "elf \<Rightarrow> u32 \<Rightarrow> u32 \<Rightarrow> u32" where
  "load_offset efd start pgoff = (if elf_dyn efd then start - push_bit TARGET_PAGE_BITS pgoff else 0)"

text \<open>The object that is made: every function is in its table, and some entry is free.\<close>

lemma created_obj:
  assumes "efd_open path = Some efd" and "2 \<le> length (filter IS_FUNC (symtab efd))" and "length (filter IS_FUNC (symtab efd)) < 65536"
  shows "\<exists>obj. SET_create_obj efd_open path start stop pgoff i = Inr (Some obj, i + 1) \<and> obj_id obj = i \<and> func_ok obj \<and> 0 < func_free obj \<and>
    (\<forall>a. a \<noteq> 0 \<longrightarrow> func_find a obj = Inr (func_of (func_addrs (load_offset efd start pgoff) (symtab efd)) a))"
proof -
  let ?n = "HashTableSize ! nat (clog2_nat (length (filter IS_FUNC (symtab efd))))" and ?off = "load_offset efd start pgoff"
  have lt: "length (filter IS_FUNC (symtab efd)) < ?n" using table_larger assms(2,3) by blast
  then have n: "0 < ?n" by simp
  obtain b where b: "fold_res (add_func ?off) (symtab efd) \<lparr>b_table = \<lparr>funcTable = \<lambda>_. \<lparr>addr = 0, symtabFuncIdx = 0\<rparr>, funcTableSize = ?n\<rparr>,
      b_idx = 0, b_min = 0xc0000000, b_max = 0\<rparr> = Inr b" "build_inv ?n (func_addrs ?off (symtab efd)) b"
    using add_funcs_inv [OF build_empty [OF n], of "symtab efd" ?off] lt by auto
  let ?obj = "\<lparr>funcTable = funcTable (b_table b), funcTableSize = ?n, obj_id = i, obj_path = path,
    text_start = b_min b, text_end = b_max b, obj_count = 0\<rparr>"
  have "SET_create_obj efd_open path start stop pgoff i = Inr (Some ?obj, i + 1)"
    using assms(1,2) b(1) by (auto simp: SET_create_obj_def load_offset_def [symmetric] Let_def)
  moreover have "func_find a ?obj = func_find a (b_table b)" for a
    using b(2) by (intro func_find_same) (simp_all add: build_inv_def)
  moreover have "fview ?obj = fview (b_table b)" "funcTableSize (b_table b) = ?n" using b(2) by (simp_all add: fview_def fun_eq_iff build_inv_def)
  moreover have "card (set (func_addrs ?off (symtab efd))) < ?n"
    using lt card_length [of "func_addrs ?off (symtab efd)"] length_filter_le [of "\<lambda>a. a \<noteq> 0" "map (\<lambda>s. (st_value s AND THUMB_INSN_MASK) + ?off) (filter IS_FUNC (symtab efd))"]
    by (simp add: func_addrs_def)
  ultimately show ?thesis using b(2) by (auto simp: build_inv_def func_ok_def)
qed

definition efd2 :: elf where
  "efd2 = \<lparr>elf_dyn = True, symtab = [
     \<lparr>st_name = ''f'', st_value = 0x1000, st_size = 8, st_info = 0x12, st_other = 0, st_shndx = 7\<rparr>,
     \<lparr>st_name = ''data'', st_value = 0x1004, st_size = 4, st_info = 0x11, st_other = 0, st_shndx = 7\<rparr>,
     \<lparr>st_name = ''g'', st_value = 0x1009, st_size = 8, st_info = 0x12, st_other = 0, st_shndx = 7\<rparr>]\<rparr>"

text \<open>
  An object file with a single function gets a table with a single entry: the table is full, and the search for
  any other address never ends. With 65536 functions or more the size is 0, and the remainder is undefined.
\<close>

lemma single_function_hangs:
  assumes "efd_open path = Some efd" and "filter IS_FUNC (symtab efd) = [s]" and "func_addrs (load_offset efd start pgoff) (symtab efd) = [a]"
    and "b \<noteq> a"
  shows "\<exists>obj. SET_create_obj efd_open path start stop pgoff i = Inr (Some obj, i + 1) \<and> func_find b obj = Inl No_return"
proof -
  let ?off = "load_offset efd start pgoff"
  let ?b0 = "\<lparr>b_table = \<lparr>funcTable = \<lambda>_. \<lparr>addr = 0, symtabFuncIdx = 0\<rparr>, funcTableSize = 1\<rparr>, b_idx = 0, b_min = 0xc0000000, b_max = 0\<rparr>"
  have skip: "fold_res (add_func off) ss x = fold_res (add_func off) (filter IS_FUNC ss) x" for off ss x
  proof (induction ss arbitrary: x)
    case (Cons s ss)
    have "\<not> IS_FUNC s \<Longrightarrow> add_func off s x = Inr x" by (simp add: add_func_def)
    then show ?case using Cons.IH by (cases "IS_FUNC s") (auto simp: bind_res_def split: sum.splits)
  qed simp
  have a: "IS_FUNC s" "(st_value s AND THUMB_INSN_MASK) + ?off = a" "a \<noteq> 0"
    using assms(2,3) Cons_eq_filterD [of s "[]" IS_FUNC "symtab efd"] by (auto simp: func_addrs_def split: if_splits)
  obtain x where x: "fold_res (add_func ?off) (symtab efd) ?b0 = Inr x" "funcTable (b_table x) 0 = \<lparr>addr = a, symtabFuncIdx = 0\<rparr>"
      "funcTableSize (b_table x) = 1"
    using a by (simp add: skip [of ?off "symtab efd"] assms(2) add_func_def Let_def func_slot_def HASH_def probe.simps returned_def)
  let ?obj = "\<lparr>funcTable = funcTable (b_table x), funcTableSize = 1, obj_id = i, obj_path = path,
    text_start = b_min x, text_end = b_max x, obj_count = 0\<rparr>"
  have "HashTableSize ! nat (clog2_nat (Suc 0)) = 1"
    by (simp add: clog2_nat.simps [of "Suc 0"] clog2_nat.simps [of 0] HashTableSize_def)
  then have "SET_create_obj efd_open path start stop pgoff i = Inr (Some ?obj, i + 1)"
    using assms(1,2) x(1) by (simp add: SET_create_obj_def load_offset_def [symmetric] Let_def)
  moreover have "probe (\<lambda>k. addr (funcTable (b_table x) k) = 0 \<or> addr (funcTable (b_table x) k) = b) 1 0 = None"
    using x(2) a(3) assms(4) by (intro probe_diverges) auto
  ultimately show ?thesis by (simp add: func_find_def func_slot_def HASH_def returned_def)
qed

lemma too_many_functions:
  assumes "efd_open path = Some efd" and "65536 \<le> length (filter IS_FUNC (symtab efd))" and "length (filter IS_FUNC (symtab efd)) < 2 ^ 32"
  shows "SET_create_obj efd_open path start stop pgoff i = Inl Undefined"
proof -
  define m where "m = length (filter IS_FUNC (symtab efd))"
  define k where "k = nat (clog2_nat m)"
  have m: "65536 \<le> m" "m < 2 ^ 32" using assms(2,3) by (simp_all add: m_def)
  have b: "2 ^ k \<le> m" "m < 2 ^ (k + 1)" using clog2_nat_bounds [of m] m(1) by (simp_all add: k_def)
  have "k < 32" using le_less_trans [OF b(1) m(2)] power_less_imp_less_exp [of "2::nat" k 32] by simp
  moreover have "16 < k + 1"
    using le_less_trans [OF m(1) b(2)] power_less_imp_less_exp [of "2::nat" 16 "k + 1"] by simp
  ultimately have z: "HashTableSize ! k = 0" by (simp add: HashTableSize_def nth_append nth_Cons')
  have "fold_res (add_func off) ss x = Inl Undefined" if "funcTableSize (b_table x) = 0" "filter IS_FUNC ss \<noteq> []" for ss off x
    using that by (induction ss) (auto simp: add_func_def Let_def func_slot_def split: if_splits)
  moreover have "filter IS_FUNC (symtab efd) \<noteq> []" using assms(2) by auto
  ultimately show ?thesis using assms(1,2) z by (simp add: SET_create_obj_def Let_def k_def m_def)
qed

section \<open>Observed kernel functions\<close>

text \<open>
  The tracer observes six functions of the guest kernel. Four of them count only when they are called from
  another function, whose address range is looked up too. The ranges are static variables.
\<close>

datatype KerEvent = EXECVE | EXIT | CS | MMAP | FORK | KTHREAD

definition KER_EVENT_NUM :: nat where "KER_EVENT_NUM = 6"
definition KER_TABLE_SIZE :: nat where "KER_TABLE_SIZE = 83"

record FuncRange =
  fr_start :: u32
  fr_end :: u32

record KerFunc =
  k_addr :: u32
  k_event :: KerEvent
  retFunc :: "FuncRange option"

record kernel_funcs =
  kerFuncTable :: "nat \<Rightarrow> KerFunc"
  k_execve :: FuncRange
  k_mmap :: FuncRange
  k_fork :: FuncRange
  k_kthread :: FuncRange

definition ker_slot :: "(nat \<Rightarrow> bool) \<Rightarrow> u32 \<Rightarrow> nat res" where
  "ker_slot stop a = returned (probe stop KER_TABLE_SIZE (HASH a KER_TABLE_SIZE))"

definition ker_insert :: "u32 \<Rightarrow> KerEvent \<Rightarrow> kernel_funcs \<Rightarrow> kernel_funcs res" where
  "ker_insert vaddr ev k = bind_res (ker_slot (\<lambda>i. k_addr (kerFuncTable k i) = 0) vaddr) (\<lambda>i.
     Inr (k\<lparr>kerFuncTable := (kerFuncTable k)(i := (kerFuncTable k i)\<lparr>k_addr := vaddr, k_event := ev\<rparr>)\<rparr>))"

definition ker_symbol :: "sym \<Rightarrow> kernel_funcs \<Rightarrow> kernel_funcs res" where
  "ker_symbol s k = (if IS_FUNC s then
       let vaddr = st_value s AND THUMB_INSN_MASK; r = \<lparr>fr_start = vaddr, fr_end = vaddr + st_size s\<rparr>; name = st_name s in
       if name = ''do_execve'' then Inr (k\<lparr>k_execve := r\<rparr>)
       else if name = ''do_exit'' then ker_insert vaddr EXIT k
       else if name = ''do_fork'' then Inr (k\<lparr>k_fork := r\<rparr>)
       else if name = ''mmap_region'' then Inr (k\<lparr>k_mmap := r\<rparr>)
       else if name = ''search_binary_handler'' then ker_insert vaddr EXECVE k
       else if name = ''vma_wants_writenotify'' then ker_insert vaddr MMAP k
       else if name = ''vsnprintf'' then ker_insert vaddr KTHREAD k
       else if name = ''wake_up_new_task'' then ker_insert vaddr FORK k
       else if name = ''__switch_to'' then ker_insert vaddr CS k
       else if name = ''kthread_create'' then Inr (k\<lparr>k_kthread := r\<rparr>)
       else Inr k
     else Inr k)"

definition range_empty :: "FuncRange \<Rightarrow> bool" where
  "range_empty r \<longleftrightarrow> fr_start r = 0 \<or> fr_end r = 0 \<or> fr_end r - fr_start r = 0"

definition caller_range :: "kernel_funcs \<Rightarrow> KerEvent \<Rightarrow> FuncRange option" where
  "caller_range k ev = (case ev of EXECVE \<Rightarrow> Some (k_execve k) | MMAP \<Rightarrow> Some (k_mmap k) | FORK \<Rightarrow> Some (k_fork k)
     | KTHREAD \<Rightarrow> Some (k_kthread k) | _ \<Rightarrow> None)"

text \<open>The final pass: None is the return of -1 for a range that was not found.\<close>

fun ker_check :: "nat list \<Rightarrow> nat \<Rightarrow> kernel_funcs \<Rightarrow> (nat option \<times> kernel_funcs)" where
  "ker_check [] num k = (Some num, k)"
| "ker_check (i # is) num k =
     (if k_addr (kerFuncTable k i) \<noteq> 0 then
        (case caller_range k (k_event (kerFuncTable k i)) of
           None \<Rightarrow> ker_check is (num + 1) k
         | Some r \<Rightarrow> if range_empty r then (None, k)
             else ker_check is (num + 1) (k\<lparr>kerFuncTable := (kerFuncTable k)(i := (kerFuncTable k i)\<lparr>retFunc := Some r\<rparr>)\<rparr>))
      else ker_check is num k)"

definition get_special_kernel_func :: "(string \<Rightarrow> elf option) \<Rightarrow> string \<Rightarrow> kernel_funcs \<Rightarrow> (int \<times> kernel_funcs) res" where
  "get_special_kernel_func efd_open_elf path k =
     (case efd_open_elf path of None \<Rightarrow> Inr (-1, k)
      | Some efd \<Rightarrow> bind_res (fold_res ker_symbol (symtab efd) k) (\<lambda>k.
          let (num, k) = ker_check [0..<KER_TABLE_SIZE] 0 k in
          Inr (if num = Some KER_EVENT_NUM then 0 else -1, k)))"

text \<open>The search of the branch events.\<close>

definition ker_find :: "u32 \<Rightarrow> kernel_funcs \<Rightarrow> KerFunc option res" where
  "ker_find a k = bind_res (ker_slot (\<lambda>i. k_addr (kerFuncTable k i) = 0 \<or> k_addr (kerFuncTable k i) = a) a) (\<lambda>i.
     Inr (if k_addr (kerFuncTable k i) = 0 then None else Some (kerFuncTable k i)))"

lemma ker_check_counts:
  "ker_check is num k = (Some m, k') \<Longrightarrow> distinct is \<Longrightarrow>
    m = num + card {i \<in> set is. k_addr (kerFuncTable k i) \<noteq> 0} \<and>
    (\<forall>i. k_addr (kerFuncTable k' i) = k_addr (kerFuncTable k i) \<and> k_event (kerFuncTable k' i) = k_event (kerFuncTable k i)) \<and>
    (\<forall>i. i \<notin> set is \<longrightarrow> kerFuncTable k' i = kerFuncTable k i) \<and> caller_range k' = caller_range k \<and>
    (\<forall>i \<in> set is. k_addr (kerFuncTable k i) \<noteq> 0 \<longrightarrow> (case caller_range k (k_event (kerFuncTable k i)) of None \<Rightarrow> True
       | Some r \<Rightarrow> retFunc (kerFuncTable k' i) = Some r \<and> \<not> range_empty r))"
proof (induction "is" arbitrary: num k)
  case (Cons i xs)
  have c: "{j \<in> set (i # xs). k_addr (kerFuncTable k j) \<noteq> 0} =
      (if k_addr (kerFuncTable k i) \<noteq> 0 then insert i else id) {j \<in> set xs. k_addr (kerFuncTable k j) \<noteq> 0}" by auto
  have i: "i \<notin> {j \<in> set xs. k_addr (kerFuncTable k j) \<noteq> 0}" "distinct xs" "i \<notin> set xs" using Cons.prems(2) by auto
  show ?case
  proof (cases "k_addr (kerFuncTable k i) = 0")
    case True
    then show ?thesis using Cons.IH [of num k] Cons.prems(1) i c by auto
  next
    case used: False
    show ?thesis
    proof (cases "caller_range k (k_event (kerFuncTable k i))")
      case None
      then show ?thesis using Cons.IH [of "num + 1" k] Cons.prems(1) used i c by auto
    next
      case (Some r)
      define k1 where "k1 = k\<lparr>kerFuncTable := (kerFuncTable k)(i := (kerFuncTable k i)\<lparr>retFunc := Some r\<rparr>)\<rparr>"
      have same: "k_addr (kerFuncTable k1 j) = k_addr (kerFuncTable k j)" "k_event (kerFuncTable k1 j) = k_event (kerFuncTable k j)"
        "caller_range k1 = caller_range k" "retFunc (kerFuncTable k1 i) = Some r" "j \<noteq> i \<Longrightarrow> kerFuncTable k1 j = kerFuncTable k j" for j
        by (auto simp: k1_def caller_range_def fun_eq_iff split: KerEvent.splits)
      have r: "\<not> range_empty r" "ker_check xs (num + 1) k1 = (Some m, k')"
        using Cons.prems(1) used Some by (auto simp: k1_def split: if_splits)
      show ?thesis using Cons.IH [OF r(2) i(2)] same r(1) used Some i c by auto
    qed
  qed
qed simp

text \<open>
  When the kernel image is accepted, the table holds six functions, each of the four has the range of its
  caller, and the search for a branch target always ends.
\<close>

lemma kernel_accepted:
  assumes "get_special_kernel_func efd_open path k = Inr (0, k')"
  shows "card {i. i < KER_TABLE_SIZE \<and> k_addr (kerFuncTable k' i) \<noteq> 0} = KER_EVENT_NUM \<and> (\<exists>r. ker_find a k' = Inr r) \<and>
    (\<forall>i < KER_TABLE_SIZE. k_addr (kerFuncTable k' i) \<noteq> 0 \<longrightarrow> k_event (kerFuncTable k' i) \<notin> {EXIT, CS} \<longrightarrow>
      (\<exists>r. retFunc (kerFuncTable k' i) = Some r \<and> \<not> range_empty r))"
proof -
  obtain k1 where k1: "ker_check [0..<KER_TABLE_SIZE] 0 k1 = (Some KER_EVENT_NUM, k')"
  proof -
    obtain efd k2 where k2: "(if fst (ker_check [0..<KER_TABLE_SIZE] 0 k2) = Some KER_EVENT_NUM then 0 else -1 :: int) = 0"
        "k' = snd (ker_check [0..<KER_TABLE_SIZE] 0 k2)"
      using assms unfolding get_special_kernel_func_def case_prod_unfold Let_def
      by (cases "efd_open path") auto
    then have "ker_check [0..<KER_TABLE_SIZE] 0 k2 = (Some KER_EVENT_NUM, k')" by (simp add: prod_eq_iff split: if_splits)
    then show thesis by (rule that)
  qed
  note c = ker_check_counts [OF k1 distinct_upt]
  let ?U = "{i. i < KER_TABLE_SIZE \<and> k_addr (kerFuncTable k' i) \<noteq> 0}"
  have six: "card ?U = KER_EVENT_NUM" using c by (simp add: Collect_conj_eq)
  have "\<exists>j < KER_TABLE_SIZE. k_addr (kerFuncTable k' j) = 0"
  proof (rule ccontr)
    assume "\<not> ?thesis"
    then have "?U = {..<KER_TABLE_SIZE}" by auto
    then show False using six by (simp add: KER_EVENT_NUM_def KER_TABLE_SIZE_def)
  qed
  then obtain j where j: "j < KER_TABLE_SIZE" "k_addr (kerFuncTable k' j) = 0" by blast
  have "HASH a KER_TABLE_SIZE < KER_TABLE_SIZE" by (simp add: HASH_less KER_TABLE_SIZE_def)
  then obtain m where "probe (\<lambda>i. k_addr (kerFuncTable k' i) = 0 \<or> k_addr (kerFuncTable k' i) = a) KER_TABLE_SIZE (HASH a KER_TABLE_SIZE) = Some m"
    using probe_ends [of "HASH a KER_TABLE_SIZE" KER_TABLE_SIZE j "\<lambda>i. k_addr (kerFuncTable k' i) = 0 \<or> k_addr (kerFuncTable k' i) = a"] j by blast
  then have "\<exists>r. ker_find a k' = Inr r" by (simp add: ker_find_def ker_slot_def returned_def)
  moreover have "\<exists>r. retFunc (kerFuncTable k' i) = Some r \<and> \<not> range_empty r"
    if "i < KER_TABLE_SIZE" "k_addr (kerFuncTable k' i) \<noteq> 0" "k_event (kerFuncTable k' i) \<notin> {EXIT, CS}" for i
  proof -
    have "caller_range k1 (k_event (kerFuncTable k1 i)) \<noteq> None"
      using that(3) c by (cases "k_event (kerFuncTable k1 i)") (auto simp: caller_range_def)
    then show ?thesis using c that by force
  qed
  ultimately show ?thesis using six by blast
qed

end
