(* ===== verification/SET_Elf.thy ===== *)
theory SET_Elf
  imports SET_Hash
begin

unbundle bit_operations_syntax

text \<open>
  The reader of ELF files (\<^verbatim>\<open>SET/efd.c\<close>, \<^verbatim>\<open>SET/efd.h\<close>, \<^verbatim>\<open>elf.h\<close>), byte by byte: headers, section names, symbols and their names, and for
  dynamic objects the procedure linkage table and the needed libraries.

  \<^item> A file is its list of bytes. A read takes what is there, and sets the end mark when it asked for more; the
    buffer of a short read holds no defined bytes behind what was read, which is a shorter list here.
  \<^item> Numbers are little endian, as on the host. Structures are read when they are complete; an access outside a table is an
    error, and so is a division by an entry size of zero.
\<close>

section \<open>Bytes and structures\<close>

definition le :: "u8 list \<Rightarrow> nat" where
  "le bs = foldr (\<lambda>b n. unat b + 256 * n) bs 0"

definition num :: "nat \<Rightarrow> nat \<Rightarrow> u8 list \<Rightarrow> nat" where
  "num i k b = le (take k (drop i b))"

record Elf32_Ehdr =
  e_ident :: "u8 list"
  e_type :: "16 word"
  e_machine :: "16 word"
  e_version :: u32
  e_entry :: u32
  e_phoff :: u32
  e_shoff :: u32
  e_flags :: u32
  e_ehsize :: "16 word"
  e_phentsize :: "16 word"
  e_phnum :: "16 word"
  e_shentsize :: "16 word"
  e_shnum :: "16 word"
  e_shstrndx :: "16 word"

record Elf32_Shdr =
  sh_name :: u32
  sh_type :: u32
  sh_flags :: u32
  sh_addr :: u32
  sh_offset :: u32
  sh_size :: u32
  sh_link :: u32
  sh_info :: u32
  sh_addralign :: u32
  sh_entsize :: u32

record Elf32_Sym =
  y_name :: u32
  y_value :: u32
  y_size :: u32
  y_info :: u8
  y_other :: u8
  y_shndx :: "16 word"

definition ehdr_of :: "u8 list \<Rightarrow> Elf32_Ehdr" where
  "ehdr_of b = \<lparr>e_ident = take 16 b, e_type = of_nat (num 16 2 b), e_machine = of_nat (num 18 2 b), e_version = of_nat (num 20 4 b),
     e_entry = of_nat (num 24 4 b), e_phoff = of_nat (num 28 4 b), e_shoff = of_nat (num 32 4 b), e_flags = of_nat (num 36 4 b),
     e_ehsize = of_nat (num 40 2 b), e_phentsize = of_nat (num 42 2 b), e_phnum = of_nat (num 44 2 b), e_shentsize = of_nat (num 46 2 b),
     e_shnum = of_nat (num 48 2 b), e_shstrndx = of_nat (num 50 2 b)\<rparr>"

definition shdr_of :: "u8 list \<Rightarrow> Elf32_Shdr" where
  "shdr_of b = \<lparr>sh_name = of_nat (num 0 4 b), sh_type = of_nat (num 4 4 b), sh_flags = of_nat (num 8 4 b), sh_addr = of_nat (num 12 4 b),
     sh_offset = of_nat (num 16 4 b), sh_size = of_nat (num 20 4 b), sh_link = of_nat (num 24 4 b), sh_info = of_nat (num 28 4 b),
     sh_addralign = of_nat (num 32 4 b), sh_entsize = of_nat (num 36 4 b)\<rparr>"

definition sym_of :: "u8 list \<Rightarrow> Elf32_Sym" where
  "sym_of b = \<lparr>y_name = of_nat (num 0 4 b), y_value = of_nat (num 4 4 b), y_size = of_nat (num 8 4 b), y_info = of_nat (num 12 1 b),
     y_other = of_nat (num 13 1 b), y_shndx = of_nat (num 14 2 b)\<rparr>"

text \<open>The entry \<open>i\<close> of an array of structures of \<open>k\<close> bytes.\<close>

definition chunk :: "nat \<Rightarrow> nat \<Rightarrow> u8 list \<Rightarrow> u8 list" where
  "chunk k i b = take k (drop (k * i) b)"

definition entry_of :: "nat \<Rightarrow> nat \<Rightarrow> u8 list \<Rightarrow> u8 list res" where
  "entry_of k i b = (if k * i + k \<le> length b then Inr (chunk k i b) else Inl Undefined)"

text \<open>A string of a table: up to the next zero byte.\<close>

definition str_at :: "u32 \<Rightarrow> u8 list \<Rightarrow> string res" where
  "str_at off tab = (let s = takeWhile (\<lambda>b. b \<noteq> 0) (drop (unat off) tab) in
     if unat off + length s < length tab then Inr (map (\<lambda>b. char_of (unat b)) s) else Inl Undefined)"

definition ET_EXEC :: "16 word" where "ET_EXEC = 2"
definition ET_DYN :: "16 word" where "ET_DYN = 3"
definition SHT_SYMTAB :: u32 where "SHT_SYMTAB = 2"
definition SHT_DYNAMIC :: u32 where "SHT_DYNAMIC = 6"
definition SHT_DYNSYM :: u32 where "SHT_DYNSYM = 11"
definition DT_NEEDED :: u32 where "DT_NEEDED = 1"

section \<open>The file descriptor\<close>

record EFD =
  elf_hdr :: Elf32_Ehdr
  sec_hdr :: "Elf32_Shdr list"
  shstrtab :: "u8 list"
  ndx_sym :: nat
  sym_num :: nat
  symtab_b :: "u8 list"
  strtab :: "u8 list"
  ndx_dynsym :: nat
  dynsym_num :: nat
  dynsymtab :: "u8 list"
  dynstrtab :: "u8 list"
  lib_num :: nat
  dyntab :: "u8 list"
  plt :: "(u32 \<times> u32) list"

definition fread_at :: "nat \<Rightarrow> nat \<Rightarrow> u8 list \<Rightarrow> u8 list" where
  "fread_at off n f = take n (drop off f)"

definition feof_after :: "nat \<Rightarrow> nat \<Rightarrow> u8 list \<Rightarrow> bool" where
  "feof_after off n f \<longleftrightarrow> 0 < n \<and> length f < off + n"

definition elf_ident :: "u8 list \<Rightarrow> bool" where
  "elf_ident ident \<longleftrightarrow> ident ! 0 = 0x7f \<and> ident ! 1 = 0x45 \<and> ident ! 2 = 0x4c \<and> ident ! 3 = 0x46 \<and> ident ! 4 = 1"

definition elf_check_format :: "Elf32_Ehdr \<Rightarrow> bool" where
  "elf_check_format h \<longleftrightarrow> elf_ident (e_ident h) \<and> (e_type h = ET_EXEC \<or> e_type h = ET_DYN)"

definition sec :: "nat \<Rightarrow> EFD \<Rightarrow> Elf32_Shdr res" where
  "sec i efd = (if i < length (sec_hdr efd) then Inr (sec_hdr efd ! i) else Inl Out_of_bounds)"

text \<open>The bytes of a section, as they were read without a test, and the number of its entries.\<close>

definition read_sec :: "Elf32_Shdr \<Rightarrow> u8 list \<Rightarrow> u8 list" where
  "read_sec s f = fread_at (unat (sh_offset s)) (unat (sh_size s)) f"

definition sec_eof :: "Elf32_Shdr \<Rightarrow> u8 list \<Rightarrow> bool" where
  "sec_eof s f = feof_after (unat (sh_offset s)) (unat (sh_size s)) f"

definition entries :: "Elf32_Shdr \<Rightarrow> nat res" where
  "entries s = (if sh_entsize s = 0 then Inl Undefined else Inr (unat (sh_size s) div unat (sh_entsize s)))"

text \<open>The number of the linked section is stored in 16 bits.\<close>

definition sec_link :: "Elf32_Shdr \<Rightarrow> nat" where
  "sec_link s = unat (ucast (sh_link s) :: 16 word)"

definition first_sec :: "(nat \<Rightarrow> bool) \<Rightarrow> nat \<Rightarrow> nat" where
  "first_sec P n = (case find P [1..<n] of None \<Rightarrow> 0 | Some i \<Rightarrow> i)"

definition efd_find_sec_by_type :: "u32 \<Rightarrow> EFD \<Rightarrow> nat" where
  "efd_find_sec_by_type ty efd = first_sec (\<lambda>i. sh_type (sec_hdr efd ! i) = ty) (length (sec_hdr efd))"

fun find_name :: "string \<Rightarrow> EFD \<Rightarrow> nat list \<Rightarrow> nat res" where
  "find_name name efd [] = Inr 0"
| "find_name name efd (i # is) = bind_res (str_at (sh_name (sec_hdr efd ! i)) (shstrtab efd)) (\<lambda>s. if name = s then Inr i else find_name name efd is)"

definition efd_find_sec_by_name :: "string \<Rightarrow> EFD \<Rightarrow> nat res" where
  "efd_find_sec_by_name name efd = find_name name efd [1..<length (sec_hdr efd)]"

definition plt_entry :: "u8 list \<Rightarrow> EFD \<Rightarrow> nat \<Rightarrow> (u32 \<times> u32) list \<times> u32 \<Rightarrow> ((u32 \<times> u32) list \<times> u32) res" where
  "plt_entry reltab efd i pa = bind_res (entry_of 8 i reltab) (\<lambda>r. bind_res (entry_of 16 (num 4 4 r div 256) (dynsymtab efd)) (\<lambda>y.
     Inr (fst pa @ [(snd pa, y_name (sym_of y))], snd pa + 12)))"

text \<open>The linkage table; a number other than 0 is the return of -1.\<close>

definition parse_plt_for_arm :: "u8 list \<Rightarrow> EFD \<Rightarrow> (int \<times> EFD) res" where
  "parse_plt_for_arm f efd = bind_res (efd_find_sec_by_name ''.rel.plt'' efd) (\<lambda>r. if r = 0 then Inr (0, efd) else
     bind_res (sec r efd) (\<lambda>rel. bind_res (entries rel) (\<lambda>n. bind_res (efd_find_sec_by_name ''.plt'' efd) (\<lambda>p. bind_res (sec p efd) (\<lambda>ps.
     bind_res (fold_res (plt_entry (read_sec rel f) efd) [0..<n] ([], sh_addr ps + 20)) (\<lambda>(tab, a).
     Inr (if of_nat (ndx_dynsym efd) \<noteq> sh_link rel \<or> a \<noteq> sh_addr ps + sh_size ps then -1 else 0, efd\<lparr>plt := tab\<rparr>)))))))"

text \<open>The leading entries of the dynamic section that name a library; a table without another entry is overrun.\<close>

function needed_libs :: "u8 list \<Rightarrow> nat res" where
  "needed_libs b = (if length b < 8 then Inl Undefined
     else if of_nat (num 0 4 b) = DT_NEEDED then bind_res (needed_libs (drop 8 b)) (\<lambda>n. Inr (n + 1)) else Inr 0)"
  by pat_completeness auto
termination by (relation "measure length") auto

declare needed_libs.simps [simp del]

definition read_dynamic :: "u8 list \<Rightarrow> EFD \<Rightarrow> EFD option res" where
  "read_dynamic f efd = bind_res (sec (ndx_dynsym efd) efd) (\<lambda>d. bind_res (entries d) (\<lambda>n. bind_res (sec (sec_link d) efd) (\<lambda>st.
     let efd = efd\<lparr>dynsym_num := n, dynsymtab := read_sec d f, dynstrtab := read_sec st f\<rparr> in
     bind_res (parse_plt_for_arm f efd) (\<lambda>(r, efd). if r \<noteq> 0 then Inr None
       else bind_res (sec (efd_find_sec_by_type SHT_DYNAMIC efd) efd) (\<lambda>dy. bind_res (needed_libs (read_sec dy f)) (\<lambda>l.
         Inr (Some (efd\<lparr>dyntab := read_sec dy f, lib_num := l\<rparr>))))))))"

text \<open>The symbol table, or the dynamic one of a stripped object, with its names.\<close>

definition read_symbols :: "u8 list \<Rightarrow> EFD \<Rightarrow> EFD option res" where
  "read_symbols f efd = (let n = efd_find_sec_by_type SHT_SYMTAB efd; n = (if n = 0 then efd_find_sec_by_type SHT_DYNSYM efd else n) in
     if n = 0 then Inr None
     else bind_res (sec n efd) (\<lambda>s. bind_res (entries s) (\<lambda>k.
       if sec_eof s f then Inr None
       else bind_res (sec (sec_link s) efd) (\<lambda>st. if sec_eof st f then Inr None
         else let efd = efd\<lparr>ndx_sym := n, sym_num := k, symtab_b := read_sec s f, strtab := read_sec st f,
               ndx_dynsym := efd_find_sec_by_type SHT_DYNSYM efd\<rparr> in
           if ndx_dynsym efd = 0 then Inr (Some efd) else read_dynamic f efd))))"

definition efd_init :: EFD where
  "efd_init = \<lparr>elf_hdr = ehdr_of [], sec_hdr = [], shstrtab = [], ndx_sym = 0, sym_num = 0, symtab_b = [], strtab = [], ndx_dynsym = 0,
     dynsym_num = 0, dynsymtab = [], dynstrtab = [], lib_num = 0, dyntab = [], plt = []\<rparr>"

definition efd_open_elf :: "(string \<Rightarrow> u8 list option) \<Rightarrow> string \<Rightarrow> EFD option res" where
  "efd_open_elf fopen name = (case fopen name of None \<Rightarrow> Inr None
     | Some f \<Rightarrow> if feof_after 0 52 f then Inr None
       else let h = ehdr_of (fread_at 0 52 f) in
         if \<not> elf_check_format h then Inr None
         else let k = unat (e_shnum h); off = unat (e_shoff h) in
           if feof_after off (40 * k) f then Inr None
           else let efd = efd_init\<lparr>elf_hdr := h, sec_hdr := map (\<lambda>i. shdr_of (chunk 40 i (fread_at off (40 * k) f))) [0..<k]\<rparr> in
             bind_res (sec (unat (e_shstrndx h)) efd) (\<lambda>s. read_symbols f (efd\<lparr>shstrtab := read_sec s f\<rparr>)))"

section \<open>Symbols as the tracer uses them\<close>

fun map_res :: "('a \<Rightarrow> 'b res) \<Rightarrow> 'a list \<Rightarrow> 'b list res" where
  "map_res g [] = Inr []"
| "map_res g (x # xs) = bind_res (g x) (\<lambda>y. bind_res (map_res g xs) (\<lambda>ys. Inr (y # ys)))"

definition efd_get_sym :: "EFD \<Rightarrow> nat \<Rightarrow> sym res" where
  "efd_get_sym efd i = bind_res (entry_of 16 i (symtab_b efd)) (\<lambda>b. let y = sym_of b in bind_res (str_at (y_name y) (strtab efd)) (\<lambda>s.
     Inr \<lparr>st_name = s, st_value = y_value y, st_size = y_size y, st_info = y_info y, st_other = y_other y, st_shndx = y_shndx y\<rparr>))"

text \<open>The searches by name; 0 is also the answer when there is no such symbol.\<close>

definition efd_get_dynsym :: "EFD \<Rightarrow> nat \<Rightarrow> (string \<times> u32) res" where
  "efd_get_dynsym efd i = bind_res (entry_of 16 i (dynsymtab efd)) (\<lambda>b. let y = sym_of b in bind_res (str_at (y_name y) (dynstrtab efd)) (\<lambda>s.
     Inr (s, y_value y)))"

fun find_sym :: "string \<Rightarrow> (nat \<Rightarrow> (string \<times> u32) res) \<Rightarrow> nat list \<Rightarrow> u32 res" where
  "find_sym name get [] = Inr 0"
| "find_sym name get (i # is) = bind_res (get i) (\<lambda>(s, v). if name = s then Inr v else find_sym name get is)"

definition efd_find_sym_by_name :: "string \<Rightarrow> EFD \<Rightarrow> u32 res" where
  "efd_find_sym_by_name name efd = find_sym name (\<lambda>i. bind_res (efd_get_sym efd i) (\<lambda>s. Inr (st_name s, st_value s))) [0..<sym_num efd]"

definition efd_find_dynsym_by_name :: "string \<Rightarrow> EFD \<Rightarrow> u32 res" where
  "efd_find_dynsym_by_name name efd = find_sym name (efd_get_dynsym efd) [0..<dynsym_num efd]"

definition efd_elf :: "EFD \<Rightarrow> elf res" where
  "efd_elf efd = bind_res (map_res (efd_get_sym efd) [0..<sym_num efd]) (\<lambda>ss. Inr \<lparr>elf_dyn = (e_type (elf_hdr efd) = ET_DYN), symtab = ss\<rparr>)"

section \<open>Reading back what a linker writes\<close>

text \<open>The reference: an object with a symbol table and its names, without dynamic sections.\<close>

fun enc :: "nat \<Rightarrow> nat \<Rightarrow> u8 list" where
  "enc 0 n = []"
| "enc (Suc k) n = of_nat n # enc k (n div 256)"

definition enc_ehdr :: "Elf32_Ehdr \<Rightarrow> u8 list" where
  "enc_ehdr h = e_ident h @ enc 2 (unat (e_type h)) @ enc 2 (unat (e_machine h)) @ enc 4 (unat (e_version h)) @ enc 4 (unat (e_entry h)) @
     enc 4 (unat (e_phoff h)) @ enc 4 (unat (e_shoff h)) @ enc 4 (unat (e_flags h)) @ enc 2 (unat (e_ehsize h)) @ enc 2 (unat (e_phentsize h)) @
     enc 2 (unat (e_phnum h)) @ enc 2 (unat (e_shentsize h)) @ enc 2 (unat (e_shnum h)) @ enc 2 (unat (e_shstrndx h))"

definition enc_shdr :: "Elf32_Shdr \<Rightarrow> u8 list" where
  "enc_shdr s = enc 4 (unat (sh_name s)) @ enc 4 (unat (sh_type s)) @ enc 4 (unat (sh_flags s)) @ enc 4 (unat (sh_addr s)) @
     enc 4 (unat (sh_offset s)) @ enc 4 (unat (sh_size s)) @ enc 4 (unat (sh_link s)) @ enc 4 (unat (sh_info s)) @
     enc 4 (unat (sh_addralign s)) @ enc 4 (unat (sh_entsize s))"

definition enc_sym :: "nat \<Rightarrow> sym \<Rightarrow> u8 list" where
  "enc_sym off s = enc 4 off @ enc 4 (unat (st_value s)) @ enc 4 (unat (st_size s)) @ enc 1 (unat (st_info s)) @ enc 1 (unat (st_other s)) @
     enc 2 (unat (st_shndx s))"

lemma length_enc [simp]: "length (enc k n) = k"
  by (induction k n rule: enc.induct) auto

lemma le_enc: "le (enc k n) = n mod 256 ^ k"
proof (induction k n rule: enc.induct)
  case (2 k n)
  have "le (enc (Suc k) n) = n mod 256 + 256 * (n div 256 mod 256 ^ k)" using 2 by (simp add: le_def unsigned_of_nat take_bit_eq_mod)
  then show ?case by (simp add: mod_mult2_eq)
qed (simp add: le_def)

lemma num_enc:
  assumes "length a = i"
  shows "num i k (a @ enc k n @ b) = n mod 256 ^ k"
  using assms le_enc [of k n] by (simp add: num_def)

lemma unat_mod_id:
  assumes "LENGTH('a) = 8 * k"
  shows "(of_nat (unat w mod 256 ^ k) :: 'a::len word) = w"
proof -
  have "256 ^ k = (2 :: nat) ^ LENGTH('a)" using assms by (simp add: power_mult)
  then have "unat w mod 256 ^ k = unat w" using unsigned_less [of w] by simp
  then show ?thesis by simp
qed

lemmas unat_mods = unat_mod_id [where k = 1 and 'a = 8, simplified] unat_mod_id [where k = 2 and 'a = 16, simplified]
  unat_mod_id [where k = 4 and 'a = 32, simplified]

lemma ehdr_read_back: "length (e_ident h) = 16 \<Longrightarrow> ehdr_of (enc_ehdr h @ b) = h"
  by (simp add: ehdr_of_def enc_ehdr_def num_def le_enc unat_mods)

lemma shdr_read_back: "shdr_of (enc_shdr s @ b) = s"
  by (simp add: shdr_of_def enc_shdr_def num_def le_enc unat_mods)

lemma le_one [simp]: "le [b] = unat b"
  by (simp add: le_def)

lemma sym_read_back: "off < 2 ^ 32 \<Longrightarrow> sym_of (enc_sym off s @ b) =
    \<lparr>y_name = of_nat off, y_value = st_value s, y_size = st_size s, y_info = st_info s, y_other = st_other s, y_shndx = st_shndx s\<rparr>"
  by (simp add: sym_of_def enc_sym_def num_def le_enc unat_mods)

lemma length_structs [simp]: "length (enc_shdr s) = 40" "length (enc_sym off y) = 16" "length (e_ident h) = 16 \<Longrightarrow> length (enc_ehdr h) = 52"
  by (simp_all add: enc_shdr_def enc_sym_def enc_ehdr_def)

lemma chunk_concat:
  assumes "\<And>x. x \<in> set xs \<Longrightarrow> length (g x) = k" and "i < length xs"
  shows "chunk k i (concat (map g xs) @ b) = g (xs ! i)"
  using assms
proof (induction xs arbitrary: i)
  case (Cons x xs)
  then show ?case by (cases i) (simp_all add: chunk_def)
qed simp

fun name_offs :: "nat \<Rightarrow> sym list \<Rightarrow> nat list" where
  "name_offs off [] = []"
| "name_offs off (s # ss) = off # name_offs (off + length (st_name s) + 1) ss"

definition byte_of :: "char \<Rightarrow> u8" where
  "byte_of c = of_nat (of_char c)"

definition enc_name :: "sym \<Rightarrow> u8 list" where
  "enc_name s = map byte_of (st_name s) @ [0]"

definition names_of :: "sym list \<Rightarrow> u8 list" where
  "names_of ss = 0 # concat (map enc_name ss)"

definition syms_of :: "sym list \<Rightarrow> u8 list" where
  "syms_of ss = concat (map (\<lambda>(off, s). enc_sym off s) (zip (name_offs 1 ss) ss))"

definition shdr0 :: Elf32_Shdr where
  "shdr0 = \<lparr>sh_name = 0, sh_type = 0, sh_flags = 0, sh_addr = 0, sh_offset = 0, sh_size = 0, sh_link = 0, sh_info = 0, sh_addralign = 0, sh_entsize = 0\<rparr>"

definition shdrs_of :: "sym list \<Rightarrow> Elf32_Shdr list" where
  "shdrs_of ss = [shdr0, shdr0\<lparr>sh_type := 3, sh_offset := 212, sh_size := 1\<rparr>,
     shdr0\<lparr>sh_type := SHT_SYMTAB, sh_offset := 213, sh_size := of_nat (16 * length ss), sh_link := 3, sh_entsize := 16\<rparr>,
     shdr0\<lparr>sh_type := 3, sh_offset := of_nat (213 + 16 * length ss), sh_size := of_nat (length (names_of ss))\<rparr>]"

definition header_of :: "bool \<Rightarrow> Elf32_Ehdr" where
  "header_of dyn = \<lparr>e_ident = [0x7f, 0x45, 0x4c, 0x46, 1, 1, 1, 0, 0, 0, 0, 0, 0, 0, 0, 0], e_type = (if dyn then ET_DYN else ET_EXEC), e_machine = 40,
     e_version = 1, e_entry = 0, e_phoff = 0, e_shoff = 52, e_flags = 0, e_ehsize = 52, e_phentsize = 0, e_phnum = 0, e_shentsize = 40,
     e_shnum = 4, e_shstrndx = 1\<rparr>"

definition elf_image :: "elf \<Rightarrow> u8 list" where
  "elf_image e = enc_ehdr (header_of (elf_dyn e)) @ concat (map enc_shdr (shdrs_of (symtab e))) @ [0] @ syms_of (symtab e) @ names_of (symtab e)"

lemma length_name_offs [simp]: "length (name_offs off ss) = length ss"
  by (induction off ss rule: name_offs.induct) auto

lemma length_syms_of [simp]: "length (syms_of ss) = 16 * length ss"
proof -
  have "length (concat (map (\<lambda>(off, s). enc_sym off s) xs)) = 16 * length xs" for xs :: "(nat \<times> sym) list" by (induction xs) auto
  then show ?thesis by (simp add: syms_of_def)
qed

lemma name_at:
  "i < length ss \<Longrightarrow> \<exists>rest. drop (name_offs (length p) ss ! i) (p @ concat (map enc_name ss)) = enc_name (ss ! i) @ rest"
proof (induction ss arbitrary: p i)
  case (Cons s ss)
  show ?case
  proof (cases i)
    case (Suc j)
    have "length (p @ enc_name s) = length p + length (st_name s) + 1" by (simp add: enc_name_def)
    then show ?thesis using Cons.IH [of j "p @ enc_name s"] Cons.prems Suc by simp
  qed simp
qed simp

lemma byte_of_back [simp]: "char_of (unat (byte_of c)) = c"
proof -
  have "unat (byte_of c) = of_char c mod 256" by (simp add: byte_of_def unsigned_of_nat take_bit_eq_mod)
  then show ?thesis by simp
qed

lemma byte_of_zero: "byte_of c = 0 \<longleftrightarrow> c = CHR 0x00"
proof
  assume "byte_of c = 0"
  then have "c = char_of (0 :: nat)" using byte_of_back [of c] by simp
  then show "c = CHR 0x00" by (simp add: char_of_def)
qed (simp add: byte_of_def)

lemma str_at_name:
  assumes "i < length ss" and "CHR 0x00 \<notin> set (st_name (ss ! i))" and "length (names_of ss) < 2 ^ 32"
  shows "str_at (of_nat (name_offs 1 ss ! i)) (names_of ss) = Inr (st_name (ss ! i))"
    and "name_offs 1 ss ! i < 2 ^ 32"
proof -
  define off where "off = name_offs 1 ss ! i"
  obtain rest where r: "drop off (names_of ss) = enc_name (ss ! i) @ rest"
    using name_at [OF assms(1), of "[0]"] by (auto simp: names_of_def off_def)
  then have "off < length (names_of ss)" by (cases "off < length (names_of ss)") (auto simp: enc_name_def)
  then have lt: "off < 2 ^ 32" using assms(3) by simp
  then show "name_offs 1 ss ! i < 2 ^ 32" by (simp only: off_def)
  have u: "unat (of_nat off :: u32) = off" using lt by (simp add: unsigned_of_nat take_bit_nat_eq_self_iff)
  have "takeWhile (\<lambda>b. b \<noteq> 0) (enc_name (ss ! i) @ rest) = map byte_of (st_name (ss ! i))"
    using assms(2) unfolding enc_name_def append_assoc by (subst takeWhile_append2) (auto simp: byte_of_zero)
  moreover have "off + length (st_name (ss ! i)) < length (names_of ss)"
    using arg_cong [OF r, of length] by (simp add: enc_name_def)
  ultimately have "str_at (of_nat off) (names_of ss) = Inr (st_name (ss ! i))"
    by (simp add: str_at_def u r comp_def)
  then show "str_at (of_nat (name_offs 1 ss ! i)) (names_of ss) = Inr (st_name (ss ! i))" by (simp only: off_def)
qed

lemma map_res_all: "(\<And>x. x \<in> set xs \<Longrightarrow> g x = Inr (h x)) \<Longrightarrow> map_res g xs = Inr (map h xs)"
  by (induction xs) auto

text \<open>The symbols of the image are the symbols of the object.\<close>

lemma sym_entry:
  assumes "i < length ss"
  shows "entry_of 16 i (syms_of ss) = Inr (enc_sym (name_offs 1 ss ! i) (ss ! i))"
proof -
  let ?z = "zip (name_offs 1 ss) ss" and ?g = "\<lambda>(off, s). enc_sym off s"
  have "chunk 16 i (concat (map ?g ?z) @ []) = ?g (?z ! i)" using assms by (intro chunk_concat) auto
  then have "chunk 16 i (syms_of ss) = enc_sym (name_offs 1 ss ! i) (ss ! i)" using assms by (simp add: syms_of_def)
  then show ?thesis using assms by (simp add: entry_of_def)
qed

lemma efd_symbols:
  assumes "symtab_b efd = syms_of ss" and "strtab efd = names_of ss" and "sym_num efd = length ss"
    and "\<forall>s \<in> set ss. CHR 0x00 \<notin> set (st_name s)" and "length (names_of ss) < 2 ^ 32"
  shows "efd_elf efd = Inr \<lparr>elf_dyn = (e_type (elf_hdr efd) = ET_DYN), symtab = ss\<rparr>"
proof -
  have "efd_get_sym efd i = Inr (ss ! i)" if i: "i \<in> set [0..<length ss]" for i
  proof -
    have i': "i < length ss" using i by simp
    note s = str_at_name [OF i' _ assms(5)]
    have "sym_of (enc_sym (name_offs 1 ss ! i) (ss ! i)) = \<lparr>y_name = of_nat (name_offs 1 ss ! i), y_value = st_value (ss ! i), y_size = st_size (ss ! i),
        y_info = st_info (ss ! i), y_other = st_other (ss ! i), y_shndx = st_shndx (ss ! i)\<rparr>"
      using sym_read_back [of "name_offs 1 ss ! i" "ss ! i" "[]"] s(2) assms(4) i' by simp
    then show ?thesis using sym_entry [OF i'] s(1) assms(1,2,4) i' by (simp add: efd_get_sym_def Let_def)
  qed
  then have "map_res (efd_get_sym efd) [0..<length ss] = Inr (map ((!) ss) [0..<length ss])" by (rule map_res_all)
  then show ?thesis by (simp add: efd_elf_def assms(3) map_nth)
qed

lemma image_parts:
  assumes "f = elf_image e"
  shows "fread_at 0 52 f = enc_ehdr (header_of (elf_dyn e))" "fread_at 52 160 f = concat (map enc_shdr (shdrs_of (symtab e)))"
    "fread_at 213 (16 * length (symtab e)) f = syms_of (symtab e)"
    "fread_at (213 + 16 * length (symtab e)) (length (names_of (symtab e))) f = names_of (symtab e)"
    "length f = 213 + 16 * length (symtab e) + length (names_of (symtab e))"
proof -
  have h: "length (enc_ehdr (header_of (elf_dyn e))) = 52" by (rule length_structs(3)) (simp add: header_of_def)
  have s: "length (concat (map enc_shdr (shdrs_of (symtab e)))) = 160" by (simp add: shdrs_of_def)
  show "fread_at 0 52 f = enc_ehdr (header_of (elf_dyn e))" "fread_at 52 160 f = concat (map enc_shdr (shdrs_of (symtab e)))"
    "fread_at 213 (16 * length (symtab e)) f = syms_of (symtab e)"
    "fread_at (213 + 16 * length (symtab e)) (length (names_of (symtab e))) f = names_of (symtab e)"
    "length f = 213 + 16 * length (symtab e) + length (names_of (symtab e))"
    using h s by (simp_all add: assms fread_at_def elf_image_def)
qed

lemma sections_read:
  "map (\<lambda>i. shdr_of (chunk 40 i (concat (map enc_shdr (shdrs_of ss))))) [0..<4] = shdrs_of ss"
proof (rule nth_equalityI)
  show "length (map (\<lambda>i. shdr_of (chunk 40 i (concat (map enc_shdr (shdrs_of ss))))) [0..<4]) = length (shdrs_of ss)" by (simp add: shdrs_of_def)
  fix i assume "i < length (map (\<lambda>i. shdr_of (chunk 40 i (concat (map enc_shdr (shdrs_of ss))))) [0..<4])"
  then have i: "i < 4" by simp
  then have "i < length (shdrs_of ss)" by (simp add: shdrs_of_def)
  then have "chunk 40 i (concat (map enc_shdr (shdrs_of ss)) @ []) = enc_shdr (shdrs_of ss ! i)" by (intro chunk_concat) simp_all
  then show "map (\<lambda>i. shdr_of (chunk 40 i (concat (map enc_shdr (shdrs_of ss))))) [0..<4] ! i = shdrs_of ss ! i"
    using i shdr_read_back [of "shdrs_of ss ! i" "[]"] by simp
qed

lemma unat_small32: "n < 2 ^ 32 \<Longrightarrow> unat (of_nat n :: u32) = n"
  by (simp add: unsigned_of_nat take_bit_nat_eq_self_iff)

text \<open>The reader inverts the format: it reads back whether the image is a shared object, and all symbols in order.\<close>

lemma elf_reads_back:
  assumes "fopen path = Some (elf_image e)" and "\<forall>s \<in> set (symtab e). CHR 0x00 \<notin> set (st_name s)" and "length (elf_image e) < 2 ^ 32"
  shows "\<exists>efd. efd_open_elf fopen path = Inr (Some efd) \<and> efd_elf efd = Inr e"
proof -
  define f where "f = elf_image e"
  define ss where "ss = symtab e"
  note p = image_parts [OF f_def, folded ss_def]
  have len: "213 + 16 * length ss + length (names_of ss) < 2 ^ 32" using assms(3) p(5) by (simp add: f_def)
  let ?h = "header_of (elf_dyn e)"
  have h: "ehdr_of (fread_at 0 52 f) = ?h" using ehdr_read_back [of ?h "[]"] by (simp add: p(1) header_of_def)
  have fmt: "elf_check_format ?h" by (simp add: elf_check_format_def elf_ident_def header_of_def)
  have hs: "unat (e_shnum ?h) = 4" "unat (e_shoff ?h) = 52" "unat (e_shstrndx ?h) = 1" by (simp_all add: header_of_def)
  define efd1 where "efd1 = efd_init\<lparr>elf_hdr := ?h, sec_hdr := shdrs_of ss, shstrtab := read_sec (shdrs_of ss ! 1) f\<rparr>"
  define efd3 where "efd3 = efd1\<lparr>ndx_sym := 2, sym_num := length ss, symtab_b := syms_of ss, strtab := names_of ss, ndx_dynsym := 0\<rparr>"
  have l4: "length (shdrs_of ss) = 4" by (simp add: shdrs_of_def)
  have "efd_open_elf fopen path = read_symbols f efd1"
    using assms(1) h fmt p(5) hs by (simp add: efd_open_elf_def f_def [symmetric] feof_after_def Let_def p(2) sections_read sec_def efd1_def l4)
  moreover have "read_symbols f efd1 = Inr (Some efd3)"
  proof -
    have secs: "sec_hdr efd1 = shdrs_of ss" by (simp add: efd1_def)
    have ty: "efd_find_sec_by_type SHT_SYMTAB efd1 = 2" "efd_find_sec_by_type SHT_DYNSYM efd1 = 0"
      by (simp_all add: efd_find_sec_by_type_def first_sec_def secs shdrs_of_def shdr0_def SHT_SYMTAB_def SHT_DYNSYM_def upt_rec)
    let ?s = "shdrs_of ss ! 2" and ?t = "shdrs_of ss ! 3"
    have s: "unat (sh_offset ?s) = 213" "unat (sh_size ?s) = 16 * length ss" "sec_link ?s = 3" "sh_entsize ?s = 16"
      "unat (sh_offset ?t) = 213 + 16 * length ss" "unat (sh_size ?t) = length (names_of ss)"
      using unat_small32 [of "16 * length ss"] unat_small32 [of "213 + 16 * length ss"] unat_small32 [of "length (names_of ss)"] len
      by (simp_all add: shdrs_of_def shdr0_def sec_link_def del: of_nat_mult of_nat_add)
    have "sec 2 efd1 = Inr ?s" "sec 3 efd1 = Inr ?t" by (simp_all add: sec_def secs l4)
    moreover have "entries ?s = Inr (length ss)" using s by (simp add: entries_def)
    moreover have "\<not> sec_eof ?s f" "\<not> sec_eof ?t f" using s p(5) by (simp_all add: sec_eof_def feof_after_def)
    moreover have "read_sec ?s f = syms_of ss" "read_sec ?t f = names_of ss" using s p(3,4) by (simp_all add: read_sec_def)
    ultimately show ?thesis using ty s(3) by (simp add: read_symbols_def Let_def efd3_def)
  qed
  moreover have "efd_elf efd3 = Inr \<lparr>elf_dyn = (e_type (elf_hdr efd3) = ET_DYN), symtab = ss\<rparr>"
    using assms(2) len by (intro efd_symbols) (simp_all add: efd3_def ss_def)
  moreover have "e_type (elf_hdr efd3) = ET_DYN \<longleftrightarrow> elf_dyn e" by (simp add: efd3_def efd1_def header_of_def ET_DYN_def ET_EXEC_def)
  ultimately show ?thesis by (auto simp: ss_def)
qed

text \<open>The reader as the loader of objects uses it.\<close>

definition efd_symbols_of :: "(string \<Rightarrow> u8 list option) \<Rightarrow> string \<Rightarrow> elf option" where
  "efd_symbols_of fopen path = (case efd_open_elf fopen path of Inr (Some efd) \<Rightarrow> (case efd_elf efd of Inr e \<Rightarrow> Some e | Inl _ \<Rightarrow> None) | _ \<Rightarrow> None)"

text \<open>
  Property C34. From the bytes of a file to the functions of an object: the ELF reader reads back the kind of the object and all its
  symbols, and with two to 65535 functions the tracer loads it; then the search for a branch target ends for every address, and
  it finds exactly the addresses of the functions, each with its number in the order of the symbol table.
\<close>

theorem object_read_from_file:
  assumes "fopen path = Some (elf_image e)" and "\<forall>s \<in> set (symtab e). CHR 0x00 \<notin> set (st_name s)" and "length (elf_image e) < 2 ^ 32"
    and "2 \<le> length (filter IS_FUNC (symtab e))" and "length (filter IS_FUNC (symtab e)) < 65536"
  shows "\<exists>efd obj. efd_open_elf fopen path = Inr (Some efd) \<and> efd_elf efd = Inr e \<and>
    SET_create_obj (efd_symbols_of fopen) path start stop pgoff i = Inr (Some obj, i + 1) \<and> obj_id obj = i \<and>
    (\<forall>a. a \<noteq> 0 \<longrightarrow> func_find a obj = Inr (func_of (func_addrs (load_offset e start pgoff) (symtab e)) a))"
proof -
  obtain efd where r: "efd_open_elf fopen path = Inr (Some efd)" "efd_elf efd = Inr e"
    using elf_reads_back [of fopen path e] assms(1-3) by blast
  then have "efd_symbols_of fopen path = Some e" by (simp add: efd_symbols_of_def)
  then show ?thesis using created_obj [of "efd_symbols_of fopen" path e start stop pgoff i] assms(4,5) r by blast
qed

theorem object_read_from_file_witness:
  "\<exists>efd obj. efd_open_elf (\<lambda>_. Some (elf_image efd2)) ''lib'' = Inr (Some efd) \<and> efd_elf efd = Inr efd2 \<and>
    SET_create_obj (efd_symbols_of (\<lambda>_. Some (elf_image efd2))) ''lib'' 0x40000000 0x40002000 0 5 = Inr (Some obj, 6) \<and>
    func_find 0x40001008 obj = Inr (Some \<lparr>addr = 0x40001008, symtabFuncIdx = 1\<rparr>) \<and> func_find 0x40001004 obj = Inr None"
proof -
  have n: "\<forall>s \<in> set (symtab efd2). CHR 0x00 \<notin> set (st_name s)" by (simp add: efd2_def)
  have "length (symtab efd2) = 3" "length (names_of (symtab efd2)) = 10" by (simp_all add: efd2_def names_of_def enc_name_def)
  then have l: "length (elf_image efd2) < 2 ^ 32" using image_parts(5) [OF refl, of efd2] by simp
  have f: "length (filter IS_FUNC (symtab efd2)) = 2" by (simp add: efd2_def IS_FUNC_def STT_FUNC_def STV_DEFAULT_def)
  have a: "func_addrs (load_offset efd2 0x40000000 0) (symtab efd2) = [0x40001000, 0x40001008]"
    by (simp add: efd2_def func_addrs_def load_offset_def IS_FUNC_def STT_FUNC_def STV_DEFAULT_def THUMB_INSN_MASK_def)
  show ?thesis
    using object_read_from_file [where fopen = "\<lambda>_. Some (elf_image efd2)" and path = "''lib''" and e = efd2 and start = "0x40000000"
        and stop = "0x40002000" and pgoff = 0 and i = 5] n l by (auto simp: f a func_of_def)
qed

text \<open>A dynamic section without an entry that ends the list of libraries is read beyond its end.\<close>

lemma needed_libs_overrun: "needed_libs (concat (replicate n (enc 4 1 @ enc 4 x))) = Inl Undefined"
proof (induction n)
  case (Suc n)
  have "num 0 4 ((enc 4 1 @ enc 4 x) @ concat (replicate n (enc 4 1 @ enc 4 x))) = 1" using num_enc [of "[]" 0 4 1] by simp
  then show ?case using Suc by (subst needed_libs.simps) (simp add: DT_NEEDED_def)
qed (simp add: needed_libs.simps)

lemma file_not_elf: "fopen path = Some f \<Longrightarrow> length f < 52 \<Longrightarrow> efd_open_elf fopen path = Inr None"
  by (simp add: efd_open_elf_def feof_after_def)

end
