(* ===== verification/SET_Out.thy ===== *)
theory SET_Out
  imports VPMU_Monitor
begin

text \<open>
  The output of the event tracer (\<^verbatim>\<open>SET/SET_out.c\<close>): for every traced event one record in the files for type, process,
  cycles, power and counters, and one in the file of its kind, each through a buffer of 1024 entries.

  \<^item> A file is the list of the records written to it, and None is a file that is not open; writing to it is undefined.
  \<^item> The buffer, its fill and the file of one kind of event form a \<open>stream\<close>; the five buffers of the common part
    share one fill. The two access counts are doubles, here real numbers.
  \<^item> \<open>fopen\<close> is an argument that says whether a file can be opened. The tracing of variables with
    \<open>CONFIG_SET_DWARF\<close> is left out, as no build file defines it.
\<close>

section \<open>Buffers\<close>

definition MAX_BUF_SIZE :: nat where "MAX_BUF_SIZE = 1024"

record VPMUinfo =
  i_count :: u64
  ldst_count :: u64
  dcache_access_count :: real
  dcache_miss_count :: u64
  icache_access_count :: real
  icache_miss_count :: u64
  br_count :: u64
  eet :: u64
  eet_pipe :: u64
  eet_sys_mem :: u64
  eet_io :: u64
  eet_net :: u64

record Method =
  method_id :: "16 word"
  method_addr :: u32

record 'a stream =
  s_fp :: "'a list option"
  s_buf :: "nat \<Rightarrow> 'a"
  s_size :: nat

record SETOut =
  out_path :: string
  fp_type :: "u8 list option"
  fp_cc :: "u64 list option"
  fp_power :: "u64 list option"
  fp_vpmu :: "VPMUinfo list option"
  fp_pid :: "int list option"
  buf_type :: "nat \<Rightarrow> u8"
  buf_cc :: "nat \<Rightarrow> u64"
  buf_power :: "nat \<Rightarrow> u64"
  buf_vpmu :: "nat \<Rightarrow> VPMUinfo"
  buf_pid :: "nat \<Rightarrow> int"
  buf_global_size :: nat
  fp_obj :: "(16 word \<times> string) list option"
  func :: "u32 stream"
  fp_dex :: "(16 word \<times> string) list option"
  meth :: "Method stream"
  syscall :: "u32 stream"

definition SET_OUTPUT_FUNC :: u8 where "SET_OUTPUT_FUNC = 1"
definition SET_OUTPUT_METHOD :: u8 where "SET_OUTPUT_METHOD = 2"
definition SET_OUTPUT_SYSCALL :: u8 where "SET_OUTPUT_SYSCALL = 3"

definition fwrite :: "'a list \<Rightarrow> 'a list option \<Rightarrow> 'a list option res" where
  "fwrite xs fp = (case fp of None \<Rightarrow> Inl Undefined | Some ys \<Rightarrow> Inr (Some (ys @ xs)))"

text \<open>Flushing and writing a stream: the three functions of each kind have the same body.\<close>

definition stream_flush :: "'a stream \<Rightarrow> 'a stream res" where
  "stream_flush s = bind_res (fwrite (map (s_buf s) [0..<s_size s]) (s_fp s)) (\<lambda>fp. Inr (s\<lparr>s_fp := fp, s_size := 0\<rparr>))"

definition stream_put :: "'a \<Rightarrow> 'a stream \<Rightarrow> 'a stream res" where
  "stream_put x s = (if s_size s < MAX_BUF_SIZE then
       let s = s\<lparr>s_buf := (s_buf s)(s_size s := x), s_size := s_size s + 1\<rparr> in
       if s_size s = MAX_BUF_SIZE then stream_flush s else Inr s
     else Inl Out_of_bounds)"

definition SET_output_buffer_flush_pid :: "SETOut \<Rightarrow> SETOut res" where
  "SET_output_buffer_flush_pid out = bind_res (fwrite (map (buf_pid out) [0..<buf_global_size out]) (fp_pid out)) (\<lambda>fp. Inr (out\<lparr>fp_pid := fp\<rparr>))"

definition SET_output_buffer_flush_type_vpmu :: "SETOut \<Rightarrow> SETOut res" where
  "SET_output_buffer_flush_type_vpmu out = bind_res (SET_output_buffer_flush_pid out) (\<lambda>out. let n = buf_global_size out in
     bind_res (fwrite (map (buf_type out) [0..<n]) (fp_type out)) (\<lambda>fp. let out = out\<lparr>fp_type := fp\<rparr> in
     Inr ((if fp_cc out \<noteq> None then
         out\<lparr>fp_cc := map_option (\<lambda>xs. xs @ map (buf_cc out) [0..<n]) (fp_cc out),
            fp_power := map_option (\<lambda>xs. xs @ map (buf_power out) [0..<n]) (fp_power out),
            fp_vpmu := map_option (\<lambda>xs. xs @ map (buf_vpmu out) [0..<n]) (fp_vpmu out)\<rparr>
       else out)\<lparr>buf_global_size := 0\<rparr>)))"

definition SET_output_buffer_flush_func :: "SETOut \<Rightarrow> SETOut res" where
  "SET_output_buffer_flush_func out = bind_res (stream_flush (func out)) (\<lambda>s. Inr (out\<lparr>func := s\<rparr>))"

definition SET_output_buffer_flush_method :: "SETOut \<Rightarrow> SETOut res" where
  "SET_output_buffer_flush_method out = bind_res (stream_flush (meth out)) (\<lambda>s. Inr (out\<lparr>meth := s\<rparr>))"

definition SET_output_buffer_flush_syscall :: "SETOut \<Rightarrow> SETOut res" where
  "SET_output_buffer_flush_syscall out = bind_res (stream_flush (syscall out)) (\<lambda>s. Inr (out\<lparr>syscall := s\<rparr>))"

definition SET_output_buffer_flush_all :: "SETOut \<Rightarrow> SETOut res" where
  "SET_output_buffer_flush_all out = bind_res (SET_output_buffer_flush_type_vpmu out) (\<lambda>out.
     bind_res (if s_fp (func out) \<noteq> None then SET_output_buffer_flush_func out else Inr out) (\<lambda>out.
     bind_res (if s_fp (meth out) \<noteq> None then SET_output_buffer_flush_method out else Inr out) (\<lambda>out.
     if s_fp (syscall out) \<noteq> None then SET_output_buffer_flush_syscall out else Inr out)))"

section \<open>Opening and closing\<close>

definition stream0 :: "'a \<Rightarrow> 'a stream" where
  "stream0 x = \<lparr>s_fp = None, s_buf = \<lambda>_. x, s_size = 0\<rparr>"

definition VPMUinfo0 :: VPMUinfo where
  "VPMUinfo0 = \<lparr>i_count = 0, ldst_count = 0, dcache_access_count = 0, dcache_miss_count = 0, icache_access_count = 0,
     icache_miss_count = 0, br_count = 0, eet = 0, eet_pipe = 0, eet_sys_mem = 0, eet_io = 0, eet_net = 0\<rparr>"

definition SET_output_create :: "string \<Rightarrow> SETOut" where
  "SET_output_create pathname = \<lparr>out_path = pathname, fp_type = None, fp_cc = None, fp_power = None, fp_vpmu = None, fp_pid = None,
     buf_type = \<lambda>_. 0, buf_cc = \<lambda>_. 0, buf_power = \<lambda>_. 0, buf_vpmu = \<lambda>_. VPMUinfo0, buf_pid = \<lambda>_. 0, buf_global_size = 0,
     fp_obj = None, func = stream0 0, fp_dex = None, meth = stream0 \<lparr>method_id = 0, method_addr = 0\<rparr>, syscall = stream0 0\<rparr>"

text \<open>The files that are left behind, by the flush; the record itself is freed.\<close>

definition SET_output_close :: "SETOut \<Rightarrow> SETOut res" where
  "SET_output_close out = SET_output_buffer_flush_all out"

text \<open>The cases of the timing model fall through; a file that cannot be opened gives -1.\<close>

definition SET_output_open_type_vpmu :: "(string \<Rightarrow> bool) \<Rightarrow> int \<Rightarrow> SETOut \<Rightarrow> int \<times> SETOut" where
  "SET_output_open_type_vpmu fopen model out =
     (if \<not> fopen (take 255 (out_path out @ ''/type'')) then (-1, out\<lparr>fp_type := None\<rparr>)
      else let out = out\<lparr>fp_type := Some []\<rparr> in
        if model \<in> {1, 2, 3} then
          if \<not> fopen (take 255 (out_path out @ ''/vpmu'')) then (-1, out\<lparr>fp_vpmu := None\<rparr>)
          else let out = out\<lparr>fp_vpmu := Some []\<rparr> in
            if \<not> fopen (take 255 (out_path out @ ''/cc'')) then (-1, out\<lparr>fp_cc := None\<rparr>)
            else let out = out\<lparr>fp_cc := Some []\<rparr> in
              if \<not> fopen (take 255 (out_path out @ ''/power'')) then (-1, out\<lparr>fp_power := None\<rparr>)
              else (0, out\<lparr>fp_power := Some []\<rparr>)
        else if model = 0 then (0, out)
        else (-1, out))"

definition SET_output_open_pid :: "(string \<Rightarrow> bool) \<Rightarrow> SETOut \<Rightarrow> int \<times> SETOut" where
  "SET_output_open_pid fopen out = (if fopen (take 255 (out_path out @ ''/pid'')) then (0, out\<lparr>fp_pid := Some []\<rparr>) else (-1, out\<lparr>fp_pid := None\<rparr>))"

definition SET_output_open_obj_func :: "(string \<Rightarrow> bool) \<Rightarrow> SETOut \<Rightarrow> int \<times> SETOut" where
  "SET_output_open_obj_func fopen out =
     (if \<not> fopen (take 255 (out_path out @ ''/obj'')) then (-1, out\<lparr>fp_obj := None\<rparr>)
      else let out = out\<lparr>fp_obj := Some []\<rparr> in
        if fopen (take 255 (out_path out @ ''/func'')) then (0, out\<lparr>func := (func out)\<lparr>s_fp := Some []\<rparr>\<rparr>)
        else (-1, out\<lparr>func := (func out)\<lparr>s_fp := None\<rparr>\<rparr>))"

definition SET_output_open_syscall :: "(string \<Rightarrow> bool) \<Rightarrow> SETOut \<Rightarrow> int \<times> SETOut" where
  "SET_output_open_syscall fopen out =
     (if fopen (take 255 (out_path out @ ''/syscall'')) then (0, out\<lparr>syscall := (syscall out)\<lparr>s_fp := Some []\<rparr>\<rparr>)
      else (-1, out\<lparr>syscall := (syscall out)\<lparr>s_fp := None\<rparr>\<rparr>))"

definition SET_output_open_dex_method :: "(string \<Rightarrow> bool) \<Rightarrow> SETOut \<Rightarrow> int \<times> SETOut" where
  "SET_output_open_dex_method fopen out =
     (if \<not> fopen (take 255 (out_path out @ ''/dex'')) then (-1, out\<lparr>fp_dex := None\<rparr>)
      else let out = out\<lparr>fp_dex := Some []\<rparr> in
        if fopen (take 255 (out_path out @ ''/method'')) then (0, out\<lparr>meth := (meth out)\<lparr>s_fp := Some []\<rparr>\<rparr>)
        else (-1, out\<lparr>meth := (meth out)\<lparr>s_fp := None\<rparr>\<rparr>))"

section \<open>Writing\<close>

definition SET_output_write_pid :: "int \<Rightarrow> SETOut \<Rightarrow> SETOut res" where
  "SET_output_write_pid p out = (if buf_global_size out < MAX_BUF_SIZE then Inr (out\<lparr>buf_pid := (buf_pid out)(buf_global_size out := p)\<rparr>)
     else Inl Out_of_bounds)"

definition vpmu_info :: "pmu \<Rightarrow> VPMUinfo res" where
  "vpmu_info p = (let v = pm_vp p; C = pm_caches p in
     bind_res (vpmu_estimated_execution_time_ns v C (pm_dev p)) (\<lambda>e.
     bind_res (vpmu_estimated_pipeline_execution_time_ns v) (\<lambda>pi.
     bind_res (vpmu_estimated_sys_memory_access_time_ns v C) (\<lambda>sy.
     bind_res (vpmu_estimated_io_memory_access_time_ns v) (\<lambda>io.
     Inr \<lparr>i_count = vpmu_total_insn_count v, ldst_count = vpmu_total_ldst_count v,
       dcache_access_count = real_of_int (uint (vpmu_L1_dcache_access_count C)), dcache_miss_count = vpmu_L1_dcache_miss_count C,
       icache_access_count = real_of_int (uint (vpmu_L1_icache_access_count v C)), icache_miss_count = vpmu_L1_icache_miss_count C,
       br_count = vpmu_branch_insn_count v, eet = e, eet_pipe = pi, eet_sys_mem = sy, eet_io = io,
       eet_net = vpmu_estimated_network_execution_time_ns (pm_dev p)\<rparr>)))))"

text \<open>The measurements that belong to a record; the power brings the energy account up to date.\<close>

definition write_measures :: "SETOut \<times> pmu \<Rightarrow> (SETOut \<times> pmu) res" where
  "write_measures op = (let (out, p) = op; n = buf_global_size out in
     if fp_cc out \<noteq> None then
       let out = out\<lparr>buf_cc := (buf_cc out)(n := vpmu_cycle_count (pm_vp p) (pm_caches p))\<rparr> in
       bind_res (if fp_power out \<noteq> None then
           bind_res (vpmu_vpd_mpu_power p) (\<lambda>(w, p). Inr (out\<lparr>buf_power := (buf_power out)(n := ucast w)\<rparr>, p))
         else Inr (out, p)) (\<lambda>(out, p).
       if fp_vpmu out \<noteq> None then bind_res (vpmu_info p) (\<lambda>i. Inr (out\<lparr>buf_vpmu := (buf_vpmu out)(n := i)\<rparr>, p)) else Inr (out, p))
     else Inr (out, p))"

definition SET_output_write_type_vpmu :: "u8 \<Rightarrow> SETOut \<times> pmu \<Rightarrow> (SETOut \<times> pmu) res" where
  "SET_output_write_type_vpmu ty op = (let (out, p) = op; n = buf_global_size out in
     if n < MAX_BUF_SIZE then
       bind_res (write_measures (out\<lparr>buf_type := (buf_type out)(n := ty)\<rparr>, p)) (\<lambda>(out, p).
         let out = out\<lparr>buf_global_size := n + 1\<rparr> in
         if buf_global_size out = MAX_BUF_SIZE
         then bind_res (SET_output_buffer_flush_type_vpmu out) (\<lambda>out. Inr (out, p)) else Inr (out, p))
     else Inl Out_of_bounds)"

definition SET_output_write_obj :: "16 word \<Rightarrow> string \<Rightarrow> SETOut \<Rightarrow> SETOut res" where
  "SET_output_write_obj i path out = bind_res (fwrite [(i, path)] (fp_obj out)) (\<lambda>fp. Inr (out\<lparr>fp_obj := fp\<rparr>))"

definition SET_output_write_dex :: "16 word \<Rightarrow> string \<Rightarrow> SETOut \<Rightarrow> SETOut res" where
  "SET_output_write_dex i path out = bind_res (fwrite [(i, path)] (fp_dex out)) (\<lambda>fp. Inr (out\<lparr>fp_dex := fp\<rparr>))"

definition SET_output_write_func :: "u32 \<Rightarrow> SETOut \<times> pmu \<Rightarrow> (SETOut \<times> pmu) res" where
  "SET_output_write_func id_index op = bind_res (stream_put id_index (func (fst op))) (\<lambda>s.
     SET_output_write_type_vpmu SET_OUTPUT_FUNC ((fst op)\<lparr>func := s\<rparr>, snd op))"

definition SET_output_write_method :: "16 word \<Rightarrow> u32 \<Rightarrow> SETOut \<times> pmu \<Rightarrow> (SETOut \<times> pmu) res" where
  "SET_output_write_method i a op = bind_res (stream_put \<lparr>method_id = i, method_addr = a\<rparr> (meth (fst op))) (\<lambda>s.
     SET_output_write_type_vpmu SET_OUTPUT_METHOD ((fst op)\<lparr>meth := s\<rparr>, snd op))"

definition SET_output_write_syscall :: "u32 \<Rightarrow> SETOut \<times> pmu \<Rightarrow> (SETOut \<times> pmu) res" where
  "SET_output_write_syscall nr op = bind_res (stream_put nr (syscall (fst op))) (\<lambda>s.
     SET_output_write_type_vpmu SET_OUTPUT_SYSCALL ((fst op)\<lparr>syscall := s\<rparr>, snd op))"

section \<open>Buffered output loses nothing\<close>

text \<open>What has been written to a file, with what waits in its buffer.\<close>

definition written :: "'a list option \<Rightarrow> (nat \<Rightarrow> 'a) \<Rightarrow> nat \<Rightarrow> 'a list" where
  "written fp buf n = (case fp of None \<Rightarrow> [] | Some xs \<Rightarrow> xs @ map buf [0..<n])"

lemma written_put: "fp \<noteq> None \<Longrightarrow> written fp (buf(n := x)) (n + 1) = written fp buf n @ [x]"
  by (auto simp: written_def)

lemma written_flush: "written (map_option (\<lambda>xs. xs @ map buf [0..<n]) fp) buf' 0 = written fp buf n"
  by (cases fp) (simp_all add: written_def)

text \<open>The contract of a buffer: it accepts every item, keeps their order, and a flush brings all of them to the file.\<close>

locale log_buffer =
  fixes ok :: "'b \<Rightarrow> bool" and log :: "'b \<Rightarrow> 'a list" and disk :: "'b \<Rightarrow> 'a list option"
    and put :: "'a \<Rightarrow> 'b \<Rightarrow> 'b res" and flush :: "'b \<Rightarrow> 'b res"
  assumes put_log: "ok b \<Longrightarrow> \<exists>b'. put x b = Inr b' \<and> ok b' \<and> log b' = log b @ [x]"
    and flush_log: "ok b \<Longrightarrow> \<exists>b'. flush b = Inr b' \<and> ok b' \<and> log b' = log b \<and> disk b' = Some (log b)"
begin

lemma put_entries: "ok b \<Longrightarrow> \<exists>b'. fold_res put xs b = Inr b' \<and> ok b' \<and> log b' = log b @ xs"
proof (induction xs arbitrary: b)
  case (Cons x xs)
  obtain b1 where "put x b = Inr b1" "ok b1" "log b1 = log b @ [x]" using put_log [OF Cons.prems] by blast
  then show ?case using Cons.IH [of b1] by auto
qed simp

lemma all_in_file:
  assumes "ok b" and "log b = []"
  shows "\<exists>b1 b2. fold_res put xs b = Inr b1 \<and> flush b1 = Inr b2 \<and> disk b2 = Some xs"
  using put_entries [OF assms(1), of xs] flush_log assms(2) by fastforce

end

definition stream_ok :: "'a stream \<Rightarrow> bool" where
  "stream_ok s \<longleftrightarrow> s_fp s \<noteq> None \<and> s_size s < MAX_BUF_SIZE"

definition stream_log :: "'a stream \<Rightarrow> 'a list" where
  "stream_log s = written (s_fp s) (s_buf s) (s_size s)"

lemma stream_flush_ok:
  "s_fp s \<noteq> None \<Longrightarrow> \<exists>s'. stream_flush s = Inr s' \<and> stream_ok s' \<and> stream_log s' = stream_log s \<and> s_fp s' = Some (stream_log s)"
  by (auto simp: stream_flush_def fwrite_def stream_ok_def stream_log_def written_def MAX_BUF_SIZE_def)

lemma stream_put_ok:
  assumes "stream_ok s"
  shows "\<exists>s'. stream_put x s = Inr s' \<and> stream_ok s' \<and> stream_log s' = stream_log s @ [x]"
proof -
  let ?s = "s\<lparr>s_buf := (s_buf s)(s_size s := x), s_size := s_size s + 1\<rparr>"
  have l: "stream_log ?s = stream_log s @ [x]" "s_fp ?s \<noteq> None"
    using assms written_put [of "s_fp s" "s_buf s" "s_size s" x] by (simp_all add: stream_ok_def stream_log_def)
  show ?thesis
  proof (cases "s_size s + 1 = MAX_BUF_SIZE")
    case True
    then show ?thesis using stream_flush_ok [OF l(2)] l(1) assms by (auto simp: stream_put_def Let_def stream_ok_def)
  next
    case False
    then show ?thesis using l assms by (auto simp: stream_put_def Let_def stream_ok_def)
  qed
qed

interpretation streams: log_buffer stream_ok stream_log s_fp stream_put stream_flush
  by unfold_locales (rule stream_put_ok, assumption, rule stream_flush_ok, simp add: stream_ok_def)

section \<open>The records of an event\<close>

text \<open>An event is written by its process and its kind, with the state of the unit at that time.\<close>

datatype trace_rec = Func_rec u32 | Method_rec "16 word" u32 | Syscall_rec u32

fun write_rec :: "trace_rec \<Rightarrow> SETOut \<times> pmu \<Rightarrow> (SETOut \<times> pmu) res" where
  "write_rec (Func_rec f) = SET_output_write_func f"
| "write_rec (Method_rec i a) = SET_output_write_method i a"
| "write_rec (Syscall_rec n) = SET_output_write_syscall n"

definition emit :: "int \<Rightarrow> trace_rec \<Rightarrow> SETOut \<times> pmu \<Rightarrow> (SETOut \<times> pmu) res" where
  "emit p r op = bind_res (SET_output_write_pid p (fst op)) (\<lambda>out. write_rec r (out, snd op))"

type_synonym trace_event = "int \<times> trace_rec \<times> pmu"

definition emit_event :: "trace_event \<Rightarrow> SETOut \<Rightarrow> SETOut res" where
  "emit_event e out = bind_res (emit (fst e) (fst (snd e)) (out, snd (snd e))) (\<lambda>op. Inr (fst op))"

fun rec_type :: "trace_rec \<Rightarrow> u8" where
  "rec_type (Func_rec _) = 1" | "rec_type (Method_rec _ _) = 2" | "rec_type (Syscall_rec _) = 3"

fun rec_func :: "trace_rec \<Rightarrow> u32 option" where
  "rec_func (Func_rec f) = Some f" | "rec_func _ = None"

fun rec_method :: "trace_rec \<Rightarrow> Method option" where
  "rec_method (Method_rec i a) = Some \<lparr>method_id = i, method_addr = a\<rparr>" | "rec_method _ = None"

fun rec_syscall :: "trace_rec \<Rightarrow> u32 option" where
  "rec_syscall (Syscall_rec n) = Some n" | "rec_syscall _ = None"

definition out_ok :: "SETOut \<Rightarrow> bool" where
  "out_ok out \<longleftrightarrow> fp_type out \<noteq> None \<and> fp_pid out \<noteq> None \<and> buf_global_size out < MAX_BUF_SIZE \<and>
     stream_ok (func out) \<and> stream_ok (meth out) \<and> stream_ok (syscall out)"

definition log_type :: "SETOut \<Rightarrow> u8 list" where "log_type out = written (fp_type out) (buf_type out) (buf_global_size out)"
definition log_pid :: "SETOut \<Rightarrow> int list" where "log_pid out = written (fp_pid out) (buf_pid out) (buf_global_size out)"
definition log_cc :: "SETOut \<Rightarrow> u64 list" where "log_cc out = written (fp_cc out) (buf_cc out) (buf_global_size out)"

lemmas log_defs = log_type_def log_pid_def log_cc_def

text \<open>The unit is readable: it is on, has a frequency and, for processor model 1, a second level cache.\<close>

definition times_known :: "VPMU \<Rightarrow> bool" where
  "times_known v \<longleftrightarrow> target_cpu_frequency v \<noteq> 0 \<and> (cpu_model v = 1 \<longrightarrow> 1 < d4_maxlevel v)"

definition readable :: "pmu \<Rightarrow> bool" where
  "readable p \<longleftrightarrow> VPMU_enabled p \<and> times_known (pm_vp p)"

lemma readable_times:
  assumes "times_known (pm_vp p)"
  shows "\<exists>i. vpmu_info p = Inr i"
  using assms sys_cycles [of "pm_vp p"]
  by (simp add: times_known_def vpmu_info_def Let_def vpmu_estimated_execution_time_ns_def vpmu_estimated_pipeline_execution_time_ns_def
      vpmu_estimated_sys_memory_access_time_ns_def vpmu_estimated_io_memory_access_time_ns_def ns_of_int)

lemma readable_power:
  assumes "readable p"
  shows "\<exists>w v. vpmu_vpd_mpu_power p = Inr (w, set_vp v p) \<and> times_known v"
proof -
  have f: "times_known (add_energy mp x u) = times_known u" "times_known (u\<lparr>last_ticks := n\<rparr>) = times_known u" for mp x u n
    by (simp_all add: add_energy_def times_known_def)
  have "\<exists>v. vpmu_update_eet_epc (mpu_power p) (pm_vp p) (pm_caches p) = Inr v \<and> times_known v"
    using assms unfolding readable_def vpmu_update_eet_epc_def Let_def
    by (simp add: f times_known_def [of "pm_vp p"] del: insert_iff split: if_split)
  then show ?thesis using assms by (auto simp: readable_def vpmu_vpd_mpu_power_def)
qed

lemma write_measures_ok:
  assumes "readable p"
  shows "\<exists>out' p'. write_measures (out, p) = Inr (out', p') \<and> out' = out\<lparr>buf_cc := buf_cc out', buf_power := buf_power out', buf_vpmu := buf_vpmu out'\<rparr> \<and>
    (fp_cc out \<noteq> None \<longrightarrow> buf_cc out' = (buf_cc out)(buf_global_size out := vpmu_cycle_count (pm_vp p) (pm_caches p)))"
proof -
  obtain w v where w: "vpmu_vpd_mpu_power p = Inr (w, set_vp v p)" "times_known v" using readable_power [OF assms] by blast
  have "times_known (pm_vp p)" "times_known (pm_vp (set_vp v p))" using assms w(2) by (simp_all add: readable_def set_vp_def)
  then obtain i j where "vpmu_info p = Inr i" "vpmu_info (set_vp v p) = Inr j" using readable_times by blast
  then show ?thesis using w(1) by (simp add: write_measures_def Let_def)
qed

text \<open>Flushing the common part empties its buffers into the files.\<close>

lemma flush_type_vpmu_ok:
  assumes "fp_type out \<noteq> None" and "fp_pid out \<noteq> None"
  shows "\<exists>out'. SET_output_buffer_flush_type_vpmu out = Inr out' \<and> buf_global_size out' = 0 \<and>
    fp_type out' = Some (log_type out) \<and> fp_pid out' = Some (log_pid out) \<and> fp_cc out' = map_option (\<lambda>_. log_cc out) (fp_cc out) \<and>
    func out' = func out \<and> meth out' = meth out \<and> syscall out' = syscall out"
  using assms by (cases "fp_cc out") (auto simp: SET_output_buffer_flush_type_vpmu_def SET_output_buffer_flush_pid_def fwrite_def Let_def log_defs written_def)

lemma written_done [simp]: "written (Some xs) b 0 = xs"
  by (simp add: written_def)

lemma write_type_vpmu_ok:
  assumes "fp_type out \<noteq> None" and "fp_pid out \<noteq> None" and "buf_global_size out < MAX_BUF_SIZE" and "readable p"
  shows "\<exists>out' p'. SET_output_write_type_vpmu ty (out, p) = Inr (out', p') \<and> fp_type out' \<noteq> None \<and> fp_pid out' \<noteq> None \<and>
    buf_global_size out' < MAX_BUF_SIZE \<and> log_type out' = log_type out @ [ty] \<and>
    log_pid out' = log_pid out @ [buf_pid out (buf_global_size out)] \<and> (fp_cc out' = None) = (fp_cc out = None) \<and>
    (fp_cc out \<noteq> None \<longrightarrow> log_cc out' = log_cc out @ [vpmu_cycle_count (pm_vp p) (pm_caches p)]) \<and>
    func out' = func out \<and> meth out' = meth out \<and> syscall out' = syscall out"
proof -
  let ?n = "buf_global_size out"
  obtain o1 p' where m: "write_measures (out\<lparr>buf_type := (buf_type out)(?n := ty)\<rparr>, p) = Inr (o1, p')"
      "o1 = out\<lparr>buf_type := (buf_type out)(?n := ty), buf_cc := buf_cc o1, buf_power := buf_power o1, buf_vpmu := buf_vpmu o1\<rparr>"
      "fp_cc out \<noteq> None \<longrightarrow> buf_cc o1 = (buf_cc out)(?n := vpmu_cycle_count (pm_vp p) (pm_caches p))"
    using write_measures_ok [OF assms(4), of "out\<lparr>buf_type := (buf_type out)(?n := ty)\<rparr>"] by auto
  obtain bc bp bv where o1: "o1 = out\<lparr>buf_type := (buf_type out)(?n := ty), buf_cc := bc, buf_power := bp, buf_vpmu := bv\<rparr>"
    using m(2) by blast
  let ?o = "o1\<lparr>buf_global_size := ?n + 1\<rparr>"
  have b: "fp_type ?o = fp_type out" "fp_pid ?o = fp_pid out" "fp_cc ?o = fp_cc out" "func ?o = func out" "meth ?o = meth out"
    "syscall ?o = syscall out" "buf_type ?o = (buf_type out)(?n := ty)" "buf_pid ?o = buf_pid out" "buf_global_size ?o = ?n + 1"
    by (simp_all add: o1)
  have l: "log_type ?o = log_type out @ [ty]" "log_pid ?o = log_pid out @ [buf_pid out ?n]"
    "fp_cc out \<noteq> None \<Longrightarrow> log_cc ?o = log_cc out @ [vpmu_cycle_count (pm_vp p) (pm_caches p)]"
    using assms(1,2) written_put [of "fp_type out" "buf_type out" ?n ty] written_put [of "fp_pid out" "buf_pid out" ?n "buf_pid out ?n"]
      written_put [of "fp_cc out" "buf_cc out" ?n "vpmu_cycle_count (pm_vp p) (pm_caches p)"] m(3)
    unfolding log_defs by (simp_all add: b o1)
  show ?thesis
  proof (cases "?n + 1 = MAX_BUF_SIZE")
    case True
    obtain o2 where o2: "SET_output_buffer_flush_type_vpmu ?o = Inr o2" "buf_global_size o2 = 0" "fp_type o2 = Some (log_type ?o)"
        "fp_pid o2 = Some (log_pid ?o)" "fp_cc o2 = map_option (\<lambda>_. log_cc ?o) (fp_cc ?o)" "func o2 = func out" "meth o2 = meth out"
        "syscall o2 = syscall out"
      using flush_type_vpmu_ok [of ?o] assms(1,2) b by auto
    have w: "SET_output_write_type_vpmu ty (out, p) = Inr (o2, p')"
      using m(1) assms(3) True o2(1) by (simp add: SET_output_write_type_vpmu_def Let_def)
    have "log_type o2 = log_type ?o" "log_pid o2 = log_pid ?o" "fp_cc out \<noteq> None \<Longrightarrow> log_cc o2 = log_cc ?o" "(fp_cc o2 = None) = (fp_cc out = None)"
      using o2(2-5) b(3) by (auto simp: log_type_def [of o2] log_pid_def [of o2] log_cc_def [of o2])
    then show ?thesis using w o2 l by (auto simp: MAX_BUF_SIZE_def)
  next
    case False
    have "SET_output_write_type_vpmu ty (out, p) = Inr (?o, p')"
      using m(1) assms(3) False by (simp add: SET_output_write_type_vpmu_def Let_def)
    then show ?thesis using l b assms False by auto
  qed
qed

definition opt_list :: "'a option \<Rightarrow> 'a list" where
  "opt_list x = (case x of None \<Rightarrow> [] | Some y \<Rightarrow> [y])"

lemma opt_list_simps [simp]: "opt_list None = []" "opt_list (Some y) = [y]"
  by (simp_all add: opt_list_def)

text \<open>What one event adds to the logs.\<close>

definition adds :: "trace_event \<Rightarrow> SETOut \<Rightarrow> SETOut \<Rightarrow> bool" where
  "adds e out out' \<longleftrightarrow> (case e of (pd, r, p) \<Rightarrow>
     log_pid out' = log_pid out @ [pd] \<and> log_type out' = log_type out @ [rec_type r] \<and>
     (fp_cc out' = None) = (fp_cc out = None) \<and> (fp_cc out \<noteq> None \<longrightarrow> log_cc out' = log_cc out @ [vpmu_cycle_count (pm_vp p) (pm_caches p)]) \<and>
     stream_log (func out') = stream_log (func out) @ opt_list (rec_func r) \<and>
     stream_log (meth out') = stream_log (meth out) @ opt_list (rec_method r) \<and>
     stream_log (syscall out') = stream_log (syscall out) @ opt_list (rec_syscall r))"

lemma emit_event_ok:
  assumes ok: "out_ok out" and p: "readable (snd (snd e))"
  shows "\<exists>out'. emit_event e out = Inr out' \<and> out_ok out' \<and> adds e out out'"
proof -
  obtain pd r p where e: "e = (pd, r, p)" by (cases e) auto
  define o1 where "o1 = out\<lparr>buf_pid := (buf_pid out)(buf_global_size out := pd)\<rparr>"
  have o1: "SET_output_write_pid pd out = Inr o1" "log_pid o1 = log_pid out" "log_type o1 = log_type out" "log_cc o1 = log_cc out"
    "fp_cc o1 = fp_cc out" "func o1 = func out" "meth o1 = meth out" "syscall o1 = syscall out" "out_ok o1"
    "buf_pid o1 (buf_global_size o1) = pd"
    using ok by (auto simp: o1_def SET_output_write_pid_def out_ok_def log_defs written_def split: option.splits)
  have put: "\<exists>out' p'. SET_output_write_type_vpmu (rec_type r) (o2, p) = Inr (out', p') \<and> out_ok out' \<and> adds e out out'"
    if o2: "stream_ok (func o2)" "stream_ok (meth o2)" "stream_ok (syscall o2)"
      "stream_log (func o2) = stream_log (func out) @ opt_list (rec_func r)" "stream_log (meth o2) = stream_log (meth out) @ opt_list (rec_method r)"
      "stream_log (syscall o2) = stream_log (syscall out) @ opt_list (rec_syscall r)"
      "o2 = o1\<lparr>func := func o2, meth := meth o2, syscall := syscall o2\<rparr>" for o2
  proof -
    have k: "fp_type o2 = fp_type o1" "fp_pid o2 = fp_pid o1" "buf_global_size o2 = buf_global_size o1" "fp_cc o2 = fp_cc o1"
      "buf_type o2 = buf_type o1" "buf_pid o2 = buf_pid o1" "buf_cc o2 = buf_cc o1"
      by (subst o2(7), simp)+
    then have l: "log_type o2 = log_type o1" "log_pid o2 = log_pid o1" "log_cc o2 = log_cc o1" by (simp_all add: log_defs)
    show ?thesis
      using write_type_vpmu_ok [of o2 p "rec_type r"] o1 o2(1-6) k l p e by (auto simp: out_ok_def adds_def)
  qed
  have s: "stream_ok (func o1)" "stream_ok (meth o1)" "stream_ok (syscall o1)" using o1(9) by (simp_all add: out_ok_def)
  have "\<exists>out' p'. write_rec r (o1, p) = Inr (out', p') \<and> out_ok out' \<and> adds e out out'"
  proof (cases r)
    case (Func_rec x)
    obtain f where "stream_put x (func o1) = Inr f" "stream_ok f" "stream_log f = stream_log (func o1) @ [x]"
      using streams.put_log [OF s(1)] by blast
    then show ?thesis using put [of "o1\<lparr>func := f\<rparr>"] s o1 Func_rec by (simp add: SET_output_write_func_def SET_OUTPUT_FUNC_def)
  next
    case (Method_rec i a)
    obtain f where "stream_put \<lparr>method_id = i, method_addr = a\<rparr> (meth o1) = Inr f" "stream_ok f"
        "stream_log f = stream_log (meth o1) @ [\<lparr>method_id = i, method_addr = a\<rparr>]"
      using streams.put_log [OF s(2)] by blast
    then show ?thesis using put [of "o1\<lparr>meth := f\<rparr>"] s o1 Method_rec by (simp add: SET_output_write_method_def SET_OUTPUT_METHOD_def)
  next
    case (Syscall_rec x)
    obtain f where "stream_put x (syscall o1) = Inr f" "stream_ok f" "stream_log f = stream_log (syscall o1) @ [x]"
      using streams.put_log [OF s(3)] by blast
    then show ?thesis using put [of "o1\<lparr>syscall := f\<rparr>"] s o1 Syscall_rec by (simp add: SET_output_write_syscall_def SET_OUTPUT_SYSCALL_def)
  qed
  then show ?thesis using o1(1) e by (auto simp: emit_event_def emit_def)
qed

text \<open>All events, and the files at the end.\<close>

definition tracks :: "trace_event list \<Rightarrow> SETOut \<Rightarrow> SETOut \<Rightarrow> bool" where
  "tracks es out out' \<longleftrightarrow> log_pid out' = log_pid out @ map fst es \<and> log_type out' = log_type out @ map (\<lambda>e. rec_type (fst (snd e))) es \<and>
     (fp_cc out' = None) = (fp_cc out = None) \<and>
     (fp_cc out \<noteq> None \<longrightarrow> log_cc out' = log_cc out @ map (\<lambda>e. vpmu_cycle_count (pm_vp (snd (snd e))) (pm_caches (snd (snd e)))) es) \<and>
     stream_log (func out') = stream_log (func out) @ List.map_filter (\<lambda>e. rec_func (fst (snd e))) es \<and>
     stream_log (meth out') = stream_log (meth out) @ List.map_filter (\<lambda>e. rec_method (fst (snd e))) es \<and>
     stream_log (syscall out') = stream_log (syscall out) @ List.map_filter (\<lambda>e. rec_syscall (fst (snd e))) es"

lemma map_filter_Cons: "List.map_filter f (x # xs) = opt_list (f x) @ List.map_filter f xs"
  by (cases "f x") (simp_all add: map_filter_simps)

lemma tracks_Cons: "adds e out o1 \<Longrightarrow> tracks es o1 o2 \<Longrightarrow> tracks (e # es) out o2"
  unfolding adds_def tracks_def map_filter_Cons by (cases e) auto

lemma emit_all:
  assumes "out_ok out" and "\<forall>e \<in> set es. readable (snd (snd e))"
  shows "\<exists>out'. fold_res emit_event es out = Inr out' \<and> out_ok out' \<and> tracks es out out'"
  using assms
proof (induction es arbitrary: out)
  case Nil
  then show ?case by (simp add: tracks_def map_filter_simps)
next
  case (Cons e es)
  obtain o1 where o1: "emit_event e out = Inr o1" "out_ok o1" "adds e out o1" using emit_event_ok [OF Cons.prems(1), of e] Cons.prems(2) by auto
  obtain o2 where "fold_res emit_event es o1 = Inr o2" "out_ok o2" "tracks es o1 o2" using Cons.IH [OF o1(2)] Cons.prems(2) by auto
  then show ?case using o1 tracks_Cons [OF o1(3)] by auto
qed

lemma flush_all_ok:
  assumes "out_ok out"
  shows "\<exists>out'. SET_output_buffer_flush_all out = Inr out' \<and> fp_pid out' = Some (log_pid out) \<and> fp_type out' = Some (log_type out) \<and>
    fp_cc out' = map_option (\<lambda>_. log_cc out) (fp_cc out) \<and> s_fp (func out') = Some (stream_log (func out)) \<and>
    s_fp (meth out') = Some (stream_log (meth out)) \<and> s_fp (syscall out') = Some (stream_log (syscall out))"
proof -
  obtain o1 where o1: "SET_output_buffer_flush_type_vpmu out = Inr o1" "fp_type o1 = Some (log_type out)" "fp_pid o1 = Some (log_pid out)"
      "fp_cc o1 = map_option (\<lambda>_. log_cc out) (fp_cc out)" "func o1 = func out" "meth o1 = meth out" "syscall o1 = syscall out"
    using flush_type_vpmu_ok [of out] assms by (auto simp: out_ok_def)
  have s: "stream_ok (func out)" "stream_ok (meth out)" "stream_ok (syscall out)" using assms by (simp_all add: out_ok_def)
  obtain f m y where "stream_flush (func out) = Inr f" "s_fp f = Some (stream_log (func out))"
      "stream_flush (meth out) = Inr m" "s_fp m = Some (stream_log (meth out))"
      "stream_flush (syscall out) = Inr y" "s_fp y = Some (stream_log (syscall out))"
    using streams.flush_log [OF s(1)] streams.flush_log [OF s(2)] streams.flush_log [OF s(3)] by blast
  then show ?thesis using o1 s
    by (simp add: SET_output_buffer_flush_all_def SET_output_buffer_flush_func_def SET_output_buffer_flush_method_def
        SET_output_buffer_flush_syscall_def stream_ok_def)
qed

text \<open>The files of a process that traces everything, just opened.\<close>

definition open_all :: "(string \<Rightarrow> bool) \<Rightarrow> int \<Rightarrow> SETOut \<Rightarrow> SETOut" where
  "open_all fopen model out = snd (SET_output_open_syscall fopen (snd (SET_output_open_dex_method fopen
     (snd (SET_output_open_obj_func fopen (snd (SET_output_open_pid fopen (snd (SET_output_open_type_vpmu fopen model out)))))))))"

lemma open_all_ok:
  "let out = open_all (\<lambda>_. True) model (SET_output_create path) in
    out_ok out \<and> log_pid out = [] \<and> log_type out = [] \<and> log_cc out = [] \<and> stream_log (func out) = [] \<and> stream_log (meth out) = [] \<and>
    stream_log (syscall out) = [] \<and> (fp_cc out \<noteq> None \<longleftrightarrow> model \<in> {1, 2, 3})"
  by (simp add: open_all_def SET_output_open_syscall_def SET_output_open_dex_method_def SET_output_open_obj_func_def SET_output_open_pid_def
      SET_output_open_type_vpmu_def SET_output_create_def out_ok_def stream_ok_def stream0_def log_defs stream_log_def written_def Let_def MAX_BUF_SIZE_def)

text \<open>
  Property C35. The trace files are complete and aligned: whatever events are traced, the writers stay inside the buffers,
  and after closing the output each event has its process, its type and (for the timing models 1 to 3) its cycle
  count in the common files, in order, and its record in the file of its kind.
\<close>

theorem trace_files_complete:
  assumes "\<forall>e \<in> set es. readable (snd (snd e))"
  shows "\<exists>o1 o2. fold_res emit_event es (open_all (\<lambda>_. True) model (SET_output_create path)) = Inr o1 \<and> SET_output_close o1 = Inr o2 \<and>
    fp_pid o2 = Some (map fst es) \<and> fp_type o2 = Some (map (\<lambda>e. rec_type (fst (snd e))) es) \<and>
    fp_cc o2 = (if model \<in> {1, 2, 3} then Some (map (\<lambda>e. vpmu_cycle_count (pm_vp (snd (snd e))) (pm_caches (snd (snd e)))) es) else None) \<and>
    s_fp (func o2) = Some (List.map_filter (\<lambda>e. rec_func (fst (snd e))) es) \<and>
    s_fp (meth o2) = Some (List.map_filter (\<lambda>e. rec_method (fst (snd e))) es) \<and>
    s_fp (syscall o2) = Some (List.map_filter (\<lambda>e. rec_syscall (fst (snd e))) es)"
proof -
  define out where "out = open_all (\<lambda>_. True) model (SET_output_create path)"
  note o0 = open_all_ok [of model path, unfolded Let_def, folded out_def]
  obtain o1 where o1: "fold_res emit_event es out = Inr o1" "out_ok o1" "tracks es out o1"
    using emit_all [of out es] o0 assms by blast
  obtain o2 where "SET_output_buffer_flush_all o1 = Inr o2" "fp_pid o2 = Some (log_pid o1)" "fp_type o2 = Some (log_type o1)"
      "fp_cc o2 = map_option (\<lambda>_. log_cc o1) (fp_cc o1)" "s_fp (func o2) = Some (stream_log (func o1))"
      "s_fp (meth o2) = Some (stream_log (meth o1))" "s_fp (syscall o2) = Some (stream_log (syscall o1))"
    using flush_all_ok [OF o1(2)] by blast
  moreover have "map_option (\<lambda>_. log_cc o1) (fp_cc o1) =
      (if model \<in> {1, 2, 3} then Some (map (\<lambda>e. vpmu_cycle_count (pm_vp (snd (snd e))) (pm_caches (snd (snd e)))) es) else None)"
    using o1(3) o0 by (cases "fp_cc o1") (auto simp: tracks_def)
  ultimately show ?thesis
    using o1 o0 unfolding out_def [symmetric] tracks_def SET_output_close_def by auto
qed

definition pmu_on :: pmu where
  "pmu_on = pmu1\<lparr>VPMU_enabled := True\<rparr>"

theorem trace_files_complete_witness:
  "\<exists>o1 o2. fold_res emit_event [(7, Func_rec 0x20001, pmu_on), (8, Syscall_rec 4, pmu_on), (7, Func_rec 1, pmu_on)]
      (open_all (\<lambda>_. True) 2 (SET_output_create ''a.set'')) = Inr o1 \<and> SET_output_close o1 = Inr o2 \<and>
    fp_pid o2 = Some [7, 8, 7] \<and> fp_type o2 = Some [1, 3, 1] \<and> s_fp (func o2) = Some [0x20001, 1] \<and> s_fp (syscall o2) = Some [4]"
proof -
  have "readable pmu_on" by (simp add: readable_def times_known_def pmu_on_def event_examples)
  then show ?thesis
    using trace_files_complete [of "[(7, Func_rec 0x20001, pmu_on), (8, Syscall_rec 4, pmu_on), (7, Func_rec 1, pmu_on)]" 2 "''a.set''"]
    by (simp add: map_filter_simps) blast
qed

end
