(* ===== verification/SET_Branch.thy ===== *)
theory SET_Branch
  imports SET_Hash SET_Out
begin

unbundle bit_operations_syntax

text \<open>
  The events of a traced process (\<^verbatim>\<open>SET/SET_event.c\<close>, \<^verbatim>\<open>target-arm/op_SET.c\<close>): at every branch of the guest the tracer
  finds out whether it enters a function or returns from one, keeps the return addresses of user code,
  kernel and interrupt handlers on stacks of its own, and writes a record.

  \<^item> A function record is the identifier of its object file and the number of the function; the values below
    \<open>0x30000\<close> stand for a number of returns in user code (0), the kernel (1) and an interrupt (2).
  \<^item> A process is \<open>SETProcess\<close> without its places in the tables of processes; tables with a size are lists, None is a null pointer, and
    the count of tracing threads is that of a process with one thread.
  \<^item> The first part of \<open>SET_event_branch\<close>, which reads the structures of the guest kernel, is in \<open>SET_System\<close>.
\<close>

section \<open>Processes and stacks\<close>

definition MAX_STACK_SIZE :: nat where "MAX_STACK_SIZE = 1024"

record Stack =
  stk :: "nat \<Rightarrow> u32"
  stk_size :: nat

record DexFile =
  dex_id :: "16 word"
  dex_path :: string
  dex_start :: u32
  dex_end :: u32
  dex_count :: int

definition SET_PROCESS_OUTPUT :: u8 where "SET_PROCESS_OUTPUT = 0x01"
definition SET_PROCESS_KERNEL :: u8 where "SET_PROCESS_KERNEL = 0x02"
definition SET_PROCESS_SYSCALL :: u8 where "SET_PROCESS_SYSCALL = 0x04"
definition SET_PROCESS_LIBRARY :: u8 where "SET_PROCESS_LIBRARY = 0x08"
definition SET_PROCESS_USER_C :: u8 where "SET_PROCESS_USER_C = 0x10"
definition SET_PROCESS_DALVIK :: u8 where "SET_PROCESS_DALVIK = 0x20"
definition SET_PROCESS_IRQ :: u8 where "SET_PROCESS_IRQ = 0x40"
definition SET_PROCESS_MMAP :: u8 where "SET_PROCESS_MMAP = 0x80"

record SETProcess =
  p_type :: u8
  p_name :: string
  p_pid :: int
  p_output :: "SETOut option"
  p_tracing :: int
  path_kernel :: string
  objKernel :: "ObjFile option"
  p_kernel :: "Stack option"
  p_irq :: "Stack option"
  p_ic :: "Stack option"
  path_c :: string
  objTable :: "ObjFile list"
  p_user :: "Stack option"
  return_addr :: u32
  dexTable :: "DexFile list"

definition has_type :: "u8 \<Rightarrow> SETProcess \<Rightarrow> bool" where
  "has_type t p \<longleftrightarrow> p_type p AND t \<noteq> 0"

definition SET_callstack_push :: "u32 \<Rightarrow> Stack \<Rightarrow> Stack" where
  "SET_callstack_push a s = (if stk_size s < MAX_STACK_SIZE then s\<lparr>stk := (stk s)(stk_size s := a), stk_size := stk_size s + 1\<rparr> else s)"

text \<open>A function record is written when the process has an output.\<close>

definition out_rec :: "trace_rec \<Rightarrow> SETProcess \<times> pmu \<Rightarrow> (SETProcess \<times> pmu) res" where
  "out_rec r pm = (case p_output (fst pm) of None \<Rightarrow> Inr pm
     | Some out \<Rightarrow> bind_res (emit (p_pid (fst pm)) r (out, snd pm)) (\<lambda>(out, m). Inr ((fst pm)\<lparr>p_output := Some out\<rparr>, m)))"

definition out_funcs :: "u32 list \<Rightarrow> SETProcess \<Rightarrow> pmu \<Rightarrow> (SETProcess \<times> pmu) res" where
  "out_funcs cs p m = fold_res (\<lambda>c. out_rec (Func_rec c)) cs (p, m)"

section \<open>Ordered tables\<close>

text \<open>The last entry that does not start behind the address; the caller has tested the first one.\<close>

definition table_entry :: "('a \<Rightarrow> u32) \<Rightarrow> u32 \<Rightarrow> 'a list \<Rightarrow> 'a" where
  "table_entry start a tab = tab ! length (takeWhile (\<lambda>e. \<not> a < start e) (tl tab))"

text \<open>Insertion in the order of the addresses, behind those with the same address; a full table takes no more.\<close>

definition ordered_insert :: "('a \<Rightarrow> u32) \<Rightarrow> 'a \<Rightarrow> 'a list \<Rightarrow> 'a list" where
  "ordered_insert start e tab = takeWhile (\<lambda>f. \<not> start e < start f) tab @ e # dropWhile (\<lambda>f. \<not> start e < start f) tab"

definition MAX_OBJ_TABLE_SIZE :: nat where "MAX_OBJ_TABLE_SIZE = 256"
definition MAX_DEX_TABLE_SIZE :: nat where "MAX_DEX_TABLE_SIZE = 256"

definition SET_attach_obj :: "ObjFile \<Rightarrow> SETProcess \<Rightarrow> SETProcess res" where
  "SET_attach_obj obj p = (if length (objTable p) = MAX_OBJ_TABLE_SIZE then Inr p else
     bind_res (case p_output p of None \<Rightarrow> Inr None
       | Some out \<Rightarrow> bind_res (SET_output_write_obj (obj_id obj) (obj_path obj) out) (\<lambda>out. Inr (Some out))) (\<lambda>out.
     Inr (p\<lparr>p_output := out, objTable := ordered_insert text_start (obj\<lparr>obj_count := obj_count obj + 1\<rparr>) (objTable p)\<rparr>)))"

definition SET_attach_dex :: "DexFile \<Rightarrow> SETProcess \<Rightarrow> SETProcess res" where
  "SET_attach_dex dex p = (if length (dexTable p) = MAX_DEX_TABLE_SIZE then Inr p else
     bind_res (case p_output p of None \<Rightarrow> Inr None
       | Some out \<Rightarrow> bind_res (SET_output_write_dex (dex_id dex) (dex_path dex) out) (\<lambda>out. Inr (Some out))) (\<lambda>out.
     Inr (p\<lparr>p_output := out, dexTable := ordered_insert dex_start (dex\<lparr>dex_count := dex_count dex + 1\<rparr>) (dexTable p)\<rparr>)))"

section \<open>Branches\<close>

text \<open>The depth of the innermost frame with the target as return address.\<close>

definition find_frame :: "u32 \<Rightarrow> Stack \<Rightarrow> nat option" where
  "find_frame target s = find (\<lambda>i. target = stk s (stk_size s - i)) [1..<stk_size s + 1]"

text \<open>
  A branch in user code: the records it writes, and the process. The three cases are a target in a known object
  (an entry, a return, or neither), a return to the code that called the library, and an unknown target, whose
  return address is kept for the next entry.
\<close>

definition inside_object :: "ObjFile \<Rightarrow> u32 \<Rightarrow> u32 \<Rightarrow> Stack \<Rightarrow> SETProcess \<Rightarrow> (u32 list \<times> SETProcess) res" where
  "inside_object obj target ret s p = bind_res (func_find target obj) (\<lambda>f. Inr (case f of
       Some f \<Rightarrow> ([push_bit 16 (ucast (obj_id obj)) OR symtabFuncIdx f],
         if return_addr p = 0 then p\<lparr>p_user := Some (SET_callstack_push ret s)\<rparr>
         else p\<lparr>p_user := Some (SET_callstack_push (return_addr p) s), return_addr := 0\<rparr>)
     | None \<Rightarrow> (case find_frame target s of
         None \<Rightarrow> ([], p)
       | Some i \<Rightarrow> ([of_nat i], p\<lparr>p_user := Some (s\<lparr>stk_size := stk_size s - i\<rparr>)\<rparr>))))"

definition outside_object :: "u32 \<Rightarrow> u32 \<Rightarrow> Stack \<Rightarrow> SETProcess \<Rightarrow> u32 list \<times> SETProcess" where
  "outside_object target ret s p = (if stk_size s > 0 \<and> target = stk s 0
     then ([of_nat (stk_size s)], p\<lparr>p_user := Some (s\<lparr>stk_size := 0\<rparr>)\<rparr>) else ([], p\<lparr>return_addr := ret\<rparr>))"

definition user_branch :: "u32 \<Rightarrow> u32 \<Rightarrow> SETProcess \<Rightarrow> (u32 list \<times> SETProcess) res" where
  "user_branch target ret p = (if objTable p = [] then Inr ([], p) else
     bind_res (deref (p_user p)) (\<lambda>s.
       let obj = table_entry text_start target (objTable p) in
       if target \<ge> text_start (hd (objTable p)) \<and> target \<le> text_end obj then inside_object obj target ret s p
       else Inr (outside_object target ret s p)))"

definition SET_event_branch_user :: "u32 \<Rightarrow> u32 \<Rightarrow> SETProcess \<Rightarrow> pmu \<Rightarrow> (SETProcess \<times> pmu) res" where
  "SET_event_branch_user target ret p m = bind_res (user_branch target ret p) (\<lambda>(cs, q). out_funcs cs q m)"

text \<open>In the kernel and in interrupts the search for a return goes on after a match, with the shorter stack.\<close>

function exit_loop :: "u32 \<Rightarrow> u32 \<Rightarrow> nat \<Rightarrow> Stack \<Rightarrow> u32 list \<times> Stack" where
  "exit_loop flag target i s = (if i \<le> stk_size s then
       if target = stk s (stk_size s - i) then
         let (cs, s') = exit_loop flag target (i + 1) (s\<lparr>stk_size := stk_size s - i\<rparr>) in ((flag OR of_nat i) # cs, s')
       else exit_loop flag target (i + 1) s
     else ([], s))"
  by pat_completeness auto
termination by (relation "measure (\<lambda>(_, _, i, s). stk_size s + 1 - i)") auto

declare exit_loop.simps [simp del]

definition SET_event_branch_kernel :: "u32 \<Rightarrow> u32 \<Rightarrow> SETProcess \<Rightarrow> pmu \<Rightarrow> (SETProcess \<times> pmu) res" where
  "SET_event_branch_kernel target ret p m =
     bind_res (deref (objKernel p)) (\<lambda>obj. bind_res (deref (p_kernel p)) (\<lambda>s.
     bind_res (func_find target obj) (\<lambda>f. case f of
       Some f \<Rightarrow> out_funcs [push_bit 16 (ucast (obj_id obj)) OR symtabFuncIdx f] (p\<lparr>p_kernel := Some (SET_callstack_push ret s)\<rparr>) m
     | None \<Rightarrow> let (cs, s) = exit_loop 0x10000 target 1 s in out_funcs cs (p\<lparr>p_kernel := Some s\<rparr>) m)))"

definition SET_event_branch_irq :: "u32 \<Rightarrow> u32 \<Rightarrow> SETProcess \<Rightarrow> pmu \<Rightarrow> (SETProcess \<times> pmu) res" where
  "SET_event_branch_irq target ret p m =
     bind_res (deref (objKernel p)) (\<lambda>obj. bind_res (deref (p_ic p)) (\<lambda>s.
     bind_res (func_find target obj) (\<lambda>f. case f of
       Some f \<Rightarrow> out_funcs [0x30000 OR symtabFuncIdx f] (p\<lparr>p_ic := Some (SET_callstack_push ret s)\<rparr>) m
     | None \<Rightarrow> let (cs, s) = exit_loop 0x20000 target 1 s in out_funcs cs (p\<lparr>p_ic := Some s\<rparr>) m)))"

text \<open>The return from an interrupt empties the stack of its handler, the return to user code that of the kernel.\<close>

definition leave_irq :: "Stack \<Rightarrow> SETProcess \<Rightarrow> pmu \<Rightarrow> (SETProcess \<times> pmu) res" where
  "leave_irq s p m = (let p = p\<lparr>p_irq := Some (s\<lparr>stk_size := stk_size s - 1\<rparr>)\<rparr> in
     if has_type SET_PROCESS_IRQ p then
       bind_res (deref (p_ic p)) (\<lambda>c. if stk_size c > 0
         then out_funcs [0x20000 OR of_nat (stk_size c)] (p\<lparr>p_ic := Some (c\<lparr>stk_size := 0\<rparr>)\<rparr>) m else Inr (p, m))
     else Inr (p, m))"

definition leave_kernel :: "SETProcess \<Rightarrow> pmu \<Rightarrow> (SETProcess \<times> pmu) res" where
  "leave_kernel p m = (if has_type SET_PROCESS_KERNEL p then
       bind_res (deref (p_kernel p)) (\<lambda>k. if stk_size k > 0
         then out_funcs [0x10000 OR of_nat (stk_size k)] (p\<lparr>p_kernel := Some (k\<lparr>stk_size := 0\<rparr>)\<rparr>) m else Inr (p, m))
     else Inr (p, m))"

definition branch_process :: "u32 \<Rightarrow> u32 \<Rightarrow> SETProcess \<Rightarrow> pmu \<Rightarrow> (SETProcess \<times> pmu) res" where
  "branch_process target ret p m =
     (if target < 0xc0000000 then
        if ret < 0xc0000000 then
          if has_type (SET_PROCESS_LIBRARY OR SET_PROCESS_USER_C) p then SET_event_branch_user target ret p m else Inr (p, m)
        else leave_kernel p m
      else if has_type SET_PROCESS_KERNEL p then SET_event_branch_kernel target ret p m else Inr (p, m))"

definition branch_traced :: "u32 \<Rightarrow> u32 \<Rightarrow> SETProcess \<Rightarrow> pmu \<Rightarrow> (SETProcess \<times> pmu) res" where
  "branch_traced target ret p m =
     (if has_type (SET_PROCESS_KERNEL OR SET_PROCESS_IRQ) p then
        bind_res (deref (p_irq p)) (\<lambda>s.
          if stk_size s > 0 then
            if target = stk s (stk_size s - 1) then leave_irq s p m
            else if has_type SET_PROCESS_IRQ p then SET_event_branch_irq target ret p m else Inr (p, m)
          else branch_process target ret p m)
      else branch_process target ret p m)"

section \<open>Other events\<close>

definition SET_event_syscall :: "u32 \<Rightarrow> SETProcess \<Rightarrow> pmu \<Rightarrow> (SETProcess \<times> pmu) res" where
  "SET_event_syscall r7 p m = (if has_type SET_PROCESS_SYSCALL p then out_rec (Syscall_rec r7) (p, m) else Inr (p, m))"

definition SET_event_interrupt :: "u32 \<Rightarrow> SETProcess \<Rightarrow> SETProcess res" where
  "SET_event_interrupt ret p = (if has_type (SET_PROCESS_KERNEL OR SET_PROCESS_IRQ) p
     then bind_res (deref (p_irq p)) (\<lambda>s. Inr (p\<lparr>p_irq := Some (SET_callstack_push ret s)\<rparr>)) else Inr p)"

definition method_event :: "u32 \<Rightarrow> u32 \<Rightarrow> SETProcess \<Rightarrow> pmu \<Rightarrow> (SETProcess \<times> pmu) res" where
  "method_event insns k p m =
     (if has_type SET_PROCESS_DALVIK p \<and> dexTable p \<noteq> [] \<and> \<not> insns < dex_start (hd (dexTable p)) then
        let dex = table_entry dex_start insns (dexTable p) in
        if insns \<le> dex_end dex then out_rec (Method_rec (dex_id dex) (insns - dex_start dex + k)) (p, m) else Inr (p, m)
      else Inr (p, m))"

definition SET_event_method_entry :: "u32 \<Rightarrow> SETProcess \<Rightarrow> pmu \<Rightarrow> (SETProcess \<times> pmu) res" where
  "SET_event_method_entry insns = method_event insns 0"

definition SET_event_method_exit :: "u32 \<Rightarrow> SETProcess \<Rightarrow> pmu \<Rightarrow> (SETProcess \<times> pmu) res" where
  "SET_event_method_exit insns = method_event insns 1"

definition SET_event_jni_entry :: "SETProcess \<Rightarrow> pmu \<Rightarrow> (SETProcess \<times> pmu) res" where
  "SET_event_jni_entry p m = (if has_type SET_PROCESS_DALVIK p \<and> dexTable p \<noteq> [] then out_rec (Method_rec (-1) 0) (p, m) else Inr (p, m))"

definition SET_event_jni_exit :: "SETProcess \<Rightarrow> pmu \<Rightarrow> (SETProcess \<times> pmu) res" where
  "SET_event_jni_exit p m = (if has_type SET_PROCESS_DALVIK p \<and> dexTable p \<noteq> [] then out_rec (Method_rec (-1) 1) (p, m) else Inr (p, m))"

section \<open>Lookups in ordered tables\<close>

text \<open>A table is in order when the address ranges of its entries are not empty and follow each other without overlap.\<close>

definition in_order :: "('a \<Rightarrow> u32) \<Rightarrow> ('a \<Rightarrow> u32) \<Rightarrow> 'a list \<Rightarrow> bool" where
  "in_order start stop tab \<longleftrightarrow> (\<forall>e \<in> set tab. start e \<le> stop e) \<and> sorted_wrt (\<lambda>e f. stop e < start f) tab"

definition entry_at :: "('a \<Rightarrow> u32) \<Rightarrow> ('a \<Rightarrow> u32) \<Rightarrow> u32 \<Rightarrow> 'a list \<Rightarrow> 'a option" where
  "entry_at start stop a tab = find (\<lambda>e. start e \<le> a \<and> a \<le> stop e) tab"

lemma table_entry_finds:
  assumes "in_order start stop tab" and "tab \<noteq> []"
  shows "entry_at start stop a tab =
    (if start (hd tab) \<le> a \<and> a \<le> stop (table_entry start a tab) then Some (table_entry start a tab) else None)"
  using assms
proof (induction tab)
  case (Cons e tab)
  show ?case
  proof (cases tab)
    case Nil
    then show ?thesis by (simp add: entry_at_def table_entry_def)
  next
    case (Cons f fs)
    have o: "in_order start stop tab" "start e \<le> stop e" "stop e < start f" "start f \<le> stop f" "\<forall>g \<in> set tab. stop e < start g"
      "\<forall>g \<in> set fs. stop f < start g"
      using Cons.prems(1) Cons by (auto simp: in_order_def)
    show ?thesis
    proof (cases "a < start f")
      case True
      then have "table_entry start a (e # tab) = e" by (simp add: table_entry_def Cons)
      moreover have "entry_at start stop a tab = None"
        using True o(4,6) Cons by (force simp: entry_at_def find_None_iff)
      ultimately show ?thesis by (simp add: entry_at_def)
    next
      case False
      then have "table_entry start a (e # tab) = table_entry start a tab" by (simp add: table_entry_def Cons)
      moreover have "start e \<le> a" "stop e < a" using False o(2,3) by auto
      ultimately show ?thesis using Cons.IH [OF o(1)] False Cons by (auto simp: entry_at_def)
    qed
  qed
qed simp

lemma entry_at_Some: "entry_at start stop a tab = Some e \<Longrightarrow> e \<in> set tab \<and> start e \<le> a \<and> a \<le> stop e"
  by (auto simp: entry_at_def find_Some_iff)

lemma set_ordered_insert [simp]: "set (ordered_insert start e tab) = insert e (set tab)"
  by (induction tab) (auto simp: ordered_insert_def)

text \<open>Attaching an entry that overlaps no other keeps the order.\<close>

lemma ordered_insert_in_order:
  assumes "in_order start stop tab" and "start e \<le> stop e" and "\<forall>f \<in> set tab. stop e < start f \<or> stop f < start e"
  shows "in_order start stop (ordered_insert start e tab)"
proof -
  have "sorted_wrt (\<lambda>e f. stop e < start f) (ordered_insert start e tab)"
    using assms
  proof (induction tab)
    case (Cons f tab)
    have f: "start f \<le> stop f" "\<forall>g \<in> set tab. stop f < start g \<and> start g \<le> stop g" using Cons.prems(1) by (auto simp: in_order_def)
    have IH: "sorted_wrt (\<lambda>e f. stop e < start f) (ordered_insert start e tab)"
      using Cons by (auto simp: in_order_def)
    show ?case
    proof (cases "start e < start f")
      case True
      have "stop e < start f" using Cons.prems(3) True f(1) by auto
      then show ?thesis using True Cons.prems(1) f by (auto simp: ordered_insert_def in_order_def)
    next
      case False
      then have "stop f < start e" using Cons.prems(2,3) by auto
      moreover have "ordered_insert start e (f # tab) = f # ordered_insert start e tab" using False by (simp add: ordered_insert_def)
      ultimately show ?thesis using IH f by auto
    qed
  qed (simp add: ordered_insert_def)
  then show ?thesis using assms(1,2) by (auto simp: in_order_def)
qed

section \<open>Call stacks\<close>

text \<open>A stack as a list, the innermost return address first.\<close>

definition frames :: "Stack \<Rightarrow> u32 list" where
  "frames s = rev (map (stk s) [0..<stk_size s])"

lemma length_frames [simp]: "length (frames s) = stk_size s"
  by (simp add: frames_def)

lemma frames_push: "stk_size s < MAX_STACK_SIZE \<Longrightarrow> frames (SET_callstack_push a s) = a # frames s"
  by (simp add: frames_def SET_callstack_push_def)

lemma frames_push_full: "\<not> stk_size s < MAX_STACK_SIZE \<Longrightarrow> SET_callstack_push a s = s"
  by (simp add: SET_callstack_push_def)

lemma push_bound: "stk_size s \<le> MAX_STACK_SIZE \<Longrightarrow> stk_size (SET_callstack_push a s) \<le> MAX_STACK_SIZE"
  by (simp add: SET_callstack_push_def)

lemma frames_nth: "i < stk_size s \<Longrightarrow> frames s ! i = stk s (stk_size s - Suc i)"
  by (simp add: frames_def rev_nth)

lemma frames_pop: "frames (s\<lparr>stk_size := stk_size s - i\<rparr>) = drop i (frames s)"
proof (rule nth_equalityI)
  fix j assume "j < length (frames (s\<lparr>stk_size := stk_size s - i\<rparr>))"
  then have j: "i + j < stk_size s" by simp
  then show "frames (s\<lparr>stk_size := stk_size s - i\<rparr>) ! j = drop i (frames s) ! j"
    using frames_nth [of j "s\<lparr>stk_size := stk_size s - i\<rparr>"] frames_nth [OF j] by simp
qed simp

lemma frames_last: "stk_size s > 0 \<Longrightarrow> last (frames s) = stk s 0"
  by (simp add: frames_def last_rev hd_map upt_conv_Cons)

text \<open>The search finds the innermost frame with the address, if there is one.\<close>

definition innermost :: "'a \<Rightarrow> 'a list \<Rightarrow> nat option" where
  "innermost a fs = (if a \<in> set fs then Some (length (takeWhile (\<lambda>f. f \<noteq> a) fs) + 1) else None)"

lemma find_upt_Suc: "find P [1..<length fs + 1] = map_option Suc (find (\<lambda>i. P (Suc i)) [0..<length fs])"
proof -
  have "[1..<length fs + 1] = map Suc [0..<length fs]" by (simp add: map_Suc_upt)
  moreover have "find P (map Suc xs) = map_option Suc (find (\<lambda>i. P (Suc i)) xs)" for xs by (induction xs) auto
  ultimately show ?thesis by metis
qed

lemma find_index: "find (\<lambda>i. a = fs ! i) [0..<length fs] = (if a \<in> set fs then Some (length (takeWhile (\<lambda>f. f \<noteq> a) fs)) else None)"
proof (induction fs)
  case (Cons f fs)
  have u: "[0..<Suc (length fs)] = 0 # map Suc [0..<length fs]" by (simp add: upt_conv_Cons map_Suc_upt del: upt_Suc)
  have m: "find P (map Suc xs) = map_option Suc (find (\<lambda>i. P (Suc i)) xs)" for P xs by (induction xs) auto
  show ?case using Cons by (auto simp: u m simp del: upt_Suc)
qed simp

lemma find_frame_innermost: "find_frame a s = innermost a (frames s)"
proof -
  have "find (\<lambda>i. a = stk s (stk_size s - Suc i)) [0..<stk_size s] = find (\<lambda>i. a = frames s ! i) [0..<stk_size s]"
    by (rule find_cong) (simp_all add: frames_nth)
  then show ?thesis
    using find_upt_Suc [of "\<lambda>i. a = stk s (stk_size s - i)" "frames s"] find_index [of a "frames s"]
    by (simp add: find_frame_def innermost_def)
qed

lemma innermost_le: "innermost a fs = Some n \<Longrightarrow> 0 < n \<and> n \<le> length fs"
  by (induction fs arbitrary: n) (auto simp: innermost_def split: if_splits)

section \<open>What a user trace means\<close>

text \<open>
  The specification keeps, for each open call, its return address and the record that was written for its
  entry. A target is the start of a function, other code of a known object, or unknown.
\<close>

datatype place = Entry u32 | Code | Unknown

definition func_code :: "ObjFile \<Rightarrow> Func \<Rightarrow> u32" where
  "func_code obj f = push_bit 16 (ucast (obj_id obj)) OR symtabFuncIdx f"

definition place_of :: "ObjFile list \<Rightarrow> u32 \<Rightarrow> place" where
  "place_of objs a = (case entry_at text_start text_end a objs of None \<Rightarrow> Unknown
     | Some obj \<Rightarrow> (case func_find a obj of Inr (Some f) \<Rightarrow> Entry (func_code obj f) | _ \<Rightarrow> Code))"

fun call_step :: "place \<Rightarrow> u32 \<Rightarrow> u32 \<Rightarrow> (u32 \<times> u32) list \<times> u32 \<Rightarrow> u32 list \<times> (u32 \<times> u32) list \<times> u32" where
  "call_step (Entry c) target ret (fs, pend) = ([c], (if pend = 0 then ret else pend, c) # fs, 0)"
| "call_step Code target ret (fs, pend) = (case innermost target (map fst fs) of
     None \<Rightarrow> ([], fs, pend) | Some n \<Rightarrow> ([of_nat n], drop n fs, pend))"
| "call_step Unknown target ret (fs, pend) =
     (if fs \<noteq> [] \<and> target = fst (last fs) then ([of_nat (length fs)], [], pend) else ([], fs, ret))"

text \<open>
  A reader of the trace, by the object ids that \<^verbatim>\<open>SET/SET_object.c\<close> reserves: a record with the id 0 ends that many calls of user code, the
  ids 1 and 2 are returns in the kernel and in interrupts, which leave the calls of user code as they are, and any other
  record is the start of a call.
\<close>

fun replay :: "u32 list \<Rightarrow> u32 list \<Rightarrow> u32 list option" where
  "replay [] st = Some st"
| "replay (c # cs) st = (if c < 0x10000 then if unat c \<le> length st then replay cs (drop (unat c) st) else None
     else if c < 0x30000 then replay cs st
     else replay cs (c # st))"

lemma replay_append: "replay (cs @ ds) st = Option.bind (replay cs st) (replay ds)"
  by (induction cs arbitrary: st) auto

definition searchable :: "ObjFile list \<Rightarrow> bool" where
  "searchable objs \<longleftrightarrow> objs \<noteq> [] \<and> in_order text_start text_end objs \<and>
     (\<forall>obj \<in> set objs. func_ok obj \<and> 0 < func_free obj \<and> 2 < obj_id obj)"

definition sim :: "SETProcess \<Rightarrow> (u32 \<times> u32) list \<times> u32 \<Rightarrow> bool" where
  "sim p st \<longleftrightarrow> (\<exists>s. p_user p = Some s \<and> frames s = map fst (fst st) \<and> return_addr p = snd st)"

lemma func_find_ends:
  assumes "func_ok obj" and "0 < func_free obj"
  shows "\<exists>r. func_find a obj = Inr r"
  using tab_find_has [of addr "\<lambda>a. HASH a (funcTableSize obj)" "funcTableSize obj" "fview obj" a] HASH_less assms
  by (auto simp: func_ok_def func_find_tab)

lemma le_or: "x \<le> x OR y" for x y :: u32
proof -
  have "x AND (x OR y) = x" by (rule bit_word_eqI) (auto simp: bit_simps)
  then show ?thesis using word_and_le1 [of x "x OR y"] word_and_le2 [of x "x OR y"] by simp
qed

lemma entry_code_big:
  assumes "2 < obj_id obj"
  shows "\<not> func_code obj f < 0x30000"
proof -
  have i: "3 \<le> unat (obj_id obj)" "unat (obj_id obj) < 65536" using assms unsigned_less [of "obj_id obj", where ?'a = nat] by (simp_all add: word_less_nat_alt)
  have "unat (push_bit 16 (ucast (obj_id obj) :: u32)) = unat (obj_id obj) * 65536"
    using i(2) by (simp add: push_bit_eq_mult unat_word_ariths(2) unsigned_ucast_eq take_bit_nat_def)
  then have "0x30000 \<le> unat (push_bit 16 (ucast (obj_id obj) :: u32))" using i(1) by simp
  also have "\<dots> \<le> unat (func_code obj f)" using le_or [of "push_bit 16 (ucast (obj_id obj))" "symtabFuncIdx f"]
    by (simp add: func_code_def word_le_nat_alt)
  finally show ?thesis by (simp add: word_less_nat_alt)
qed

lemma place_of_code:
  assumes "searchable objs" and "place_of objs a = Entry c"
  shows "\<not> c < 0x30000"
  using assms entry_at_Some [of text_start text_end a objs] entry_code_big
  by (auto simp: place_of_def searchable_def split: option.splits sum.splits)

text \<open>
  The first object file gets the id 2, which is reserved: the records of its functions read as returns in an interrupt, and
  the calls are lost.
\<close>

lemma first_object_misread:
  assumes "obj_id obj = 2" and "symtabFuncIdx f < 0x10000"
  shows "replay (func_code obj f # cs) st = replay cs st"
proof -
  have "func_code obj f = 0x20000 + symtabFuncIdx f"
  proof -
    have "(0x20000 :: u32) AND symtabFuncIdx f = 0"
    proof (rule bit_word_eqI)
      fix n assume "n < LENGTH(32)"
      have "\<not> bit (symtabFuncIdx f) 17"
      proof
        assume "bit (symtabFuncIdx f) 17"
        then have "take_bit 16 (symtabFuncIdx f) \<noteq> symtabFuncIdx f" by (metis bit_take_bit_iff numeral_less_iff not_less_iff_gr_or_eq semiring_norm(76,77,78,79,80,81))
        moreover have "take_bit 16 (symtabFuncIdx f) = symtabFuncIdx f"
          using assms(2) by (simp add: word_unat_eq_iff unsigned_take_bit_eq take_bit_nat_eq_self_iff word_less_nat_alt)
        ultimately show False by simp
      qed
      moreover have "bit (0x20000 :: u32) n \<longleftrightarrow> n = 17" using bit_exp_iff [of 17 n, where ?'a = "32 word"] by auto
      ultimately show "bit (0x20000 AND symtabFuncIdx f) n = bit 0 n" by (auto simp: bit_and_iff)
    qed
    then show ?thesis using assms(1) by (simp add: func_code_def disjunctive_add_eq_or push_bit_eq_mult)
  qed
  moreover have "unat (0x20000 + symtabFuncIdx f) = 0x20000 + unat (symtabFuncIdx f)" "unat (symtabFuncIdx f) < 0x10000"
    using assms(2) by (simp_all add: word_less_nat_alt unat_word_ariths(1))
  ultimately show ?thesis by (simp add: word_less_nat_alt)
qed

text \<open>One branch of the program is one step of the specification.\<close>

lemma user_branch_step:
  assumes objs: "searchable (objTable p)" and s: "sim p st" and room: "length (fst st) < MAX_STACK_SIZE"
  shows "\<exists>cs st' q. call_step (place_of (objTable p) target) target ret st = (cs, st') \<and> user_branch target ret p = Inr (cs, q) \<and>
    sim q st' \<and> q = p\<lparr>p_user := p_user q, return_addr := return_addr q\<rparr>"
proof -
  obtain fs pend where st: "st = (fs, pend)" by (cases st)
  obtain k where k: "p_user p = Some k" "frames k = map fst fs" "return_addr p = pend" using s by (auto simp: sim_def st)
  have len: "stk_size k = length fs" using length_frames [of k] k(2) by simp
  let ?e = "entry_at text_start text_end target (objTable p)"
  have e: "?e = (if text_start (hd (objTable p)) \<le> target \<and> target \<le> text_end (table_entry text_start target (objTable p))
      then Some (table_entry text_start target (objTable p)) else None)"
    using table_entry_finds [of text_start text_end "objTable p" target] objs by (simp add: searchable_def)
  show ?thesis
  proof (cases ?e)
    case None
    then have b: "user_branch target ret p = Inr (outside_object target ret k p)"
      using e k(1) objs by (auto simp: user_branch_def searchable_def deref_def Let_def split: if_splits)
    have l: "fs \<noteq> [] \<Longrightarrow> fst (last fs) = stk k 0" using frames_last [of k] k(2) len by (simp add: last_map)
    have "frames (k\<lparr>stk_size := 0\<rparr>) = []" by (simp add: frames_def)
    then show ?thesis using b None k l len by (auto simp: st place_of_def outside_object_def sim_def)
  next
    case (Some obj)
    then have b: "user_branch target ret p = inside_object obj target ret k p"
      using e k(1) objs by (auto simp: user_branch_def searchable_def deref_def Let_def split: if_splits)
    obtain r where r: "func_find target obj = Inr r"
      using entry_at_Some [OF Some] func_find_ends [of obj target] objs by (auto simp: searchable_def)
    show ?thesis
    proof (cases r)
      case None
      have "find_frame target k = innermost target (map fst fs)" by (simp add: find_frame_innermost k(2))
      then show ?thesis using b r None k Some frames_pop [of k]
        by (cases "innermost target (map fst fs)") (auto simp: st place_of_def inside_object_def sim_def drop_map)
    next
      case (Some f)
      show ?thesis using b r Some \<open>?e = Some obj\<close> k len room frames_push [of k]
        by (auto simp: st place_of_def inside_object_def sim_def func_code_def)
    qed
  qed
qed

text \<open>One step of the specification is read back from its records.\<close>

lemma call_step_replay:
  assumes "\<And>c. pl = Entry c \<Longrightarrow> \<not> c < 0x30000" and "length (fst st) \<le> MAX_STACK_SIZE" and "call_step pl target ret st = (cs, st')"
  shows "replay cs (map snd (fst st)) = Some (map snd (fst st'))"
proof -
  obtain fs pend where st: "st = (fs, pend)" by (cases st)
  have small: "(of_nat n :: u32) < 0x10000 \<and> unat (of_nat n :: u32) = n" if "n \<le> length fs" for n
    using that assms(2) st by (simp add: MAX_STACK_SIZE_def word_less_nat_alt unat_of_nat)
  show ?thesis
  proof (cases pl)
    case (Entry c)
    moreover have "c < 0x10000 \<Longrightarrow> c < 0x30000" by (simp add: word_less_nat_alt)
    ultimately show ?thesis using assms st by auto
  next
    case Code
    then show ?thesis using assms(3) st small innermost_le [of target "map fst fs"]
      by (auto simp: drop_map split: option.splits)
  next
    case Unknown
    then show ?thesis using assms(3) st small [of "length fs"] by (auto split: if_splits)
  qed
qed

text \<open>
  A run of the user code: its branches, each with the state of the performance counters at that moment. The calls
  may nest up to the size of the stack.
\<close>

definition run_user :: "(u32 \<times> u32 \<times> pmu) list \<Rightarrow> SETProcess \<Rightarrow> SETProcess res" where
  "run_user = fold_res (\<lambda>(target, ret, m) p. bind_res (SET_event_branch_user target ret p m) (\<lambda>pm. Inr (fst pm)))"

fun call_trace :: "ObjFile list \<Rightarrow> (u32 \<times> u32 \<times> pmu) list \<Rightarrow> (u32 \<times> u32) list \<times> u32 \<Rightarrow> u32 list \<times> (u32 \<times> u32) list \<times> u32" where
  "call_trace objs [] st = ([], st)"
| "call_trace objs ((target, ret, m) # bs) st = (let (cs, st1) = call_step (place_of objs target) target ret st;
     (ds, st2) = call_trace objs bs st1 in (cs @ ds, st2))"

fun nests :: "ObjFile list \<Rightarrow> (u32 \<times> u32 \<times> pmu) list \<Rightarrow> (u32 \<times> u32) list \<times> u32 \<Rightarrow> bool" where
  "nests objs [] st \<longleftrightarrow> True"
| "nests objs ((target, ret, m) # bs) st \<longleftrightarrow> length (fst st) < MAX_STACK_SIZE \<and>
     nests objs bs (snd (call_step (place_of objs target) target ret st))"

lemma call_step_depth: "call_step pl target ret st = (cs, st') \<Longrightarrow> length (fst st') \<le> length (fst st) + 1"
  by (cases pl; cases st) (auto split: option.splits if_splits)

lemma nests_short: "length (fst st) + length bs \<le> MAX_STACK_SIZE \<Longrightarrow> nests objs bs st"
proof (induction bs arbitrary: st)
  case (Cons b bs)
  obtain target ret m where b: "b = (target, ret, m)" by (cases b)
  obtain cs st' where s: "call_step (place_of objs target) target ret st = (cs, st')" by (cases "call_step (place_of objs target) target ret st")
  then show ?case using Cons.IH [of st'] Cons.prems call_step_depth [OF s] b by auto
qed simp

lemma call_step_one: "call_step pl target ret st = (cs, st') \<Longrightarrow> cs = [] \<or> (\<exists>c. cs = [c])"
  by (cases pl; cases st) (auto split: option.splits if_splits)

lemma out_funcs_ok:
  assumes "p_output p = Some out" and "out_ok out" and "readable m" and "cs = [] \<or> (\<exists>c. cs = [c])"
  shows "\<exists>out' m'. out_funcs cs p m = Inr (p\<lparr>p_output := Some out'\<rparr>, m') \<and> out_ok out' \<and>
    stream_log (func out') = stream_log (func out) @ cs"
proof (cases cs)
  case Nil
  have "p = p\<lparr>p_output := Some out\<rparr>" using assms(1) by simp
  then show ?thesis using Nil assms(2) by (auto simp: out_funcs_def)
next
  case (Cons c ds)
  then have cs: "cs = [c]" using assms(4) by auto
  obtain out' where o: "emit_event (p_pid p, Func_rec c, m) out = Inr out'" "out_ok out'" "adds (p_pid p, Func_rec c, m) out out'"
    using emit_event_ok [OF assms(2), of "(p_pid p, Func_rec c, m)"] assms(3) by auto
  then obtain m' where "emit (p_pid p) (Func_rec c) (out, m) = Inr (out', m')"
    by (cases "emit (p_pid p) (Func_rec c) (out, m)") (auto simp: emit_event_def)
  then have "out_funcs cs p m = Inr (p\<lparr>p_output := Some out'\<rparr>, m')" using assms(1) by (simp add: cs out_funcs_def out_rec_def)
  then show ?thesis using o(2,3) by (auto simp: cs adds_def)
qed

lemma run_user_refines:
  assumes "searchable objs" and "objTable p = objs" and "sim p st" and "p_output p = Some out" and "out_ok out"
    and "\<forall>b \<in> set bs. readable (snd (snd b))" and "nests objs bs st" and "call_trace objs bs st = (cs, st')"
  shows "\<exists>q out'. run_user bs p = Inr q \<and> sim q st' \<and> p_output q = Some out' \<and> out_ok out' \<and>
    stream_log (func out') = stream_log (func out) @ cs \<and> replay cs (map snd (fst st)) = Some (map snd (fst st'))"
  using assms
proof (induction bs arbitrary: p st out cs)
  case Nil
  then show ?case by (auto simp: run_user_def)
next
  case (Cons b bs)
  obtain target ret m where b: "b = (target, ret, m)" by (cases b)
  let ?pl = "place_of objs target"
  obtain c1 st1 q1 where 1: "call_step ?pl target ret st = (c1, st1)" "user_branch target ret p = Inr (c1, q1)" "sim q1 st1"
      "q1 = p\<lparr>p_user := p_user q1, return_addr := return_addr q1\<rparr>"
    using user_branch_step [of p st target ret] Cons.prems(1-3,7) by (auto simp: b)
  have k: "objTable q1 = objs" "p_output q1 = Some out" by (subst 1(4), simp add: Cons.prems)+
  obtain out1 m1 where o1: "out_funcs c1 q1 m = Inr (q1\<lparr>p_output := Some out1\<rparr>, m1)" "out_ok out1" "stream_log (func out1) = stream_log (func out) @ c1"
    using out_funcs_ok [OF k(2) Cons.prems(5) _ call_step_one [OF 1(1)], of m] Cons.prems(6) b by auto
  let ?q = "q1\<lparr>p_output := Some out1\<rparr>"
  obtain ds where ds: "call_trace objs bs st1 = (ds, st')" "cs = c1 @ ds"
    using Cons.prems(8) 1(1) by (cases "call_trace objs bs st1") (auto simp: b)
  have q: "objTable ?q = objs" "sim ?q st1" "p_output ?q = Some out1" "nests objs bs st1"
    using k 1(1,3) Cons.prems(7) by (simp_all add: sim_def b)
  obtain q2 out2 where 2: "run_user bs ?q = Inr q2" "sim q2 st'" "p_output q2 = Some out2" "out_ok out2"
      "stream_log (func out2) = stream_log (func out1) @ ds" "replay ds (map snd (fst st1)) = Some (map snd (fst st'))"
    using Cons.IH [OF Cons.prems(1) q(1-3) o1(2) _ q(4) ds(1)] Cons.prems(6) by auto
  have "replay c1 (map snd (fst st)) = Some (map snd (fst st1))"
    using call_step_replay [OF _ _ 1(1)] place_of_code [OF Cons.prems(1)] Cons.prems(7) b by auto
  moreover have "run_user (b # bs) p = Inr q2"
    using 1(2) o1(1) 2(1) by (simp add: run_user_def b SET_event_branch_user_def)
  ultimately show ?case using 2 o1(3) ds(2) by (simp add: replay_append)
qed

lemma user_run_closed:
  assumes "searchable (objTable p)" and "p_user p = Some s" and "stk_size s = 0" and "return_addr p = 0"
    and "p_output p = Some out0" and "out_ok out0" and "stream_log (func out0) = []"
    and "\<forall>b \<in> set bs. readable (snd (snd b))" and "nests (objTable p) bs ([], 0)"
  shows "\<exists>cs calls pend q out o2 s'. call_trace (objTable p) bs ([], 0) = (cs, calls, pend) \<and> run_user bs p = Inr q \<and>
    p_output q = Some out \<and> SET_output_close out = Inr o2 \<and> s_fp (func o2) = Some cs \<and> replay cs [] = Some (map snd calls) \<and>
    p_user q = Some s' \<and> frames s' = map fst calls"
proof -
  obtain cs calls pend where ct: "call_trace (objTable p) bs ([], 0) = (cs, calls, pend)" by (cases "call_trace (objTable p) bs ([], 0)") auto
  have "sim p ([], 0)" using assms(2-4) by (simp add: sim_def frames_def)
  then obtain q out' where q: "run_user bs p = Inr q" "sim q (calls, pend)" "p_output q = Some out'" "out_ok out'"
      "stream_log (func out') = cs" "replay cs [] = Some (map snd calls)"
    using run_user_refines [OF assms(1) refl _ assms(5,6,8,9) ct] assms(7) by auto
  then obtain o2 where "SET_output_close out' = Inr o2" "s_fp (func o2) = Some cs"
    using flush_all_ok [OF q(4)] by (auto simp: SET_output_close_def)
  then show ?thesis using q ct by (auto simp: sim_def)
qed

text \<open>
  Property C36. The function file of a trace can be read back: after any branches of the user code that nest up to 1024 calls, for object
  files whose ids are not the reserved 0, 1 and 2, the records in the closed file, read as entries and numbers of returns, give
  exactly the functions that are open, and the stack of the tracer holds their return addresses; a branch to a known address returns to the innermost call with
  that return address. Every search of the tracer ends.
\<close>

theorem user_trace_replays:
  assumes "searchable (objTable p)" and "p_user p = Some s" and "stk_size s = 0" and "return_addr p = 0"
    and "p_output p = Some (open_all (\<lambda>_. True) model (SET_output_create path))"
    and "\<forall>b \<in> set bs. readable (snd (snd b))" and "nests (objTable p) bs ([], 0)"
  shows "\<exists>cs calls pend q out o2 s'. call_trace (objTable p) bs ([], 0) = (cs, calls, pend) \<and> run_user bs p = Inr q \<and>
    p_output q = Some out \<and> SET_output_close out = Inr o2 \<and> s_fp (func o2) = Some cs \<and> replay cs [] = Some (map snd calls) \<and>
    p_user q = Some s' \<and> frames s' = map fst calls"
  using open_all_ok [of model path] by (intro user_run_closed [OF assms(1-5) _ _ assms(6,7)]) (simp_all add: Let_def)

definition obj_ex :: ObjFile where
  "obj_ex = \<lparr>funcTable = (\<lambda>i. if i = 2 then \<lparr>addr = 0x8000, symtabFuncIdx = 0\<rparr> else if i = 6 then \<lparr>addr = 0x8010, symtabFuncIdx = 1\<rparr>
     else \<lparr>addr = 0, symtabFuncIdx = 0\<rparr>), funcTableSize = 13, obj_id = 3, obj_path = ''a'', text_start = 0x8000, text_end = 0x8020, obj_count = 1\<rparr>"

definition proc_ex :: SETProcess where
  "proc_ex = \<lparr>p_type = SET_PROCESS_USER_C, p_name = ''a'', p_pid = 7, p_output = Some (open_all (\<lambda>_. True) 2 (SET_output_create ''a.set'')),
     p_tracing = 1, path_kernel = [], objKernel = None, p_kernel = None, p_irq = None, p_ic = None, path_c = ''/set/a'', objTable = [obj_ex], p_user = Some \<lparr>stk = \<lambda>_. 0, stk_size = 0\<rparr>,
     return_addr = 0, dexTable = []\<rparr>"

definition branches_ex :: "(u32 \<times> u32 \<times> pmu) list" where
  "branches_ex = [(0x8000, 0x7000, pmu_on), (0x8010, 0x8008, pmu_on), (0x8008, 0x8014, pmu_on), (0x9000, 0x800c, pmu_on)]"

lemma obj_ex_finds:
  "func_find 0x8000 obj_ex = Inr (Some \<lparr>addr = 0x8000, symtabFuncIdx = 0\<rparr>)"
  "func_find 0x8010 obj_ex = Inr (Some \<lparr>addr = 0x8010, symtabFuncIdx = 1\<rparr>)" "func_find 0x8008 obj_ex = Inr None"
  by (simp_all add: obj_ex_def func_find_def func_slot_def HASH_def probe.simps returned_def)

lemma obj_ex_searchable: "searchable [obj_ex]"
proof -
  have "func_ok obj_ex"
    by (auto simp: func_ok_def tab_ok_def fview_def obj_ex_def HASH_def stop_at_def probe.simps)
  moreover have "0 < func_free obj_ex" unfolding tab_free_pos by (rule exI [of _ 0]) (simp add: fview_def obj_ex_def)
  ultimately show ?thesis by (simp add: searchable_def in_order_def) (simp add: obj_ex_def)
qed

lemma trace_ex:
  "call_trace [obj_ex] branches_ex ([], 0) = ([0x30000, 0x30001, 1], [(0x7000, 0x30000)], 0x800c)"
  "nests [obj_ex] branches_ex ([], 0)"
proof -
  have r: "text_start obj_ex = 0x8000" "text_end obj_ex = 0x8020" "obj_id obj_ex = 3" by (simp_all add: obj_ex_def)
  have p: "place_of [obj_ex] 0x8000 = Entry 0x30000" "place_of [obj_ex] 0x8010 = Entry 0x30001" "place_of [obj_ex] 0x8008 = Code"
    "place_of [obj_ex] 0x9000 = Unknown"
    by (simp_all add: place_of_def entry_at_def r obj_ex_finds func_code_def)
  show "call_trace [obj_ex] branches_ex ([], 0) = ([0x30000, 0x30001, 1], [(0x7000, 0x30000)], 0x800c)"
    "nests [obj_ex] branches_ex ([], 0)"
    by (simp_all add: branches_ex_def p innermost_def MAX_STACK_SIZE_def)
qed

theorem user_trace_replays_witness:
  "\<exists>q out o2 s'. run_user branches_ex proc_ex = Inr q \<and> p_output q = Some out \<and> SET_output_close out = Inr o2 \<and>
    s_fp (func o2) = Some [0x30000, 0x30001, 1] \<and> replay [0x30000, 0x30001, 1] [] = Some [0x30000] \<and> p_user q = Some s' \<and> frames s' = [0x7000]"
proof -
  have p: "objTable proc_ex = [obj_ex]" "p_user proc_ex = Some \<lparr>stk = \<lambda>_. 0, stk_size = 0\<rparr>" "return_addr proc_ex = 0"
    "p_output proc_ex = Some (open_all (\<lambda>_. True) 2 (SET_output_create ''a.set''))" by (simp_all add: proc_ex_def)
  have "readable pmu_on" by (simp add: readable_def times_known_def pmu_on_def event_examples)
  then have "\<forall>b \<in> set branches_ex. readable (snd (snd b))" by (simp add: branches_ex_def)
  then show ?thesis
    using user_trace_replays [of proc_ex "\<lparr>stk = \<lambda>_. 0, stk_size = 0\<rparr>" 2 "''a.set''" branches_ex] obj_ex_searchable trace_ex by (auto simp: p)
qed

text \<open>
  In the kernel and in interrupt handlers the search goes on after the return was found, with the depth reached and the
  shorter stack: one return to an address that is on the stack twice ends three calls instead of one.
\<close>

lemma kernel_exit_overpops:
  assumes "x \<noteq> a" and "y \<noteq> a"
  shows "let s = \<lparr>stk = (\<lambda>i. [x, a, y, a] ! i), stk_size = 4\<rparr> in
    find_frame a s = Some 1 \<and> (case exit_loop 0x10000 a 1 s of (cs, s') \<Rightarrow> cs = [0x10001, 0x10002] \<and> stk_size s' = 1)"
  using assms by (simp add: Let_def find_frame_def exit_loop.simps upt_rec)

text \<open>A return to an address that is on the stack once ends the calls up to it.\<close>

lemma exit_loop_done: "(\<And>j. j < stk_size s \<Longrightarrow> stk s j \<noteq> a) \<Longrightarrow> 0 < i \<Longrightarrow> exit_loop flag a i s = ([], s)"
proof (induction flag a i s rule: exit_loop.induct)
  case (1 flag a i s)
  have "i \<le> stk_size s \<Longrightarrow> a \<noteq> stk s (stk_size s - i)" using 1(3) [of "stk_size s - i"] 1(4) by auto
  then show ?case using 1 by (subst exit_loop.simps) auto
qed

lemma exit_loop_once:
  assumes "i < stk_size s" and "stk s i = a" and "\<And>j. j < stk_size s \<Longrightarrow> stk s j = a \<Longrightarrow> j = i" and "0 < d" and "d \<le> stk_size s - i"
  shows "exit_loop flag a d s = ([flag OR of_nat (stk_size s - i)], s\<lparr>stk_size := i\<rparr>)"
  using assms
proof (induction flag a d s rule: exit_loop.induct)
  case (1 flag a d s)
  show ?case
  proof (cases "d = stk_size s - i")
    case True
    have "stk s j \<noteq> a" if "j < i" for j using 1(5) [of j] 1(3) that by auto
    then have "exit_loop flag a (d + 1) (s\<lparr>stk_size := i\<rparr>) = ([], s\<lparr>stk_size := i\<rparr>)" by (intro exit_loop_done) simp_all
    then show ?thesis using True 1(3,4,7) by (subst exit_loop.simps) simp
  next
    case False
    then have d: "stk_size s - d \<noteq> i" "d \<le> stk_size s" "d + 1 \<le> stk_size s - i" using 1(3,6,7) by auto
    then have ne: "a \<noteq> stk s (stk_size s - d)" using 1(5) [of "stk_size s - d"] 1(6) by auto
    have "exit_loop flag a (d + 1) s = ([flag OR of_nat (stk_size s - i)], s\<lparr>stk_size := i\<rparr>)"
    proof (rule 1(2) [OF d(2) ne 1(3,4)])
      show "j = i" if "j < stk_size s" "stk s j = a" for j by (rule 1(5) [OF that])
    qed (use d(3) in simp_all)
    then show ?thesis using d(2) ne by (subst exit_loop.simps) simp
  qed
qed

text \<open>Objects as the tracer loads and attaches them keep the table in this state.\<close>

lemma attach_obj_searchable:
  assumes "searchable (objTable p)" and "func_ok obj" and "0 < func_free obj" and "2 < obj_id obj" and "text_start obj \<le> text_end obj"
    and "\<forall>f \<in> set (objTable p). text_end obj < text_start f \<or> text_end f < text_start obj" and "SET_attach_obj obj p = Inr q"
  shows "searchable (objTable q)"
proof -
  let ?obj = "obj\<lparr>obj_count := obj_count obj + 1\<rparr>"
  have "objTable q = objTable p \<or> objTable q = ordered_insert text_start ?obj (objTable p)"
    using assms(7) by (auto simp: SET_attach_obj_def split: if_splits)
  moreover have "fview ?obj = fview obj" by (simp add: fview_def fun_eq_iff)
  moreover have "in_order text_start text_end (ordered_insert text_start ?obj (objTable p))"
    using assms(1,5,6) by (intro ordered_insert_in_order) (simp_all add: searchable_def)
  moreover have "ordered_insert text_start ?obj (objTable p) \<noteq> []" by (simp add: ordered_insert_def)
  ultimately show ?thesis using assms(1-4) by (auto simp: searchable_def func_ok_def)
qed

text \<open>A method event writes a record when the method is in a known file, with its place in that file.\<close>

lemma method_event_finds:
  assumes "in_order dex_start dex_end (dexTable p)" and "has_type SET_PROCESS_DALVIK p"
  shows "method_event insns k p m = (case entry_at dex_start dex_end insns (dexTable p) of None \<Rightarrow> Inr (p, m)
    | Some dex \<Rightarrow> out_rec (Method_rec (dex_id dex) (insns - dex_start dex + k)) (p, m))"
proof (cases "dexTable p = []")
  case True
  then show ?thesis by (simp add: method_event_def entry_at_def)
next
  case False
  then show ?thesis using table_entry_finds [OF assms(1) False, of insns] assms(2)
    by (auto simp: method_event_def Let_def not_less)
qed

end
