(* ===== verification/SET_Process.thy ===== *)
theory SET_Process
  imports SET_Branch SET_Elf
begin

unbundle bit_operations_syntax

text \<open>
  Processes to be traced (\<^verbatim>\<open>SET/SET.c\<close>, \<^verbatim>\<open>SET/SET_dex.c\<close>, \<^verbatim>\<open>SET/SET_ctrl.c\<close> and the start of tracing in \<^verbatim>\<open>SET/SET_event.c\<close>): a control
  connection names a program and what to trace of it; when the guest starts the program, its output files are
  opened and its functions are loaded, and files it maps later are attached.

  \<^item> \<open>access\<close>, \<open>fopen\<close>, \<open>efd_open\<close> and \<open>fs\<close> are the files of the host. Memory allocation succeeds.
  \<^item> \<open>procTable\<close> holds the processes in order; a process is a number where its place in the table matters.
  \<^item> Copies of processes for threads are in \<open>SET_System\<close>; the release of memory is not modelled.
\<close>

section \<open>Names and types\<close>

definition PROCESS_NAME_LEN :: nat where "PROCESS_NAME_LEN = 32"
definition FULL_PATH_LEN :: nat where "FULL_PATH_LEN = 256"
definition MAX_PROC_TABLE_SIZE :: nat where "MAX_PROC_TABLE_SIZE = 1024"

definition snprintf_path :: "string \<Rightarrow> string" where
  "snprintf_path s = take (FULL_PATH_LEN - 1) s"

record host =
  access_ok :: "string \<Rightarrow> bool"
  path_set_out :: string
  path_android_out :: string

definition SET_set_C_binary :: "host \<Rightarrow> SETProcess \<Rightarrow> int \<times> SETProcess" where
  "SET_set_C_binary h p = (let p = p\<lparr>path_c := snprintf_path (path_set_out h @ ''/'' @ p_name p)\<rparr> in
     if access_ok h (path_c p) then (0, p)
     else let p = p\<lparr>path_c := snprintf_path (path_android_out h @ ''/symbols/system/bin/'' @ p_name p)\<rparr> in
       if access_ok h (path_c p) then (0, p) else (-1, p))"

definition SET_set_kernel_binary :: "host \<Rightarrow> SETProcess \<Rightarrow> int \<times> SETProcess" where
  "SET_set_kernel_binary h p = (let p = p\<lparr>path_kernel := snprintf_path (path_set_out h @ ''/vmlinux'')\<rparr> in
     (if access_ok h (path_kernel p) then 0 else -1, p))"

definition SET_set_process_type :: "host \<Rightarrow> u8 \<Rightarrow> SETProcess \<Rightarrow> int \<times> SETProcess" where
  "SET_set_process_type h ty p = (let changed = ty AND (ty XOR p_type p);
     (r, p) = (if changed AND SET_PROCESS_USER_C \<noteq> 0 \<and> p_name p \<noteq> [] then SET_set_C_binary h p else (0, p)) in
     if r \<noteq> 0 then (-1, p)
     else let (r, p) = (if changed AND (SET_PROCESS_KERNEL OR SET_PROCESS_IRQ) \<noteq> 0 then SET_set_kernel_binary h p else (0, p)) in
       if r \<noteq> 0 then (-1, p) else (0, p\<lparr>p_type := ty\<rparr>))"

text \<open>A slash starts the name again; of a long name the rest is skipped.\<close>

fun copy_name :: "string \<Rightarrow> string \<Rightarrow> string" where
  "copy_name [] acc = acc"
| "copy_name (ch # name) acc = (if ch = CHR ''/'' then copy_name name []
     else if length acc < PROCESS_NAME_LEN - 1 then copy_name name (acc @ [ch]) else copy_name name acc)"

definition SET_set_process_name :: "host \<Rightarrow> SETProcess list \<Rightarrow> string \<Rightarrow> SETProcess \<Rightarrow> int \<times> SETProcess" where
  "SET_set_process_name h procTable name p = (let p = p\<lparr>p_name := copy_name name []\<rparr> in
     if \<exists>q \<in> set procTable. p_name q = p_name p then (-1, p)
     else if has_type SET_PROCESS_USER_C p then let (r, p) = SET_set_C_binary h p in (if r \<noteq> 0 then -1 else 0, p)
     else (0, p))"

definition SETProcess0 :: SETProcess where
  "SETProcess0 = \<lparr>p_type = 0, p_name = [], p_pid = -1, p_output = None, p_tracing = 0, path_kernel = [], objKernel = None, p_kernel = None,
     p_irq = None, p_ic = None, path_c = [], objTable = [], p_user = None, return_addr = 0, dexTable = []\<rparr>"

definition SET_create_process :: "host \<Rightarrow> SETProcess list \<Rightarrow> string option \<Rightarrow> u8 \<Rightarrow> SETProcess option" where
  "SET_create_process h procTable name ty = (case name of None \<Rightarrow> None | Some name \<Rightarrow>
     let (r, p) = SET_set_process_type h ty SETProcess0 in
     if r \<noteq> 0 then None
     else let (r, p) = SET_set_process_name h procTable name p in
       if r \<noteq> 0 then None
       else Some (if has_type SET_PROCESS_OUTPUT p
         then p\<lparr>p_output := Some (SET_output_create (snprintf_path (path_set_out h @ ''/'' @ p_name p @ ''.set'')))\<rparr> else p))"

section \<open>The table of processes\<close>

record proc_list =
  procs_of :: "nat list"
  p_idx :: "nat \<Rightarrow> int"

definition SET_attach_process :: "nat \<Rightarrow> proc_list \<Rightarrow> proc_list" where
  "SET_attach_process p t = (if length (procs_of t) = MAX_PROC_TABLE_SIZE then t
     else \<lparr>procs_of = procs_of t @ [p], p_idx = (p_idx t)(p := int (length (procs_of t)))\<rparr>)"

text \<open>The entries behind the place are moved up; in any case the table gets shorter by its last place.\<close>

definition SET_detach_process :: "nat \<Rightarrow> proc_list \<Rightarrow> proc_list" where
  "SET_detach_process p t = (if procs_of t = [] \<or> p_idx t p \<le> 0 then t
     else let i = nat (p_idx t p) in
       \<lparr>procs_of = (if i < length (procs_of t) then take i (procs_of t) @ drop (i + 1) (procs_of t) else butlast (procs_of t)),
        p_idx = (p_idx t)(p := -1)\<rparr>)"

section \<open>The performance monitor\<close>

record tracer =
  t_model :: int
  t_obj_id :: "16 word"
  t_dex_id :: "16 word"
  isSamplingOn :: bool
  t_mon :: monitor

definition set_enabled :: "bool \<Rightarrow> monitor \<Rightarrow> monitor" where
  "set_enabled b m = set_pmu ((m_pmu m)\<lparr>VPMU_enabled := b\<rparr>) m"

definition SET_start_vpmu :: "(int \<Rightarrow> string option) \<Rightarrow> tracer \<Rightarrow> tracer res" where
  "SET_start_vpmu fs t = (if VPMU_enabled (m_pmu (t_mon t)) \<or> t_model t = 0 then Inr t
     else bind_res (reset_unit fs (t_mon t)) (\<lambda>m. Inr
       (if t_model t = 1 then t\<lparr>t_mon := set_enabled True (set_model TIMING_MODEL_F m)\<rparr>
        else if t_model t = 2 then t\<lparr>t_mon := set_enabled True (set_model TIMING_MODEL_G m)\<rparr>
        else if t_model t = 3 then t\<lparr>t_mon := set_enabled True (set_model TIMING_MODEL_E m)\<rparr>
        else t\<lparr>t_model := 0, t_mon := set_enabled False m\<rparr>)))"

definition SET_stop_vpmu :: "char \<Rightarrow> tracer \<Rightarrow> (string list \<times> tracer) res" where
  "SET_stop_vpmu comma t = (if VPMU_enabled (m_pmu (t_mon t)) then
       let m = set_enabled False (t_mon t) in
       bind_res (VPMU_DUMP_READABLE_MSG comma (m_pmu m)) (\<lambda>(out, p). Inr (out, t\<lparr>t_mon := set_pmu p m\<rparr>))
     else Inr ([], t))"

definition SET_has_process_being_tracing :: "SETProcess list \<Rightarrow> bool" where
  "SET_has_process_being_tracing procTable \<longleftrightarrow> (\<exists>p \<in> set procTable. p_tracing p > 0 \<and> p_output p \<noteq> None)"

section \<open>The start of tracing\<close>

text \<open>The files that belong to the type of the process, up to the first that cannot be opened.\<close>

definition and_open :: "bool \<Rightarrow> (SETOut \<Rightarrow> int \<times> SETOut) \<Rightarrow> bool \<times> SETOut \<Rightarrow> bool \<times> SETOut" where
  "and_open need f bo = (if fst bo \<and> need then let (r, out) = f (snd bo) in (r = 0, out) else bo)"

definition open_outputs :: "(string \<Rightarrow> bool) \<Rightarrow> int \<Rightarrow> SETProcess \<Rightarrow> SETOut \<Rightarrow> bool \<times> SETOut" where
  "open_outputs fopen model p out =
     and_open (has_type SET_PROCESS_SYSCALL p) (SET_output_open_syscall fopen)
     (and_open (has_type SET_PROCESS_DALVIK p) (SET_output_open_dex_method fopen)
     (and_open (has_type (SET_PROCESS_KERNEL OR SET_PROCESS_IRQ OR SET_PROCESS_LIBRARY OR SET_PROCESS_USER_C) p) (SET_output_open_obj_func fopen)
     (and_open True (SET_output_open_pid fopen)
     (and_open True (SET_output_open_type_vpmu fopen model) (True, out)))))"

definition stack0 :: Stack where
  "stack0 = \<lparr>stk = \<lambda>_. 0, stk_size = 0\<rparr>"

text \<open>The functions of the program and of the kernel; False when an object cannot be loaded.\<close>

definition load_user :: "(string \<Rightarrow> elf option) \<Rightarrow> 16 word \<Rightarrow> SETProcess \<Rightarrow> ((bool \<times> SETProcess) \<times> 16 word) res" where
  "load_user efd_open i p = (if has_type SET_PROCESS_USER_C p then
       bind_res (SET_create_obj efd_open (path_c p) 0 0xffffffff 0 i) (\<lambda>(obj, i). case obj of None \<Rightarrow> Inr ((False, p), i)
         | Some obj \<Rightarrow> bind_res (SET_attach_obj obj p) (\<lambda>p. Inr ((True, p), i)))
     else Inr ((True, p), i))"

definition load_kernel :: "(string \<Rightarrow> elf option) \<Rightarrow> 16 word \<Rightarrow> SETProcess \<Rightarrow> ((bool \<times> SETProcess) \<times> 16 word) res" where
  "load_kernel efd_open i p = (if has_type (SET_PROCESS_KERNEL OR SET_PROCESS_IRQ) p then
       bind_res (SET_create_obj efd_open (path_kernel p) 0 0xffffffff 0 i) (\<lambda>(obj, i). case obj of None \<Rightarrow> Inr ((False, p), i)
         | Some obj \<Rightarrow>
           bind_res (case p_output p of None \<Rightarrow> Inr None
             | Some out \<Rightarrow> bind_res (SET_output_write_obj (obj_id obj) (obj_path obj) out) (\<lambda>out. Inr (Some out))) (\<lambda>out.
           Inr ((True, p\<lparr>p_output := out, objKernel := Some (obj\<lparr>obj_count := obj_count obj + 1\<rparr>), p_irq := Some stack0,
             p_kernel := (if has_type SET_PROCESS_KERNEL p then Some stack0 else p_kernel p),
             p_ic := (if has_type SET_PROCESS_IRQ p then Some stack0 else p_ic p)\<rparr>), i)))
     else Inr ((True, p), i))"

text \<open>The monitor is started, and the sampling thread is told, for the first process.\<close>

definition begin_tracing :: "(int \<Rightarrow> string option) \<Rightarrow> int \<Rightarrow> SETProcess \<Rightarrow> tracer \<Rightarrow> ((bool \<times> SETProcess) \<times> tracer) res" where
  "begin_tracing fs now_pid p t = (let
       p = (if has_type (SET_PROCESS_LIBRARY OR SET_PROCESS_USER_C) p then p\<lparr>p_user := Some stack0\<rparr> else p);
       p = p\<lparr>p_pid := now_pid, p_tracing := p_tracing p + 1\<rparr> in
     if p_output p \<noteq> None \<and> \<not> VPMU_enabled (m_pmu (t_mon t))
     then bind_res (SET_start_vpmu fs (t\<lparr>isSamplingOn := True\<rparr>)) (\<lambda>t. Inr ((True, p), t))
     else Inr ((True, p), t))"

text \<open>False is the failure, after which the code takes the process off the table and deletes it.\<close>

definition SET_start_tracing :: "(string \<Rightarrow> bool) \<Rightarrow> (string \<Rightarrow> elf option) \<Rightarrow> (int \<Rightarrow> string option) \<Rightarrow> int \<Rightarrow> SETProcess \<Rightarrow> tracer \<Rightarrow>
    ((bool \<times> SETProcess) \<times> tracer) res" where
  "SET_start_tracing fopen efd_open fs now_pid p t =
     (let (ok, p) = (case p_output p of None \<Rightarrow> (True, p)
        | Some out \<Rightarrow> let (ok, out) = open_outputs fopen (t_model t) p out in (ok, p\<lparr>p_output := Some out\<rparr>)) in
      if \<not> ok then Inr ((False, p), t)
      else bind_res (load_user efd_open (t_obj_id t) p) (\<lambda>((ok, p), i). let t = t\<lparr>t_obj_id := i\<rparr> in
        if \<not> ok then Inr ((False, p), t)
        else bind_res (load_kernel efd_open (t_obj_id t) p) (\<lambda>((ok, p), i). let t = t\<lparr>t_obj_id := i\<rparr> in
          if \<not> ok then Inr ((False, p), t) else begin_tracing fs now_pid p t)))"

section \<open>Mapped files\<close>

definition SET_create_dex :: "string \<Rightarrow> u32 \<Rightarrow> u32 \<Rightarrow> 16 word \<Rightarrow> DexFile \<times> 16 word" where
  "SET_create_dex path start stop current_id =
     (\<lparr>dex_id = current_id, dex_path = path, dex_start = start, dex_end = stop, dex_count = 0\<rparr>, current_id + 1)"

definition SET_is_dex :: "string \<Rightarrow> bool" where
  "SET_is_dex path \<longleftrightarrow> (let len = length path in len > 4 \<and> path ! (len - 4) = CHR ''.'' \<and> path ! (len - 3) = CHR ''d'' \<and>
     path ! (len - 2) = CHR ''e'' \<and> path ! (len - 1) = CHR ''x'')"

text \<open>
  The loop that copies the name, every \<^verbatim>\<open>@\<close> as a slash, with the place of the last one; the name is cut there. A name that
  does not fit overruns the buffer.
\<close>

fun copy_dex_name :: "string \<Rightarrow> string \<Rightarrow> nat \<Rightarrow> string \<times> nat" where
  "copy_dex_name [] acc last_at = (acc, last_at)"
| "copy_dex_name (c # name) acc last_at =
     (if c = CHR ''@'' then copy_dex_name name (acc @ ''/'') (length acc) else copy_dex_name name (acc @ [c]) last_at)"

definition dex_path_of :: "string \<Rightarrow> string res" where
  "dex_path_of name = (if length name < FULL_PATH_LEN then let (s, i) = copy_dex_name name [] 0 in Inr (take i s) else Inl Out_of_bounds)"

definition find_object :: "host \<Rightarrow> string \<Rightarrow> string option" where
  "find_object h name = (let path = snprintf_path (path_android_out h @ ''/symbols/system/lib/'' @ name) in
     if access_ok h path then Some path
     else let path = snprintf_path (path_android_out h @ ''/symbols/system/bin/'' @ name) in
       if access_ok h path then Some path
       else let path = snprintf_path (path_set_out h @ ''/lib/'' @ name) in
         if access_ok h path then Some path else None)"

definition SET_event_mmap :: "host \<Rightarrow> (string \<Rightarrow> elf option) \<Rightarrow> string \<Rightarrow> u32 \<Rightarrow> u32 \<Rightarrow> u32 \<Rightarrow> SETProcess \<Rightarrow> tracer \<Rightarrow> (SETProcess \<times> tracer) res" where
  "SET_event_mmap h efd_open name start stop pgoff p t =
     (if SET_is_dex name then
        if has_type (SET_PROCESS_DALVIK OR SET_PROCESS_MMAP) p then
          bind_res (dex_path_of name) (\<lambda>changed. let path = snprintf_path (path_android_out h @ ''/'' @ changed) in
          if access_ok h path then let (dex, i) = SET_create_dex path start stop (t_dex_id t) in
            bind_res (SET_attach_dex dex p) (\<lambda>p. Inr (p, t\<lparr>t_dex_id := i\<rparr>))
          else Inr (p, t))
        else Inr (p, t)
      else if has_type (SET_PROCESS_LIBRARY OR SET_PROCESS_MMAP) p then
        case find_object h name of None \<Rightarrow> Inr (p, t)
        | Some path \<Rightarrow> if path \<in> obj_path ` set (objTable p) then Inr (p, t)
          else bind_res (SET_create_obj efd_open path start stop pgoff (t_obj_id t)) (\<lambda>(obj, i). let t = t\<lparr>t_obj_id := i\<rparr> in
            case obj of None \<Rightarrow> Inr (p, t) | Some obj \<Rightarrow> bind_res (SET_attach_obj obj p) (\<lambda>p. Inr (p, t)))
      else Inr (p, t))"

section \<open>Control connections\<close>

definition MAX_VPMU_SUPPORT_EVENT :: nat where "MAX_VPMU_SUPPORT_EVENT = 256"
definition CUR_VPMU_SUPPORT_EVENT :: nat where "CUR_VPMU_SUPPORT_EVENT = 46"
definition DUMMY_EVENT_CFG :: int where "DUMMY_EVENT_CFG = 127"

definition initEventConfig :: "int list" where
  "initEventConfig = replicate MAX_VPMU_SUPPORT_EVENT DUMMY_EVENT_CFG"

definition isEventMonitored :: "int list \<Rightarrow> int \<Rightarrow> int" where
  "isEventMonitored eventConfig index =
     (if index \<ge> int MAX_VPMU_SUPPORT_EVENT \<or> index < 0 then 0
      else if eventConfig ! nat index = DUMMY_EVENT_CFG then 0 else eventConfig ! nat index)"

text \<open>The second part of a message, as it arrives in one read: at most 46 bytes, into the first entries.\<close>

definition read_config_part :: "int list \<Rightarrow> int list" where
  "read_config_part bytes = (let b = take CUR_VPMU_SUPPORT_EVENT bytes in b @ drop (length b) initEventConfig)"

section \<open>Names\<close>

definition base_name :: "string \<Rightarrow> string" where
  "base_name name = rev (takeWhile (\<lambda>c. c \<noteq> CHR ''/'') (rev name))"

lemma copy_name_plain: "CHR ''/'' \<notin> set name \<Longrightarrow> copy_name name acc = acc @ take (PROCESS_NAME_LEN - 1 - length acc) name"
proof (induction name acc rule: copy_name.induct)
  case (2 c name acc)
  then show ?case by (auto simp: take_Cons')
qed simp

lemma copy_name_slash: "copy_name (dir @ CHR ''/'' # name) acc = copy_name name []"
  by (induction dir arbitrary: acc) auto

text \<open>The name of a process is the part behind the last slash, up to 31 characters of it.\<close>

lemma copy_name_base: "copy_name name [] = take (PROCESS_NAME_LEN - 1) (base_name name)"
proof (cases "CHR ''/'' \<in> set name")
  case True
  then obtain dir rest where n: "name = dir @ CHR ''/'' # rest" "CHR ''/'' \<notin> set rest" by (meson split_list_last)
  then have "takeWhile (\<lambda>c. c \<noteq> CHR ''/'') (rev rest @ CHR ''/'' # rev dir) = rev rest" by (subst takeWhile_append2) auto
  then have "base_name name = rest" by (simp add: base_name_def n(1))
  then show ?thesis using n copy_name_slash [of dir rest] copy_name_plain [of rest "[]"] by simp
next
  case False
  then have "takeWhile (\<lambda>c. c \<noteq> CHR ''/'') (rev name) = rev name" by (auto simp: takeWhile_eq_all_conv)
  then have "base_name name = name" by (simp only: base_name_def rev_rev_ident)
  then show ?thesis using False copy_name_plain [of name "[]"] by simp
qed

lemma copy_dex_plain: "CHR ''@'' \<notin> set name \<Longrightarrow> copy_dex_name name acc i = (acc @ name, i)"
  by (induction name arbitrary: acc) auto

abbreviation at_to_slash :: "string \<Rightarrow> string" where
  "at_to_slash \<equiv> map (\<lambda>c. if c = CHR ''@'' then CHR ''/'' else c)"

lemma copy_dex_prefix: "copy_dex_name (x @ CHR ''@'' # y) acc i = copy_dex_name y (acc @ at_to_slash x @ ''/'') (length acc + length x)"
  by (induction x arbitrary: acc i) (auto simp: Let_def)

text \<open>The name of an optimised file stands for the path before its last \<^verbatim>\<open>@\<close>; one without it stands for the directory itself.\<close>

lemma dex_path_of_name:
  assumes "CHR ''@'' \<notin> set y" and "length (x @ CHR ''@'' # y) < FULL_PATH_LEN"
  shows "dex_path_of (x @ CHR ''@'' # y) = Inr (at_to_slash x)"
  using assms copy_dex_prefix [of x y "[]" 0] copy_dex_plain [OF assms(1), of "at_to_slash x @ ''/''" "length x"]
  by (simp add: dex_path_of_def)

lemma dex_path_without_at: "CHR ''@'' \<notin> set y \<Longrightarrow> length y < FULL_PATH_LEN \<Longrightarrow> dex_path_of y = Inr []"
  using copy_dex_plain [of y "[]" 0] by (simp add: dex_path_of_def)

text \<open>A process that only traces mappings has no file for them: the first one is written to a null pointer.\<close>

lemma mmap_needs_files:
  assumes "p_output p = Some out" and "length (dexTable p) < MAX_DEX_TABLE_SIZE" and "fp_dex out = None"
  shows "SET_attach_dex dex p = Inl Undefined"
  using assms by (simp add: SET_attach_dex_def SET_output_write_dex_def fwrite_def)

section \<open>Attaching and detaching\<close>

lemma detach_last:
  assumes "procs_of t \<noteq> []" and "length (procs_of t) < MAX_PROC_TABLE_SIZE"
  shows "procs_of (SET_detach_process p (SET_attach_process p t)) = procs_of t"
  using assms by (simp add: SET_detach_process_def SET_attach_process_def Let_def)

text \<open>
  The first process is never detached. The places of the processes behind a detached one are not updated: when \<open>b\<close> and then
  \<open>c\<close> end, the table keeps \<open>c\<close>, which has been freed, and loses \<open>d\<close>.
\<close>

lemma detach_first_stays: "p_idx t p = 0 \<Longrightarrow> SET_detach_process p t = t"
  by (simp add: SET_detach_process_def)

lemma detach_wrong_process:
  assumes "distinct [a, b, c, d]"
  shows "procs_of (SET_detach_process c (SET_detach_process b (SET_attach_process d (SET_attach_process c (SET_attach_process b
    (SET_attach_process a \<lparr>procs_of = [], p_idx = f\<rparr>)))))) = [a, c]"
  using assms by (simp add: SET_detach_process_def SET_attach_process_def MAX_PROC_TABLE_SIZE_def)

section \<open>From the control connection to the trace\<close>

lemma set_process_type_user:
  "SET_set_process_type h 0x35 SETProcess0 = (0, SETProcess0\<lparr>p_type := 0x35\<rparr>)"
  by (simp add: SET_set_process_type_def SETProcess0_def SET_PROCESS_USER_C_def SET_PROCESS_KERNEL_def SET_PROCESS_IRQ_def)

lemma has_types:
  assumes "p_type p = 0x35"
  shows "has_type SET_PROCESS_OUTPUT p" "has_type SET_PROCESS_USER_C p" "has_type SET_PROCESS_DALVIK p" "has_type SET_PROCESS_SYSCALL p"
    "has_type (SET_PROCESS_LIBRARY OR SET_PROCESS_USER_C) p" "\<not> has_type (SET_PROCESS_KERNEL OR SET_PROCESS_IRQ) p"
    "has_type (SET_PROCESS_KERNEL OR SET_PROCESS_IRQ OR SET_PROCESS_LIBRARY OR SET_PROCESS_USER_C) p"
  using assms by (simp_all add: has_type_def SET_PROCESS_OUTPUT_def SET_PROCESS_USER_C_def SET_PROCESS_DALVIK_def SET_PROCESS_SYSCALL_def
      SET_PROCESS_LIBRARY_def SET_PROCESS_KERNEL_def SET_PROCESS_IRQ_def)

text \<open>A new process for everything in user space, of a program whose file is found.\<close>

definition new_process :: "host \<Rightarrow> string \<Rightarrow> SETProcess" where
  "new_process h name = SETProcess0\<lparr>p_type := 0x35, p_name := name, path_c := snprintf_path (path_set_out h @ ''/'' @ name),
     p_output := Some (SET_output_create (snprintf_path (path_set_out h @ ''/'' @ name @ ''.set'')))\<rparr>"

lemma create_process_user:
  assumes "name' = take 31 (base_name name)" and "access_ok h (snprintf_path (path_set_out h @ ''/'' @ name'))" and "\<forall>q \<in> set tab. p_name q \<noteq> name'"
  shows "SET_create_process h tab (Some name) 0x35 = Some (new_process h name')"
proof -
  let ?p = "SETProcess0\<lparr>p_type := 0x35, p_name := name'\<rparr>"
  have c: "copy_name name [] = name'" by (simp add: copy_name_base PROCESS_NAME_LEN_def assms(1))
  have "SET_set_C_binary h ?p = (0, ?p\<lparr>path_c := snprintf_path (path_set_out h @ ''/'' @ name')\<rparr>)"
    using assms(2) by (simp add: SET_set_C_binary_def Let_def)
  moreover have "has_type SET_PROCESS_USER_C ?p" by (rule has_types) simp
  ultimately have "SET_set_process_name h tab name (SETProcess0\<lparr>p_type := 0x35\<rparr>) = (0, ?p\<lparr>path_c := snprintf_path (path_set_out h @ ''/'' @ name')\<rparr>)"
    using assms(3) by (auto simp: SET_set_process_name_def c Let_def)
  moreover have "has_type SET_PROCESS_OUTPUT (?p\<lparr>path_c := snprintf_path (path_set_out h @ ''/'' @ name')\<rparr>)" by (rule has_types) simp
  ultimately show ?thesis by (simp add: SET_create_process_def set_process_type_user new_process_def)
qed

text \<open>All files can be opened.\<close>

lemma open_outputs_user:
  assumes "p_type p = 0x35" and "model \<in> {0, 1, 2, 3}"
  shows "open_outputs (\<lambda>_. True) model p out = (True, open_all (\<lambda>_. True) model out)"
  using assms(2) has_types [OF assms(1)]
  by (auto simp: open_outputs_def open_all_def and_open_def SET_output_open_type_vpmu_def SET_output_open_pid_def SET_output_open_obj_func_def
      SET_output_open_dex_method_def SET_output_open_syscall_def Let_def)

lemma open_all_obj: "fp_obj (open_all (\<lambda>_. True) model out) = Some []"
  by (simp add: open_all_def SET_output_open_type_vpmu_def SET_output_open_pid_def SET_output_open_obj_func_def
      SET_output_open_dex_method_def SET_output_open_syscall_def Let_def)

text \<open>The range of the functions is not empty when none of them is at address 0 or wraps around.\<close>

definition no_wrap :: "u32 \<Rightarrow> sym \<Rightarrow> bool" where
  "no_wrap off s \<longleftrightarrow> (let a = (st_value s AND THUMB_INSN_MASK) + off in a \<noteq> 0 \<and> a \<le> a + st_size s)"

lemma add_func_range:
  assumes "add_func off s b = Inr b'" and "IS_FUNC s" and "no_wrap off s" and "b_min b \<le> b_max b \<or> (\<forall>i. addr (funcTable (b_table b) i) = 0)"
  shows "b_min b' \<le> b_max b'"
proof -
  define a where "a = (st_value s AND THUMB_INSN_MASK) + off"
  obtain i where i: "func_slot a (b_table b) = Inr i" using assms(1,2) by (auto simp: add_func_def a_def Let_def)
  have a: "a \<noteq> 0" "a \<le> a + st_size s" using assms(3) by (simp_all add: no_wrap_def a_def Let_def)
  show ?thesis
  proof (cases "addr (funcTable (b_table b) i) = a")
    case True
    then show ?thesis using assms(1,2,4) i a(1) by (auto simp: add_func_def a_def [symmetric] Let_def)
  next
    case False
    then have "b_min b' = (if a < b_min b then a else b_min b)" "b_max b' = (if b_max b < a + st_size s then a + st_size s else b_max b)"
      using assms(1,2) i by (auto simp: add_func_def a_def [symmetric] Let_def)
    then show ?thesis using a(2) by auto
  qed
qed

lemma add_funcs_range:
  assumes "fold_res (add_func off) ss b = Inr b'" and "\<forall>s \<in> set ss. IS_FUNC s \<longrightarrow> no_wrap off s"
    and "b_min b \<le> b_max b \<or> (\<forall>i. addr (funcTable (b_table b) i) = 0) \<and> filter IS_FUNC ss \<noteq> []"
  shows "b_min b' \<le> b_max b'"
  using assms
proof (induction ss arbitrary: b)
  case (Cons s ss)
  obtain b1 where b1: "add_func off s b = Inr b1" "fold_res (add_func off) ss b1 = Inr b'" using Cons.prems(1) by auto
  show ?case
  proof (cases "IS_FUNC s")
    case True
    then have "b_min b1 \<le> b_max b1" using add_func_range [OF b1(1)] Cons.prems(2,3) by auto
    then show ?thesis using Cons.IH [OF b1(2)] Cons.prems(2) by auto
  next
    case False
    then have "b1 = b" using b1(1) by (simp add: add_func_def)
    then show ?thesis using Cons.IH [OF b1(2)] Cons.prems(2,3) False by auto
  qed
qed simp

lemma created_range:
  assumes "SET_create_obj efd_open path start stop pgoff i = Inr (Some obj, j)" and "efd_open path = Some efd"
    and "\<forall>s \<in> set (symtab efd). IS_FUNC s \<longrightarrow> no_wrap (load_offset efd start pgoff) s"
  shows "text_start obj \<le> text_end obj"
  using assms add_funcs_range [of "load_offset efd start pgoff" "symtab efd"]
  by (auto simp: SET_create_obj_def load_offset_def [symmetric] Let_def split: if_splits)

text \<open>The object of the program is attached, and the trace can start.\<close>

lemma load_user_ok:
  assumes p: "p = (new_process h name)\<lparr>p_output := Some (open_all (\<lambda>_. True) model (SET_output_create path))\<rparr>"
    and e: "efd_open (path_c p) = Some efd" and n: "2 \<le> length (filter IS_FUNC (symtab efd))" "length (filter IS_FUNC (symtab efd)) < 65536"
    and w: "\<forall>s \<in> set (symtab efd). IS_FUNC s \<longrightarrow> no_wrap 0 s" and i: "2 < i"
  shows "\<exists>obj out. load_user efd_open i p = Inr ((True, p\<lparr>p_output := Some out, objTable := [obj]\<rparr>), i + 1) \<and> searchable [obj] \<and>
    out_ok out \<and> stream_log (func out) = [] \<and> fp_obj out = Some [(i, path_c p)] \<and> obj_id obj = i \<and>
    (\<forall>a. a \<noteq> 0 \<longrightarrow> func_find a obj = Inr (func_of (func_addrs 0 (symtab efd)) a))"
proof -
  have off: "load_offset efd 0 0 = 0" by (simp add: load_offset_def)
  obtain obj where obj: "SET_create_obj efd_open (path_c p) 0 0xffffffff 0 i = Inr (Some obj, i + 1)" "obj_id obj = i" "func_ok obj" "0 < func_free obj"
      "\<forall>a. a \<noteq> 0 \<longrightarrow> func_find a obj = Inr (func_of (func_addrs 0 (symtab efd)) a)"
    using created_obj [of efd_open "path_c p" efd 0 "0xffffffff" 0 i] e n unfolding off by blast
  have path: "obj_path obj = path_c p" using obj(1) by (auto simp: SET_create_obj_def Let_def split: if_splits option.splits)
  have r: "text_start obj \<le> text_end obj" using created_range [OF obj(1), of efd] e w by (simp add: off)
  let ?out = "open_all (\<lambda>_. True) model (SET_output_create path)" and ?obj = "obj\<lparr>obj_count := obj_count obj + 1\<rparr>"
  let ?out' = "?out\<lparr>fp_obj := Some [(obj_id obj, obj_path obj)]\<rparr>"
  have t: "p_type p = 0x35" "objTable p = []" "p_output p = Some ?out" by (simp_all add: p new_process_def SETProcess0_def)
  have "SET_attach_obj obj p = Inr (p\<lparr>p_output := Some ?out', objTable := [?obj]\<rparr>)"
    using open_all_obj [of model "SET_output_create path"]
    by (simp add: SET_attach_obj_def t MAX_OBJ_TABLE_SIZE_def SET_output_write_obj_def fwrite_def ordered_insert_def)
  then have l: "load_user efd_open i p = Inr ((True, p\<lparr>p_output := Some ?out', objTable := [?obj]\<rparr>), i + 1)"
    using obj(1) has_types [OF t(1)] by (simp add: load_user_def)
  have "fview ?obj = fview obj" by (simp add: fview_def fun_eq_iff)
  have find: "func_find a ?obj = func_find a obj" for a by (simp add: func_find_def func_slot_def cong: if_cong)
  with \<open>fview ?obj = fview obj\<close> have s: "searchable [?obj]" using obj r i by (simp add: searchable_def in_order_def func_ok_def)
  have "out_ok ?out'" "stream_log (func ?out') = []"
    using open_all_ok [of model path] by (simp_all add: Let_def out_ok_def)
  moreover have "fp_obj ?out' = Some [(i, path_c p)]" by (simp add: obj(2) path)
  moreover have "obj_id ?obj = i" "\<forall>a. a \<noteq> 0 \<longrightarrow> func_find a ?obj = Inr (func_of (func_addrs 0 (symtab efd)) a)" using obj(2,5) by (simp_all add: find)
  ultimately show ?thesis using l s by blast
qed

text \<open>The unit is on already, no timing model is selected, or the unit can be reset.\<close>

lemma begin_tracing_ok:
  assumes "p_type p = 0x35" and "VPMU_enabled (m_pmu (t_mon t)) \<or> t_model t = 0 \<or> (\<exists>m. reset_unit fs (t_mon t) = Inr m)"
  shows "\<exists>t'. begin_tracing fs pd p t = Inr ((True, p\<lparr>p_user := Some stack0, p_pid := pd, p_tracing := p_tracing p + 1\<rparr>), t')"
  using assms has_types [OF assms(1)] by (auto simp: begin_tracing_def SET_start_vpmu_def Let_def)

text \<open>
  Property C37. From the control connection to the trace: a process that is created with the type 0x35 (output, system calls, user code and
  dex files) for a program of the output directory, and starts tracing while every output file can be opened and the next object id is
  not one of the reserved 0, 1 and 2 (which fails only for the very first object of a run, see \<open>first_object_misread\<close>), gets the name of the program and one object, with that id, in which exactly the functions
  of the symbol table are found, and which is noted in the object file. Then every run of its user code that nests up to 1024 calls is
  traced so that the closed function file reads back to the calls that are open.
\<close>

theorem program_is_traced:
  assumes "name' = take 31 (base_name name)" and "access_ok h (snprintf_path (path_set_out h @ ''/'' @ name'))"
    and "\<forall>q \<in> set tab. p_name q \<noteq> name'" and "efd_open (snprintf_path (path_set_out h @ ''/'' @ name')) = Some efd"
    and "2 \<le> length (filter IS_FUNC (symtab efd))" and "length (filter IS_FUNC (symtab efd)) < 65536"
    and "\<forall>s \<in> set (symtab efd). IS_FUNC s \<longrightarrow> no_wrap 0 s" and "2 < t_obj_id t" and "t_model t \<in> {0, 1, 2, 3}"
    and "VPMU_enabled (m_pmu (t_mon t)) \<or> t_model t = 0 \<or> (\<exists>m. reset_unit fs (t_mon t) = Inr m)"
  shows "\<exists>p q t' obj out0. SET_create_process h tab (Some name) 0x35 = Some p \<and>
    SET_start_tracing (\<lambda>_. True) efd_open fs pd p t = Inr ((True, q), t') \<and> p_name q = name' \<and> p_pid q = pd \<and>
    objTable q = [obj] \<and> obj_id obj = t_obj_id t \<and> p_output q = Some out0 \<and> fp_obj out0 = Some [(obj_id obj, path_c q)] \<and>
    (\<forall>a. a \<noteq> 0 \<longrightarrow> func_find a obj = Inr (func_of (func_addrs 0 (symtab efd)) a)) \<and>
    (\<forall>bs. (\<forall>b \<in> set bs. readable (snd (snd b))) \<and> nests (objTable q) bs ([], 0) \<longrightarrow>
      (\<exists>cs calls pend r out o2. call_trace (objTable q) bs ([], 0) = (cs, calls, pend) \<and> run_user bs q = Inr r \<and>
        p_output r = Some out \<and> SET_output_close out = Inr o2 \<and> s_fp (func o2) = Some cs \<and> replay cs [] = Some (map snd calls)))"
proof -
  let ?n = "new_process h name'"
  define path where "path = snprintf_path (path_set_out h @ ''/'' @ name' @ ''.set'')"
  define p where "p = ?n\<lparr>p_output := Some (open_all (\<lambda>_. True) (t_model t) (SET_output_create path))\<rparr>"
  have c: "SET_create_process h tab (Some name) 0x35 = Some ?n" by (rule create_process_user [OF assms(1-3)])
  have n: "p_output ?n = Some (SET_output_create path)" "p_type ?n = 0x35" by (simp_all add: new_process_def path_def)
  have pc: "path_c p = snprintf_path (path_set_out h @ ''/'' @ name')" by (simp add: p_def new_process_def)
  obtain obj out where l: "load_user efd_open (t_obj_id t) p = Inr ((True, p\<lparr>p_output := Some out, objTable := [obj]\<rparr>), t_obj_id t + 1)"
      "searchable [obj]" "out_ok out" "stream_log (func out) = []" "fp_obj out = Some [(t_obj_id t, path_c p)]" "obj_id obj = t_obj_id t"
      "\<forall>a. a \<noteq> 0 \<longrightarrow> func_find a obj = Inr (func_of (func_addrs 0 (symtab efd)) a)"
    using load_user_ok [OF p_def, of efd_open efd "t_obj_id t"] assms(4-8) by (auto simp: pc)
  define p1 where "p1 = p\<lparr>p_output := Some out, objTable := [obj]\<rparr>"
  define q where "q = p1\<lparr>p_user := Some stack0, p_pid := pd, p_tracing := p_tracing p1 + 1\<rparr>"
  have t1: "p_type p1 = 0x35" by (simp add: p1_def p_def n)
  obtain t' where b: "begin_tracing fs pd p1 (t\<lparr>t_obj_id := t_obj_id t + 1\<rparr>) = Inr ((True, q), t')"
    using begin_tracing_ok [OF t1, of "t\<lparr>t_obj_id := t_obj_id t + 1\<rparr>" fs pd] assms(10) by (auto simp: q_def)
  have "SET_start_tracing (\<lambda>_. True) efd_open fs pd ?n t = Inr ((True, q), t')"
    using open_outputs_user [OF n(2) assms(9)] l(1) b has_types [OF t1]
    by (simp add: SET_start_tracing_def n(1) p_def [symmetric] p1_def [symmetric] load_kernel_def Let_def)
  moreover have q: "objTable q = [obj]" "p_user q = Some stack0" "return_addr q = 0" "p_output q = Some out" "p_name q = name'" "p_pid q = pd" "path_c q = path_c p"
    by (simp_all add: q_def p1_def p_def new_process_def SETProcess0_def)
  moreover have "stk_size stack0 = 0" by (simp add: stack0_def)
  ultimately show ?thesis
    using c user_run_closed [of q stack0 out] l(2-7)
    by (intro exI [of _ ?n] exI [of _ q] exI [of _ t'] exI [of _ obj] exI [of _ out] conjI allI impI) fastforce+
qed

definition host_ex :: host where
  "host_ex = \<lparr>access_ok = \<lambda>f. f = ''/set/a'', path_set_out = ''/set'', path_android_out = ''/out''\<rparr>"

definition elf_ex :: elf where
  "elf_ex = \<lparr>elf_dyn = False, symtab = [
     \<lparr>st_name = ''main'', st_value = 0x8000, st_size = 16, st_info = 0x12, st_other = 0, st_shndx = 7\<rparr>,
     \<lparr>st_name = ''g'', st_value = 0x8010, st_size = 16, st_info = 0x12, st_other = 0, st_shndx = 7\<rparr>]\<rparr>"

definition tracer_ex :: tracer where
  "tracer_ex = \<lparr>t_model = 2, t_obj_id = 3, t_dex_id = 0, isSamplingOn = False, t_mon = set_pmu pmu_on monitor1\<rparr>"

definition run_ex :: "(u32 \<times> u32 \<times> pmu) list" where
  "run_ex = [(0x8000, 0x7000, pmu_on), (0x8010, 0x8008, pmu_on), (0x8008, 0x8014, pmu_on)]"

lemma call_trace_ex:
  assumes "text_start obj \<le> 0x8000" and "0x8010 \<le> text_end obj" and "obj_id obj = 3"
    and "\<forall>a. a \<noteq> 0 \<longrightarrow> func_find a obj = Inr (func_of [0x8000, 0x8010] a)"
  shows "call_trace [obj] run_ex ([], 0) = ([0x30000, 0x30001, 1], [(0x7000, 0x30000)], 0)"
proof -
  have e: "entry_at text_start text_end a [obj] = Some obj" if "a \<in> {0x8000, 0x8008, 0x8010}" for a
    using order_trans [OF assms(1), of a] order_trans [OF _ assms(2), of a] that by (auto simp: entry_at_def)
  have "place_of [obj] 0x8000 = Entry 0x30000" "place_of [obj] 0x8010 = Entry 0x30001" "place_of [obj] 0x8008 = Code"
    using e assms(3,4) by (simp_all add: place_of_def func_of_def func_code_def)
  then show ?thesis by (simp add: run_ex_def innermost_def)
qed

theorem program_is_traced_witness:
  "\<exists>p q t' obj. SET_create_process host_ex [] (Some ''/system/bin/a'') 0x35 = Some p \<and>
    SET_start_tracing (\<lambda>_. True) (\<lambda>_. Some elf_ex) (\<lambda>_. None) 7 p tracer_ex = Inr ((True, q), t') \<and> p_name q = ''a'' \<and> p_pid q = 7 \<and>
    objTable q = [obj] \<and> func_find 0x8010 obj = Inr (Some \<lparr>addr = 0x8010, symtabFuncIdx = 1\<rparr>) \<and>
    (\<exists>cs calls pend r out o2. call_trace (objTable q) run_ex ([], 0) = (cs, calls, pend) \<and> run_user run_ex q = Inr r \<and> p_output r = Some out \<and>
      SET_output_close out = Inr o2 \<and> s_fp (func o2) = Some cs \<and> replay cs [] = Some (map snd calls))"
proof -
  have f: "length (filter IS_FUNC (symtab elf_ex)) = 2" by (simp add: elf_ex_def IS_FUNC_def STT_FUNC_def STV_DEFAULT_def)
  have w: "\<forall>s \<in> set (symtab elf_ex). IS_FUNC s \<longrightarrow> no_wrap 0 s" by (simp add: elf_ex_def no_wrap_def THUMB_INSN_MASK_def)
  have a: "access_ok host_ex (snprintf_path (path_set_out host_ex @ ''/'' @ ''a''))"
    by (simp add: host_ex_def snprintf_path_def FULL_PATH_LEN_def)
  have b: "''a'' = take 31 (base_name ''/system/bin/a'')" by (simp add: base_name_def)
  have t: "t_obj_id tracer_ex = 3" "t_model tracer_ex = 2" "VPMU_enabled (m_pmu (t_mon tracer_ex))"
    by (simp_all add: tracer_ex_def set_pmu_def pmu_on_def)
  have s: "func_addrs 0 (symtab elf_ex) = [0x8000, 0x8010]"
    by (simp add: elf_ex_def func_addrs_def IS_FUNC_def STT_FUNC_def STV_DEFAULT_def THUMB_INSN_MASK_def)
  have m: "\<forall>b \<in> set run_ex. readable (snd (snd b))" by (simp add: run_ex_def readable_def times_known_def pmu_on_def event_examples)
  have n: "nests objs run_ex ([], 0)" for objs by (rule nests_short) (simp add: run_ex_def MAX_STACK_SIZE_def)
  obtain p q t' obj where q: "SET_create_process host_ex [] (Some ''/system/bin/a'') 0x35 = Some p"
      "SET_start_tracing (\<lambda>_. True) (\<lambda>_. Some elf_ex) (\<lambda>_. None) 7 p tracer_ex = Inr ((True, q), t')" "p_name q = ''a''" "p_pid q = 7"
      "objTable q = [obj]" "\<forall>a. a \<noteq> 0 \<longrightarrow> func_find a obj = Inr (func_of [0x8000, 0x8010] a)"
      "\<And>bs. (\<forall>b \<in> set bs. readable (snd (snd b))) \<Longrightarrow> nests (objTable q) bs ([], 0) \<Longrightarrow>
        \<exists>cs calls pend r out o2. call_trace (objTable q) bs ([], 0) = (cs, calls, pend) \<and> run_user bs q = Inr r \<and>
        p_output r = Some out \<and> SET_output_close out = Inr o2 \<and> s_fp (func o2) = Some cs \<and> replay cs [] = Some (map snd calls)"
    using program_is_traced [where name' = "''a''" and name = "''/system/bin/a''" and h = host_ex and tab = "[]" and efd_open = "\<lambda>_. Some elf_ex"
        and efd = elf_ex and t = tracer_ex and fs = "\<lambda>_. None" and pd = 7, OF b a] f w t s by auto
  have "func_find 0x8010 obj = Inr (Some \<lparr>addr = 0x8010, symtabFuncIdx = 1\<rparr>)" using q(6) by (simp add: func_of_def)
  with q(1-5) q(7) [OF m n] show ?thesis by fastforce
qed

end
