(* ===== verification/SET_System.thy ===== *)
theory SET_System
  imports SET_Process
begin

unbundle bit_operations_syntax

text \<open>
  The tracer as a whole (\<^verbatim>\<open>SET/SET_event.c\<close>, \<^verbatim>\<open>SET/SET.c\<close>, \<^verbatim>\<open>hw/SET_device.c\<close>): the records of all processes and threads, the running one,
  the kernel events that start, switch, copy and end them, and the registers through which the guest controls the tracer.

  \<^item> A record of a process is a number; its fields are in \<open>s_heap\<close>, and None there is a record that was freed (or never allocated),
    so that its use is an error. The threads of a process share its output and its count, which belong to a group.
  \<^item> The structures of the guest kernel are read through the words and strings at guest addresses (\<open>v2p\<close>); a read does
    not cross a page. Object and dex files are kept by value; their reference counts only control the release of memory.
  \<^item> The table of processes is searched by the number that a process had when it was inserted.
\<close>

section \<open>State\<close>

record thread =
  th_proc :: SETProcess
  th_group :: nat

record setsys =
  is_start :: bool
  s_heap :: "nat \<Rightarrow> thread option"
  s_next :: nat
  s_out :: "nat \<Rightarrow> SETOut option"
  s_closed :: "nat \<Rightarrow> SETOut option"
  s_tracing :: "nat \<Rightarrow> int"
  s_procs :: proc_list
  s_hash :: ptable
  tracing_process :: "nat option"
  now_pid :: int
  current_name :: string
  reg_type :: u8
  pid_base :: "nat \<Rightarrow> nat \<Rightarrow> int"
  pid_name_base :: "nat \<Rightarrow> string"
  kthread_name :: string
  trace_kernel :: bool
  s_kernel :: kernel_funcs
  s_tracer :: tracer

record world =
  w_host :: host
  w_fopen :: "string \<Rightarrow> bool"
  w_efd :: "string \<Rightarrow> elf option"
  w_config :: "int \<Rightarrow> string option"
  w_comma :: char

record guest =
  regs :: "nat \<Rightarrow> u32"
  word_at :: "u32 \<Rightarrow> u32"
  string_at :: "u32 \<Rightarrow> string"

text \<open>A process with what it shares, and back.\<close>

definition view :: "nat \<Rightarrow> setsys \<Rightarrow> SETProcess res" where
  "view k st = bind_res (deref (s_heap st k)) (\<lambda>th. Inr ((th_proc th)\<lparr>p_output := s_out st (th_group th), p_tracing := s_tracing st (th_group th)\<rparr>))"

definition put_back :: "nat \<Rightarrow> SETProcess \<Rightarrow> setsys \<Rightarrow> setsys res" where
  "put_back k p st = bind_res (deref (s_heap st k)) (\<lambda>th. Inr (st\<lparr>s_heap := (s_heap st)(k \<mapsto> th\<lparr>th_proc := p\<rparr>),
     s_out := (s_out st)(th_group th := p_output p), s_tracing := (s_tracing st)(th_group th := p_tracing p)\<rparr>))"

definition sys_pmu :: "setsys \<Rightarrow> pmu" where
  "sys_pmu st = m_pmu (t_mon (s_tracer st))"

definition set_sys_pmu :: "pmu \<Rightarrow> setsys \<Rightarrow> setsys" where
  "set_sys_pmu m st = st\<lparr>s_tracer := (s_tracer st)\<lparr>t_mon := set_pmu m (t_mon (s_tracer st))\<rparr>\<rparr>"

text \<open>An event of the running process, if it is traced.\<close>

definition current_event :: "(SETProcess \<Rightarrow> pmu \<Rightarrow> (SETProcess \<times> pmu) res) \<Rightarrow> setsys \<Rightarrow> setsys res" where
  "current_event f st = (case tracing_process st of None \<Rightarrow> Inr st
     | Some k \<Rightarrow> bind_res (view k st) (\<lambda>p. bind_res (f p (sys_pmu st)) (\<lambda>(p, m). put_back k p (set_sys_pmu m st))))"

section \<open>Processes\<close>

definition list_procs :: "setsys \<Rightarrow> SETProcess list res" where
  "list_procs st = map_res (\<lambda>k. view k st) (procs_of (s_procs st))"

fun find_named :: "string \<Rightarrow> setsys \<Rightarrow> nat list \<Rightarrow> nat option res" where
  "find_named name st [] = Inr None"
| "find_named name st (k # ks) = bind_res (view k st) (\<lambda>p. if p_name p = name then Inr (Some k) else find_named name st ks)"

text \<open>A new record, in a group of its own.\<close>

definition alloc_process :: "SETProcess \<Rightarrow> setsys \<Rightarrow> nat \<times> setsys" where
  "alloc_process p st = (let k = s_next st in (k, st\<lparr>s_heap := (s_heap st)(k \<mapsto> \<lparr>th_proc = p, th_group = k\<rparr>), s_next := k + 1,
     s_out := (s_out st)(k := p_output p), s_tracing := (s_tracing st)(k := 0),
     s_procs := (s_procs st)\<lparr>p_idx := (p_idx (s_procs st))(k := -1)\<rparr>, s_hash := (s_hash st)\<lparr>hash_pos := (hash_pos (s_hash st))(k := None)\<rparr>\<rparr>))"

definition create_process :: "world \<Rightarrow> string \<Rightarrow> u8 \<Rightarrow> setsys \<Rightarrow> (nat option \<times> setsys) res" where
  "create_process w name ty st =
     (if fst (SET_set_process_type (w_host w) ty SETProcess0) \<noteq> 0 then Inr (None, st)
      else bind_res (list_procs st) (\<lambda>tab. case SET_create_process (w_host w) tab (Some name) ty of None \<Rightarrow> Inr (None, st)
        | Some p \<Rightarrow> let (k, st) = alloc_process p st in Inr (Some k, st)))"

definition attach_process :: "nat \<Rightarrow> setsys \<Rightarrow> setsys" where
  "attach_process k st = st\<lparr>s_procs := SET_attach_process k (s_procs st)\<rparr>"

definition detach_process :: "nat \<Rightarrow> setsys \<Rightarrow> setsys" where
  "detach_process k st = st\<lparr>s_procs := SET_detach_process k (s_procs st)\<rparr>"

text \<open>The last thread closes the output.\<close>

definition SET_delete_process :: "nat \<Rightarrow> setsys \<Rightarrow> setsys res" where
  "SET_delete_process k st = bind_res (deref (s_heap st k)) (\<lambda>th. let g = th_group th; n = s_tracing st g - 1;
       st = st\<lparr>s_tracing := (s_tracing st)(g := n), s_heap := (s_heap st)(k := None)\<rparr> in
     if n < 1 then (case s_out st g of None \<Rightarrow> Inr st
       | Some out \<Rightarrow> bind_res (SET_output_close out) (\<lambda>out. Inr (st\<lparr>s_out := (s_out st)(g := None), s_closed := (s_closed st)(g \<mapsto> out)\<rparr>)))
     else Inr st)"

text \<open>The record of a thread is copied with its places in the tables; its stacks are new.\<close>

definition SET_copy_process :: "nat \<Rightarrow> setsys \<Rightarrow> (nat \<times> setsys) res" where
  "SET_copy_process k st = bind_res (deref (s_heap st k)) (\<lambda>th. let c = s_next st; p = th_proc th;
       p = p\<lparr>p_kernel := map_option (\<lambda>_. stack0) (p_kernel p), p_irq := map_option (\<lambda>_. stack0) (p_irq p),
         p_ic := map_option (\<lambda>_. stack0) (p_ic p), p_user := map_option (\<lambda>_. stack0) (p_user p)\<rparr> in
     Inr (c, st\<lparr>s_heap := (s_heap st)(c \<mapsto> th\<lparr>th_proc := p\<rparr>), s_next := c + 1, s_tracing := (s_tracing st)(th_group th := s_tracing st (th_group th) + 1),
       s_procs := (s_procs st)\<lparr>p_idx := (p_idx (s_procs st))(c := p_idx (s_procs st) k)\<rparr>,
       s_hash := (s_hash st)\<lparr>hash_pos := (hash_pos (s_hash st))(c := hash_pos (s_hash st) k)\<rparr>\<rparr>))"

definition insert_process :: "nat \<Rightarrow> setsys \<Rightarrow> setsys res" where
  "insert_process k st = bind_res (view k st) (\<lambda>p. bind_res (proc_insert \<lparr>pid = p_pid p, proc_ref = k\<rparr> (s_hash st)) (\<lambda>h. Inr (st\<lparr>s_hash := h\<rparr>)))"

definition start_tracing :: "world \<Rightarrow> nat \<Rightarrow> setsys \<Rightarrow> setsys res" where
  "start_tracing w k st = bind_res (view k st) (\<lambda>p.
     bind_res (SET_start_tracing (w_fopen w) (w_efd w) (w_config w) (now_pid st) p (s_tracer st)) (\<lambda>((ok, p), t).
     bind_res (put_back k p (st\<lparr>s_tracer := t\<rparr>)) (\<lambda>st.
     if ok then Inr (st\<lparr>tracing_process := Some k\<rparr>) else SET_delete_process k (detach_process k st))))"

definition stop_vpmu :: "world \<Rightarrow> setsys \<Rightarrow> setsys res" where
  "stop_vpmu w st = bind_res (SET_stop_vpmu (w_comma w) (s_tracer st)) (\<lambda>(_, t). Inr (st\<lparr>s_tracer := t\<rparr>))"

definition SET_end_tracing :: "world \<Rightarrow> nat \<Rightarrow> setsys \<Rightarrow> setsys res" where
  "SET_end_tracing w k st = bind_res (SET_delete_process k (detach_process k st)) (\<lambda>st.
     bind_res (list_procs st) (\<lambda>tab. if SET_has_process_being_tracing tab then Inr st else stop_vpmu w st))"

section \<open>Kernel events\<close>

definition SET_event_execve :: "world \<Rightarrow> setsys \<Rightarrow> setsys res" where
  "SET_event_execve w st = bind_res (find_named (current_name st) st (procs_of (s_procs st))) (\<lambda>r. case r of None \<Rightarrow> Inr st
     | Some k \<Rightarrow> bind_res (start_tracing w k st) (insert_process k))"

definition SET_event_exit :: "world \<Rightarrow> setsys \<Rightarrow> setsys res" where
  "SET_event_exit w st = (case tracing_process st of None \<Rightarrow> Inr st
     | Some k \<Rightarrow> bind_res (proc_clear k (s_hash st)) (\<lambda>h. SET_end_tracing w k (st\<lparr>tracing_process := None, s_hash := h\<rparr>)))"

definition SET_event_cs :: "setsys \<Rightarrow> setsys res" where
  "SET_event_cs st = bind_res (proc_find (now_pid st) (s_hash st)) (\<lambda>x. Inr (st\<lparr>tracing_process := map_option proc_ref x\<rparr>))"

definition event_mmap :: "world \<Rightarrow> string \<Rightarrow> u32 \<Rightarrow> u32 \<Rightarrow> u32 \<Rightarrow> setsys \<Rightarrow> setsys res" where
  "event_mmap w name start stop pgoff st = (case tracing_process st of None \<Rightarrow> Inr st
     | Some k \<Rightarrow> bind_res (view k st) (\<lambda>p. bind_res (SET_event_mmap (w_host w) (w_efd w) name start stop pgoff p (s_tracer st)) (\<lambda>(p, t).
       put_back k p (st\<lparr>s_tracer := t\<rparr>))))"

definition SET_event_thread_create :: "int \<Rightarrow> setsys \<Rightarrow> setsys res" where
  "SET_event_thread_create child_pid st = (case tracing_process st of None \<Rightarrow> Inr st
     | Some k \<Rightarrow> bind_res (SET_copy_process k st) (\<lambda>(c, st). bind_res (view c st) (\<lambda>p.
       bind_res (put_back c (p\<lparr>p_pid := child_pid\<rparr>) st) (\<lambda>st. insert_process c (attach_process c st)))))"

section \<open>Names of processes\<close>

text \<open>The tables have 512 rows, which are indexed with process numbers of the guest.\<close>

definition PID_ROWS :: int where "PID_ROWS = 512"

definition pid_row :: "int \<Rightarrow> nat res" where
  "pid_row p = (if 0 \<le> p \<and> p < PID_ROWS then Inr (nat p) else Inl Out_of_bounds)"

text \<open>\<open>strcpy\<close> into a row of 32 characters.\<close>

definition set_name :: "nat \<Rightarrow> string \<Rightarrow> setsys \<Rightarrow> setsys res" where
  "set_name i name st = (if length name < 32 then Inr (st\<lparr>pid_name_base := (pid_name_base st)(i := name)\<rparr>) else Inl Out_of_bounds)"

definition set_base :: "nat \<Rightarrow> nat \<Rightarrow> int \<Rightarrow> setsys \<Rightarrow> setsys" where
  "set_base i j x st = st\<lparr>pid_base := (pid_base st)(i := (pid_base st i)(j := x))\<rparr>"

definition backslash :: char where "backslash = CHR 0x5C"

text \<open>A new thread: it is noted with its process and takes its name; a new process gets a name later.\<close>

definition note_thread :: "int \<Rightarrow> int \<Rightarrow> setsys \<Rightarrow> setsys res" where
  "note_thread fork_pid fork_tgid st = bind_res (pid_row fork_tgid) (\<lambda>g.
     let st = (case find (\<lambda>i. pid_base st g i = -1) [1..<32] of None \<Rightarrow> st | Some i \<Rightarrow> set_base g i fork_pid st) in
     bind_res (pid_row fork_pid) (\<lambda>f. let st = set_base f 0 1 st in
       if pid_name_base st f = [] \<or> hd (pid_name_base st f) = backslash then set_name f (pid_name_base st g) st else Inr st))"

definition note_process :: "int \<Rightarrow> setsys \<Rightarrow> setsys res" where
  "note_process fork_pid st = bind_res (pid_row fork_pid) (\<lambda>f. let st = set_base f 0 1 st in
     bind_res (if fork_pid = 1 then set_name f ''init'' st else if fork_pid = 2 then set_name f ''kthread'' st else Inr st) (\<lambda>st.
     if pid_name_base st f = [] then set_name f [backslash] st else Inr st))"

text \<open>The names of kernel threads, for formats with conversions \<^verbatim>\<open>%s\<close> and \<^verbatim>\<open>%d\<close>.\<close>

datatype arg = Str_arg string | Int_arg int

fun format :: "string \<Rightarrow> arg list \<Rightarrow> string res" where
  "format [] as = Inr []"
| "format (c # cs) as = (if c = CHR ''%'' then (case cs of
       d # ds \<Rightarrow> (case as of
           Str_arg s # bs \<Rightarrow> if d = CHR ''s'' then bind_res (format ds bs) (\<lambda>r. Inr (s @ r)) else Inl Undefined
         | Int_arg i # bs \<Rightarrow> if d = CHR ''d'' then bind_res (format ds bs) (\<lambda>r.
             Inr ((if i < 0 then ''-'' else []) @ rev (map dec_digit (digits_of (nat \<bar>i\<bar>))) @ r)) else Inl Undefined
         | [] \<Rightarrow> Inl Undefined)
     | [] \<Rightarrow> Inl Undefined)
   else bind_res (format cs as) (\<lambda>r. Inr (c # r)))"

definition percents :: "string \<Rightarrow> nat" where
  "percents f = length (filter (\<lambda>c. c = CHR ''%'') f)"

text \<open>The character behind the last percent sign, which is the final zero when there is none.\<close>

definition save_char :: "string \<Rightarrow> char" where
  "save_char f = (let r = rev (takeWhile (\<lambda>c. c \<noteq> CHR ''%'') (rev f)) in if r = [] then CHR 0x00 else hd r)"

definition kernel_thread_name :: "guest \<Rightarrow> setsys \<Rightarrow> setsys res" where
  "kernel_thread_name g st = (let f = string_at g (regs g 2); a = regs g 3; snprintf = (\<lambda>as. bind_res (format f as) (\<lambda>s. Inr (take 31 s))) in
     bind_res (if percents f = 2 then snprintf [Str_arg (string_at g (word_at g a)), Int_arg (sint (word_at g (a + 4)))]
       else if percents f = 1 then
         if save_char f = CHR ''d'' then snprintf [Int_arg (sint (word_at g a))] else snprintf [Str_arg (string_at g (word_at g a))]
       else Inr (kthread_name st)) (\<lambda>s. let st = st\<lparr>kthread_name := s\<rparr> in
     case find (\<lambda>i. pid_name_base st i \<noteq> [] \<and> hd (pid_name_base st i) = backslash) [0..<512] of None \<Rightarrow> Inr st
     | Some i \<Rightarrow> set_name i s st))"

section \<open>Branches\<close>

definition in_range :: "u32 \<Rightarrow> KerFunc \<Rightarrow> bool res" where
  "in_range ret kf = bind_res (deref (retFunc kf)) (\<lambda>r. Inr (ret > fr_start r \<and> ret \<le> fr_end r))"

text \<open>With \<open>trace_kernel\<close> the emulator stops at the first start of \<open>init\<close>.\<close>

definition execve_event :: "world \<Rightarrow> guest \<Rightarrow> setsys \<Rightarrow> setsys res" where
  "execve_event w g st = (let name = string_at g (word_at g (regs g 0 + 172)); st = st\<lparr>current_name := copy_name name []\<rparr> in
     if trace_kernel st \<and> current_name st = ''init'' then Inl Exit_process
     else bind_res (pid_row (now_pid st)) (\<lambda>i.
       bind_res (if pid_name_base st i = [] then set_name i (current_name st) st else Inr st) (SET_event_execve w)))"

definition cs_event :: "guest \<Rightarrow> setsys \<Rightarrow> setsys res" where
  "cs_event g st = (let st = st\<lparr>now_pid := sint (word_at g (word_at g (regs g 2 + 12) + 492))\<rparr> in
     if now_pid st = 0 \<and> pid_base st 0 0 = 1 then Inr st
     else bind_res (if now_pid st = 0 \<and> pid_base st 0 0 = -1 then set_name 0 ''sched'' (set_base 0 0 1 st) else Inr st) SET_event_cs)"

definition mmap_event :: "world \<Rightarrow> guest \<Rightarrow> setsys \<Rightarrow> setsys res" where
  "mmap_event w g st = (let r = regs g 0; f = word_at g (r + 72) in
     if f \<noteq> 0 then event_mmap w (string_at g (word_at g (word_at g (f + 12) + 36))) (word_at g (r + 4)) (word_at g (r + 8)) (word_at g (r + 68)) st
     else Inr st)"

definition fork_event :: "guest \<Rightarrow> setsys \<Rightarrow> setsys res" where
  "fork_event g st = (let fork_pid = sint (word_at g (regs g 0 + 492)); fork_tgid = sint (word_at g (regs g 0 + 496)) in
     if regs g 1 AND 0x100 \<noteq> 0 then
       if fork_pid \<noteq> fork_tgid then bind_res (SET_event_thread_create fork_pid st) (note_thread fork_pid fork_tgid)
       else note_process fork_pid st
     else bind_res (pid_row fork_pid) (\<lambda>f. Inr (set_base f 0 1 st)))"

definition kernel_event :: "world \<Rightarrow> guest \<Rightarrow> u32 \<Rightarrow> KerFunc \<Rightarrow> setsys \<Rightarrow> setsys res" where
  "kernel_event w g ret kf st = (case k_event kf of
       EXECVE \<Rightarrow> bind_res (in_range ret kf) (\<lambda>b. if b then execve_event w g st else Inr st)
     | EXIT \<Rightarrow> SET_event_exit w st
     | CS \<Rightarrow> cs_event g st
     | MMAP \<Rightarrow> bind_res (in_range ret kf) (\<lambda>b. if b then mmap_event w g st else Inr st)
     | FORK \<Rightarrow> bind_res (in_range ret kf) (\<lambda>b. if b then fork_event g st else Inr st)
     | KTHREAD \<Rightarrow> bind_res (in_range ret kf) (\<lambda>b. if b then kernel_thread_name g st else Inr st))"

definition SET_event_branch :: "world \<Rightarrow> guest \<Rightarrow> u32 \<Rightarrow> u32 \<Rightarrow> setsys \<Rightarrow> setsys res" where
  "SET_event_branch w g target ret st =
     bind_res (if ret \<ge> 0xc0000000 then
         bind_res (ker_find target (s_kernel st)) (\<lambda>r. case r of None \<Rightarrow> Inr st | Some kf \<Rightarrow> kernel_event w g ret kf st)
       else Inr st) (\<lambda>st. current_event (branch_traced target ret) st)"

section \<open>Start, Dalvik processes and registers\<close>

text \<open>The files of the process that loads all Dalvik programs are taken over, each with a record in the output.\<close>

definition copy_dexes :: "DexFile list \<Rightarrow> SETProcess \<Rightarrow> SETProcess res" where
  "copy_dexes ds p = bind_res (case p_output p of None \<Rightarrow> Inr None
       | Some out \<Rightarrow> bind_res (fold_res (\<lambda>d. SET_output_write_dex (dex_id d) (dex_path d)) ds out) (\<lambda>out. Inr (Some out))) (\<lambda>out.
     Inr (p\<lparr>p_output := out, dexTable := map (\<lambda>d. d\<lparr>dex_count := dex_count d + 1\<rparr>) ds\<rparr>))"

definition copy_objs :: "ObjFile list \<Rightarrow> SETProcess \<Rightarrow> SETProcess res" where
  "copy_objs os p = bind_res (case p_output p of None \<Rightarrow> Inr None
       | Some out \<Rightarrow> bind_res (fold_res (\<lambda>ob. SET_output_write_obj (obj_id ob) (obj_path ob)) os out) (\<lambda>out. Inr (Some out))) (\<lambda>out.
     Inr (p\<lparr>p_output := out, objTable := map (\<lambda>ob. ob\<lparr>obj_count := obj_count ob + 1\<rparr>) os\<rparr>))"

definition from_zygote :: "nat \<Rightarrow> setsys \<Rightarrow> setsys res" where
  "from_zygote k st = bind_res (find_named ''app_process'' st (procs_of (s_procs st))) (\<lambda>z. case z of None \<Rightarrow> Inr st
     | Some z \<Rightarrow> bind_res (view z st) (\<lambda>zyg. bind_res (view k st) (\<lambda>p.
       bind_res (if has_type SET_PROCESS_DALVIK p then copy_dexes (dexTable zyg) p else Inr p) (\<lambda>p.
       bind_res (if has_type SET_PROCESS_LIBRARY p then copy_objs (objTable zyg) p else Inr p) (\<lambda>p. put_back k p st)))))"

definition SET_event_start_dalvik :: "world \<Rightarrow> string \<Rightarrow> setsys \<Rightarrow> setsys res" where
  "SET_event_start_dalvik w name st = bind_res (pid_row (now_pid st)) (\<lambda>i. bind_res (set_name i name (set_base i 0 1 st)) (\<lambda>st.
     bind_res (find_named name st (procs_of (s_procs st))) (\<lambda>r. case r of None \<Rightarrow> Inr st
     | Some k \<Rightarrow> bind_res (start_tracing w k st) (\<lambda>st. bind_res (insert_process k st) (from_zygote k)))))"

definition SET_event_bootup :: "world \<Rightarrow> setsys \<Rightarrow> setsys res" where
  "SET_event_bootup w st = bind_res (create_process w ''bootup_process'' (SET_PROCESS_MMAP OR SET_PROCESS_OUTPUT OR SET_PROCESS_KERNEL OR SET_PROCESS_IRQ) st)
     (\<lambda>(r, st). case r of None \<Rightarrow> Inr st
      | Some k \<Rightarrow> bind_res (start_tracing w k st) (\<lambda>st. insert_process k (st\<lparr>tracing_process := Some k\<rparr>)))"

definition kernel_table0 :: "kernel_funcs \<Rightarrow> kernel_funcs" where
  "kernel_table0 k = k\<lparr>kerFuncTable := \<lambda>_. \<lparr>k_addr = 0, k_event = EXECVE, retFunc = None\<rparr>\<rparr>"

definition SET_init :: "world \<Rightarrow> setsys \<Rightarrow> setsys res" where
  "SET_init w st = (let st = st\<lparr>pid_base := \<lambda>i j. if i < 512 \<and> j = 0 then -1 else pid_base st i j\<rparr>; h = w_host w in
     if is_start st \<or> path_android_out h = [] \<or> \<not> access_ok h (path_android_out h) \<or> path_set_out h = [] \<or> \<not> access_ok h (path_set_out h) then Inr st
     else let st = st\<lparr>s_procs := (s_procs st)\<lparr>procs_of := []\<rparr>, tracing_process := None, s_tracer := (s_tracer st)\<lparr>t_model := 0\<rparr>\<rparr> in
       bind_res (get_special_kernel_func (w_efd w) (snprintf_path (path_set_out h @ ''/vmlinux'')) (kernel_table0 (s_kernel st))) (\<lambda>(r, kf).
       let st = st\<lparr>s_kernel := kf\<rparr> in
       if r \<noteq> 0 then Inr st
       else bind_res (create_process w ''app_process'' SET_PROCESS_MMAP (st\<lparr>is_start := True\<rparr>)) (\<lambda>(r, st).
         bind_res (if trace_kernel st then SET_event_bootup w (st\<lparr>s_tracer := (s_tracer st)\<lparr>t_model := 2\<rparr>\<rparr>) else Inr st) (\<lambda>st.
         Inr (case r of None \<Rightarrow> st | Some k \<Rightarrow> attach_process k st)))))"

definition SET_exit :: "world \<Rightarrow> setsys \<Rightarrow> setsys res" where
  "SET_exit w st = (if \<not> is_start st then Inr st
     else bind_res (fold_res SET_delete_process (procs_of (s_procs st)) (st\<lparr>is_start := False\<rparr>)) (\<lambda>st.
       stop_vpmu w (st\<lparr>s_procs := (s_procs st)\<lparr>procs_of := []\<rparr>\<rparr>)))"

definition SET_DEV_REG_SET_CTRL :: nat where "SET_DEV_REG_SET_CTRL = 0"
definition SET_DEV_REG_VPMU_SETUP :: nat where "SET_DEV_REG_VPMU_SETUP = 4"
definition SET_DEV_REG_EVENT_TYPE :: nat where "SET_DEV_REG_EVENT_TYPE = 8"
definition SET_DEV_REG_EVENT_NAME :: nat where "SET_DEV_REG_EVENT_NAME = 12"
definition SET_DEV_REG_APP_NAME :: nat where "SET_DEV_REG_APP_NAME = 84"
definition SET_DEV_REG_METHOD_ENTRY :: nat where "SET_DEV_REG_METHOD_ENTRY = 88"
definition SET_DEV_REG_METHOD_EXIT :: nat where "SET_DEV_REG_METHOD_EXIT = 92"
definition SET_DEV_REG_JNI_ENTRY :: nat where "SET_DEV_REG_JNI_ENTRY = 96"
definition SET_DEV_REG_JNI_EXIT :: nat where "SET_DEV_REG_JNI_EXIT = 100"

definition SET_read :: "nat \<Rightarrow> setsys \<Rightarrow> u32" where
  "SET_read a st = (if a = SET_DEV_REG_SET_CTRL then if tracing_process st \<noteq> None then 1 else 0 else 0)"

definition set_sampling :: "bool \<Rightarrow> setsys \<Rightarrow> setsys" where
  "set_sampling b st = st\<lparr>s_tracer := (s_tracer st)\<lparr>isSamplingOn := b\<rparr>\<rparr>"

definition SET_write :: "world \<Rightarrow> guest \<Rightarrow> nat \<Rightarrow> u32 \<Rightarrow> setsys \<Rightarrow> setsys res" where
  "SET_write w g a val st =
     (if a = SET_DEV_REG_VPMU_SETUP then Inr (st\<lparr>s_tracer := (s_tracer st)\<lparr>t_model := sint val\<rparr>\<rparr>)
      else if a = SET_DEV_REG_EVENT_TYPE then Inr (st\<lparr>reg_type := ucast val\<rparr>)
      else if a = SET_DEV_REG_EVENT_NAME then
        let name = string_at g val; st = (if name = ''stop'' then set_sampling False st else st) in
        bind_res (create_process w name (reg_type st) st) (\<lambda>(r, st). Inr (case r of None \<Rightarrow> st | Some k \<Rightarrow> attach_process k st))
      else if a = SET_DEV_REG_APP_NAME then
        let name = string_at g val in if name = [] \<or> hd name \<noteq> CHR ''<'' then SET_event_start_dalvik w name st else Inr st
      else if a = SET_DEV_REG_METHOD_ENTRY then current_event (SET_event_method_entry val) st
      else if a = SET_DEV_REG_METHOD_EXIT then current_event (SET_event_method_exit val) st
      else if a = SET_DEV_REG_JNI_ENTRY then current_event SET_event_jni_entry st
      else if a = SET_DEV_REG_JNI_EXIT then current_event SET_event_jni_exit st
      else Inr st)"

text \<open>One message of the control connection: the timing model, the type and the name of a process, then the event configuration, then the stop.\<close>

definition ctrl_session :: "world \<Rightarrow> int \<Rightarrow> u8 \<Rightarrow> string \<Rightarrow> setsys \<Rightarrow> setsys res" where
  "ctrl_session w model ty name st =
     bind_res (SET_start_vpmu (w_config w) ((s_tracer st)\<lparr>t_model := model\<rparr>)) (\<lambda>t.
     bind_res (create_process w name ty (st\<lparr>s_tracer := t\<rparr>)) (\<lambda>(r, st).
     Inr (set_sampling True (case r of None \<Rightarrow> st | Some k \<Rightarrow> attach_process k st))))"

definition ctrl_stop :: "world \<Rightarrow> u8 list \<Rightarrow> setsys \<Rightarrow> setsys res" where
  "ctrl_stop w bytes st = (if bytes \<noteq> [] \<and> hd bytes = 0 then stop_vpmu w (set_sampling False st) else Inr st)"

text \<open>
  Only column 0 of \<open>pid_base\<close> is set to -1 at the start, so that no free entry is ever found for a thread.
\<close>

lemma set_name_base: "set_name i name st = Inr st' \<Longrightarrow> pid_base st' = pid_base st"
  by (cases "length name < 32") (auto simp: set_name_def)

lemma thread_not_noted:
  assumes "\<forall>i. \<forall>j \<ge> 1. pid_base st i j = 0" and "note_thread fork_pid fork_tgid st = Inr st'"
  shows "\<forall>i. \<forall>j \<ge> 1. pid_base st' i j = 0"
proof -
  obtain g where g: "pid_row fork_tgid = Inr g" using assms(2) unfolding note_thread_def bind_res_Inr by blast
  have "pid_base st g i \<noteq> -1" if "1 \<le> i" for i using assms(1) that by simp
  then have "find (\<lambda>i. pid_base st g i = -1) [1..<n] = None" for n by (auto simp: find_None_iff)
  note n = this [of 32]
  define r where "r = bind_res (pid_row fork_pid) (\<lambda>f. let s = set_base f 0 1 st in
    if pid_name_base s f = [] \<or> hd (pid_name_base s f) = backslash then set_name f (pid_name_base s g) s else Inr s)"
  have "r = Inr st'" using assms(2) unfolding note_thread_def g bind_res_simps Let_def n option.case r_def .
  then obtain f where "pid_base st' = pid_base (set_base f 0 1 st)"
    unfolding r_def bind_res_Inr Let_def by (metis set_name_base sum.inject(2))
  then show ?thesis using assms(1) by (simp add: set_base_def)
qed

section \<open>Traces of several processes\<close>

text \<open>
  Every branch of the guest reaches the tracer with the registers and the memory of the guest and the counters at that moment.
\<close>

type_synonym sys_branch = "guest \<times> u32 \<times> u32 \<times> pmu"

fun sys_step :: "world \<Rightarrow> sys_branch \<Rightarrow> setsys \<Rightarrow> setsys res" where
  "sys_step w (g, target, ret, m) st = SET_event_branch w g target ret (set_sys_pmu m st)"

text \<open>
  Three kinds of branches: those of user code, those that enter the kernel function which switches to another process, and all
  others. The number of the next process is read from its structure in the guest.
\<close>

datatype branch_kind = User | Switch int | Kernel

definition next_pid :: "guest \<Rightarrow> int" where
  "next_pid g = sint (word_at g (word_at g (regs g 2 + 12) + 492))"

fun kind :: "kernel_funcs \<Rightarrow> sys_branch \<Rightarrow> branch_kind" where
  "kind kt (g, target, ret, m) =
     (if ret \<ge> 0xc0000000 then (case ker_find target kt of Inr (Some kf) \<Rightarrow> if k_event kf = CS then Switch (next_pid g) else Kernel | _ \<Rightarrow> Kernel)
      else if target < 0xc0000000 then User else Kernel)"

text \<open>
  The process that runs, as far as the tracer knows: the one of the last switch. Only the first switch to process 0 is
  followed; at a later one the tracer stays with the process that ran before. The number is the entry of process 0 in
  \<open>pid_base\<close>, -1 after the start and 1 from the first switch on.
\<close>

definition owner :: "ptable \<Rightarrow> int \<Rightarrow> nat option" where
  "owner h p = (case proc_find p h of Inr (Some x) \<Rightarrow> Some (proc_ref x) | _ \<Rightarrow> None)"

definition follow :: "kernel_funcs \<Rightarrow> ptable \<Rightarrow> sys_branch \<Rightarrow> int \<times> nat option \<Rightarrow> int \<times> nat option" where
  "follow kt h e = (\<lambda>(b, cur). case kind kt e of
     Switch p \<Rightarrow> if p = 0 \<and> b = 1 then (b, cur) else (if p = 0 \<and> b = -1 then 1 else b, owner h p)
   | _ \<Rightarrow> (b, cur))"

text \<open>The branches that belong to a process: those of user code while it runs.\<close>

fun own_branches :: "kernel_funcs \<Rightarrow> ptable \<Rightarrow> nat \<Rightarrow> int \<times> nat option \<Rightarrow> sys_branch list \<Rightarrow> (u32 \<times> u32 \<times> pmu) list" where
  "own_branches kt h k r [] = []"
| "own_branches kt h k r (e # es) = (if kind kt e = User \<and> snd r = Some k then [snd e] else []) @ own_branches kt h k (follow kt h e r) es"

definition user_type :: "SETProcess \<Rightarrow> bool" where
  "user_type p \<longleftrightarrow> has_type (SET_PROCESS_LIBRARY OR SET_PROCESS_USER_C) p \<and> \<not> has_type (SET_PROCESS_KERNEL OR SET_PROCESS_IRQ) p"

text \<open>Traced processes that share nothing: they have records, trace user code only, and no two belong to one group.\<close>

definition separate :: "nat set \<Rightarrow> setsys \<Rightarrow> bool" where
  "separate K st \<longleftrightarrow> (\<forall>k \<in> K. \<exists>th. s_heap st k = Some th \<and> user_type (th_proc th)) \<and>
     (\<forall>k \<in> K. \<forall>j \<in> K. k \<noteq> j \<longrightarrow> th_group (the (s_heap st k)) \<noteq> th_group (the (s_heap st j))) \<and>
     (\<forall>k. tracing_process st = Some k \<longrightarrow> k \<in> K)"

text \<open>
  The branches considered: all of user code, all switches to processes that are not traced or among the given ones, and all
  branches in the kernel at which nothing else starts, ends or changes a process.
\<close>

fun step_ok :: "nat set \<Rightarrow> kernel_funcs \<Rightarrow> ptable \<Rightarrow> sys_branch \<Rightarrow> bool" where
  "step_ok K kt h (g, target, ret, m) \<longleftrightarrow> ret < 0xc0000000 \<or> (case ker_find target kt of Inl _ \<Rightarrow> False | Inr None \<Rightarrow> True
     | Inr (Some kf) \<Rightarrow> (case k_event kf of
         CS \<Rightarrow> (case proc_find (next_pid g) h of Inr None \<Rightarrow> True | Inr (Some x) \<Rightarrow> proc_ref x \<in> K | Inl _ \<Rightarrow> False)
       | EXIT \<Rightarrow> False
       | _ \<Rightarrow> in_range ret kf = Inr False))"

text \<open>What the tracer knows of the running process.\<close>

definition running :: "setsys \<Rightarrow> int \<times> nat option" where
  "running st = (pid_base st 0 0, tracing_process st)"

definition same_tables :: "setsys \<Rightarrow> setsys \<Rightarrow> bool" where
  "same_tables st st' \<longleftrightarrow> s_hash st' = s_hash st \<and> s_kernel st' = s_kernel st"

lemma set_sys_pmu_simps [simp]:
  "s_heap (set_sys_pmu m st) = s_heap st" "s_out (set_sys_pmu m st) = s_out st" "s_tracing (set_sys_pmu m st) = s_tracing st"
  "s_hash (set_sys_pmu m st) = s_hash st" "tracing_process (set_sys_pmu m st) = tracing_process st" "sys_pmu (set_sys_pmu m st) = m"
  "view k (set_sys_pmu m st) = view k st" "s_kernel (set_sys_pmu m st) = s_kernel st" "pid_base (set_sys_pmu m st) = pid_base st"
  by (simp_all add: set_sys_pmu_def sys_pmu_def set_pmu_def view_def)

lemma out_rec_type: "out_rec r (p, m) = Inr (q, m') \<Longrightarrow> p_type q = p_type p"
  by (auto simp: out_rec_def split: option.splits)

lemma out_funcs_type: "out_funcs cs p m = Inr (q, m') \<Longrightarrow> p_type q = p_type p"
proof (induction cs arbitrary: p m)
  case (Cons c cs)
  obtain p1 m1 where 1: "out_rec (Func_rec c) (p, m) = Inr (p1, m1)" "out_funcs cs p1 m1 = Inr (q, m')"
    using Cons.prems by (auto simp: out_funcs_def)
  then show ?case using Cons.IH out_rec_type by metis
qed (simp add: out_funcs_def)

lemma inside_type:
  assumes "inside_object obj target ret s p = Inr (cs, q)"
  shows "p_type q = p_type p"
proof -
  obtain f where f: "func_find target obj = Inr f" using assms by (auto simp: inside_object_def)
  show ?thesis
  proof (cases f)
    case None
    then show ?thesis using assms f by (cases "find_frame target s") (auto simp: inside_object_def)
  next
    case (Some x)
    then show ?thesis using assms f by (cases "return_addr p = 0") (auto simp: inside_object_def)
  qed
qed

lemma outside_type: "p_type (snd (outside_object target ret s p)) = p_type p"
  by (simp add: outside_object_def)

lemma user_branch_type:
  assumes "user_branch target ret p = Inr (cs, q)"
  shows "p_type q = p_type p"
proof (cases "objTable p = []")
  case True
  then show ?thesis using assms by (simp add: user_branch_def)
next
  case False
  define obj where "obj = table_entry text_start target (objTable p)"
  obtain s where s: "deref (p_user p) = Inr s" using assms False by (auto simp: user_branch_def)
  show ?thesis
  proof (cases "text_start (hd (objTable p)) \<le> target \<and> target \<le> text_end obj")
    case True
    then show ?thesis using assms False s inside_type [of obj target ret s p cs q] by (simp add: user_branch_def obj_def [symmetric] Let_def)
  next
    case out: False
    then have "outside_object target ret s p = (cs, q)" using assms False s by (simp add: user_branch_def obj_def [symmetric] Let_def split: if_splits)
    then show ?thesis using outside_type [of target ret s p] by simp
  qed
qed

lemma event_user_type: "SET_event_branch_user target ret p m = Inr (q, m') \<Longrightarrow> p_type q = p_type p"
  by (auto simp: SET_event_branch_user_def dest!: user_branch_type out_funcs_type)

lemma branch_user_space:
  assumes "user_type p" and "target < 0xc0000000" and "ret < 0xc0000000"
  shows "branch_traced target ret p m = SET_event_branch_user target ret p m"
  using assms by (simp add: branch_traced_def branch_process_def user_type_def)

text \<open>A process that is traced in user space only ignores what the kernel does.\<close>

lemma branch_kernel_space:
  assumes "user_type p" and "\<not> (target < 0xc0000000 \<and> ret < 0xc0000000)"
  shows "branch_traced target ret p m = Inr (p, m)"
proof -
  have "has_type SET_PROCESS_KERNEL p \<Longrightarrow> has_type (SET_PROCESS_KERNEL OR SET_PROCESS_IRQ) p"
    by (simp add: has_type_def bit.conj_disj_distrib or_eq_0_iff)
  then have "\<not> has_type SET_PROCESS_KERNEL p" using assms(1) by (auto simp: user_type_def)
  then show ?thesis using assms by (auto simp: branch_traced_def branch_process_def user_type_def leave_kernel_def)
qed

lemma view_type: "s_heap st k = Some th \<Longrightarrow> view k st = Inr p \<Longrightarrow> p_type p = p_type (th_proc th)"
  by (auto simp: view_def deref_def)

text \<open>An event of the running process changes this process alone.\<close>

lemma current_step:
  assumes sep: "separate K st" and k: "tracing_process st = Some k" "view k st = Inr p"
    and run: "f p (sys_pmu st) = Inr (q, m')" and ty: "p_type q = p_type p"
  shows "\<exists>st'. current_event f st = Inr st' \<and> separate K st' \<and> same_tables st st' \<and> running st' = running st \<and>
    view k st' = Inr q \<and> (\<forall>j \<in> K. j \<noteq> k \<longrightarrow> view j st' = view j st)"
proof -
  have kK: "k \<in> K" using sep k(1) by (simp add: separate_def)
  then obtain th where th: "s_heap st k = Some th" "user_type (th_proc th)" using sep by (auto simp: separate_def)
  have grp: "th_group (the (s_heap st j)) \<noteq> th_group th" if "j \<in> K" "j \<noteq> k" for j
    using sep that kK th(1) unfolding separate_def by (metis option.sel)
  have u: "user_type q" using th(2) ty view_type [OF th(1) k(2)] by (simp add: user_type_def has_type_def)
  let ?st = "(set_sys_pmu m' st)\<lparr>s_heap := (s_heap st)(k \<mapsto> th\<lparr>th_proc := q\<rparr>), s_out := (s_out st)(th_group th := p_output q),
    s_tracing := (s_tracing st)(th_group th := p_tracing q)\<rparr>"
  have "current_event f st = Inr ?st" using k th(1) run by (simp add: current_event_def put_back_def deref_def)
  moreover have "separate K ?st" unfolding separate_def
  proof (intro conjI ballI allI impI)
    show "\<exists>th'. s_heap ?st j = Some th' \<and> user_type (th_proc th')" if "j \<in> K" for j using sep that u by (simp add: separate_def)
    show "th_group (the (s_heap ?st i)) \<noteq> th_group (the (s_heap ?st j))" if "i \<in> K" "j \<in> K" "i \<noteq> j" for i j
      using that grp [of i] grp [of j] not_sym [OF grp [of j]] sep unfolding separate_def by (cases "i = k") auto
    show "j \<in> K" if "tracing_process ?st = Some j" for j using that sep by (simp add: separate_def)
  qed
  moreover have "view k ?st = Inr q" by (simp add: view_def deref_def)
  moreover have "view j ?st = view j st" if j: "j \<in> K" "j \<noteq> k" for j
  proof -
    obtain th' where th': "s_heap st j = Some th'" using sep j(1) by (auto simp: separate_def)
    then have "th_group th' \<noteq> th_group th" using grp [OF j] by simp
    then show ?thesis using th' j(2) by (simp add: view_def deref_def)
  qed
  moreover have "same_tables st ?st" "running ?st = running st" by (simp_all add: same_tables_def running_def)
  ultimately show ?thesis by blast
qed

text \<open>A branch in the kernel leaves all processes as they are.\<close>

lemma quiet_step:
  assumes sep: "separate K st" and sp: "\<not> (target < 0xc0000000 \<and> ret < 0xc0000000)"
  shows "\<exists>st'. current_event (branch_traced target ret) st = Inr st' \<and> separate K st' \<and> same_tables st st' \<and> running st' = running st \<and>
    (\<forall>j \<in> K. view j st' = view j st)"
proof (cases "tracing_process st")
  case None
  then show ?thesis using sep by (simp add: current_event_def same_tables_def)
next
  case (Some k)
  then have kK: "k \<in> K" using sep by (simp add: separate_def)
  then obtain th where th: "s_heap st k = Some th" "user_type (th_proc th)" using sep by (auto simp: separate_def)
  obtain p where p: "view k st = Inr p" using th(1) by (simp add: view_def deref_def)
  have "user_type p" using th(2) view_type [OF th(1) p] by (simp add: user_type_def has_type_def)
  note b = branch_kernel_space [OF this sp]
  obtain st' where st': "current_event (branch_traced target ret) st = Inr st'" "separate K st'" "same_tables st st'" "running st' = running st"
      "view k st' = Inr p" "\<forall>j \<in> K. j \<noteq> k \<longrightarrow> view j st' = view j st"
    using current_step [where f = "branch_traced target ret", OF sep Some p b refl] by blast
  then show ?thesis using p by metis
qed

text \<open>A switch: the traced process is the one that the table has for the next process, or none.\<close>

lemma cs_step:
  assumes sep: "separate K st" and f: "proc_find (next_pid g) (s_hash st) = Inr x" "\<forall>y. x = Some y \<longrightarrow> proc_ref y \<in> K" and e: "kind (s_kernel st) e = Switch (next_pid g)"
  shows "\<exists>st'. cs_event g st = Inr st' \<and> separate K st' \<and> same_tables st st' \<and> running st' = follow (s_kernel st) (s_hash st) e (running st) \<and>
    (\<forall>j. view j st' = view j st)"
proof -
  let ?p = "next_pid g" and ?b = "pid_base st 0 0"
  let ?s = "st\<lparr>now_pid := ?p\<rparr>"
  define s1 where "s1 = (if ?p = 0 \<and> ?b = -1 then (set_base 0 0 1 ?s)\<lparr>pid_name_base := (pid_name_base st)(0 := ''sched'')\<rparr> else ?s)"
  let ?st = "if ?p = 0 \<and> ?b = 1 then ?s else s1\<lparr>tracing_process := map_option proc_ref x\<rparr>"
  have s1: "s_hash s1 = s_hash st" "s_kernel s1 = s_kernel st" "s_heap s1 = s_heap st" "s_out s1 = s_out st" "s_tracing s1 = s_tracing st"
    "now_pid s1 = ?p" "pid_base s1 0 0 = (if ?p = 0 \<and> ?b = -1 then 1 else ?b)"
    by (simp_all add: s1_def set_base_def)
  have "cs_event g st = Inr ?st"
    using f(1) s1(1,6) by (auto simp: cs_event_def next_pid_def [symmetric] SET_event_cs_def set_name_def set_base_def s1_def)
  moreover have "separate K ?st" using sep f(2) s1 by (auto simp: separate_def)
  moreover have "same_tables st ?st" using s1 by (simp add: same_tables_def)
  moreover have "owner (s_hash st) ?p = map_option proc_ref x" using f(1) by (simp add: owner_def split: option.splits)
  then have "running ?st = follow (s_kernel st) (s_hash st) e (running st)" using s1(7) e by (simp add: running_def follow_def)
  moreover have "\<forall>j. view j ?st = view j st" using s1 by (simp add: view_def)
  ultimately show ?thesis by blast
qed

text \<open>The part of a branch that comes before the trace: a kernel event or none.\<close>

definition kernel_part :: "world \<Rightarrow> guest \<Rightarrow> u32 \<Rightarrow> u32 \<Rightarrow> setsys \<Rightarrow> setsys res" where
  "kernel_part w g target ret st = (if ret \<ge> 0xc0000000 then
       bind_res (ker_find target (s_kernel st)) (\<lambda>r. case r of None \<Rightarrow> Inr st | Some kf \<Rightarrow> kernel_event w g ret kf st) else Inr st)"

lemma branch_parts: "SET_event_branch w g target ret st = bind_res (kernel_part w g target ret st) (current_event (branch_traced target ret))"
  by (simp add: SET_event_branch_def kernel_part_def)

lemma kernel_part_step:
  assumes sep: "separate K st" and ok: "step_ok K (s_kernel st) (s_hash st) (g, target, ret, m)"
  shows "\<exists>st'. kernel_part w g target ret st = Inr st' \<and> separate K st' \<and> same_tables st st' \<and>
    running st' = follow (s_kernel st) (s_hash st) (g, target, ret, m) (running st) \<and> (\<forall>j. view j st' = view j st)"
proof (cases "ret \<ge> 0xc0000000")
  case False
  then show ?thesis using sep by (simp add: kernel_part_def same_tables_def follow_def split: prod.splits)
next
  case True
  then obtain r where r: "ker_find target (s_kernel st) = Inr r" using ok by (auto split: sum.splits)
  show ?thesis
  proof (cases r)
    case None
    then show ?thesis using r sep True by (simp add: kernel_part_def same_tables_def follow_def split: prod.splits)
  next
    case (Some kf)
    show ?thesis
    proof (cases "k_event kf = CS")
      case cs: True
      obtain x where x: "proc_find (next_pid g) (s_hash st) = Inr x" "\<forall>y. x = Some y \<longrightarrow> proc_ref y \<in> K"
        using ok True r Some cs by (auto split: sum.splits option.splits)
      then show ?thesis using cs_step [OF sep x, of "(g, target, ret, m)"] True r Some cs by (simp add: kernel_part_def kernel_event_def)
    next
      case False
      have ir: "k_event kf \<noteq> EXIT \<and> in_range ret kf = Inr False" using ok True r Some False by (cases "k_event kf") auto
      have "kernel_event w g ret kf st = Inr st" using False ir by (cases "k_event kf") (simp_all add: kernel_event_def)
      then show ?thesis using r Some False sep True by (simp add: kernel_part_def same_tables_def follow_def split: prod.splits)
    qed
  qed
qed

text \<open>
  One branch: the running process takes it as a branch of its own, if it is one of user code, and no other process changes.
\<close>

lemma sys_step_one:
  assumes sep: "separate K st" and ok: "step_ok K (s_kernel st) (s_hash st) e"
    and p: "\<forall>k \<in> K. view k st = Inr (p k) \<and> (\<exists>q. run_user (own_branches (s_kernel st) (s_hash st) k (running st) [e]) (p k) = Inr q)"
  shows "\<exists>st'. sys_step w e st = Inr st' \<and> separate K st' \<and> same_tables st st' \<and> running st' = follow (s_kernel st) (s_hash st) e (running st) \<and>
    (\<forall>k \<in> K. view k st' = run_user (own_branches (s_kernel st) (s_hash st) k (running st) [e]) (p k))"
proof -
  obtain g target ret m where e: "e = (g, target, ret, m)" by (cases e)
  let ?s = "set_sys_pmu m st"
  have s: "separate K ?s" "same_tables st ?s" "running ?s = running st" using sep by (simp_all add: separate_def same_tables_def running_def)
  obtain s1 where s1: "kernel_part w g target ret ?s = Inr s1" "separate K s1" "same_tables ?s s1" "running s1 = follow (s_kernel st) (s_hash st) e (running st)"
      "\<forall>j. view j s1 = view j st"
    using kernel_part_step [OF s(1), of g target ret m w] ok s(3) by (auto simp: e)
  show ?thesis
  proof (cases "kind (s_kernel st) e = User \<and> snd (running st) \<noteq> None")
    case False
    have "\<exists>s2. current_event (branch_traced target ret) s1 = Inr s2 \<and> separate K s2 \<and> same_tables s1 s2 \<and> running s2 = running s1 \<and>
      (\<forall>j \<in> K. view j s2 = view j s1)"
    proof (cases "kind (s_kernel st) e = User")
      case True
      then have "tracing_process s1 = None" using False s1(4) by (cases "running st") (simp add: follow_def running_def)
      then show ?thesis using s1(2) by (simp add: current_event_def same_tables_def)
    next
      case False
      have "kind (s_kernel st) e = User" if "target < 0xc0000000" "\<not> ret \<ge> 0xc0000000" using that by (simp add: e)
      then have "\<not> (target < 0xc0000000 \<and> ret < 0xc0000000)" using False by (auto simp: not_le)
      then show ?thesis using quiet_step [OF s1(2)] by blast
    qed
    moreover have "own_branches (s_kernel st) (s_hash st) k (running st) [e] = []" for k using False by auto
    ultimately show ?thesis using s1 p by (auto simp: e branch_parts same_tables_def run_user_def)
  next
    case True
    then obtain c where c: "kind (s_kernel st) e = User" "tracing_process st = Some c" by (auto simp: running_def)
    have sp: "target < 0xc0000000" "ret < 0xc0000000" using c(1) by (auto simp: e split: if_splits sum.splits option.splits)
    then have "\<not> ret \<ge> 0xc0000000" by simp
    then have s1e: "s1 = ?s" using s1(1) by (simp add: kernel_part_def)
    then have cK: "c \<in> K" "view c s1 = Inr (p c)" using c(2) sep p by (auto simp: separate_def)
    have "own_branches (s_kernel st) (s_hash st) c (running st) [e] = [(target, ret, m)]" using c by (simp add: e running_def)
    then obtain q m' where q: "SET_event_branch_user target ret (p c) m = Inr (q, m')" using p cK(1) by (fastforce simp: run_user_def)
    obtain th where th: "s_heap st c = Some th" "user_type (th_proc th)" using sep cK(1) by (auto simp: separate_def)
    have vc: "view c st = Inr (p c)" using p cK(1) by simp
    have "user_type (p c)" using th(2) view_type [OF th(1) vc] by (simp add: user_type_def has_type_def)
    then have "branch_traced target ret (p c) (sys_pmu s1) = Inr (q, m')" using q sp branch_user_space by (simp add: s1e)
    then obtain s2 where s2: "current_event (branch_traced target ret) s1 = Inr s2" "separate K s2" "same_tables s1 s2" "running s2 = running s1"
        "view c s2 = Inr q" "\<forall>j \<in> K. j \<noteq> c \<longrightarrow> view j s2 = view j s1"
      using current_step [OF s1(2) _ cK(2), of "branch_traced target ret"] event_user_type [OF q] c(2) s1e by (metis set_sys_pmu_simps(5))
    have "view k s2 = run_user (own_branches (s_kernel st) (s_hash st) k (running st) [e]) (p k)" if "k \<in> K" for k
      using that s2(5,6) s1(5) p q c by (cases "k = c") (auto simp: running_def run_user_def e)
    then show ?thesis using s1(1,3,4) s2 by (auto simp: e branch_parts same_tables_def)
  qed
qed

lemma own_branches_Cons:
  "own_branches kt h k r (e # es) = own_branches kt h k r [e] @ own_branches kt h k (follow kt h e r) es"
  by simp

lemma run_user_append: "run_user (as @ bs) p = bind_res (run_user as p) (run_user bs)"
  by (simp add: run_user_def fold_res_append)

lemma interleaved_run:
  assumes "separate K st" and "\<forall>e \<in> set es. step_ok K (s_kernel st) (s_hash st) e"
    and "\<forall>k \<in> K. view k st = Inr (p k) \<and> run_user (own_branches (s_kernel st) (s_hash st) k (running st) es) (p k) = Inr (q k)"
  shows "\<exists>st'. fold_res (sys_step w) es st = Inr st' \<and> running st' = fold (follow (s_kernel st) (s_hash st)) es (running st) \<and>
    (\<forall>k \<in> K. view k st' = Inr (q k))"
  using assms
proof (induction es arbitrary: st p)
  case Nil
  then show ?case by (simp add: run_user_def)
next
  case (Cons e es)
  let ?kt = "s_kernel st" and ?h = "s_hash st"
  let ?own = "\<lambda>k. own_branches ?kt ?h k (running st) [e]"
  have r: "\<forall>k \<in> K. \<exists>p1. run_user (?own k) (p k) = Inr p1 \<and> run_user (own_branches ?kt ?h k (follow ?kt ?h e (running st)) es) p1 = Inr (q k)"
    using Cons.prems(3) unfolding own_branches_Cons [of _ _ _ _ e es] run_user_append bind_res_Inr by blast
  then obtain p1 where p1: "\<forall>k \<in> K. run_user (?own k) (p k) = Inr (p1 k) \<and> run_user (own_branches ?kt ?h k (follow ?kt ?h e (running st)) es) (p1 k) = Inr (q k)"
    by metis
  obtain st1 where 1: "sys_step w e st = Inr st1" "separate K st1" "same_tables st st1" "running st1 = follow ?kt ?h e (running st)"
      "\<forall>k \<in> K. view k st1 = run_user (?own k) (p k)"
    using sys_step_one [OF Cons.prems(1), of e p w] Cons.prems(2,3) p1 by (metis list.set_intros(1))
  have t: "s_kernel st1 = ?kt" "s_hash st1 = ?h" using 1(3) by (simp_all add: same_tables_def)
  have "\<exists>st'. fold_res (sys_step w) es st1 = Inr st' \<and> running st' = fold (follow ?kt ?h) es (running st1) \<and> (\<forall>k \<in> K. view k st' = Inr (q k))"
    using Cons.IH [OF 1(2), of p1] Cons.prems(2) p1 1(4,5) by (simp add: t)
  then show ?case using 1(1,4) by simp
qed

text \<open>
  Property C38. The traces of processes do not mix: every branch goes through the handler of branches. In any interleaving of
  context switches, branches of user code and branches in the kernel that start, end or change no process, the tracer follows the
  switches, but stays with the process that ran before when process 0 is switched to again, and every traced process ends
  exactly as if its own branches, those of user code made while it was the followed one, had been traced alone; its output is among what it ends with. The
  processes are traced in user space only and share no output.
\<close>

theorem interleaved_traces_separate:
  assumes "separate K st" and "\<forall>e \<in> set es. step_ok K (s_kernel st) (s_hash st) e"
    and "\<forall>k \<in> K. view k st = Inr (p k) \<and> run_user (own_branches (s_kernel st) (s_hash st) k (running st) es) (p k) = Inr (q k)"
  shows "\<exists>st'. fold_res (sys_step w) es st = Inr st' \<and> running st' = fold (follow (s_kernel st) (s_hash st)) es (running st) \<and>
    (\<forall>k \<in> K. view k st' = Inr (q k))"
  using interleaved_run [OF assms] .

text \<open>
  The first switch to process 0 is followed and names the process; from then on a switch to process 0 leaves the process that
  ran before as the traced one, and what follows is recorded for it.
\<close>

lemma switch_to_idle:
  assumes "next_pid g = 0" and "pid_base st 0 0 = -1" and "proc_find 0 (s_hash st) = Inr x"
  shows "\<exists>st'. cs_event g st = Inr st' \<and> tracing_process st' = map_option proc_ref x \<and> pid_name_base st' 0 = ''sched'' \<and>
    cs_event g (st'\<lparr>tracing_process := Some k, now_pid := i\<rparr>) = Inr (st'\<lparr>tracing_process := Some k, now_pid := 0\<rparr>)"
  using assms by (simp add: cs_event_def next_pid_def set_name_def set_base_def SET_event_cs_def)

text \<open>An example: two processes of the same program, with the numbers 5 and 7.\<close>

definition proc_of :: "int \<Rightarrow> SETProcess" where
  "proc_of i = proc_ex\<lparr>p_pid := i\<rparr>"

definition world_ex :: world where
  "world_ex = \<lparr>w_host = host_ex, w_fopen = \<lambda>_. True, w_efd = \<lambda>_. Some elf_ex, w_config = \<lambda>_. None, w_comma = CHR '',''\<rparr>"

definition guest_ex :: "u32 \<Rightarrow> guest" where
  "guest_ex i = \<lparr>regs = \<lambda>_. 0, word_at = \<lambda>_. i, string_at = \<lambda>_. []\<rparr>"

definition range_ex :: FuncRange where "range_ex = \<lparr>fr_start = 0, fr_end = 0\<rparr>"

definition sys_ex :: setsys where
  "sys_ex = \<lparr>is_start = True, s_heap = [0 \<mapsto> \<lparr>th_proc = proc_of 5, th_group = 0\<rparr>, 1 \<mapsto> \<lparr>th_proc = proc_of 7, th_group = 1\<rparr>], s_next = 2,
     s_out = (\<lambda>_. p_output proc_ex), s_closed = (\<lambda>_. None), s_tracing = (\<lambda>_. 1), s_procs = \<lparr>procs_of = [0, 1], p_idx = int\<rparr>,
     s_hash = \<lparr>procHashTable = [5 \<mapsto> \<lparr>pid = 5, proc_ref = 0\<rparr>, 7 \<mapsto> \<lparr>pid = 7, proc_ref = 1\<rparr>], hash_pos = [0 \<mapsto> 5, 1 \<mapsto> 7]\<rparr>,
     tracing_process = None, now_pid = 0, current_name = [], reg_type = 0, pid_base = (\<lambda>_ j. if j = 0 then -1 else 0), pid_name_base = (\<lambda>_. []), kthread_name = [],
     trace_kernel = False, s_kernel = \<lparr>kerFuncTable = (\<lambda>_. \<lparr>k_addr = 0, k_event = EXECVE, retFunc = None\<rparr>)(58 := \<lparr>k_addr = 0xc0001000, k_event = CS, retFunc = None\<rparr>), k_execve = range_ex,
       k_mmap = range_ex, k_fork = range_ex, k_kthread = range_ex\<rparr>, s_tracer = tracer_ex\<rparr>"

definition switch_ex :: "u32 \<Rightarrow> sys_branch" where
  "switch_ex i = (guest_ex i, 0xc0001000, 0xc0002000, pmu_on)"

definition user_ex :: "u32 \<Rightarrow> u32 \<Rightarrow> sys_branch" where
  "user_ex target ret = (guest_ex 0, target, ret, pmu_on)"

definition steps_ex :: "sys_branch list" where
  "steps_ex = [switch_ex 5, user_ex 0x8000 0x7000, user_ex 0xc0003000 0x8004, switch_ex 7, user_ex 0x8010 0x7004, switch_ex 0, user_ex 0x8000 0x7008,
     switch_ex 5, switch_ex 0, user_ex 0x8010 0x8008]"

lemma find_ex: "proc_find 5 (s_hash sys_ex) = Inr (Some \<lparr>pid = 5, proc_ref = 0\<rparr>)" "proc_find 7 (s_hash sys_ex) = Inr (Some \<lparr>pid = 7, proc_ref = 1\<rparr>)"
  "proc_find 0 (s_hash sys_ex) = Inr None" "ker_find 0xc0001000 (s_kernel sys_ex) = Inr (Some \<lparr>k_addr = 0xc0001000, k_event = CS, retFunc = None\<rparr>)"
  by (simp_all add: sys_ex_def proc_find_def proc_slot_def pid_hash_def PROC_HASH_TABLE_SIZE_def probe.simps stop_at_def returned_def
      ker_find_def ker_slot_def HASH_def KER_TABLE_SIZE_def)

lemma kind_ex:
  "kind (s_kernel sys_ex) (switch_ex 5) = Switch 5" "kind (s_kernel sys_ex) (switch_ex 7) = Switch 7" "kind (s_kernel sys_ex) (switch_ex 0) = Switch 0"
  "kind kt (user_ex target ret) = (if ret \<ge> 0xc0000000 then kind kt (user_ex target ret) else if target < 0xc0000000 then User else Kernel)"
  by (simp_all add: switch_ex_def user_ex_def find_ex next_pid_def guest_ex_def)

lemma proc_runs:
  assumes "\<forall>b \<in> set bs. snd (snd b) = pmu_on" and "length bs \<le> 1024"
  shows "\<exists>q. run_user bs (proc_of i) = Inr q"
proof -
  have r: "readable pmu_on" by (simp add: readable_def times_known_def pmu_on_def event_examples)
  have o: "out_ok (open_all (\<lambda>_. True) 2 (SET_output_create ''a.set''))" "stream_log (func (open_all (\<lambda>_. True) 2 (SET_output_create ''a.set''))) = []"
    using open_all_ok [of 2 "''a.set''"] by (simp_all add: Let_def)
  have p: "objTable (proc_of i) = [obj_ex]" "p_user (proc_of i) = Some \<lparr>stk = \<lambda>_. 0, stk_size = 0\<rparr>" "return_addr (proc_of i) = 0"
    "p_output (proc_of i) = Some (open_all (\<lambda>_. True) 2 (SET_output_create ''a.set''))" by (simp_all add: proc_of_def proc_ex_def)
  have "nests [obj_ex] bs ([], 0)" using assms(2) by (intro nests_short) (simp add: MAX_STACK_SIZE_def)
  then show ?thesis
    using user_run_closed [of "proc_of i" "\<lparr>stk = \<lambda>_. 0, stk_size = 0\<rparr>"] o p r assms(1) obj_ex_searchable by force
qed

theorem interleaved_traces_separate_witness:
  "\<exists>q0 q1 st'. fold_res (sys_step world_ex) steps_ex sys_ex = Inr st' \<and> tracing_process st' = Some 0 \<and> view 0 st' = Inr q0 \<and> view 1 st' = Inr q1 \<and>
    run_user [(0x8000, 0x7000, pmu_on), (0x8010, 0x8008, pmu_on)] (proc_of 5) = Inr q0 \<and> run_user [(0x8010, 0x7004, pmu_on)] (proc_of 7) = Inr q1"
proof -
  have "\<exists>q. run_user [(0x8000, 0x7000, pmu_on), (0x8010, 0x8008, pmu_on)] (proc_of 5) = Inr q" "\<exists>q. run_user [(0x8010, 0x7004, pmu_on)] (proc_of 7) = Inr q"
    by (rule proc_runs; simp)+
  then obtain q0 q1 where q: "run_user [(0x8000, 0x7000, pmu_on), (0x8010, 0x8008, pmu_on)] (proc_of 5) = Inr q0" "run_user [(0x8010, 0x7004, pmu_on)] (proc_of 7) = Inr q1"
    by blast
  have ty: "user_type (proc_of i)" for i
    by (simp add: user_type_def has_type_def proc_of_def proc_ex_def SET_PROCESS_LIBRARY_def SET_PROCESS_USER_C_def SET_PROCESS_KERNEL_def SET_PROCESS_IRQ_def)
  have sep: "separate {0, 1} sys_ex" using ty by (simp add: separate_def) (simp add: sys_ex_def)
  have v: "view 0 sys_ex = Inr (proc_of 5)" "view 1 sys_ex = Inr (proc_of 7)"
    by (simp_all add: view_def deref_def sys_ex_def proc_of_def) (simp_all add: proc_ex_def)
  have k: "kind (s_kernel sys_ex) (user_ex 0x8000 0x7000) = User" "kind (s_kernel sys_ex) (user_ex 0xc0003000 0x8004) = Kernel"
    "kind (s_kernel sys_ex) (user_ex 0x8010 0x7004) = User" "kind (s_kernel sys_ex) (user_ex 0x8000 0x7008) = User"
    "kind (s_kernel sys_ex) (user_ex 0x8010 0x8008) = User" "running sys_ex = (-1, None)"
    by (simp_all add: user_ex_def running_def) (simp_all add: sys_ex_def)
  have u: "snd (user_ex target ret) = (target, ret, pmu_on)" for target ret by (simp add: user_ex_def)
  have own: "own_branches (s_kernel sys_ex) (s_hash sys_ex) 0 (running sys_ex) steps_ex = [(0x8000, 0x7000, pmu_on), (0x8010, 0x8008, pmu_on)]"
    "own_branches (s_kernel sys_ex) (s_hash sys_ex) 1 (running sys_ex) steps_ex = [(0x8010, 0x7004, pmu_on)]"
    "fold (follow (s_kernel sys_ex) (s_hash sys_ex)) steps_ex (running sys_ex) = (1, Some 0)"
    by (simp_all add: steps_ex_def owner_def find_ex follow_def k u kind_ex(1-3))
  have "\<forall>e \<in> set steps_ex. step_ok {0, 1} (s_kernel sys_ex) (s_hash sys_ex) e"
    by (simp add: steps_ex_def user_ex_def switch_ex_def find_ex next_pid_def guest_ex_def)
  then show ?thesis
    using interleaved_traces_separate [of "{0, 1}" sys_ex steps_ex "\<lambda>k. if k = 0 then proc_of 5 else proc_of 7" "\<lambda>k. if k = 0 then q0 else q1" world_ex]
      sep v own q by (auto simp: running_def)
qed

end
