(* ===== verification/VPMU_Sampling.thy ===== *)
theory VPMU_Sampling
  imports SET_Process
begin

unbundle bit_operations_syntax

text \<open>
  The sampling thread (\<^verbatim>\<open>vpmu_sampling.c\<close>): while sampling is on, it reads the performance counters again and again; each time the
  selected event has advanced by more than the interval it writes a line with all monitored events, and each
  time the estimated execution time has advanced by more than a microsecond a line about the running thread. Both texts
  go through buffers of 52224 characters that are written out when less than 1024 are left.

  \<^item> A pass of the loop sees one state of the unit, the running process and the table of process names. The
    pieces of a line are put into the buffer at once, and numbers of 64 bits are printed as their low halves.
  \<^item> The variant that uses the buffers of the operating system is not compiled. The dump of the power of the
    peripherals, which runs when the unit is off, is not modelled.
\<close>

section \<open>Events\<close>

definition vpmu_event_id_table :: "u32 list" where
  "vpmu_event_id_table = [0, 1, 2, 3, 4, 5, 6, 7, 8, 9, 10, 11, 12, 13, 14, 15, 16, 17, 18, 19, 20, 32, 33, 34, 48, 49, 50, 51, 52, 53,
     64, 65, 80, 81, 82, 83, 84, 85, 86, 87, 240, 243, 244, 245, 246, 255]"

definition VPMU_EVENT_DESP :: "string list" where
  "VPMU_EVENT_DESP = [''TOT_INST'', ''USR_INST'', ''SVC_INST'', ''IRQ_INST'', ''REST_INST'', ''TOT_LD_ST_INST'', ''TOT_USR_LD_ST_INST'',
     ''TOT_SVC_LD_ST_INST'', ''TOT_IRQ_LD_ST_INST'', ''TOT_REST_LD_ST_INST'', ''TOT_LD_INST'', ''TOT_USR_LD_INST'', ''TOT_SVC_LD_INST'',
     ''TOT_IRQ_LD_INST'', ''TOT_REST_LD_INST'', ''TOT_ST_INST'', ''TOT_USR_ST_INST'', ''TOT_SVC_ST_INST'', ''TOT_IRQ_ST_INST'',
     ''TOT_REST_ST_INST'', ''PC_CHANGE'', ''BRANCH_INST'', ''BRANCH_PREDICT_CORRECT'', ''BRANCH_PREDICT_WRONG'', ''DCACHE_ACCESSES_CNT'',
     ''DCACHE_WRITE_MISS'', ''DCACHE_READ_MISS'', ''DCACHE_MISS'', ''ICACHE_ACCESSES_CNT'', ''ICACHE_MISS'', ''SYSTEM_MEM_ACCESS'',
     ''IO_MEM_ACCESS'', ''ELAPSED_CPU_CYC'', ''ELAPSED_EXE_TIME'', ''ELAPSED_PIPELINE_CYC'', ''ELAPSED_PIPELINE_EXE_TIME'',
     ''ELAPSED_SYSTEM_MEM_CYC'', ''ELAPSED_SYSTEM_MEM_ACC_TIME'', ''ELAPSED_IO_MEM_CYC'', ''ELAPSED_IO_MEM_ACC_TIME'', ''MPU_ENERGY'',
     ''LCD_ENERGY'', ''AUDIO_ENERGY'', ''NET_ENERGY'', ''GPS_ENERGY'', ''TOTAL_ENERGY'']"

definition EVENT_ON :: int where "EVENT_ON = 1"

section \<open>The loop\<close>

definition BUFFER_SIZE :: nat where "BUFFER_SIZE = 50 * 1024 + 1024"

definition print_u :: "u32 \<Rightarrow> string" where
  "print_u x = rev (map dec_digit (digits_of (unat x)))"

definition print_d :: "int \<Rightarrow> string" where
  "print_d x = (if x < 0 then ''-'' else []) @ rev (map dec_digit (digits_of (nat \<bar>x\<bar>)))"

definition tab_char :: string where "tab_char = [CHR 0x09]"
definition nl_char :: string where "nl_char = [CHR 0x0A]"

text \<open>Text into a buffer behind what it holds, with the final zero of \<open>sprintf\<close>.\<close>

definition put_text :: "string \<Rightarrow> string \<Rightarrow> string res" where
  "put_text s buf = (if length buf + length s < BUFFER_SIZE then Inr (buf @ s) else Inl Out_of_bounds)"

record tick =
  tk_pmu :: pmu
  tk_pid :: int
  tk_name :: "nat \<Rightarrow> string"

record smp_vars =
  previous_value :: u32
  last_EET_ns :: u32
  seq_id :: u32

record smp_bufs =
  samples_buf :: string
  samples_file :: string
  profile_buf :: string
  profile_file :: string

text \<open>The table of names has 512 entries and is indexed with the number of the process.\<close>

definition pid_name :: "tick \<Rightarrow> string res" where
  "pid_name t = (if 0 \<le> tk_pid t \<and> tk_pid t < 512 then Inr (tk_name t (nat (tk_pid t))) else Inl Out_of_bounds)"

definition eet_of :: "pmu \<Rightarrow> u32 res" where
  "eet_of p = low32_res (vpmu_estimated_execution_time_ns (pm_vp p) (pm_caches p) (pm_dev p))"

definition monitored :: "int list \<Rightarrow> nat list" where
  "monitored cfg = filter (\<lambda>i. isEventMonitored cfg (int i) = EVENT_ON) [0..<CUR_VPMU_SUPPORT_EVENT]"

definition read_column :: "nat \<Rightarrow> string \<times> pmu \<Rightarrow> (string \<times> pmu) res" where
  "read_column i sp = bind_res (vpmu_hardware_event_select (vpmu_event_id_table ! i) (snd sp)) (\<lambda>(x, p). Inr (fst sp @ tab_char @ print_u x, p))"

definition sample_line :: "int list \<Rightarrow> u32 \<Rightarrow> tick \<Rightarrow> pmu \<Rightarrow> (string \<times> pmu) res" where
  "sample_line cfg j t p = bind_res (pid_name t) (\<lambda>name. bind_res (eet_of p) (\<lambda>e.
     bind_res (fold_res read_column (monitored cfg)
       (print_u j @ tab_char @ print_d (tk_pid t) @ tab_char @ name @ tab_char @ print_u e, p)) (\<lambda>(s, p). Inr (s @ nl_char, p))))"

definition first_texts :: "int list \<Rightarrow> u32 \<Rightarrow> u32 \<Rightarrow> tick \<Rightarrow> (string \<times> string \<times> smp_vars) res" where
  "first_texts cfg intvl eid t = bind_res (vpmu_hardware_event_select eid (tk_pmu t)) (\<lambda>(x, p). bind_res (eet_of p) (\<lambda>e.
     Inr (''Sample id ('' @ print_d (sint eid) @ ''), interval ('' @ print_u intvl @ ''), starting value ('' @ print_u x @ '').'' @ nl_char @
         ''Seq_id'' @ tab_char @ ''PID'' @ tab_char @ ''Process_name'' @ tab_char @ ''EET(ns)'' @
         concat (map (\<lambda>i. tab_char @ VPMU_EVENT_DESP ! i) (monitored cfg)) @ nl_char,
       ''PID'' @ tab_char @ ''EET'' @ nl_char, \<lparr>previous_value = x, last_EET_ns = e, seq_id = 1\<rparr>)))"

definition next_texts :: "int list \<Rightarrow> u32 \<Rightarrow> u32 \<Rightarrow> tick \<Rightarrow> smp_vars \<Rightarrow> (string \<times> string \<times> smp_vars) res" where
  "next_texts cfg intvl eid t v = bind_res (vpmu_hardware_event_select eid (tk_pmu t)) (\<lambda>(cur, p).
     bind_res (if cur - previous_value v > intvl
       then bind_res (sample_line cfg (seq_id v) t p) (\<lambda>(s, p). Inr (s, p, v\<lparr>previous_value := cur, seq_id := seq_id v + 1\<rparr>))
       else Inr ([], p, v)) (\<lambda>(s, p, v).
     bind_res (eet_of p) (\<lambda>e.
     if e - last_EET_ns v > 1000
     then bind_res (pid_name t) (\<lambda>name. Inr (s, print_u (word_of_int (tk_pid t)) @ tab_char @ name @ tab_char @ print_u (e - last_EET_ns v) @ nl_char,
       v\<lparr>last_EET_ns := e\<rparr>))
     else Inr (s, [], v))))"

text \<open>The buffers: a pass adds its texts, and a buffer that has less than 1024 characters left is written out.\<close>

definition flush_full :: "string \<times> string \<Rightarrow> string \<times> string" where
  "flush_full bf = (if length (fst bf) > BUFFER_SIZE - 1024 then ([], snd bf @ fst bf) else bf)"

definition pass_buffers :: "string \<times> string \<Rightarrow> smp_bufs \<Rightarrow> smp_bufs res" where
  "pass_buffers sp b = bind_res (put_text (fst sp) (samples_buf b)) (\<lambda>sb. bind_res (put_text (snd sp) (profile_buf b)) (\<lambda>pb.
     let (sb, sf) = flush_full (sb, samples_file b); (pb, pf) = flush_full (pb, profile_file b) in
     Inr \<lparr>samples_buf = sb, samples_file = sf, profile_buf = pb, profile_file = pf\<rparr>))"

definition sampling_pass :: "int list \<Rightarrow> u32 \<Rightarrow> u32 \<Rightarrow> tick \<Rightarrow> smp_vars option \<times> smp_bufs \<Rightarrow> (smp_vars option \<times> smp_bufs) res" where
  "sampling_pass cfg intvl eid t vb =
     bind_res (case fst vb of None \<Rightarrow> first_texts cfg intvl eid t | Some v \<Rightarrow> next_texts cfg intvl eid t v) (\<lambda>(s, q, v).
     bind_res (pass_buffers (s, q) (snd vb)) (\<lambda>b. Inr (Some v, b)))"

definition samplingProcessorEvents :: "int list \<Rightarrow> u32 \<Rightarrow> u32 \<Rightarrow> tick list \<Rightarrow> (string \<times> string) res" where
  "samplingProcessorEvents cfg intvl eid ts = bind_res (fold_res (sampling_pass cfg intvl eid) ts
     (None, \<lparr>samples_buf = [], samples_file = [], profile_buf = [], profile_file = []\<rparr>)) (\<lambda>(_, b).
     Inr (samples_file b @ samples_buf b, profile_file b @ profile_buf b))"

section \<open>Nothing is lost, and no buffer overflows\<close>

text \<open>The texts of the passes, without the buffers.\<close>

fun texts_of :: "int list \<Rightarrow> u32 \<Rightarrow> u32 \<Rightarrow> tick list \<Rightarrow> smp_vars option \<Rightarrow> (string \<times> string) list res" where
  "texts_of cfg intvl eid [] vo = Inr []"
| "texts_of cfg intvl eid (t # ts) vo =
     bind_res (case vo of None \<Rightarrow> first_texts cfg intvl eid t | Some v \<Rightarrow> next_texts cfg intvl eid t v) (\<lambda>(s, q, v).
     bind_res (texts_of cfg intvl eid ts (Some v)) (\<lambda>xs. Inr ((s, q) # xs)))"

lemma print_u_length: "length (print_u x) \<le> 10"
proof -
  have "unat x < 2 ^ 32" by (rule less_le_trans [OF unsigned_less]) simp
  then have "unat x < 10 ^ 10" by simp
  then show ?thesis using digits_of_length [of "unat x" 10] by (simp add: print_u_def)
qed

lemma print_d_length: "\<bar>x\<bar> < 10 ^ 10 \<Longrightarrow> length (print_d x) \<le> 11"
  using digits_of_length [of "nat \<bar>x\<bar>" 10] by (simp add: print_d_def nat_less_iff del: nat_abs_int_diff split: if_splits) (cases "x < 0"; simp)

lemma read_column_adds: "read_column i (s, p) = Inr (s1, p1) \<Longrightarrow> length s1 \<le> length s + 11"
  using print_u_length by (auto simp: read_column_def tab_char_def)

lemma read_column_length:
  assumes "fold_res read_column is (s, p) = Inr (s', p')"
  shows "length s' \<le> length s + 11 * length is"
  using assms
proof (induction "is" arbitrary: s p)
  case (Cons i "is")
  obtain s1 p1 where 1: "read_column i (s, p) = Inr (s1, p1)" "fold_res read_column is (s1, p1) = Inr (s', p')" using Cons.prems by auto
  then show ?case using read_column_adds [OF 1(1)] Cons.IH [OF 1(2)] by simp
qed simp

lemma monitored_length: "length (monitored cfg) \<le> 46"
  using length_filter_le [of "\<lambda>i. isEventMonitored cfg (int i) = EVENT_ON" "[0..<46]"] by (simp add: monitored_def CUR_VPMU_SUPPORT_EVENT_def)

lemma sample_line_length:
  assumes "sample_line cfg j t p = Inr (s, p')" and "\<And>i. length (tk_name t i) < 32"
  shows "length s < 1024"
proof -
  obtain name e s' where s: "pid_name t = Inr name" "fold_res read_column (monitored cfg)
      (print_u j @ tab_char @ print_d (tk_pid t) @ tab_char @ name @ tab_char @ print_u e, p) = Inr (s', p')" "s = s' @ nl_char"
    using assms(1) by (auto simp: sample_line_def)
  have n: "length name < 32" "\<bar>tk_pid t\<bar> < 10 ^ 10" using s(1) assms(2) by (auto simp: pid_name_def split: if_splits)
  show ?thesis
    using read_column_length [OF s(2)] monitored_length [of cfg] print_u_length [of j] print_u_length [of e] print_d_length [OF n(2)] n(1)
    by (simp add: s(3) nl_char_def tab_char_def)
qed

lemma next_texts_length:
  assumes "next_texts cfg intvl eid t v = Inr (s, q, v')" and "\<And>i. length (tk_name t i) < 32"
  shows "length s < 1024 \<and> length q < 1024"
proof -
  obtain cur p where 1: "vpmu_hardware_event_select eid (tk_pmu t) = Inr (cur, p)" using assms(1) by (auto simp: next_texts_def)
  define b where "b = (if cur - previous_value v > intvl
    then bind_res (sample_line cfg (seq_id v) t p) (\<lambda>(s, p). Inr (s, p, v\<lparr>previous_value := cur, seq_id := seq_id v + 1\<rparr>)) else Inr ([], p, v))"
  obtain s1 p1 v1 e where b: "b = Inr (s1, p1, v1)" "eet_of p1 = Inr e" using assms(1) 1 by (auto simp: next_texts_def b_def [symmetric])
  have q: "s1 = s \<and> (q = [] \<or> (\<exists>name. pid_name t = Inr name \<and>
      q = print_u (word_of_int (tk_pid t)) @ tab_char @ name @ tab_char @ print_u (e - last_EET_ns v1) @ nl_char))"
    using assms(1) 1 b by (auto simp: next_texts_def b_def [symmetric] split: if_splits)
  have "length s < 1024" using b(1) q sample_line_length [OF _ assms(2)] by (auto simp: b_def split: if_splits)
  moreover have "length q < 1024"
  proof (cases "q = []")
    case False
    then obtain name where n: "pid_name t = Inr name" "q = print_u (word_of_int (tk_pid t)) @ tab_char @ name @ tab_char @ print_u (e - last_EET_ns v1) @ nl_char"
      using q by blast
    then have "length name < 32" using assms(2) by (auto simp: pid_name_def split: if_splits)
    then show ?thesis
      using print_u_length [of "word_of_int (tk_pid t)"] print_u_length [of "e - last_EET_ns v1"] by (simp add: n(2) nl_char_def tab_char_def)
  qed simp
  ultimately show ?thesis ..
qed

lemma length_concat_filter: "length (concat (map f (filter P xs))) \<le> length (concat (map f xs))"
  by (induction xs) auto

lemma first_texts_length:
  assumes "first_texts cfg intvl eid t = Inr (s, q, v)"
  shows "length s < 1024 \<and> length q < 1024"
proof -
  have "[0..<CUR_VPMU_SUPPORT_EVENT] = [0..<46]" by (simp add: CUR_VPMU_SUPPORT_EVENT_def)
  moreover have "length (concat (map (\<lambda>i. tab_char @ VPMU_EVENT_DESP ! i) [0..<46])) = 733"
    by code_simp
  ultimately have c: "length (concat (map (\<lambda>i. tab_char @ VPMU_EVENT_DESP ! i) (monitored cfg))) \<le> 733"
    using length_concat_filter [of "\<lambda>i. tab_char @ VPMU_EVENT_DESP ! i" "\<lambda>i. isEventMonitored cfg (int i) = EVENT_ON" "[0..<46]"]
    unfolding monitored_def by metis
  have "- (2 ^ 31) \<le> sint eid" "sint eid < 2 ^ 31" using sint_greater_eq [of eid] sint_less [of eid] by simp_all
  then have e: "length (print_d (sint eid)) \<le> 11" by (intro print_d_length) simp
  obtain x where "s = ''Sample id ('' @ print_d (sint eid) @ ''), interval ('' @ print_u intvl @ ''), starting value ('' @ print_u x @ '').'' @ nl_char @
         ''Seq_id'' @ tab_char @ ''PID'' @ tab_char @ ''Process_name'' @ tab_char @ ''EET(ns)'' @
         concat (map (\<lambda>i. tab_char @ VPMU_EVENT_DESP ! i) (monitored cfg)) @ nl_char" "q = ''PID'' @ tab_char @ ''EET'' @ nl_char"
    using assms by (auto simp: first_texts_def)
  then show ?thesis using c e print_u_length [of intvl] print_u_length [of x] by (simp add: tab_char_def nl_char_def)
qed

text \<open>The invariant of a buffer: at least 1024 characters are left, and file and buffer together hold all that was put.\<close>

definition holds :: "string \<Rightarrow> string \<Rightarrow> smp_bufs \<Rightarrow> bool" where
  "holds s q b \<longleftrightarrow> length (samples_buf b) \<le> BUFFER_SIZE - 1024 \<and> length (profile_buf b) \<le> BUFFER_SIZE - 1024 \<and>
     samples_file b @ samples_buf b = s \<and> profile_file b @ profile_buf b = q"

lemma put_flush:
  assumes "length buf \<le> BUFFER_SIZE - 1024" and "length s < 1024"
  shows "\<exists>b. put_text s buf = Inr b \<and> length (fst (flush_full (b, f))) \<le> BUFFER_SIZE - 1024 \<and>
    snd (flush_full (b, f)) @ fst (flush_full (b, f)) = (f @ buf) @ s"
  using assms by (auto simp: put_text_def flush_full_def BUFFER_SIZE_def)

lemma pass_buffers_holds:
  assumes "holds s q b" and "length x < 1024" and "length y < 1024"
  shows "\<exists>b'. pass_buffers (x, y) b = Inr b' \<and> holds (s @ x) (q @ y) b'"
proof -
  obtain sb where sb: "put_text x (samples_buf b) = Inr sb" "length (fst (flush_full (sb, samples_file b))) \<le> BUFFER_SIZE - 1024"
      "snd (flush_full (sb, samples_file b)) @ fst (flush_full (sb, samples_file b)) = s @ x"
    using put_flush [OF _ assms(2), of "samples_buf b" "samples_file b"] assms(1) by (auto simp: holds_def)
  obtain pb where pb: "put_text y (profile_buf b) = Inr pb" "length (fst (flush_full (pb, profile_file b))) \<le> BUFFER_SIZE - 1024"
      "snd (flush_full (pb, profile_file b)) @ fst (flush_full (pb, profile_file b)) = q @ y"
    using put_flush [OF _ assms(3), of "profile_buf b" "profile_file b"] assms(1) by (auto simp: holds_def)
  show ?thesis using sb pb by (auto simp: pass_buffers_def holds_def split: prod.splits)
qed

lemma passes_hold:
  assumes "\<forall>t \<in> set ts. \<forall>i. length (tk_name t i) < 32" and "texts_of cfg intvl eid ts vo = Inr xs" and "holds s q b"
  shows "\<exists>v b'. fold_res (sampling_pass cfg intvl eid) ts (vo, b) = Inr (v, b') \<and> holds (s @ concat (map fst xs)) (q @ concat (map snd xs)) b'"
  using assms
proof (induction ts arbitrary: vo xs s q b)
  case Nil
  then show ?case by simp
next
  case (Cons t ts)
  obtain x y v ys where 1: "(case vo of None \<Rightarrow> first_texts cfg intvl eid t | Some v \<Rightarrow> next_texts cfg intvl eid t v) = Inr (x, y, v)"
      "texts_of cfg intvl eid ts (Some v) = Inr ys" "xs = (x, y) # ys"
    using Cons.prems(2) by auto
  have "length x < 1024 \<and> length y < 1024"
    using 1(1) first_texts_length [of cfg intvl eid t x y v] next_texts_length [of cfg intvl eid t _ x y v] Cons.prems(1)
    by (cases vo) auto
  then obtain b1 where b1: "pass_buffers (x, y) b = Inr b1" "holds (s @ x) (q @ y) b1" using pass_buffers_holds [OF Cons.prems(3)] by blast
  then obtain w b2 where "fold_res (sampling_pass cfg intvl eid) ts (Some v, b1) = Inr (w, b2)"
      "holds ((s @ x) @ concat (map fst ys)) ((q @ y) @ concat (map snd ys)) b2"
    using Cons.IH [OF _ 1(2) b1(2)] Cons.prems(1) by auto
  moreover have "sampling_pass cfg intvl eid t (vo, b) = Inr (Some v, b1)" using 1(1) b1(1) by (simp add: sampling_pass_def)
  ultimately show ?case using 1(3) by simp
qed

text \<open>
  Property C39. The sampling thread neither overruns its buffers nor loses a line: when the names of the processes are shorter than their
  32 characters, their numbers are below the 512 rows of the table of names and the counters can be read (so that all texts can be formed), the two files hold, after sampling has stopped, the header
  and all lines of all passes in order.
\<close>

theorem samples_complete:
  assumes "\<forall>t \<in> set ts. \<forall>i. length (tk_name t i) < 32" and "texts_of cfg intvl eid ts None = Inr xs"
  shows "samplingProcessorEvents cfg intvl eid ts = Inr (concat (map fst xs), concat (map snd xs))"
proof -
  let ?b = "\<lparr>samples_buf = [], samples_file = [], profile_buf = [], profile_file = []\<rparr>"
  have "holds [] [] ?b" by (simp add: holds_def)
  then obtain v b' where "fold_res (sampling_pass cfg intvl eid) ts (None, ?b) = Inr (v, b')" "holds (concat (map fst xs)) (concat (map snd xs)) b'"
    using passes_hold [OF assms, of "[]" "[]" ?b] by auto
  then show ?thesis by (simp add: samplingProcessorEvents_def holds_def)
qed

definition tick_ex :: "u64 \<Rightarrow> tick" where
  "tick_ex n = \<lparr>tk_pmu = set_vp ((pm_vp pmu_on)\<lparr>USR_icount := n\<rparr>) pmu_on, tk_pid = 7, tk_name = \<lambda>_. ''a''\<rparr>"

lemma tick_ex_reads:
  "vpmu_hardware_event_select 1 (tk_pmu (tick_ex n)) = Inr (low32 n, tk_pmu (tick_ex n))" "\<exists>e. \<forall>n. eet_of (tk_pmu (tick_ex n)) = Inr e"
  by (simp add: tick_ex_def vpmu_hardware_event_select_def Let_def set_vp_def)
    (simp add: tick_ex_def pmu_on_def eet_of_def vpmu_estimated_execution_time_ns_def vpmu_estimated_pipeline_execution_time_ns_def
      vpmu_estimated_sys_memory_access_time_ns_def vpmu_estimated_io_memory_access_time_ns_def ns_of_int low32_res_def event_examples
      vpmu_pipeline_cycle_count_def vpmu_sys_memory_access_cycle_count_def vpmu_io_memory_access_cycle_count_def ns_int_def)

lemma monitored_ex: "monitored (read_config_part [0, 1]) = [1]"
  by code_simp

theorem samples_complete_witness:
  "\<exists>header e. samplingProcessorEvents (read_config_part [0, 1]) 1000 1 [tick_ex 0, tick_ex 5000] =
     Inr (header @ print_u 1 @ tab_char @ print_d 7 @ tab_char @ ''a'' @ tab_char @ print_u e @ tab_char @ print_u 5000 @ nl_char,
       ''PID'' @ tab_char @ ''EET'' @ nl_char)"
proof -
  obtain e where e: "\<And>n. eet_of (tk_pmu (tick_ex n)) = Inr e" using tick_ex_reads(2) by blast
  have t: "pid_name (tick_ex n) = Inr ''a''" "tk_pid (tick_ex n) = 7" "length (tk_name (tick_ex n) i) < 32" for n i
    by (simp_all add: tick_ex_def pid_name_def)
  have i: "vpmu_event_id_table ! Suc 0 = 1" by (simp add: vpmu_event_id_table_def)
  let ?cfg = "read_config_part [0, 1]"
  obtain h v where f: "first_texts ?cfg 1000 1 (tick_ex 0) = Inr (h, ''PID'' @ tab_char @ ''EET'' @ nl_char, v)" "v = \<lparr>previous_value = 0, last_EET_ns = e, seq_id = 1\<rparr>"
    by (simp add: first_texts_def tick_ex_reads e low32_def)
  have n: "next_texts ?cfg 1000 1 (tick_ex 5000) v = Inr (print_u 1 @ tab_char @ print_d 7 @ tab_char @ ''a'' @ tab_char @ print_u e @ tab_char @ print_u 5000 @ nl_char, [],
      v\<lparr>previous_value := 5000, seq_id := 2\<rparr>)"
    by (simp add: next_texts_def tick_ex_reads e f(2) low32_def sample_line_def t monitored_ex read_column_def i)
  show ?thesis
    using samples_complete [of "[tick_ex 0, tick_ex 5000]" ?cfg 1000 1 "[(h, ''PID'' @ tab_char @ ''EET'' @ nl_char),
        (print_u 1 @ tab_char @ print_d 7 @ tab_char @ ''a'' @ tab_char @ print_u e @ tab_char @ print_u 5000 @ nl_char, [])]"]
    by (simp add: t f(1) n) blast
qed

end
