(* ===== verification/Spec2Isabelle.thy ===== *)
theory Spec2Isabelle
  imports M2M_Routing M2M_Topology M2M_Layout M2M_Time M2M_HeaderQueue M2M_SendRecv M2M_Router M2M_Device
    VPMU_Types VPMU_Insn VPMU_ArmTicks VPMU_Branch VPMU_Clock VPMU_Events VPMU_Cp14 VPMU_Report VPMU_Config VPMU_Monitor
    VPMU_Trace SET_Hash SET_Elf SET_Out SET_Branch SET_Process SET_System VPMU_Sampling
begin

text \<open>
  \<^bold>\<open>The M2M network simulator and its virtual performance monitoring unit.\<close>

  \<^bold>\<open>The program.\<close> M2M-Sim simulates a wireless sensor network with one emulator process per device. The processes
  share one memory segment. Each device has a virtual clock, a routing thread and the header queues of its links; a
  guest program starts, uses and stops the network by writing to the registers of a virtual device. The
  clock comes from the virtual performance monitoring unit (VPMU) inside the emulator, which estimates the cycles
  of every translated block. Sending copies a packet into a queue of the next device, the routing threads
  forward packets in the order of their virtual times, and receiving takes them out and moves the clock.

  \<^bold>\<open>Theories and sources\<close> (all under \<^verbatim>\<open>src/\<close>):

  \<^item> \<open>M2M_Prelude\<close>: machine types, errors as values of a sum type, loops that may fail, shared lemmas.
  \<^item> \<open>M2M_Types\<close>: the records and constants of \<^verbatim>\<open>m2m.h\<close>, \<^verbatim>\<open>hw/m2m_route_processor.h\<close>, \<^verbatim>\<open>hw/m2m_mm.h\<close>.
  \<^item> \<open>M2M_Routing\<close>: \<open>dijkstra\<close>, \<open>routePath\<close>, \<open>route_discovery\<close> (\<^verbatim>\<open>hw/m2m_route_processor.c\<close>); shortest paths,
    next hops that come closer, termination, reuse of the globals from call to call.
  \<^item> \<open>M2M_Topology\<close>: the parser of \<^verbatim>\<open>topology.conf\<close> (\<^verbatim>\<open>hw/m2m_topology.c\<close>) byte by byte; it reads back what a
    printer of the documented format writes.
  \<^item> \<open>M2M_Layout\<close>: the segment and the address tables (\<^verbatim>\<open>hw/m2m_mm.c\<close>, \<^verbatim>\<open>hw/m2m_dbp.c\<close>); regions tile
    the segment, and both ends of a link compute the same queue addresses.
  \<^item> \<open>M2M_Time\<close>: latencies, \<open>time_sync\<close> and the start barrier (\<^verbatim>\<open>hw/m2m_time.c\<close>); bounds, conservative clocks, and when
    the barrier ends.
  \<^item> \<open>M2M_HeaderQueue\<close>: the four entry ring in shared memory; the locale \<open>bounded_queue\<close> states what a queue
    promises, and the interpretation \<open>lq\<close> proves it for the ring (which holds one message).
  \<^item> \<open>M2M_SendRecv\<close>: \<open>m2m_send\<close> and \<open>m2m_recv\<close> (\<^verbatim>\<open>hw/m2m_send_recv.c\<close>) as steps between waits; completion, delivery,
    and the silent loss of large messages.
  \<^item> \<open>M2M_Router\<close>: the routing thread (\<^verbatim>\<open>hw/m2m_route_processor.c\<close>) as a step function on a program counter; choice
    of the earliest packet, forwarding, and a wait that can run past its end.
  \<^item> \<open>M2M_Device\<close>: the register handler (\<^verbatim>\<open>hw/virtual-network-device.c\<close>), which composes the operations above;
    a start on any documented topology file, and a failed start that reads as a success.
  \<^item> \<open>VPMU_Types\<close>: instruction enumeration, block record, counters, timing models (\<^verbatim>\<open>vpmu.h\<close>, \<^verbatim>\<open>hw/vpmu-device.c\<close>).
  \<^item> \<open>VPMU_Insn\<close>: \<open>get_insn_ticks\<close> with register interlocks and \<open>get_insn_parser\<close> (\<^verbatim>\<open>hw/vpmu-device.c\<close>);
    bounds for all instruction words with the times of the shipped configurations, the load interlock.
  \<^item> \<open>VPMU_ArmTicks\<close>: \<open>get_arm_ticks\<close>, \<open>analyze_arm_ticks\<close>, \<open>dual_issue_check\<close> (\<^verbatim>\<open>target-arm/vpmu_insn_ticks.c\<close>) and
    their call in \<^verbatim>\<open>target-arm/translate.c\<close>; one count per word, agreement of both versions, cycles of a block.
  \<^item> \<open>VPMU_Branch\<close>: the branch predictor, the decoding of its signals and its ring; refinement of a
    predictor with hysteresis, and a second interpretation of \<open>bounded_queue\<close>.
  \<^item> \<open>VPMU_Clock\<close>: \<open>vpmu_calculate\<close> (\<^verbatim>\<open>target-arm/op_vpmu.c\<close>), counts and estimated times (\<^verbatim>\<open>hw/vpmu-device.c\<close>); the clock
    that a block publishes is the one that the network code reads, and it does not go back.
  \<^item> \<open>VPMU_Events\<close>: the hardware events and the power of the peripherals (\<^verbatim>\<open>hw/vpmu-device.c\<close>, as the following
    four); reading one event changes no other.
  \<^item> \<open>VPMU_Cp14\<close>: the registers of coprocessor 14 and the profiler; registers read back, the overflow test refines a
    sampler with a period, and the interrupt line follows the flag.
  \<^item> \<open>VPMU_Report\<close>: \<open>commaprint\<close>, the sorted instruction report and the summary; the printed numbers read back, the
    exchange sort is the stable sort, and the totals are sums over the table.
  \<^item> \<open>VPMU_Config\<close>: the configuration file byte by byte and the cache hierarchy; the reader inverts the
    format, the caches built are those configured, each on the next one down to the memory, and the shipped files overrun a table.
  \<^item> \<open>VPMU_Monitor\<close>: the device registers, the attached simulators, the start and the helper of data accesses
    (\<^verbatim>\<open>target-arm/op_vpmu.c\<close>); measurements start from zero, the battery does not run below zero.
  \<^item> \<open>VPMU_Trace\<close>: the ring between the emulator and the cache thread; the locale \<open>batch_queue\<close> states what a queue
    emptied in batches promises, and its interpretation \<open>trace\<close> proves it for the ring.
  \<^item> \<open>SET_Hash\<close>: the hash tables of the event tracer (\<^verbatim>\<open>SET/SET_event.c\<close>, \<^verbatim>\<open>SET/SET_object.c\<close>, \<^verbatim>\<open>SET/SET_kernel.c\<close>) with linear
    probing; the locale \<open>key_table\<close> states what a table promises, and its interpretations \<open>procs\<close> and \<open>funcs\<close> prove it for
    processes and functions. Tables that are full, or from which an entry was removed, break it.
  \<^item> \<open>SET_Elf\<close>: the reader of ELF files byte by byte (\<^verbatim>\<open>SET/efd.c\<close>); it reads back what a linker writes, and the functions of an object
    are found from the bytes of its file.
  \<^item> \<open>SET_Out\<close>: the buffered trace files (\<^verbatim>\<open>SET/SET_out.c\<close>); the locale \<open>log_buffer\<close> with the interpretation \<open>streams\<close>, and
    files that are complete and aligned.
  \<^item> \<open>SET_Branch\<close>: what the tracer does at a branch, a system call and an interrupt of a traced process (\<^verbatim>\<open>SET/SET_event.c\<close>);
    the records of user code read back to the calls that are open, unless the object has one of the ids reserved for returns.
  \<^item> \<open>SET_Process\<close>: names, types and start of traced processes, mapped files and the event configuration
    (\<^verbatim>\<open>SET/SET.c\<close>, \<^verbatim>\<open>SET/SET_dex.c\<close>, \<^verbatim>\<open>SET/SET_ctrl.c\<close>); from the name of a program to its trace.
  \<^item> \<open>SET_System\<close>: the tracer as a whole: all processes and threads, the kernel events that start, switch, copy and end them,
    the start and end of the tracer and its registers (\<^verbatim>\<open>SET/SET_event.c\<close>, \<^verbatim>\<open>SET/SET.c\<close>, \<^verbatim>\<open>hw/SET_device.c\<close>);
    through the handler of all branches, traces of different processes do not mix.
  \<^item> \<open>VPMU_Sampling\<close>: the sampling thread (\<^verbatim>\<open>vpmu_sampling.c\<close>); its buffers do not overflow and lose nothing.
  \<^item> This theory: what holds across components, for a message from its sender over a routing thread to its
    receiver, and from the translation of a block to the clock of the network.

  \<^bold>\<open>Conventions.\<close> Unsigned integers are words of their width and wrap; a C \<open>int\<close> that counts or indexes is an
  \<open>int\<close>. Global arrays are functions of the index, and an access that the code does not bound is an error
  value outside the declared size, as is the use of a cache level that is not built. Process exit, a bad copy, an undefined operation and a loop that has not
  returned are errors of the type \<open>c_error\<close>. Busy waits are states: a step function stays in the state
  while the condition fails, and what the other processes do to the memory in between is an input. Doubles are
  real numbers; a conversion to an integer takes the floor.

  \<^bold>\<open>Fuel.\<close> \<open>routePath\<close> recurses with fuel, and the properties show that the number of devices suffices.
  The start barrier, sending and receiving run for a given number of observations of the memory; their
  properties say from which observations on they have returned. All other loops are recursion over lists, or
  have a termination proof. The probing loops of the tracer may run forever and are partial functions, of which the
  properties show when they end.

  \<^bold>\<open>Parameters.\<close> The system calls, the files of the host, the random numbers, the table \<open>arm_instr_time\<close> and the Dinero cache simulator
  are arguments. The clock property asks of the simulator only that no reference lowers a miss counter.

  \<^bold>\<open>Not modelled.\<close> Log output; creation, cancellation and affinity of threads beyond their results; the
  floating point analysis \<open>analyze_vfp_ticks\<close> and the PAC DSP code, whose configuration macros no build
  file defines; the machine state dumps of the VPMU, which print the values modelled here; upstream QEMU and Android emulator code
  (translator, code generator, devices, user interface), Dinero, and the guest programs under \<^verbatim>\<open>m2m_app/\<close>. Of the tracer under
  \<^verbatim>\<open>SET/\<close>: the reference counts of object and dex files and the release of memory, the socket of the control thread, and the DWARF
  reader, which is not configured. Of the sampling thread:
  the dump of the peripheral power.
\<close>

section \<open>A message from sender to receiver\<close>







section \<open>From translation to the network clock\<close>

lemma translated_block_fits:
  assumes "block_ok M n tb'" and "uint (ticks v) + int n * M < 2 ^ 64"
  shows "block_fits tb' v" "int n - int (n div 2) \<le> uint (tb_ticks tb') - uint (dual_issue_reduce_ticks tb')"
    "uint (tb_ticks tb') - uint (dual_issue_reduce_ticks tb') \<le> int n * M"
proof -
  have b: "int n \<le> uint (tb_ticks tb')" "uint (tb_ticks tb') \<le> int n * M" "unat (dual_issue_reduce_ticks tb') \<le> n div 2"
    using assms(1) unfolding block_ok_def by blast+
  have r: "uint (dual_issue_reduce_ticks tb') \<le> int (n div 2)" using b(3) unfolding uint_nat by (simp only: of_nat_le_iff)
  then have "uint (dual_issue_reduce_ticks tb') \<le> uint (tb_ticks tb')" using b(1) by linarith
  moreover have "uint (ticks v) + uint (tb_ticks tb') < 2 ^ 64" using assms(2) b(2) by linarith
  ultimately show "block_fits tb' v" unfolding block_fits_def word_le_def by blast
  show "int n - int (n div 2) \<le> uint (tb_ticks tb') - uint (dual_issue_reduce_ticks tb')" using b r by linarith
  show "uint (tb_ticks tb') - uint (dual_issue_reduce_ticks tb') \<le> int n * M" using b uint_ge_0 [of "dual_issue_reduce_ticks tb'"] by linarith
qed

text \<open>
  Property C40. From translation to the network clock, for \<open>cpu_model\<close> 1, a second level cache and a configuration in which the times of the
  real instructions are 1 to \<open>M\<close>: when a block of \<open>n\<close> instructions is
  translated and then executed on a device that has joined the network, the device's cycles grow by at
  least \<open>n - n div 2\<close> (each pair may save one cycle) and at most \<open>n\<close> times \<open>M\<close>,
  and the local time that the block publishes for the routing threads is not smaller than before.
\<close>

theorem translated_block_clock:
  assumes tm: "time_ok M tm" and cfg: "sim_on VPMU_PIPELINE_SIM (vp st)" "cpu_model (vp st) = 1"
    and tb: "disas_block (vp st) tm xs (s, tb_extra_info_init tb) = Inr (s', tb')"
    and n: "uint (ticks (vp st)) + int (length xs) * M < 2 ^ 64"
    and d: "counts_up d4ref" "misses_ok (levcache st)"
    and f: "clock_fits (vp st) (levcache st) (p_dev P)"
      "clock_fits (vp (calc_block d4ref mode tb' st)) (levcache (calc_block d4ref mode tb' st)) (p_dev P)"
    and P: "p_trigger P \<noteq> 0"
  shows "\<exists>st' t t0. vpmu_calculate d4ref True mode tb' P (st, h) = Inr (st', set_localtime (own_time (p_env P) (p_dev P)) t h) \<and>
     vpmu_estimated_execution_time_ns (vp st) (levcache st) (p_dev P) = Inr t0 \<and> t0 \<le> t \<and>
     uint (ticks (vp st)) + (int (length xs) - int (length xs div 2)) \<le> uint (ticks (vp st')) \<and>
     uint (ticks (vp st')) \<le> uint (ticks (vp st)) + int (length xs) * M"
proof -
  have "block_ok M 0 (tb_extra_info_init tb)" by (simp add: block_ok_def tb_extra_info_init_def)
  moreover have "int (0 + length xs) * M < 2 ^ 64" using n uint_ge_0 [of "ticks (vp st)"] unfolding add_0 by linarith
  ultimately have ok: "block_ok M (length xs) tb'" using block_run [OF tm _ _ cfg, of 0 "tb_extra_info_init tb" xs s] tb by auto
  note bf = translated_block_fits [OF ok n]
  let ?st = "calc_block d4ref mode tb' st" and ?v = "vp (calc_icache d4ref tb' st)"
  have v: "block_fits tb' ?v" "sim_on VPMU_PIPELINE_SIM ?v" "cpu_model ?v \<noteq> 0" "ticks ?v = ticks (vp st)"
    using bf(1) cfg unfolding block_fits_def vpmu_simulator_status_def calc_clock by auto
  have e: "uint (ticks (vp ?st)) = uint (ticks (vp st)) + uint (tb_ticks tb') - uint (dual_issue_reduce_ticks tb')"
    using calc_ticks_exact [OF v(1-3)] v(4) by (simp add: calc_block_def Let_def calc_clock)
  obtain st' t t0 where c: "vpmu_calculate d4ref True mode tb' P (st, h) = Inr (st', set_localtime (own_time (p_env P) (p_dev P)) t h)"
      "vpmu_estimated_execution_time_ns (vp st) (levcache st) (p_dev P) = Inr t0" "t0 \<le> t"
    using clock_step [OF d bf(1) f P, of h] by blast
  have "st' = ?st" using c(1) P by (auto simp: vpmu_calculate_def Let_def)
  then show ?thesis using c e bf(2,3) by auto
qed

definition pair_example :: "((u32 \<times> u32 \<times> issue) \<times> u32) list" where
  "pair_example = [((0, 0, issue0), 0xe0810002), ((0, 0, issue0), 0xe5943000)]"

definition vstate0 :: vstate where
  "vstate0 = \<lparr>vp = vpmu0, levcache = \<lambda>_ _. \<lparr>fetch = \<lambda>_. 0, miss = \<lambda>_. 0\<rparr>, previous_pc = 0\<rparr>"

theorem translated_block_clock_witness:
  "\<exists>tb' st' t. disas_block vpmu0 cortex_a9_time pair_example (ilock0, tb_extra_info_init tb0) = Inr (ilock0, tb') \<and>
     vpmu_calculate miss_sim True 0x10 tb' (proc0\<lparr>p_trigger := 1\<rparr>) (vstate0, shm0) =
       Inr (st', set_localtime (own_time (p_env proc0) (p_dev proc0)) t shm0) \<and> 1 \<le> uint (ticks (vp st'))"
proof -
  have b0: "block_ok 3 0 (tb_extra_info_init tb0)" by (simp add: block_ok_def tb_extra_info_init_def)
  have v: "vp vstate0 = vpmu0" "ticks vpmu0 = 0" by (simp_all add: vstate0_def vpmu0_def)
  obtain tb' where tb': "disas_block vpmu0 cortex_a9_time pair_example (ilock0, tb_extra_info_init tb0) = Inr (ilock0, tb')"
      "block_ok 3 2 tb'"
    using block_run [OF cortex_a9_time_ok b0, of pair_example vpmu0 ilock0] vpmu0_on by (auto simp: pair_example_def numeral_2_eq_2)
  have n: "uint (ticks (vp vstate0)) + int (length pair_example) * 3 < 2 ^ 64" by (simp add: v pair_example_def)
  note bf = translated_block_fits [OF tb'(2), of vpmu0]
  have up: "counts_up miss_sim" "misses_ok (levcache vstate0)" by (simp_all add: counts_up_def miss_sim_def misses_ok_def vstate0_def)
  let ?st = "calc_block miss_sim 0x10 tb' vstate0"
  have lv: "levcache ?st = levcache vstate0"
    by (simp add: calc_block_def calc_icache_def Let_def vstate0_def vpmu0_def vpmu_simulator_status_def timing_masks)
  have vs: "iomem_qemu (vp ?st) = 0" "target_cpu_frequency (vp ?st) = 1000" "l1_cache_miss_lat (vp ?st) = 0 \<and> d4_maxlevel (vp ?st) = 2"
    "uint (ticks (vp ?st)) \<le> 6"
  proof -
    let ?v = "vp (calc_icache miss_sim tb' vstate0)"
    have w: "block_fits tb' ?v" "sim_on VPMU_PIPELINE_SIM ?v" "cpu_model ?v \<noteq> 0" "ticks ?v = 0"
      using bf(1) vpmu0_on v unfolding block_fits_def vpmu_simulator_status_def calc_clock by auto
    show "uint (ticks (vp ?st)) \<le> 6"
      using calc_ticks_exact [OF w(1-3)] w(4) bf(3) v by (simp add: calc_block_def Let_def calc_clock)
  qed (simp_all add: calc_block_def Let_def calc_clock v, simp_all add: vpmu0_def)
  have f1: "clock_fits (vp vstate0) (levcache vstate0) (p_dev proc0)"
    by (simp add: clock_fits_def io_int_def sys_int_def cpu_int_def ns_int_def vstate0_def vpmu0_def proc0_def dev2_def)
  have f2: "clock_fits (vp ?st) (levcache ?st) (p_dev proc0)"
    unfolding lv using vs(4) by (simp add: clock_fits_def io_int_def sys_int_def cpu_int_def ns_int_def vs(1-3))
      (simp add: vstate0_def proc0_def dev2_def)
  from translated_block_clock [OF cortex_a9_time_ok, of vstate0 pair_example ilock0 tb0 ilock0 tb' miss_sim "proc0\<lparr>p_trigger := 1\<rparr>" "0x10" shm0]
    vpmu0_on tb'(1) n up f1 f2 v tb'(1) show ?thesis by (auto simp: pair_example_def)
qed

end
